(* ===== verification/Prelude.thy ===== *)
theory Prelude
  imports Complex_Main "HOL-Library.Sublist" "HOL-Library.AList"
begin

text \<open>
  Shared vocabulary of the development.  JavaScript values are modelled as follows.

  \<^item> A string is a \<open>string\<close> (a list of code units below 256): \<open>length\<close> is
    JavaScript's \<open>length\<close> on such strings.
  \<^item> A function that throws returns a value of a sum type, \<open>Inl\<close> for what is thrown;
    \<open>andThen\<close> sequences two such computations.
  \<^item> A \<open>Set\<close> built from an array is the list of first occurrences (\<open>uniq\<close>), because
    a JavaScript set iterates in insertion order; \<open>new Set(xs).size !== xs.length\<close> is
    \<open>\<not> distinct xs\<close>.
  \<^item> A schema is a function from input values to \<open>issues + output\<close>.  The law every client
    relies on, that a value a schema has produced is accepted again and unchanged, is the
    locale \<open>schema\<close>.
\<close>

named_theorems js_simps \<open>unfolding rules of the JavaScript library functions\<close>

section \<open>Computations that may throw\<close>

fun andThen :: "'e + 'a \<Rightarrow> ('a \<Rightarrow> 'e + 'b) \<Rightarrow> 'e + 'b" where
  "andThen (Inl e) f = Inl e"
| "andThen (Inr x) f = f x"

definition ensure :: "bool \<Rightarrow> 'e \<Rightarrow> 'e + unit" where
  "ensure b e = (if b then Inr () else Inl e)"

fun mapThrow :: "('a \<Rightarrow> 'e + 'b) \<Rightarrow> 'a list \<Rightarrow> 'e + 'b list" where
  "mapThrow f [] = Inr []"
| "mapThrow f (x # xs) = andThen (f x) (\<lambda>y. andThen (mapThrow f xs) (\<lambda>ys. Inr (y # ys)))"

lemma andThen_Inr_iff: "andThen r f = Inr y \<longleftrightarrow> (\<exists>x. r = Inr x \<and> f x = Inr y)"
  by (cases r) auto

lemma andThen_Inl_iff: "andThen r f = Inl e \<longleftrightarrow> r = Inl e \<or> (\<exists>x. r = Inr x \<and> f x = Inl e)"
  by (cases r) auto

lemma ensure_Inr_iff [simp]: "ensure b e = Inr u \<longleftrightarrow> b"
  by (simp add: ensure_def)

lemma ensure_Inl_iff [simp]: "ensure b e = Inl e' \<longleftrightarrow> \<not> b \<and> e' = e"
  by (auto simp: ensure_def)

lemma mapThrow_Inr_iff: "mapThrow f xs = Inr ys \<longleftrightarrow> list_all2 (\<lambda>x y. f x = Inr y) xs ys"
  by (induction xs arbitrary: ys) (auto simp: andThen_Inr_iff list_all2_Cons1)

lemma mapThrow_all: "(\<And>x. x \<in> set xs \<Longrightarrow> f x = Inr (g x)) \<Longrightarrow> mapThrow f xs = Inr (map g xs)"
  by (induction xs) auto

section \<open>Sets built from arrays\<close>

lemma find_SomeD: "find P xs = Some x \<Longrightarrow> x \<in> set xs \<and> P x"
  by (auto simp: find_Some_iff)

lemma find_map_same: "(\<And>x. P (f x) = P x) \<Longrightarrow> find P (map f xs) = map_option f (find P xs)"
  by (induction xs) auto

lemma find_append: "find P (xs @ ys) = (case find P xs of None \<Rightarrow> find P ys | Some x \<Rightarrow> Some x)"
  by (induction xs) auto

lemma find_unique:
  assumes "x \<in> set xs" "P x" and "\<And>y. y \<in> set xs \<Longrightarrow> P y \<Longrightarrow> y = x"
  shows "find P xs = Some x"
proof (cases "find P xs")
  case None
  with assms(1,2) show ?thesis by (auto simp: find_None_iff)
next
  case (Some y)
  with find_SomeD [OF Some] assms(3) show ?thesis by blast
qed

lemma distinct_filter_eq: "distinct xs \<Longrightarrow> x \<in> set xs \<Longrightarrow> filter (\<lambda>y. y = x) xs = [x]"
  by (induction xs) (auto simp: filter_empty_conv)

lemma distinct_filter_singleton:
  assumes "distinct xs" "x \<in> set xs" and "\<And>y. y \<in> set xs \<Longrightarrow> P y \<longleftrightarrow> y = x"
  shows "filter P xs = [x]"
proof -
  have "filter P xs = filter (\<lambda>y. y = x) xs" by (rule filter_cong [OF refl assms(3)])
  then show ?thesis using distinct_filter_eq [OF assms(1,2)] by simp
qed

fun uniq :: "'a list \<Rightarrow> 'a list" where
  "uniq [] = []"
| "uniq (x # xs) = x # filter (\<lambda>y. y \<noteq> x) (uniq xs)"

lemma set_uniq [simp]: "set (uniq xs) = set xs"
  by (induction xs) auto

lemma distinct_uniq [simp]: "distinct (uniq xs)"
  by (induction xs) auto

lemma uniq_distinct [simp]: "distinct xs \<Longrightarrow> uniq xs = xs"
proof (induction xs)
  case (Cons x xs)
  then have "filter (\<lambda>y. y \<noteq> x) xs = xs" by (auto intro: filter_True)
  with Cons show ?case by simp
qed simp

lemma length_uniq: "length (uniq xs) \<le> length xs"
proof (induction xs)
  case (Cons x xs)
  then show ?case by (simp add: le_trans [OF length_filter_le])
qed simp

lemma uniq_eq_Nil [simp]: "uniq xs = [] \<longleftrightarrow> xs = []"
  by (cases xs) auto

text \<open>The elements of a stream that a loop adds to an insertion-ordered set.\<close>

fun fresh :: "'a list \<Rightarrow> 'a list \<Rightarrow> 'a list" where
  "fresh seen [] = []"
| "fresh seen (x # xs) =
     (if x \<in> set seen then fresh seen xs else x # fresh (seen @ [x]) xs)"

lemma set_fresh [simp]: "set (fresh seen xs) = set xs - set seen"
  by (induction seen xs rule: fresh.induct) auto

lemma distinct_fresh [simp]: "distinct (fresh seen xs)"
  by (induction seen xs rule: fresh.induct) auto

section \<open>Strings\<close>

definition is_space :: "char \<Rightarrow> bool" where
  "is_space c \<longleftrightarrow> c \<in> {CHR 0x09, CHR 0x0A, CHR 0x0B, CHR 0x0C, CHR 0x0D, CHR 0x20, CHR 0xA0}"

definition trim :: "string \<Rightarrow> string" where
  "trim s = rev (dropWhile is_space (rev (dropWhile is_space s)))"

definition lower_char :: "char \<Rightarrow> char" where
  "lower_char c =
     (let n = of_char c :: nat in
      if (65 \<le> n \<and> n \<le> 90) \<or> (192 \<le> n \<and> n \<le> 222 \<and> n \<noteq> 215)
      then char_of (n + 32) else c)"

definition toLowerCase :: "string \<Rightarrow> string" where
  "toLowerCase s = map lower_char s"

fun join :: "string \<Rightarrow> string list \<Rightarrow> string" where
  "join sep [] = ''''"
| "join sep [s] = s"
| "join sep (s # t # ss) = s @ sep @ join sep (t # ss)"

lemmas string_defs [js_simps] = trim_def toLowerCase_def lower_char_def is_space_def

lemma dropWhile_hd: "dropWhile P xs = y # ys \<Longrightarrow> \<not> P y"
  by (induction xs) (auto split: if_splits)

lemma dropWhile_not_hd: "xs = [] \<or> \<not> P (hd xs) \<Longrightarrow> dropWhile P xs = xs"
  by (cases xs) auto

lemma trim_trim [simp]: "trim (trim s) = trim s"
proof -
  define a where "a = dropWhile is_space s"
  define b where "b = dropWhile is_space (rev a)"
  have a: "a = [] \<or> \<not> is_space (hd a)"
    using dropWhile_hd unfolding a_def by (metis list.collapse)
  have b: "b = [] \<or> \<not> is_space (hd b)"
    using dropWhile_hd unfolding b_def by (metis list.collapse)
  have "dropWhile is_space (rev b) = rev b"
  proof (cases "b = []")
    case False
    have "suffix b (rev a)" unfolding b_def by (rule suffix_dropWhile)
    then obtain zs where "rev a = zs @ b" by (auto simp: suffix_def)
    then have "a = rev b @ rev zs" by (metis rev_append rev_rev_ident)
    with False have "hd (rev b) = hd a" and "a \<noteq> []" by auto
    with a show ?thesis by (intro dropWhile_not_hd) auto
  qed simp
  moreover have "dropWhile is_space b = b" using b by (rule dropWhile_not_hd)
  ultimately show ?thesis
    unfolding trim_def a_def [symmetric] b_def [symmetric] by simp
qed

lemma length_trim: "length (trim s) \<le> length s"
  unfolding trim_def by (metis length_rev length_dropWhile_le order_trans)

lemma dropWhile_nonempty: "\<exists>c \<in> set s. \<not> P c \<Longrightarrow> dropWhile P s \<noteq> [] \<and> (\<exists>c \<in> set (dropWhile P s). \<not> P c)"
  by (induction s) auto

lemma trim_nonempty: "c \<in> set s \<Longrightarrow> \<not> is_space c \<Longrightarrow> 1 \<le> length (trim s)"
  using dropWhile_nonempty [of s is_space] dropWhile_nonempty [of "rev (dropWhile is_space s)" is_space]
  by (auto simp: trim_def Suc_le_eq)

lemma trim_ends: "s \<noteq> [] \<Longrightarrow> \<not> is_space (hd s) \<Longrightarrow> \<not> is_space (last s) \<Longrightarrow> trim s = s"
  by (simp add: trim_def dropWhile_not_hd hd_rev)

lemma hd_trim: "trim s \<noteq> [] \<Longrightarrow> \<not> is_space (hd (trim s))"
proof -
  let ?t = "dropWhile is_space s"
  assume ne: "trim s \<noteq> []"
  have "suffix (dropWhile is_space (rev ?t)) (rev ?t)" by (rule suffix_dropWhile)
  then obtain zs where "rev ?t = zs @ dropWhile is_space (rev ?t)" by (auto simp: suffix_def)
  then have t: "?t = trim s @ rev zs" unfolding trim_def by (metis rev_append rev_rev_ident)
  with ne have "?t = hd (trim s) # tl (trim s) @ rev zs" by (cases "trim s") auto
  then show ?thesis by (rule dropWhile_hd)
qed

definition sized :: "nat \<Rightarrow> nat \<Rightarrow> string \<Rightarrow> bool" where
  "sized lo hi s \<longleftrightarrow> lo \<le> length s \<and> length s \<le> hi"

text \<open>\<open>z.string().trim().min(a).max(b)\<close>\<close>

definition textOf :: "nat \<Rightarrow> nat \<Rightarrow> string \<Rightarrow> bool" where
  "textOf lo hi s \<longleftrightarrow> sized lo hi (trim s)"

lemma textOf_trim [simp]: "textOf lo hi (trim s) \<longleftrightarrow> textOf lo hi s"
  by (simp add: textOf_def)

lemma textOf_visible: "c \<in> set s \<Longrightarrow> \<not> is_space c \<Longrightarrow> length s \<le> n \<Longrightarrow> textOf (Suc 0) n s"
  using trim_nonempty [of c s] length_trim [of s] by (simp add: textOf_def sized_def)

lemma textOf_word: "\<not> is_space c \<Longrightarrow> length s < n \<Longrightarrow> textOf (Suc 0) n (c # s)"
  by (rule textOf_visible [of c]) auto

section \<open>Decimal numbers\<close>

text \<open>\<open>String(n)\<close> of a natural number, and \<open>Number(s)\<close> of a string of digits.\<close>

fun decimal :: "nat \<Rightarrow> string" where
  "decimal n = (if n < 10 then [char_of (48 + n)] else decimal (n div 10) @ [char_of (48 + n mod 10)])"

declare decimal.simps [simp del]

definition readDecimal :: "string \<Rightarrow> nat" where
  "readDecimal s = foldl (\<lambda>n c. n * 10 + (of_char c - 48)) 0 s"

lemma readDecimal_decimal: "readDecimal (decimal n) = n"
proof (induction n rule: decimal.induct)
  case (1 n)
  show ?case
  proof (cases "n < 10")
    case True
    then show ?thesis by (simp add: decimal.simps [of n] readDecimal_def)
  next
    case False
    with 1 have "readDecimal (decimal (n div 10)) = n div 10" by simp
    with False show ?thesis by (simp add: decimal.simps [of n] readDecimal_def)
  qed
qed

section \<open>Sorting\<close>

text \<open>\<open>Array.sort\<close> is stable: equal elements keep their order.\<close>

fun insertBy :: "('a \<Rightarrow> 'a \<Rightarrow> bool) \<Rightarrow> 'a \<Rightarrow> 'a list \<Rightarrow> 'a list" where
  "insertBy le x [] = [x]"
| "insertBy le x (y # ys) = (if le x y then x # y # ys else y # insertBy le x ys)"

lemma set_insertBy [simp]: "set (insertBy le x ys) = insert x (set ys)"
  by (induction ys) auto

lemma distinct_insertBy: "distinct (insertBy le x ys) \<longleftrightarrow> x \<notin> set ys \<and> distinct ys"
  by (induction ys) auto

lemma length_insertBy [simp]: "length (insertBy le x ys) = Suc (length ys)"
  by (induction ys) auto

lemma sorted_facts: "set (foldr (insertBy le) xs []) = set xs" "length (foldr (insertBy le) xs []) = length xs"
    "distinct (foldr (insertBy le) xs []) \<longleftrightarrow> distinct xs"
proof -
  show s: "set (foldr (insertBy le) xs []) = set xs" for xs by (induction xs) auto
  show "length (foldr (insertBy le) xs []) = length xs" by (induction xs) auto
  show "distinct (foldr (insertBy le) xs []) \<longleftrightarrow> distinct xs" by (induction xs) (auto simp: distinct_insertBy s)
qed

text \<open>The order of strings by their code units.\<close>

fun codeUnitLe :: "string \<Rightarrow> string \<Rightarrow> bool" where
  "codeUnitLe [] t \<longleftrightarrow> True"
| "codeUnitLe (a # s) [] \<longleftrightarrow> False"
| "codeUnitLe (a # s) (b # t) \<longleftrightarrow> (of_char a :: nat) < of_char b \<or> a = b \<and> codeUnitLe s t"

lemma codeUnitLe_total: "codeUnitLe s t \<or> codeUnitLe t s"
proof (induction s t rule: codeUnitLe.induct)
  case (3 a s b t)
  have "(of_char a :: nat) < of_char b \<or> a = b \<or> (of_char b :: nat) < of_char a"
    using linorder_neqE_nat of_char_eqI by blast
  with 3 show ?case by auto
qed auto

lemma codeUnitLe_antisym: "codeUnitLe s t \<Longrightarrow> codeUnitLe t s \<Longrightarrow> s = t"
  by (induction s t rule: codeUnitLe.induct) (auto elim: codeUnitLe.elims)

lemma codeUnitLe_trans: "codeUnitLe s t \<Longrightarrow> codeUnitLe t u \<Longrightarrow> codeUnitLe s u"
proof (induction s t arbitrary: u rule: codeUnitLe.induct)
  case (3 a s b t)
  then show ?case by (cases u) auto
qed auto

section \<open>Association lists\<close>

lemma map_of_in_keys: "k \<in> set (map fst m) \<longleftrightarrow> map_of m k \<noteq> None"
  by (metis image_set map_of_eq_None_iff)

definition getOr :: "('k \<times> 'v) list \<Rightarrow> 'k \<Rightarrow> 'v \<Rightarrow> 'v" where
  "getOr m k d = (case map_of m k of None \<Rightarrow> d | Some v \<Rightarrow> v)"

lemma getOr_update [simp]:
  "getOr (AList.update k v m) k' d = (if k' = k then v else getOr m k' d)"
  by (simp add: getOr_def update_conv')

section \<open>Ordered relations\<close>

text \<open>
  A list is in dependency order when everything an element depends on stands before it.
\<close>

definition dep_ordered :: "('a \<Rightarrow> 'a set) \<Rightarrow> 'a list \<Rightarrow> bool" where
  "dep_ordered succ xs \<longleftrightarrow> (\<forall>i < length xs. succ (xs ! i) \<subseteq> set (take i xs))"

lemma dep_ordered_Nil [simp]: "dep_ordered succ []"
  by (simp add: dep_ordered_def)

lemma dep_ordered_snoc [simp]:
  "dep_ordered succ (xs @ [x]) \<longleftrightarrow> dep_ordered succ xs \<and> succ x \<subseteq> set xs"
  by (auto simp: dep_ordered_def nth_append less_Suc_eq)

lemma dep_ordered_closed: "dep_ordered succ xs \<Longrightarrow> x \<in> set xs \<Longrightarrow> succ x \<subseteq> set xs"
  by (metis dep_ordered_def in_set_conv_nth set_take_subset subset_trans)

definition first_index :: "'a list \<Rightarrow> 'a \<Rightarrow> nat" where
  "first_index xs x = length (takeWhile (\<lambda>y. y \<noteq> x) xs)"

lemma first_index_less: "x \<in> set (take i xs) \<Longrightarrow> first_index xs x < i"
proof (induction xs arbitrary: i)
  case (Cons y ys)
  then show ?case by (cases i) (auto simp: first_index_def)
qed simp

lemma nth_first_index:
  "x \<in> set xs \<Longrightarrow> first_index xs x < length xs \<and> xs ! first_index xs x = x"
  by (induction xs) (auto simp: first_index_def)

lemma dep_ordered_decreases:
  assumes "dep_ordered succ xs" and "x \<in> set xs" and "y \<in> succ x"
  shows "first_index xs y < first_index xs x"
proof -
  have "y \<in> set (take (first_index xs x) xs)"
    using assms nth_first_index [OF assms(2)] unfolding dep_ordered_def by (metis subsetD)
  then show ?thesis by (rule first_index_less)
qed

lemma dep_ordered_acyclic:
  assumes ord: "dep_ordered succ xs" and src: "\<And>x y. y \<in> succ x \<Longrightarrow> x \<in> set xs"
  shows "acyclic {(x, y). y \<in> succ x}"
proof -
  have "(x, y) \<in> {(x, y). y \<in> succ x}\<^sup>+ \<Longrightarrow> first_index xs y < first_index xs x" for x y
    by (induction rule: trancl_induct)
      (auto intro: dep_ordered_decreases [OF ord] src less_trans)
  then show ?thesis unfolding acyclic_def by (meson less_irrefl)
qed

section \<open>Schemas\<close>

text \<open>
  What every client of a validating schema relies on: parsing what the schema has produced
  (\<open>embed\<close> turns an output value into an input value) succeeds and changes nothing.
\<close>

locale schema =
  fixes parse :: "'input \<Rightarrow> 'issue + 'output"
    and embed :: "'output \<Rightarrow> 'input"
  assumes reparse: "parse x = Inr y \<Longrightarrow> parse (embed y) = Inr y"
begin

lemma parse_fixpoint: "(\<exists>x. parse x = Inr y) \<longleftrightarrow> parse (embed y) = Inr y"
  using reparse by blast

lemma parse_twice: "andThen (parse x) (\<lambda>y. parse (embed y)) = parse x"
  by (cases "parse x") (auto intro: reparse)

end

end
