(* ===== verification/Planning.thy ===== *)
theory Planning
  imports Prelude
begin

text \<open>
  The planning engine's data model and validation
  (\<^verbatim>\<open>packages/planning-engine/src/schema.ts\<close>) and its task graph
  (\<^verbatim>\<open>packages/planning-engine/src/graph.ts\<close>).

  A plan is a list of phases, a list of tasks with their dependencies, and a budget.
  \<open>PlanSchema_parse\<close> is the schema with its refinement; \<open>findCycle\<close> is the depth-first
  search that the refinement runs; \<open>readyTasks\<close> is the scheduler's selection.  The theory
  shows that the search reports a cycle exactly when the dependency relation has one, what
  an accepted plan guarantees, and that the selection is safe (dependencies passed, one
  writer per branch) and never stuck on an accepted plan.
\<close>

section \<open>Data\<close>

datatype risk_level = Low | Medium | High

record 'o plan_phase =
  phase_id :: string
  phase_sequence :: int
  phase_title :: string
  phase_acceptanceCriteria :: "string list"
  approvalAfter :: bool
  phase_optional :: 'o

record plan_task_estimate =
  est_credits :: int
  est_wallClockMinutes :: int

record plan_task =
  task_id :: string
  phaseId :: string
  task_title :: string
  dependsOn :: "string list"
  riskLevel :: risk_level
  requiredTools :: "string list"
  expectedFiles :: "string list"
  acceptanceCriteriaIds :: "string list"
  requiredTests :: "string list"
  task_estimate :: plan_task_estimate

record plan_budget =
  budget_credits :: int
  wallClockHours :: rat

text \<open>
  The field \<open>optional\<close> of a phase may be absent in an input plan
  (\<open>bool option\<close>) and is filled in by the schema (\<open>bool\<close>).
\<close>

record 'o plan_of =
  phases :: "'o plan_phase list"
  tasks :: "plan_task list"
  budget :: plan_budget

type_synonym raw_plan = "bool option plan_of"
type_synonym plan = "bool plan_of"

datatype task_state =
    Queued | Blocked | Ready | Running | Waiting_for_approval | Verifying
  | Repairing | Passed | Failed | Cancelled | Superseded

record task_entry =
  status :: task_state
  branchId :: string

type_synonym task_graph_state = "(string \<times> task_entry) list"

text \<open>
  The issues of the refinement, with the index the source puts in \<open>path\<close>.
  \<open>Plan_shape_invalid\<close> stands for the library's own length and range issues and
  \<open>Plan_duplicate_list_value\<close> for the issue of the unique string lists.
\<close>

datatype plan_issue =
    Plan_shape_invalid
  | Plan_duplicate_list_value
  | Plan_phase_duplicate nat
  | Plan_phase_sequence_duplicate nat
  | Plan_task_duplicate nat
  | Plan_task_phase_missing nat
  | Plan_task_dependency_duplicate nat
  | Plan_task_dependency_missing nat nat
  | Plan_cycle "string list"

section \<open>Field schemas\<close>

definition IdentifierSchema :: "string \<Rightarrow> bool" where
  "IdentifierSchema s \<longleftrightarrow> 1 \<le> length s \<and> length s \<le> 160"

definition stringListBounds :: "nat \<Rightarrow> string list \<Rightarrow> bool" where
  "stringListBounds minimum values \<longleftrightarrow>
     (\<forall>v \<in> set values. 1 \<le> length v \<and> length v \<le> 1024) \<and>
     minimum \<le> length values \<and> length values \<le> 1000"

definition PlanPhaseSchema :: "'o plan_phase \<Rightarrow> bool" where
  "PlanPhaseSchema p \<longleftrightarrow>
     IdentifierSchema (phase_id p) \<and> 0 < phase_sequence p \<and>
     1 \<le> length (phase_title p) \<and> length (phase_title p) \<le> 500 \<and>
     stringListBounds 1 (phase_acceptanceCriteria p)"

definition PlanTaskEstimateSchema :: "plan_task_estimate \<Rightarrow> bool" where
  "PlanTaskEstimateSchema e \<longleftrightarrow>
     0 \<le> est_credits e \<and> est_credits e \<le> 1000000 \<and>
     0 < est_wallClockMinutes e \<and> est_wallClockMinutes e \<le> 60 * 24 * 30"

definition PlanTaskSchema :: "plan_task \<Rightarrow> bool" where
  "PlanTaskSchema t \<longleftrightarrow>
     IdentifierSchema (task_id t) \<and> IdentifierSchema (phaseId t) \<and>
     1 \<le> length (task_title t) \<and> length (task_title t) \<le> 500 \<and>
     (\<forall>d \<in> set (dependsOn t). IdentifierSchema d) \<and> length (dependsOn t) \<le> 1000 \<and>
     stringListBounds 0 (requiredTools t) \<and> stringListBounds 0 (expectedFiles t) \<and>
     stringListBounds 1 (acceptanceCriteriaIds t) \<and> stringListBounds 0 (requiredTests t) \<and>
     PlanTaskEstimateSchema (task_estimate t)"

definition taskListsUnique :: "plan_task \<Rightarrow> bool" where
  "taskListsUnique t \<longleftrightarrow>
     distinct (requiredTools t) \<and> distinct (expectedFiles t) \<and>
     distinct (acceptanceCriteriaIds t) \<and> distinct (requiredTests t)"

definition PlanShapeSchema :: "'o plan_of \<Rightarrow> bool" where
  "PlanShapeSchema p \<longleftrightarrow>
     (\<forall>ph \<in> set (phases p). PlanPhaseSchema ph) \<and>
     1 \<le> length (phases p) \<and> length (phases p) \<le> 1000 \<and>
     (\<forall>t \<in> set (tasks p). PlanTaskSchema t) \<and>
     1 \<le> length (tasks p) \<and> length (tasks p) \<le> 10000 \<and>
     0 < budget_credits (budget p) \<and> budget_credits (budget p) \<le> 1000000000 \<and>
     0 < wallClockHours (budget p) \<and> wallClockHours (budget p) \<le> 24 * 365"

definition planListsUnique :: "'o plan_of \<Rightarrow> bool" where
  "planListsUnique p \<longleftrightarrow>
     (\<forall>ph \<in> set (phases p). distinct (phase_acceptanceCriteria ph)) \<and>
     (\<forall>t \<in> set (tasks p). taskListsUnique t)"

section \<open>Preprocessing: the default of \<open>optional\<close>\<close>

definition phase_with_default :: "bool option plan_phase \<Rightarrow> bool plan_phase" where
  "phase_with_default ph =
     \<lparr>phase_id = phase_id ph, phase_sequence = phase_sequence ph,
      phase_title = phase_title ph,
      phase_acceptanceCriteria = phase_acceptanceCriteria ph,
      approvalAfter = approvalAfter ph,
      phase_optional = (case phase_optional ph of None \<Rightarrow> False | Some b \<Rightarrow> b)\<rparr>"

definition PlanShapeWithDefaultsSchema :: "raw_plan \<Rightarrow> plan" where
  "PlanShapeWithDefaultsSchema raw =
     \<lparr>phases = map phase_with_default (phases raw), tasks = tasks raw, budget = budget raw\<rparr>"

text \<open>A parsed plan used as an input value again.\<close>

definition phase_as_input :: "bool plan_phase \<Rightarrow> bool option plan_phase" where
  "phase_as_input ph =
     \<lparr>phase_id = phase_id ph, phase_sequence = phase_sequence ph,
      phase_title = phase_title ph,
      phase_acceptanceCriteria = phase_acceptanceCriteria ph,
      approvalAfter = approvalAfter ph, phase_optional = Some (phase_optional ph)\<rparr>"

definition plan_as_input :: "plan \<Rightarrow> raw_plan" where
  "plan_as_input p =
     \<lparr>phases = map phase_as_input (phases p), tasks = tasks p, budget = budget p\<rparr>"

section \<open>Cycle search\<close>

text \<open>
  \<open>visit\<close> is the recursive closure of \<open>findCycle\<close>.  On every normal return the source
  undoes its own \<open>path.push\<close> and \<open>active.add\<close>, so the path is passed down and
  \<open>active\<close> is the set of its elements; \<open>visited\<close> is threaded through the calls.
  \<open>visit_each\<close> is the loop over a list of ids with its early return, used for the
  dependencies of one task and for the outer loop over all tasks.
\<close>

type_synonym dep_map = "(string \<times> string list) list"

lemma card_unvisited_less:
  assumes "k \<in> set (map fst m)" and "k \<notin> set path"
  shows "card (set (map fst m) - set (path @ [k])) < card (set (map fst m) - set path)"
  using assms by (intro psubset_card_mono) auto

function (sequential) visit ::
    "dep_map \<Rightarrow> string list \<Rightarrow> string \<Rightarrow> string list \<Rightarrow> string list option \<times> string list"
  and visit_each ::
    "dep_map \<Rightarrow> string list \<Rightarrow> string list \<Rightarrow> string list \<Rightarrow> string list option \<times> string list"
where
  "visit dependencies path taskId visited =
     (if taskId \<in> set path
      then (Some (dropWhile (\<lambda>x. x \<noteq> taskId) path @ [taskId]), visited)
      else if taskId \<in> set visited then (None, visited)
      else case visit_each dependencies (path @ [taskId]) (getOr dependencies taskId []) visited of
             (Some cycle, visited') \<Rightarrow> (Some cycle, visited')
           | (None, visited') \<Rightarrow> (None, visited' @ [taskId]))"
| "visit_each dependencies path [] visited = (None, visited)"
| "visit_each dependencies path (dependencyId # rest) visited =
     (case visit dependencies path dependencyId visited of
        (Some cycle, visited') \<Rightarrow> (Some cycle, visited')
      | (None, visited') \<Rightarrow> visit_each dependencies path rest visited')"
  by pat_completeness auto

termination
proof (relation "measures
    [\<lambda>x. (case x of Inl (m, path, _, _) \<Rightarrow> card (set (map fst m) - set path)
                  | Inr (m, path, _, _) \<Rightarrow> card (set (map fst m) - set path)),
     \<lambda>x. (case x of Inl _ \<Rightarrow> 1 | Inr (_, _, ids, _) \<Rightarrow> 2 * length ids)]", goal_cases)
  case (2 m path tid visited)
  show ?case
  proof (cases "tid \<in> set (map fst m)")
    case True
    from card_unvisited_less [OF True 2(1)] show ?thesis by simp
  next
    case False
    then have "map_of m tid = None" using map_of_in_keys by metis
    then have "getOr m tid [] = []" by (simp add: getOr_def)
    moreover from False have "set (map fst m) - set (path @ [tid]) = set (map fst m) - set path"
      by auto
    ultimately show ?thesis by simp
  qed
qed auto

declare visit.simps [simp del]

definition dependencyMap :: "plan_task list \<Rightarrow> dep_map" where
  "dependencyMap ts = rev (map (\<lambda>t. (task_id t, dependsOn t)) ts)"

definition findCycle :: "plan_task list \<Rightarrow> string list option" where
  "findCycle ts = fst (visit_each (dependencyMap ts) [] (map task_id ts) [])"

section \<open>The refinement of the plan schema\<close>

fun phaseIssues :: "nat \<Rightarrow> string list \<Rightarrow> int list \<Rightarrow> bool plan_phase list \<Rightarrow> plan_issue list" where
  "phaseIssues index phaseIds phaseSequences [] = []"
| "phaseIssues index phaseIds phaseSequences (phase # rest) =
     (if phase_id phase \<in> set phaseIds then [Plan_phase_duplicate index] else []) @
     (if phase_sequence phase \<in> set phaseSequences
      then [Plan_phase_sequence_duplicate index] else []) @
     phaseIssues (Suc index) (phaseIds @ [phase_id phase])
       (phaseSequences @ [phase_sequence phase]) rest"

fun taskIssues :: "string list \<Rightarrow> nat \<Rightarrow> string list \<Rightarrow> plan_task list \<Rightarrow> plan_issue list" where
  "taskIssues phaseIds index taskIds [] = []"
| "taskIssues phaseIds index taskIds (task # rest) =
     (if task_id task \<in> set taskIds then [Plan_task_duplicate index] else []) @
     (if phaseId task \<notin> set phaseIds then [Plan_task_phase_missing index] else []) @
     taskIssues phaseIds (Suc index) (taskIds @ [task_id task]) rest"

fun missingDependencies :: "string list \<Rightarrow> nat \<Rightarrow> nat \<Rightarrow> string list \<Rightarrow> plan_issue list" where
  "missingDependencies taskIds index dependencyIndex [] = []"
| "missingDependencies taskIds index dependencyIndex (dependencyId # rest) =
     (if dependencyId \<notin> set taskIds
      then [Plan_task_dependency_missing index dependencyIndex] else []) @
     missingDependencies taskIds index (Suc dependencyIndex) rest"

fun dependencyIssues :: "string list \<Rightarrow> nat \<Rightarrow> plan_task list \<Rightarrow> plan_issue list" where
  "dependencyIssues taskIds index [] = []"
| "dependencyIssues taskIds index (task # rest) =
     (if distinct (dependsOn task) then [] else [Plan_task_dependency_duplicate index]) @
     missingDependencies taskIds index 0 (dependsOn task) @
     dependencyIssues taskIds (Suc index) rest"

definition cycleIssues :: "plan \<Rightarrow> plan_issue list" where
  "cycleIssues plan =
     (let taskIds = uniq (map task_id (tasks plan));
          dependenciesAreResolvable =
            (\<forall>task \<in> set (tasks plan). \<forall>d \<in> set (dependsOn task). d \<in> set taskIds)
      in if length taskIds = length (tasks plan) \<and> dependenciesAreResolvable
         then (case findCycle (tasks plan) of None \<Rightarrow> [] | Some cycle \<Rightarrow> [Plan_cycle cycle])
         else [])"

definition planIssues :: "plan \<Rightarrow> plan_issue list" where
  "planIssues plan =
     phaseIssues 0 [] [] (phases plan) @
     taskIssues (map phase_id (phases plan)) 0 [] (tasks plan) @
     dependencyIssues (map task_id (tasks plan)) 0 (tasks plan) @
     cycleIssues plan"

definition shapeIssues :: "'o plan_of \<Rightarrow> plan_issue list" where
  "shapeIssues p =
     (if PlanShapeSchema p then [] else [Plan_shape_invalid]) @
     (if planListsUnique p then [] else [Plan_duplicate_list_value])"

definition PlanSchema_parse :: "raw_plan \<Rightarrow> plan_issue list + plan" where
  "PlanSchema_parse raw =
     (let plan = PlanShapeWithDefaultsSchema raw;
          issues = shapeIssues plan @ planIssues plan
      in if issues = [] then Inr plan else Inl issues)"

section \<open>The task graph\<close>

definition ACTIVE_WRITER_STATES :: "task_state list" where
  "ACTIVE_WRITER_STATES = [Ready, Running, Waiting_for_approval, Verifying, Repairing]"

datatype task_graph_error =
    Task_graph_state_shape
  | Task_graph_state_missing string
  | Task_graph_state_unknown string

definition TaskGraphStateSchema :: "task_graph_state \<Rightarrow> bool" where
  "TaskGraphStateSchema state \<longleftrightarrow>
     (\<forall>(_, entry) \<in> set state. 1 \<le> length (branchId entry) \<and> length (branchId entry) \<le> 512)"

definition activeBranches :: "task_graph_state \<Rightarrow> string list" where
  "activeBranches state =
     uniq (map (branchId \<circ> snd)
       (filter (\<lambda>(_, entry). status entry \<in> set ACTIVE_WRITER_STATES) state))"

definition dependenciesPassed :: "task_graph_state \<Rightarrow> plan_task \<Rightarrow> bool" where
  "dependenciesPassed state task \<longleftrightarrow>
     (\<forall>d \<in> set (dependsOn task). map_option status (map_of state d) = Some Passed)"

fun selectReady ::
    "task_graph_state \<Rightarrow> string list \<Rightarrow> string list \<Rightarrow> plan_task list \<Rightarrow> plan_task list" where
  "selectReady state active selected [] = []"
| "selectReady state active selected (task # rest) =
     (case map_of state (task_id task) of
        None \<Rightarrow> selectReady state active selected rest
      | Some current \<Rightarrow>
          if status current \<noteq> Queued then selectReady state active selected rest
          else if \<not> dependenciesPassed state task then selectReady state active selected rest
          else if branchId current \<in> set active \<or> branchId current \<in> set selected
          then selectReady state active selected rest
          else task # selectReady state active (selected @ [branchId current]) rest)"

definition readyTasks :: "plan \<Rightarrow> task_graph_state \<Rightarrow> task_graph_error + plan_task list" where
  "readyTasks plan state =
     (if \<not> TaskGraphStateSchema state then Inl Task_graph_state_shape
      else case find (\<lambda>t. map_of state (task_id t) = None) (tasks plan) of
        Some missing \<Rightarrow> Inl (Task_graph_state_missing (task_id missing))
      | None \<Rightarrow>
          (case find (\<lambda>k. k \<notin> set (map task_id (tasks plan))) (map fst state) of
             Some unknown \<Rightarrow> Inl (Task_graph_state_unknown unknown)
           | None \<Rightarrow> Inr (selectReady state (activeBranches state) [] (tasks plan))))"

definition createTaskGraph :: "raw_plan \<Rightarrow> plan_issue list + plan" where
  "createTaskGraph planValue = PlanSchema_parse planValue"

section \<open>Facts: the cycle search\<close>

definition dep_succ :: "dep_map \<Rightarrow> string \<Rightarrow> string set" where
  "dep_succ m x = set (getOr m x [])"

definition closed_walk :: "('a \<Rightarrow> 'a set) \<Rightarrow> 'a list \<Rightarrow> bool" where
  "closed_walk succ c \<longleftrightarrow> 2 \<le> length c \<and> hd c = last c \<and> successively (\<lambda>a b. b \<in> succ a) c"

lemma closed_walk_suffix:
  assumes "successively (\<lambda>a b. b \<in> succ a) (path @ [x])" and "x \<in> set path"
  shows "closed_walk succ (dropWhile (\<lambda>y. y \<noteq> x) path @ [x])"
proof -
  let ?d = "dropWhile (\<lambda>y. y \<noteq> x) path"
  have ne: "?d \<noteq> []" using assms(2) by simp
  have hd: "hd ?d = x" using hd_dropWhile [OF ne] by simp
  have "path = takeWhile (\<lambda>y. y \<noteq> x) path @ ?d" by simp
  with assms(1) have "successively (\<lambda>a b. b \<in> succ a) (takeWhile (\<lambda>y. y \<noteq> x) path @ (?d @ [x]))"
    by (metis append.assoc)
  then have "successively (\<lambda>a b. b \<in> succ a) (?d @ [x])"
    by (simp only: successively_append_iff)
  with ne hd show ?thesis by (cases ?d) (auto simp: closed_walk_def)
qed

lemma visit_sound:
  "successively (\<lambda>a b. b \<in> dep_succ m a) (path @ [x]) \<Longrightarrow> visit m path x v = (Some c, v')
     \<Longrightarrow> closed_walk (dep_succ m) c"
  "(\<And>d. d \<in> set ids \<Longrightarrow> successively (\<lambda>a b. b \<in> dep_succ m a) (path @ [d]))
     \<Longrightarrow> visit_each m path ids v = (Some c, v') \<Longrightarrow> closed_walk (dep_succ m) c"
proof (induction m path x v and m path ids v arbitrary: c v' and c v' rule: visit_visit_each.induct)
  case (1 m path x v)
  show ?case
  proof (cases "x \<in> set path")
    case True
    with 1 closed_walk_suffix show ?thesis by (auto simp: visit.simps)
  next
    case False
    with "1.prems"(2) obtain v'' where v'': "x \<notin> set v"
        "visit_each m (path @ [x]) (getOr m x []) v = (Some c, v'')"
      by (auto simp: visit.simps split: if_splits prod.splits option.splits)
    have "successively (\<lambda>a b. b \<in> dep_succ m a) ((path @ [x]) @ [d])" if "d \<in> set (getOr m x [])" for d
      using "1.prems"(1) that by (simp add: successively_append_iff dep_succ_def)
    with "1.IH" False v'' show ?thesis by blast
  qed
next
  case (3 m path d ids v)
  show ?case
  proof (cases "visit m path d v")
    case (Pair r w)
    with 3 show ?thesis by (cases r) auto
  qed
qed simp

lemma visit_complete:
  "dep_ordered (dep_succ m) v \<Longrightarrow> visit m path x v = (None, v')
     \<Longrightarrow> dep_ordered (dep_succ m) v' \<and> set v \<subseteq> set v' \<and> x \<in> set v'"
  "dep_ordered (dep_succ m) v \<Longrightarrow> visit_each m path ids v = (None, v')
     \<Longrightarrow> dep_ordered (dep_succ m) v' \<and> set v \<subseteq> set v' \<and> set ids \<subseteq> set v'"
proof (induction m path x v and m path ids v arbitrary: v' and v' rule: visit_visit_each.induct)
  case (1 m path x v)
  show ?case
  proof (cases "x \<in> set path \<or> x \<in> set v")
    case True
    with 1 show ?thesis by (auto simp: visit.simps split: if_splits)
  next
    case False
    with "1.prems"(2) obtain w where w: "visit_each m (path @ [x]) (getOr m x []) v = (None, w)"
        "v' = w @ [x]"
      by (auto simp: visit.simps split: if_splits prod.splits option.splits)
    from "1.IH" [OF _ _ "1.prems"(1) w(1)] False
    have "dep_ordered (dep_succ m) w \<and> set v \<subseteq> set w \<and> set (getOr m x []) \<subseteq> set w"
      by blast
    with w(2) show ?thesis by (auto simp: dep_succ_def [of m x])
  qed
next
  case (3 m path d ids v)
  show ?case
  proof (cases "visit m path d v")
    case (Pair r w)
    with "3.prems"(2) have r: "visit m path d v = (None, w)" "visit_each m path ids w = (None, v')"
      by (auto split: option.splits)
    from "3.IH"(1) [OF "3.prems"(1) r(1)] have w: "dep_ordered (dep_succ m) w" "set v \<subseteq> set w" "d \<in> set w"
      by auto
    from "3.IH"(2) [OF r(1) [symmetric] refl w(1) r(2)] w show ?thesis by auto
  qed
qed auto

definition taskDeps :: "plan_task list \<Rightarrow> (string \<times> string) set" where
  "taskDeps ts = {(a, b). \<exists>t \<in> set ts. task_id t = a \<and> b \<in> set (dependsOn t)}"

lemma map_of_dependencyMap:
  assumes "distinct (map task_id ts)" and "t \<in> set ts"
  shows "map_of (dependencyMap ts) (task_id t) = Some (dependsOn t)"
  using assms unfolding dependencyMap_def
  by (intro map_of_is_SomeI) (auto simp: rev_map [symmetric] comp_def)

lemma dep_succ_dependencyMap:
  assumes "distinct (map task_id ts)"
  shows "dep_succ (dependencyMap ts) a = {b. (a, b) \<in> taskDeps ts}"
proof (cases "a \<in> set (map task_id ts)")
  case True
  then obtain t where t: "t \<in> set ts" "task_id t = a" by auto
  have same: "u = t" if "u \<in> set ts" "task_id u = a" for u
    using that t assms by (auto simp: distinct_map dest: inj_onD)
  have "dep_succ (dependencyMap ts) a = set (dependsOn t)"
    using map_of_dependencyMap [OF assms t(1)] t(2) by (simp add: dep_succ_def getOr_def)
  also have "\<dots> = {b. (a, b) \<in> taskDeps ts}"
    unfolding taskDeps_def using t same by blast
  finally show ?thesis .
next
  case False
  then have "map_of (dependencyMap ts) a = None"
    by (auto simp: dependencyMap_def map_of_eq_None_iff)
  with False show ?thesis by (auto simp: dep_succ_def getOr_def taskDeps_def)
qed

lemma findCycle_Some:
  assumes "distinct (map task_id ts)" and "findCycle ts = Some c"
  shows "2 \<le> length c \<and> hd c = last c \<and> successively (\<lambda>a b. (a, b) \<in> taskDeps ts) c"
proof -
  from assms(2) obtain v where "visit_each (dependencyMap ts) [] (map task_id ts) [] = (Some c, v)"
    by (cases "visit_each (dependencyMap ts) [] (map task_id ts) []") (auto simp: findCycle_def)
  from visit_sound(2) [OF _ this] have "closed_walk (dep_succ (dependencyMap ts)) c" by simp
  then show ?thesis by (simp add: closed_walk_def dep_succ_dependencyMap [OF assms(1)])
qed

lemma findCycle_None:
  assumes "distinct (map task_id ts)" and "findCycle ts = None"
  shows "acyclic (taskDeps ts)"
proof -
  let ?succ = "dep_succ (dependencyMap ts)"
  from assms(2) obtain v where "visit_each (dependencyMap ts) [] (map task_id ts) [] = (None, v)"
    by (cases "visit_each (dependencyMap ts) [] (map task_id ts) []") (auto simp: findCycle_def)
  from visit_complete(2) [OF _ this]
  have ord: "dep_ordered ?succ v" and all: "set (map task_id ts) \<subseteq> set v" by auto
  have "acyclic {(x, y). y \<in> ?succ x}"
    using ord by (rule dep_ordered_acyclic)
      (use all in \<open>auto simp: dep_succ_dependencyMap [OF assms(1)] taskDeps_def\<close>)
  then show ?thesis by (simp add: dep_succ_dependencyMap [OF assms(1)])
qed

lemma successively_trancl:
  assumes "successively (\<lambda>a b. (a, b) \<in> r) c" and "2 \<le> length c"
  shows "(hd c, last c) \<in> r\<^sup>+"
  using assms
proof (induction c rule: induct_list012)
  case (3 x y zs)
  then show ?case by (cases zs) (auto intro: trancl_into_trancl2)
qed auto

lemma findCycle_None_iff:
  assumes "distinct (map task_id ts)"
  shows "findCycle ts = None \<longleftrightarrow> acyclic (taskDeps ts)"
proof
  assume ac: "acyclic (taskDeps ts)"
  show "findCycle ts = None"
  proof (rule ccontr)
    assume "findCycle ts \<noteq> None"
    then obtain c where "findCycle ts = Some c" by auto
    from findCycle_Some [OF assms this] successively_trancl [of "taskDeps ts" c]
    have "(hd c, hd c) \<in> (taskDeps ts)\<^sup>+" by auto
    with ac show False by (simp add: acyclic_def)
  qed
qed (rule findCycle_None [OF assms])

section \<open>Facts: the schema\<close>

text \<open>What an accepted plan guarantees.\<close>

definition plan_valid :: "plan \<Rightarrow> bool" where
  "plan_valid p \<longleftrightarrow>
     PlanShapeSchema p \<and> planListsUnique p \<and>
     distinct (map phase_id (phases p)) \<and> distinct (map phase_sequence (phases p)) \<and>
     distinct (map task_id (tasks p)) \<and>
     (\<forall>t \<in> set (tasks p). phaseId t \<in> set (map phase_id (phases p))) \<and>
     (\<forall>t \<in> set (tasks p). distinct (dependsOn t) \<and> set (dependsOn t) \<subseteq> set (map task_id (tasks p))) \<and>
     acyclic (taskDeps (tasks p))"

lemma phaseIssues_Nil_iff:
  "phaseIssues i ids seqs ps = [] \<longleftrightarrow>
     distinct (map phase_id ps) \<and> set ids \<inter> set (map phase_id ps) = {} \<and>
     distinct (map phase_sequence ps) \<and> set seqs \<inter> set (map phase_sequence ps) = {}"
  by (induction i ids seqs ps rule: phaseIssues.induct) auto

lemma taskIssues_Nil_iff:
  "taskIssues phs i ids ts = [] \<longleftrightarrow>
     distinct (map task_id ts) \<and> set ids \<inter> set (map task_id ts) = {} \<and>
     (\<forall>t \<in> set ts. phaseId t \<in> set phs)"
  by (induction phs i ids ts rule: taskIssues.induct) auto

lemma missingDependencies_Nil_iff:
  "missingDependencies ids i j ds = [] \<longleftrightarrow> set ds \<subseteq> set ids"
  by (induction ids i j ds rule: missingDependencies.induct) auto

lemma dependencyIssues_Nil_iff:
  "dependencyIssues ids i ts = [] \<longleftrightarrow>
     (\<forall>t \<in> set ts. distinct (dependsOn t) \<and> set (dependsOn t) \<subseteq> set ids)"
  by (induction ids i ts rule: dependencyIssues.induct) (auto simp: missingDependencies_Nil_iff)

lemma cycleIssues_Nil_iff:
  assumes "distinct (map task_id (tasks p))"
    and "\<forall>t \<in> set (tasks p). set (dependsOn t) \<subseteq> set (map task_id (tasks p))"
  shows "cycleIssues p = [] \<longleftrightarrow> acyclic (taskDeps (tasks p))"
proof -
  have "length (uniq (map task_id (tasks p))) = length (tasks p)"
    using assms(1) by simp
  moreover have "\<forall>t \<in> set (tasks p). \<forall>d \<in> set (dependsOn t). d \<in> set (uniq (map task_id (tasks p)))"
    using assms(2) by auto
  ultimately have "cycleIssues p =
      (case findCycle (tasks p) of None \<Rightarrow> [] | Some cycle \<Rightarrow> [Plan_cycle cycle])"
    by (simp add: cycleIssues_def del: set_uniq)
  then show ?thesis
    using findCycle_None_iff [OF assms(1)] by (auto split: option.splits)
qed

lemma planIssues_Nil_iff:
  "shapeIssues p @ planIssues p = [] \<longleftrightarrow> plan_valid p"
proof (cases "distinct (map task_id (tasks p)) \<and>
    (\<forall>t \<in> set (tasks p). set (dependsOn t) \<subseteq> set (map task_id (tasks p)))")
  case True
  then show ?thesis
    using cycleIssues_Nil_iff [of p]
    by (auto simp: planIssues_def shapeIssues_def plan_valid_def phaseIssues_Nil_iff
        taskIssues_Nil_iff dependencyIssues_Nil_iff simp del: set_map)
next
  case False
  then show ?thesis
    by (auto simp: planIssues_def plan_valid_def taskIssues_Nil_iff dependencyIssues_Nil_iff
        simp del: set_map)
qed

lemma PlanSchema_parse_Inr:
  "PlanSchema_parse raw = Inr p \<longleftrightarrow> p = PlanShapeWithDefaultsSchema raw \<and> plan_valid p"
  using planIssues_Nil_iff [of "PlanShapeWithDefaultsSchema raw"]
  by (auto simp: PlanSchema_parse_def Let_def)

lemma defaults_as_input [simp]: "PlanShapeWithDefaultsSchema (plan_as_input p) = p"
proof -
  have "phase_with_default (phase_as_input ph) = ph" for ph
    by (simp add: phase_with_default_def phase_as_input_def)
  then show ?thesis
    by (simp add: PlanShapeWithDefaultsSchema_def plan_as_input_def comp_def)
qed

lemma parse_valid [simp]: "plan_valid p \<Longrightarrow> PlanSchema_parse (plan_as_input p) = Inr p"
  by (simp add: PlanSchema_parse_Inr)

lemma parse_valid_iff [simp]: "PlanSchema_parse (plan_as_input p) = Inr q \<longleftrightarrow> q = p \<and> plan_valid p"
  by (auto simp: PlanSchema_parse_Inr)

interpretation plan_schema: schema PlanSchema_parse plan_as_input
  by unfold_locales (auto simp: PlanSchema_parse_Inr)

lemma valid_ids_distinct: "plan_valid p \<Longrightarrow> distinct (map task_id (tasks p))"
  by (simp add: plan_valid_def)

lemma valid_deps_resolved:
  "plan_valid p \<Longrightarrow> t \<in> set (tasks p) \<Longrightarrow> d \<in> set (dependsOn t) \<Longrightarrow> \<exists>u \<in> set (tasks p). task_id u = d"
  unfolding plan_valid_def by fastforce

section \<open>Facts: the selection\<close>

definition entryOf :: "task_graph_state \<Rightarrow> plan_task \<Rightarrow> task_entry" where
  "entryOf state t = the (map_of state (task_id t))"

definition eligible :: "task_graph_state \<Rightarrow> plan_task \<Rightarrow> bool" where
  "eligible state t \<longleftrightarrow>
     map_option status (map_of state (task_id t)) = Some Queued \<and> dependenciesPassed state t"

lemma selectReady_Cons:
  "selectReady state active sel (t # ts) =
     (if eligible state t \<and> branchId (entryOf state t) \<notin> set active \<union> set sel
      then t # selectReady state active (sel @ [branchId (entryOf state t)]) ts
      else selectReady state active sel ts)"
  by (auto simp: eligible_def entryOf_def split: option.splits)

lemma selectReady_safe:
  "subseq (selectReady state active sel ts) ts \<and>
   (\<forall>t \<in> set (selectReady state active sel ts). eligible state t) \<and>
   distinct (map (branchId \<circ> entryOf state) (selectReady state active sel ts)) \<and>
   (branchId \<circ> entryOf state) ` set (selectReady state active sel ts) \<inter> (set active \<union> set sel) = {}"
proof (induction ts arbitrary: sel)
  case (Cons t ts)
  show ?case
    using Cons [of sel] Cons [of "sel @ [branchId (entryOf state t)]"]
    unfolding selectReady_Cons by (auto simp: comp_def)
qed simp

lemma selectReady_maximal:
  "t \<in> set ts \<Longrightarrow> eligible state t \<Longrightarrow> branchId (entryOf state t) \<notin> set active \<union> set sel \<Longrightarrow>
   \<exists>u \<in> set (selectReady state active sel ts). branchId (entryOf state u) = branchId (entryOf state t)"
proof (induction ts arbitrary: sel)
  case (Cons u us)
  let ?b = "\<lambda>x. branchId (entryOf state x)"
  let ?take = "eligible state u \<and> ?b u \<notin> set active \<union> set sel"
  show ?case
  proof (cases "?take \<and> ?b u = ?b t")
    case True
    then show ?thesis by (auto simp add: selectReady_Cons simp del: selectReady.simps)
  next
    case False
    with Cons.prems have "t \<in> set us" by auto
    then have "\<exists>x \<in> set (selectReady state active (if ?take then sel @ [?b u] else sel) us). ?b x = ?b t"
      using Cons.prems False by (intro Cons.IH) auto
    then show ?thesis by (auto simp add: selectReady_Cons simp del: selectReady.simps split: if_splits)
  qed
qed simp

lemmas selectReady_simps = selectReady.simps(1) selectReady_Cons

lemma readyTasks_Inr_iff:
  "readyTasks p state = Inr ready \<longleftrightarrow>
     TaskGraphStateSchema state \<and> set (map task_id (tasks p)) = set (map fst state) \<and>
     ready = selectReady state (activeBranches state) [] (tasks p)"
proof -
  have a: "find (\<lambda>t. map_of state (task_id t) = None) (tasks p) = None
      \<longleftrightarrow> set (map task_id (tasks p)) \<subseteq> set (map fst state)"
    by (auto simp: find_None_iff map_of_eq_None_iff image_subset_iff)
  have b: "find (\<lambda>k. k \<notin> set (map task_id (tasks p))) (map fst state) = None
      \<longleftrightarrow> set (map fst state) \<subseteq> set (map task_id (tasks p))"
    by (auto simp: find_None_iff)
  show ?thesis
    unfolding readyTasks_def using a b by (auto simp del: set_map split: option.splits)
qed

lemma set_activeBranches:
  "set (activeBranches state) =
     {branchId e | k e. (k, e) \<in> set state \<and> status e \<in> set ACTIVE_WRITER_STATES}"
  by (force simp: activeBranches_def)

text \<open>
  A minimal unfinished task exists because the dependency relation of an accepted plan is
  well-founded.
\<close>

lemma finite_taskDeps: "finite (taskDeps ts)"
proof -
  have "taskDeps ts = (\<Union>t \<in> set ts. Pair (task_id t) ` set (dependsOn t))"
    by (auto simp: taskDeps_def)
  then show ?thesis by simp
qed

lemma minimal_unfinished:
  assumes "plan_valid p" and "t \<in> set (tasks p)" and "P (task_id t)"
  shows "\<exists>u \<in> set (tasks p). P (task_id u) \<and> (\<forall>d \<in> set (dependsOn u). \<not> P d)"
proof -
  let ?r = "(taskDeps (tasks p))\<inverse>"
  have "wf ?r"
    using assms(1) by (intro finite_acyclic_wf_converse finite_taskDeps) (simp add: plan_valid_def)
  moreover have "task_id t \<in> {i \<in> set (map task_id (tasks p)). P i}"
    using assms(2,3) by auto
  ultimately obtain m where m: "m \<in> {i \<in> set (map task_id (tasks p)). P i}"
    and min: "\<And>y. (y, m) \<in> ?r \<Longrightarrow> y \<notin> {i \<in> set (map task_id (tasks p)). P i}"
    by (rule wfE_min) blast
  from m obtain u where u: "u \<in> set (tasks p)" "task_id u = m" "P m" by auto
  have "\<not> P d" if "d \<in> set (dependsOn u)" for d
    using min [of d] that u valid_deps_resolved [OF assms(1) u(1) that]
    by (auto simp: taskDeps_def)
  with u show ?thesis by blast
qed

section \<open>Properties\<close>

text \<open>
  C1.  The depth-first search of \<open>findCycle\<close>, on tasks with distinct ids, returns nothing
  exactly when the dependency relation is acyclic; what it returns otherwise is a closed walk
  along dependency edges, the cycle that the issue \<open>plan_cycle:a->b->a\<close> prints.
\<close>

theorem findCycle_correct:
  assumes "distinct (map task_id ts)"
  shows "case findCycle ts of
           None \<Rightarrow> acyclic (taskDeps ts)
         | Some c \<Rightarrow> \<not> acyclic (taskDeps ts) \<and> 2 \<le> length c \<and> hd c = last c \<and>
                     successively (\<lambda>a b. (a, b) \<in> taskDeps ts) c"
proof (cases "findCycle ts")
  case None
  with findCycle_None_iff [OF assms] show ?thesis by simp
next
  case (Some c)
  with findCycle_None_iff [OF assms] findCycle_Some [OF assms Some] show ?thesis by simp
qed

definition sample_estimate :: plan_task_estimate where
  "sample_estimate = \<lparr>est_credits = 10, est_wallClockMinutes = 30\<rparr>"

definition sample_task :: "string \<Rightarrow> string list \<Rightarrow> plan_task" where
  "sample_task i ds =
     \<lparr>task_id = i, phaseId = ''p1'', task_title = ''t'', dependsOn = ds, riskLevel = Low,
      requiredTools = [], expectedFiles = [], acceptanceCriteriaIds = [''AC-1''],
      requiredTests = [], task_estimate = sample_estimate\<rparr>"

definition sample_plan :: "plan_task list \<Rightarrow> plan" where
  "sample_plan ts =
     \<lparr>phases = [\<lparr>phase_id = ''p1'', phase_sequence = 1, phase_title = ''P'',
                 phase_acceptanceCriteria = [''AC-1''], approvalAfter = False,
                 phase_optional = False\<rparr>],
      tasks = ts, budget = \<lparr>budget_credits = 100, wallClockHours = 1\<rparr>\<rparr>"

lemmas sample_simps = sample_estimate_def sample_task_def sample_plan_def

theorem findCycle_correct_witness:
  "findCycle [sample_task ''a'' [''b''], sample_task ''b'' [''a'']] = Some [''a'', ''b'', ''a''] \<and>
   \<not> acyclic (taskDeps [sample_task ''a'' [''b''], sample_task ''b'' [''a'']])"
proof -
  let ?ts = "[sample_task ''a'' [''b''], sample_task ''b'' [''a'']]"
  have run: "findCycle ?ts = Some [''a'', ''b'', ''a'']"
    by (simp add: findCycle_def dependencyMap_def sample_simps visit.simps getOr_def)
  have "distinct (map task_id ?ts)" by (simp add: sample_simps)
  from findCycle_correct [OF this] run show ?thesis by simp
qed

text \<open>
  C2.  The plan schema accepts a plan exactly when it satisfies the bounds, its lists have no
  duplicates, ids and phase sequences are unique, every phase and dependency reference
  resolves and the dependency relation is acyclic; the accepted value is the input with the
  phase defaults filled in.
\<close>

theorem PlanSchema_accepts_iff:
  "PlanSchema_parse raw = Inr p \<longleftrightarrow> p = PlanShapeWithDefaultsSchema raw \<and> plan_valid p"
  using planIssues_Nil_iff [of "PlanShapeWithDefaultsSchema raw"]
  by (auto simp: PlanSchema_parse_def Let_def)

text \<open>
  C3.  What \<open>readyTasks\<close> selects can run: the tasks stand in plan order, each is queued with
  every dependency passed, no two share a branch and none is on a branch with an active writer;
  and no eligible task is passed over unless its branch is taken.
\<close>

theorem readyTasks_safe:
  assumes "readyTasks p state = Inr ready"
  shows "subseq ready (tasks p) \<and>
    (\<forall>t \<in> set ready. eligible state t \<and> branchId (entryOf state t) \<notin> set (activeBranches state)) \<and>
    distinct (map (branchId \<circ> entryOf state) ready) \<and>
    (\<forall>t \<in> set (tasks p). eligible state t \<longrightarrow>
       branchId (entryOf state t) \<in> set (activeBranches state) \<or>
       (\<exists>u \<in> set ready. branchId (entryOf state u) = branchId (entryOf state t)))"
proof -
  from assms have ready: "ready = selectReady state (activeBranches state) [] (tasks p)"
    by (simp add: readyTasks_Inr_iff)
  show ?thesis
    using selectReady_safe [of state "activeBranches state" "[]" "tasks p"]
      selectReady_maximal [of _ "tasks p" state "activeBranches state" "[]"]
    unfolding ready by auto
qed

definition sample_state :: task_graph_state where
  "sample_state = [(''a'', \<lparr>status = Passed, branchId = ''main''\<rparr>),
                   (''b'', \<lparr>status = Queued, branchId = ''main''\<rparr>),
                   (''c'', \<lparr>status = Queued, branchId = ''main''\<rparr>)]"

definition sample_chain :: plan where
  "sample_chain = sample_plan [sample_task ''a'' [], sample_task ''b'' [''a''], sample_task ''c'' []]"

lemma sample_ready:
  "readyTasks sample_chain sample_state = Inr [sample_task ''b'' [''a'']]"
  by (simp add: readyTasks_def sample_state_def sample_chain_def sample_simps
      TaskGraphStateSchema_def activeBranches_def ACTIVE_WRITER_STATES_def dependenciesPassed_def)

theorem readyTasks_safe_witness:
  "readyTasks sample_chain sample_state = Inr [sample_task ''b'' [''a'']] \<and>
   eligible sample_state (sample_task ''b'' [''a''])"
  using readyTasks_safe [OF sample_ready] sample_ready by simp

text \<open>
  C4.  An accepted plan is never stuck: when no branch has an active writer and every task is
  queued or passed, some task is still queued, and the state covers exactly the plan's tasks,
  the selection is not empty.
\<close>

theorem readyTasks_progress:
  assumes parsed: "createTaskGraph raw = Inr p" and ready: "readyTasks p state = Inr ready"
    and idle: "activeBranches state = []"
    and open_states: "\<forall>(k, e) \<in> set state. status e = Queued \<or> status e = Passed"
    and left: "\<exists>t \<in> set (tasks p). status (entryOf state t) = Queued"
  shows "ready \<noteq> []"
proof -
  have valid: "plan_valid p" using parsed PlanSchema_parse_Inr unfolding createTaskGraph_def by blast
  have keys: "set (map task_id (tasks p)) = set (map fst state)"
    and sel: "ready = selectReady state (activeBranches state) [] (tasks p)"
    using ready by (simp_all add: readyTasks_Inr_iff)
  have st: "\<exists>e. map_of state i = Some e \<and> (status e = Queued \<or> status e = Passed)"
    if "i \<in> set (map task_id (tasks p))" for i
  proof -
    obtain e where e: "map_of state i = Some e" using \<open>i \<in> _\<close> unfolding keys map_of_in_keys by auto
    with open_states have "status e = Queued \<or> status e = Passed" by (auto dest: map_of_SomeD)
    with e show ?thesis by blast
  qed
  let ?P = "\<lambda>i. map_option status (map_of state i) = Some Queued"
  from left obtain t where "t \<in> set (tasks p)" "?P (task_id t)"
    using st by (force simp: entryOf_def)
  from minimal_unfinished [OF valid, of t ?P, OF this]
  obtain u where u: "u \<in> set (tasks p)" "?P (task_id u)" "\<forall>d \<in> set (dependsOn u). \<not> ?P d"
    by blast
  have "map_option status (map_of state d) = Some Passed" if "d \<in> set (dependsOn u)" for d
  proof -
    have "d \<in> set (map task_id (tasks p))"
      using valid_deps_resolved [OF valid u(1) that] by auto
    from st [OF this] u(3) that show ?thesis by auto
  qed
  then have "eligible state u" using u(2) by (simp add: eligible_def dependenciesPassed_def)
  from selectReady_maximal [OF u(1) this, of "activeBranches state" "[]"] idle
  show ?thesis unfolding sel by auto
qed

lemma sample_chain_valid: "createTaskGraph (plan_as_input sample_chain) = Inr sample_chain"
  by (simp add: createTaskGraph_def PlanSchema_parse_def sample_chain_def sample_simps shapeIssues_def
      planIssues_def cycleIssues_def PlanShapeSchema_def PlanPhaseSchema_def PlanTaskSchema_def
      PlanTaskEstimateSchema_def IdentifierSchema_def stringListBounds_def planListsUnique_def
      taskListsUnique_def findCycle_def dependencyMap_def visit.simps getOr_def)

theorem readyTasks_progress_witness:
  "readyTasks sample_chain sample_state = Inr [sample_task ''b'' [''a'']] \<and>
   [sample_task ''b'' [''a'']] \<noteq> []"
proof -
  have "\<exists>t \<in> set (tasks sample_chain). status (entryOf sample_state t) = Queued"
    by (simp add: sample_chain_def sample_simps sample_state_def entryOf_def)
  moreover have "activeBranches sample_state = []"
    by (simp add: activeBranches_def sample_state_def ACTIVE_WRITER_STATES_def)
  moreover have "\<forall>(k, e) \<in> set sample_state. status e = Queued \<or> status e = Passed"
    by (simp add: sample_state_def)
  ultimately show ?thesis
    using readyTasks_progress [OF sample_chain_valid sample_ready] sample_ready by blast
qed

end
