(* ===== verification/Plan_Diff.thy ===== *)
theory Plan_Diff
  imports Planning
begin

text \<open>
  Plan diffs (\<^verbatim>\<open>packages/planning-engine/src/diff.ts\<close>): the diff schema, applying a diff to
  a plan, the impact that decides whether a diff is material, and the closure of the tasks
  that depend on a set of tasks.  The theory shows what a successful application does to the
  task set, that its result is again an accepted plan, that immaterial diffs only change
  titles, and that the closure is exactly reachability along reversed dependency edges.
\<close>

section \<open>Data and schema\<close>

record plan_diff_impact =
  impact_scope :: bool
  impact_costDelta :: bool
  impact_archChange :: bool
  impact_dataChange :: bool

record plan_diff =
  addedTasks :: "plan_task list"
  removedTaskIds :: "string list"
  modifiedTasks :: "plan_task list"
  supersededTaskIds :: "string list"
  impact :: plan_diff_impact

datatype plan_diff_issue =
    Diff_shape_invalid
  | Plan_diff_duplicate_task_id
  | Plan_diff_duplicate_task
  | Plan_diff_task_added_and_modified nat
  | Plan_diff_task_modified_and_superseded nat
  | Plan_diff_removed_task_not_superseded nat
  | Plan_diff_task_removed_and_modified nat

datatype plan_diff_error =
    Invalid_plan "plan_issue list"
  | Invalid_diff "plan_diff_issue list"
  | Plan_diff_seed_task_missing nat
  | Plan_diff_added_task_exists nat
  | Plan_diff_modified_task_missing nat
  | Plan_diff_superseded_task_missing nat

definition uniqueTaskIdList :: "string list \<Rightarrow> plan_diff_issue list" where
  "uniqueTaskIdList values =
     (if (\<forall>v \<in> set values. IdentifierSchema v) \<and> length values \<le> 10000
      then [] else [Diff_shape_invalid]) @
     (if distinct values then [] else [Plan_diff_duplicate_task_id])"

definition uniqueTasks :: "plan_task list \<Rightarrow> plan_diff_issue list" where
  "uniqueTasks ts =
     (if (\<forall>t \<in> set ts. PlanTaskSchema t \<and> taskListsUnique t) \<and> length ts \<le> 10000
      then [] else [Diff_shape_invalid]) @
     (if distinct (map task_id ts) then [] else [Plan_diff_duplicate_task])"

fun modifiedIssues :: "string list \<Rightarrow> string list \<Rightarrow> nat \<Rightarrow> plan_task list \<Rightarrow> plan_diff_issue list" where
  "modifiedIssues addedIds supersededIds index [] = []"
| "modifiedIssues addedIds supersededIds index (task # rest) =
     (if task_id task \<in> set addedIds then [Plan_diff_task_added_and_modified index] else []) @
     (if task_id task \<in> set supersededIds
      then [Plan_diff_task_modified_and_superseded index] else []) @
     modifiedIssues addedIds supersededIds (Suc index) rest"

fun removedIssues :: "string list \<Rightarrow> string list \<Rightarrow> nat \<Rightarrow> string list \<Rightarrow> plan_diff_issue list" where
  "removedIssues supersededIds modifiedIds index [] = []"
| "removedIssues supersededIds modifiedIds index (taskId # rest) =
     (if taskId \<notin> set supersededIds then [Plan_diff_removed_task_not_superseded index] else []) @
     (if taskId \<in> set modifiedIds then [Plan_diff_task_removed_and_modified index] else []) @
     removedIssues supersededIds modifiedIds (Suc index) rest"

definition diffIssues :: "plan_diff \<Rightarrow> plan_diff_issue list" where
  "diffIssues diff =
     uniqueTasks (addedTasks diff) @ uniqueTaskIdList (removedTaskIds diff) @
     uniqueTasks (modifiedTasks diff) @ uniqueTaskIdList (supersededTaskIds diff) @
     modifiedIssues (map task_id (addedTasks diff)) (supersededTaskIds diff) 0 (modifiedTasks diff) @
     removedIssues (supersededTaskIds diff) (map task_id (modifiedTasks diff)) 0 (removedTaskIds diff)"

definition PlanDiffSchema_parse :: "plan_diff \<Rightarrow> plan_diff_issue list + plan_diff" where
  "PlanDiffSchema_parse diff = (if diffIssues diff = [] then Inr diff else Inl (diffIssues diff))"

definition parsePlan :: "raw_plan \<Rightarrow> plan_diff_error + plan" where
  "parsePlan raw = (case PlanSchema_parse raw of Inl is \<Rightarrow> Inl (Invalid_plan is) | Inr p \<Rightarrow> Inr p)"

definition parseDiff :: "plan_diff \<Rightarrow> plan_diff_error + plan_diff" where
  "parseDiff d = (case PlanDiffSchema_parse d of Inl is \<Rightarrow> Inl (Invalid_diff is) | Inr d' \<Rightarrow> Inr d')"

section \<open>Applying a diff\<close>

definition assertDiffReferencesPlan :: "plan \<Rightarrow> plan_diff \<Rightarrow> plan_diff_error + unit" where
  "assertDiffReferencesPlan plan diff =
     (let currentIds = map task_id (tasks plan);
          invalidAdded = find (\<lambda>t. task_id t \<in> set currentIds) (addedTasks diff);
          invalidModified = find (\<lambda>t. task_id t \<notin> set currentIds) (modifiedTasks diff);
          invalidSuperseded = find (\<lambda>i. i \<notin> set currentIds) (supersededTaskIds diff)
      in case invalidAdded of
           Some t \<Rightarrow> Inl (Plan_diff_added_task_exists (first_index (addedTasks diff) t))
         | None \<Rightarrow> (case invalidModified of
             Some t \<Rightarrow> Inl (Plan_diff_modified_task_missing (first_index (modifiedTasks diff) t))
           | None \<Rightarrow> (case invalidSuperseded of
               Some i \<Rightarrow> Inl (Plan_diff_superseded_task_missing (first_index (supersededTaskIds diff) i))
             | None \<Rightarrow> Inr ())))"

definition retainedTasks :: "plan \<Rightarrow> plan_diff \<Rightarrow> plan_task list" where
  "retainedTasks plan diff =
     (let modifiedById = rev (map (\<lambda>t. (task_id t, t)) (modifiedTasks diff))
      in map (\<lambda>t. getOr modifiedById (task_id t) t)
           (filter (\<lambda>t. task_id t \<notin> set (supersededTaskIds diff)) (tasks plan)))"

definition applyPlanDiff :: "raw_plan \<Rightarrow> plan_diff \<Rightarrow> plan_diff_error + plan" where
  "applyPlanDiff planValue diffValue =
     andThen (parsePlan planValue) (\<lambda>plan.
     andThen (parseDiff diffValue) (\<lambda>diff.
     andThen (assertDiffReferencesPlan plan diff) (\<lambda>_.
       parsePlan (plan_as_input (plan\<lparr>tasks := retainedTasks plan diff @ addedTasks diff\<rparr>)))))"

section \<open>Impact\<close>

definition planEstimate :: "plan \<Rightarrow> int \<times> int" where
  "planEstimate plan =
     (sum_list (map (est_credits \<circ> task_estimate) (tasks plan)),
      sum_list (map (est_wallClockMinutes \<circ> task_estimate) (tasks plan)))"

definition copyOnly :: "plan_task \<Rightarrow> plan_task \<Rightarrow> bool" where
  "copyOnly current modified \<longleftrightarrow> modified = current\<lparr>task_title := task_title modified\<rparr>"

definition archChanged :: "plan_task \<Rightarrow> plan_task \<Rightarrow> bool" where
  "archChanged current modified \<longleftrightarrow>
     phaseId current \<noteq> phaseId modified \<or> dependsOn current \<noteq> dependsOn modified \<or>
     requiredTools current \<noteq> requiredTools modified \<or> expectedFiles current \<noteq> expectedFiles modified"

fun modifiedImpact :: "(string \<times> plan_task) list \<Rightarrow> plan_task list \<Rightarrow> bool \<times> bool \<Rightarrow> bool \<times> bool" where
  "modifiedImpact currentById [] (scope, archChange) = (scope, archChange)"
| "modifiedImpact currentById (modified # rest) (scope, archChange) =
     (case map_of currentById (task_id modified) of
        None \<Rightarrow> modifiedImpact currentById rest (scope, archChange)
      | Some current \<Rightarrow>
          modifiedImpact currentById rest
            (if copyOnly current modified then scope else True,
             if archChanged current modified then True else archChange))"

definition derivePlanDiffImpact :: "raw_plan \<Rightarrow> plan_diff \<Rightarrow> plan_diff_error + plan_diff_impact" where
  "derivePlanDiffImpact planValue diffValue =
     andThen (parsePlan planValue) (\<lambda>plan.
     andThen (parseDiff diffValue) (\<lambda>diff.
     andThen (applyPlanDiff (plan_as_input plan) diff) (\<lambda>nextPlan.
       let currentById = rev (map (\<lambda>t. (task_id t, t)) (tasks plan));
           (scope, archChange) =
             modifiedImpact currentById (modifiedTasks diff)
               (addedTasks diff \<noteq> [] \<or> supersededTaskIds diff \<noteq> [], False);
           costDelta = (planEstimate plan \<noteq> planEstimate nextPlan)
       in Inr \<lparr>impact_scope = scope \<or> impact_scope (impact diff),
               impact_costDelta = costDelta \<or> impact_costDelta (impact diff),
               impact_archChange = archChange \<or> impact_archChange (impact diff),
               impact_dataChange = impact_dataChange (impact diff)\<rparr>)))"

definition isMaterialPlanDiff :: "raw_plan \<Rightarrow> plan_diff \<Rightarrow> plan_diff_error + bool" where
  "isMaterialPlanDiff planValue diffValue =
     andThen (derivePlanDiffImpact planValue diffValue) (\<lambda>i.
       Inr (impact_scope i \<or> impact_costDelta i \<or> impact_archChange i \<or> impact_dataChange i))"

section \<open>The closure of dependent tasks\<close>

text \<open>
  The map from a task id to the ids of the tasks that depend on it, built by the two nested
  loops of the source.
\<close>

definition pushDependent :: "string \<Rightarrow> dep_map \<Rightarrow> string \<Rightarrow> dep_map" where
  "pushDependent taskId dependents dependencyId =
     AList.update dependencyId (getOr dependents dependencyId [] @ [taskId]) dependents"

definition dependentsOf :: "plan_task list \<Rightarrow> dep_map" where
  "dependentsOf ts = foldl (\<lambda>m t. foldl (pushDependent (task_id t)) m (dependsOn t)) [] ts"

text \<open>
  The loop over the growing queue: \<open>pending\<close> is the part of the queue from the current index
  on, and \<open>affected\<close> the insertion-ordered set.
\<close>

lemma getOr_subset: "set (getOr m x []) \<subseteq> \<Union> (set ` snd ` set m)"
proof (cases "map_of m x")
  case (Some ys)
  then have "(x, ys) \<in> set m" by (rule map_of_SomeD)
  then have "set ys \<subseteq> \<Union> (set ` snd ` set m)" by force
  with Some show ?thesis by (simp add: getOr_def)
qed (simp add: getOr_def)

function closureLoop :: "dep_map \<Rightarrow> string list \<Rightarrow> string list \<Rightarrow> string list" where
  "closureLoop dependents [] affected = affected"
| "closureLoop dependents (taskId # pending) affected =
     (let new = fresh affected (getOr dependents taskId [])
      in closureLoop dependents (pending @ new) (affected @ new))"
  by pat_completeness auto
termination
proof (relation "measures
    [\<lambda>(m, _, affected). card (\<Union> (set ` snd ` set m) - set affected),
     \<lambda>(_, pending, _). length pending]", goal_cases)
  case (2 m x pending affected new)
  show ?case
  proof (cases "new = []")
    case True
    then show ?thesis by simp
  next
    case False
    have sub: "set (getOr m x []) \<subseteq> \<Union> (set ` snd ` set m)"
      by (rule getOr_subset)
    from False obtain y where "y \<in> set new" by (cases new) auto
    with 2 sub have "y \<in> \<Union> (set ` snd ` set m) - set affected" "y \<in> set (affected @ new)"
      by auto
    then have "card (\<Union> (set ` snd ` set m) - set (affected @ new))
        < card (\<Union> (set ` snd ` set m) - set affected)"
      by (intro psubset_card_mono) auto
    then show ?thesis by simp
  qed
qed auto

definition dependentTaskClosure :: "raw_plan \<Rightarrow> string list \<Rightarrow> plan_diff_error + string list" where
  "dependentTaskClosure planValue seedTaskIds =
     andThen (parsePlan planValue) (\<lambda>plan.
       if uniqueTaskIdList seedTaskIds \<noteq> [] then Inl (Invalid_diff (uniqueTaskIdList seedTaskIds))
       else case find (\<lambda>i. i \<notin> set (map task_id (tasks plan))) seedTaskIds of
         Some unknownTaskId \<Rightarrow> Inl (Plan_diff_seed_task_missing (first_index seedTaskIds unknownTaskId))
       | None \<Rightarrow>
           let affected = closureLoop (dependentsOf (tasks plan)) seedTaskIds seedTaskIds
           in Inr (map task_id (filter (\<lambda>t. task_id t \<in> set affected) (tasks plan))))"

section \<open>Facts: the diff schema\<close>

definition diff_valid :: "plan_diff \<Rightarrow> bool" where
  "diff_valid d \<longleftrightarrow>
     uniqueTasks (addedTasks d) = [] \<and> uniqueTaskIdList (removedTaskIds d) = [] \<and>
     uniqueTasks (modifiedTasks d) = [] \<and> uniqueTaskIdList (supersededTaskIds d) = [] \<and>
     task_id ` set (modifiedTasks d) \<inter> task_id ` set (addedTasks d) = {} \<and>
     task_id ` set (modifiedTasks d) \<inter> set (supersededTaskIds d) = {} \<and>
     set (removedTaskIds d) \<subseteq> set (supersededTaskIds d) \<and>
     set (removedTaskIds d) \<inter> task_id ` set (modifiedTasks d) = {}"

lemma modifiedIssues_Nil_iff:
  "modifiedIssues as ss i ts = [] \<longleftrightarrow> task_id ` set ts \<inter> (set as \<union> set ss) = {}"
  by (induction as ss i ts rule: modifiedIssues.induct) auto

lemma removedIssues_Nil_iff:
  "removedIssues ss ms i ids = [] \<longleftrightarrow> set ids \<subseteq> set ss \<and> set ids \<inter> set ms = {}"
  by (induction ss ms i ids rule: removedIssues.induct) auto

lemma diffIssues_Nil_iff: "diffIssues d = [] \<longleftrightarrow> diff_valid d"
  by (auto simp: diffIssues_def diff_valid_def modifiedIssues_Nil_iff removedIssues_Nil_iff)

lemma parseDiff_Inr: "parseDiff d = Inr d' \<longleftrightarrow> d' = d \<and> diff_valid d"
  by (auto simp: parseDiff_def PlanDiffSchema_parse_def diffIssues_Nil_iff)

lemma parsePlan_Inr: "parsePlan raw = Inr p \<longleftrightarrow> PlanSchema_parse raw = Inr p"
  by (auto simp: parsePlan_def split: sum.splits)

interpretation diff_schema: schema PlanDiffSchema_parse "\<lambda>d. d"
  by unfold_locales (auto simp: PlanDiffSchema_parse_def split: if_splits)

lemma assertDiff_Inr:
  "assertDiffReferencesPlan p d = Inr u \<longleftrightarrow>
     task_id ` set (addedTasks d) \<inter> task_id ` set (tasks p) = {} \<and>
     task_id ` set (modifiedTasks d) \<subseteq> task_id ` set (tasks p) \<and>
     set (supersededTaskIds d) \<subseteq> task_id ` set (tasks p)"
proof -
  have "find (\<lambda>t. task_id t \<in> set (map task_id (tasks p))) (addedTasks d) = None \<longleftrightarrow>
      task_id ` set (addedTasks d) \<inter> task_id ` set (tasks p) = {}"
    by (auto simp: find_None_iff)
  moreover have "find (\<lambda>t. task_id t \<notin> set (map task_id (tasks p))) (modifiedTasks d) = None \<longleftrightarrow>
      task_id ` set (modifiedTasks d) \<subseteq> task_id ` set (tasks p)"
    by (auto simp: find_None_iff)
  moreover have "find (\<lambda>i. i \<notin> set (map task_id (tasks p))) (supersededTaskIds d) = None \<longleftrightarrow>
      set (supersededTaskIds d) \<subseteq> task_id ` set (tasks p)"
    by (auto simp: find_None_iff)
  ultimately show ?thesis
    unfolding assertDiffReferencesPlan_def Let_def
    by (cases "find (\<lambda>t. task_id t \<in> set (map task_id (tasks p))) (addedTasks d)";
        cases "find (\<lambda>t. task_id t \<notin> set (map task_id (tasks p))) (modifiedTasks d)";
        cases "find (\<lambda>i. i \<notin> set (map task_id (tasks p))) (supersededTaskIds d)")
      (simp_all del: set_map)
qed

lemma applyPlanDiff_Inr:
  "applyPlanDiff raw d = Inr q \<longleftrightarrow>
     (\<exists>p. PlanSchema_parse raw = Inr p \<and> diff_valid d \<and> assertDiffReferencesPlan p d = Inr () \<and>
          q = p\<lparr>tasks := retainedTasks p d @ addedTasks d\<rparr> \<and> plan_valid q)"
  by (auto simp: applyPlanDiff_def andThen_Inr_iff parsePlan_Inr parseDiff_Inr)

lemma map_of_by_id:
  assumes "distinct (map task_id ts)"
  shows "map_of (rev (map (\<lambda>t. (task_id t, t)) ts)) i = Some t \<longleftrightarrow> t \<in> set ts \<and> task_id t = i"
proof -
  have "distinct (map fst (rev (map (\<lambda>t. (task_id t, t)) ts)))"
    using assms by (simp add: rev_map [symmetric] comp_def)
  from map_of_eq_Some_iff [OF this] show ?thesis by auto
qed

lemma retained_id:
  assumes "distinct (map task_id (modifiedTasks d))"
  shows "task_id (getOr (rev (map (\<lambda>t. (task_id t, t)) (modifiedTasks d))) (task_id t) t) = task_id t"
  using map_of_by_id [OF assms] by (auto simp: getOr_def split: option.splits)

lemma diff_valid_distinct:
  "diff_valid d \<Longrightarrow> distinct (map task_id (modifiedTasks d)) \<and> distinct (map task_id (addedTasks d))"
  by (auto simp: diff_valid_def uniqueTasks_def split: if_splits)

lemma retained_ids:
  assumes "diff_valid d"
  shows "map task_id (retainedTasks p d) =
    filter (\<lambda>i. i \<notin> set (supersededTaskIds d)) (map task_id (tasks p))"
  using diff_valid_distinct [OF assms]
  by (simp add: retainedTasks_def Let_def filter_map comp_def retained_id)

lemma modified_is_retained:
  assumes "diff_valid d" and "task_id ` set (modifiedTasks d) \<subseteq> task_id ` set (tasks p)"
    and "m \<in> set (modifiedTasks d)"
  shows "m \<in> set (retainedTasks p d)"
proof -
  from assms obtain t where t: "t \<in> set (tasks p)" "task_id t = task_id m" by auto
  have "task_id t \<notin> set (supersededTaskIds d)"
    using assms t by (auto simp: diff_valid_def)
  moreover have "getOr (rev (map (\<lambda>t. (task_id t, t)) (modifiedTasks d))) (task_id t) t = m"
    using map_of_by_id [of "modifiedTasks d" "task_id t" m] diff_valid_distinct [OF assms(1)] assms(3) t
    by (simp add: getOr_def)
  ultimately show ?thesis using t(1) by (force simp: retainedTasks_def Let_def)
qed

lemma untouched_is_retained:
  assumes "diff_valid d" and "t \<in> set (tasks p)" and "task_id t \<notin> set (supersededTaskIds d)"
    and "task_id t \<notin> task_id ` set (modifiedTasks d)"
  shows "t \<in> set (retainedTasks p d)"
proof -
  have "map_of (rev (map (\<lambda>t. (task_id t, t)) (modifiedTasks d))) (task_id t) = None"
    using assms(4) by (force simp: map_of_eq_None_iff)
  then show ?thesis using assms(2,3) by (force simp: retainedTasks_def Let_def getOr_def)
qed

section \<open>Facts: impact\<close>

lemma modifiedImpact_eq:
  "modifiedImpact cur ms (s, a) =
     (s \<or> (\<exists>m \<in> set ms. \<exists>c. map_of cur (task_id m) = Some c \<and> \<not> copyOnly c m),
      a \<or> (\<exists>m \<in> set ms. \<exists>c. map_of cur (task_id m) = Some c \<and> archChanged c m))"
  by (induction cur ms "(s, a)" arbitrary: s a rule: modifiedImpact.induct) (auto split: option.splits)

lemma copyOnly_not_arch: "copyOnly c m \<Longrightarrow> \<not> archChanged c m"
proof -
  assume "copyOnly c m"
  then obtain x where "m = c\<lparr>task_title := x\<rparr>" by (auto simp: copyOnly_def)
  then show ?thesis by (simp add: archChanged_def)
qed

section \<open>Facts: the closure\<close>

lemma getOr_pushDependent:
  "getOr (pushDependent t m d) x [] = getOr m x [] @ (if x = d then [t] else [])"
  by (simp add: pushDependent_def)

lemma getOr_push_all:
  "set (getOr (foldl (pushDependent t) m ds) x []) = set (getOr m x []) \<union> (if x \<in> set ds then {t} else {})"
proof (induction ds arbitrary: m)
  case (Cons d ds)
  have "set (getOr (foldl (pushDependent t) m (d # ds)) x []) =
      set (getOr (pushDependent t m d) x []) \<union> (if x \<in> set ds then {t} else {})"
    using Cons [of "pushDependent t m d"] by (simp only: foldl_Cons)
  also have "\<dots> = set (getOr m x []) \<union> (if x \<in> set (d # ds) then {t} else {})"
    unfolding getOr_pushDependent by (cases "x = d"; cases "x \<in> set ds") simp_all
  finally show ?case .
qed simp

lemma set_dependents_gen:
  "set (getOr (foldl (\<lambda>m t. foldl (pushDependent (task_id t)) m (dependsOn t)) m ts) x []) =
     set (getOr m x []) \<union> {a. (a, x) \<in> taskDeps ts}"
  by (induction ts arbitrary: m) (auto simp: getOr_push_all taskDeps_def)

lemma set_dependentsOf: "set (getOr (dependentsOf ts) x []) = {a. (a, x) \<in> taskDeps ts}"
  by (simp add: dependentsOf_def set_dependents_gen) (simp add: getOr_def)

lemma rtrancl_closed:
  assumes "\<And>x y. x \<in> A \<Longrightarrow> (x, y) \<in> r \<Longrightarrow> y \<in> A" and "x \<in> A"
  shows "(x, y) \<in> r\<^sup>* \<Longrightarrow> y \<in> A"
  by (induction rule: rtrancl_induct) (auto intro: assms)

lemma closureLoop_reaches:
  assumes "set pending \<subseteq> set affected"
    and "\<And>x. x \<in> set affected - set pending \<Longrightarrow> set (getOr m x []) \<subseteq> set affected"
  shows "set (closureLoop m pending affected) = {(x, y). y \<in> set (getOr m x [])}\<^sup>* `` set affected"
  using assms
proof (induction m pending affected rule: closureLoop.induct)
  case (1 m affected)
  have "y \<in> set affected"
    if "x \<in> set affected" "(x, y) \<in> {(x, y). y \<in> set (getOr m x [])}\<^sup>*" for x y
    using that(2) by (rule rtrancl_closed [OF _ that(1), rotated]) (use 1 in auto)
  then show ?case by auto
next
  case (2 m q pending affected)
  let ?r = "{(x, y). y \<in> set (getOr m x [])}"
  define new where "new = fresh affected (getOr m q [])"
  have q: "q \<in> set affected" using "2.prems"(1) by simp
  have closed: "set (getOr m x []) \<subseteq> set (affected @ new)"
    if "x \<in> set (affected @ new) - set (pending @ new)" for x
    using that "2.prems"(2) [of x] by (cases "x = q") (auto simp: new_def)
  have "set (closureLoop m (q # pending) affected) = ?r\<^sup>* `` set (affected @ new)"
    using "2.IH" [OF new_def _ closed] "2.prems"(1) by (auto simp: Let_def new_def [symmetric])
  also have "\<dots> = ?r\<^sup>* `` set affected"
  proof -
    have "(q, y) \<in> ?r" if "y \<in> set new" for y using that by (auto simp: new_def)
    then show ?thesis using q by (auto intro: converse_rtrancl_into_rtrancl)
  qed
  finally show ?case .
qed

section \<open>Properties\<close>

text \<open>
  C5.  A diff that applies gives an accepted plan with the same phases and budget whose task
  ids are the surviving ones in their old order followed by the added ones; every modified and
  added task is in it as given and every task the diff does not mention is unchanged.
\<close>

theorem applyPlanDiff_effect:
  assumes "applyPlanDiff raw d = Inr q"
  shows "\<exists>p. PlanSchema_parse raw = Inr p \<and> plan_valid q \<and> phases q = phases p \<and> budget q = budget p \<and>
    map task_id (tasks q) =
      filter (\<lambda>i. i \<notin> set (supersededTaskIds d)) (map task_id (tasks p)) @ map task_id (addedTasks d) \<and>
    set (modifiedTasks d) \<union> set (addedTasks d) \<subseteq> set (tasks q) \<and>
    (\<forall>t \<in> set (tasks p). task_id t \<notin> set (supersededTaskIds d) \<longrightarrow>
       task_id t \<notin> task_id ` set (modifiedTasks d) \<longrightarrow> t \<in> set (tasks q))"
proof -
  from assms obtain p where p: "PlanSchema_parse raw = Inr p" "diff_valid d"
      "assertDiffReferencesPlan p d = Inr ()"
      "q = p\<lparr>tasks := retainedTasks p d @ addedTasks d\<rparr>" "plan_valid q"
    unfolding applyPlanDiff_Inr by blast
  have "set (modifiedTasks d) \<subseteq> set (retainedTasks p d)"
    using modified_is_retained [OF p(2)] p(3) unfolding assertDiff_Inr by blast
  with p retained_ids [OF p(2), of p] untouched_is_retained [OF p(2)]
  show ?thesis by (intro exI [of _ p]) auto
qed

definition sample_diff :: plan_diff where
  "sample_diff = \<lparr>addedTasks = [sample_task ''d'' [''a'']], removedTaskIds = [''c''],
     modifiedTasks = [(sample_task ''b'' [''a''])\<lparr>task_title := ''new''\<rparr>],
     supersededTaskIds = [''c''],
     impact = \<lparr>impact_scope = False, impact_costDelta = False, impact_archChange = False,
               impact_dataChange = False\<rparr>\<rparr>"

definition sample_next :: plan where
  "sample_next = sample_plan [sample_task ''a'' [],
     (sample_task ''b'' [''a''])\<lparr>task_title := ''new''\<rparr>, sample_task ''d'' [''a'']]"

lemmas schema_simps = shapeIssues_def planIssues_def cycleIssues_def PlanShapeSchema_def
  PlanPhaseSchema_def PlanTaskSchema_def PlanTaskEstimateSchema_def IdentifierSchema_def
  stringListBounds_def planListsUnique_def taskListsUnique_def findCycle_def dependencyMap_def
  visit.simps getOr_def

lemma sample_parse: "PlanSchema_parse (plan_as_input sample_chain) = Inr sample_chain"
  using sample_chain_valid by (simp add: createTaskGraph_def)

lemma sample_diff_valid: "parseDiff sample_diff = Inr sample_diff"
  by (simp add: parseDiff_def PlanDiffSchema_parse_def diffIssues_def sample_diff_def uniqueTasks_def
      uniqueTaskIdList_def sample_simps schema_simps)

lemma sample_next_valid: "PlanSchema_parse (plan_as_input sample_next) = Inr sample_next"
  by (simp add: PlanSchema_parse_def sample_next_def sample_simps schema_simps)

lemma sample_apply: "applyPlanDiff (plan_as_input sample_chain) sample_diff = Inr sample_next"
proof -
  have eq: "sample_chain\<lparr>tasks := retainedTasks sample_chain sample_diff @ addedTasks sample_diff\<rparr> = sample_next"
    by (simp add: sample_chain_def sample_next_def sample_diff_def sample_simps retainedTasks_def getOr_def)
  have "assertDiffReferencesPlan sample_chain sample_diff = Inr ()"
    unfolding assertDiff_Inr by (simp add: sample_chain_def sample_diff_def sample_simps)
  then show ?thesis
    using sample_parse sample_diff_valid sample_next_valid
    by (simp add: applyPlanDiff_def parsePlan_def eq del: parse_valid_iff)
qed

theorem applyPlanDiff_effect_witness:
  "map task_id (tasks sample_next) = [''a'', ''b'', ''d''] \<and> plan_valid sample_next"
proof -
  have "map task_id (tasks sample_next) = [''a'', ''b'', ''d'']"
    by (simp add: sample_next_def sample_simps)
  with applyPlanDiff_effect [OF sample_apply] show ?thesis by blast
qed

text \<open>
  C6.  A diff that is judged immaterial leaves the plan's structure alone: it adds and removes
  nothing, and every task keeps all its fields but possibly the title.
\<close>

theorem immaterial_diff_only_retitles:
  assumes "isMaterialPlanDiff raw d = Inr False"
  shows "\<exists>p q. PlanSchema_parse raw = Inr p \<and> applyPlanDiff raw d = Inr q \<and>
    list_all2 copyOnly (tasks p) (tasks q) \<and> planEstimate q = planEstimate p"
proof -
  from assms obtain i where i: "derivePlanDiffImpact raw d = Inr i"
      "\<not> impact_scope i" "\<not> impact_costDelta i"
    by (auto simp: isMaterialPlanDiff_def andThen_Inr_iff)
  then obtain p q where p: "PlanSchema_parse raw = Inr p" "diff_valid d"
      "applyPlanDiff (plan_as_input p) d = Inr q"
    and none: "addedTasks d = []" "supersededTaskIds d = []"
    and copies: "\<forall>m \<in> set (modifiedTasks d). \<forall>c.
       map_of (rev (map (\<lambda>t. (task_id t, t)) (tasks p))) (task_id m) = Some c \<longrightarrow> copyOnly c m"
    and cost: "planEstimate p = planEstimate q"
    by (auto simp: derivePlanDiffImpact_def andThen_Inr_iff parsePlan_Inr parseDiff_Inr modifiedImpact_eq Let_def)
  have valid: "plan_valid p" using p(1) PlanSchema_parse_Inr by blast
  from p(3) have q: "q = p\<lparr>tasks := retainedTasks p d\<rparr>" by (auto simp: applyPlanDiff_Inr none)
  have "copyOnly t (getOr (rev (map (\<lambda>t. (task_id t, t)) (modifiedTasks d))) (task_id t) t)"
    if "t \<in> set (tasks p)" for t
  proof (cases "map_of (rev (map (\<lambda>t. (task_id t, t)) (modifiedTasks d))) (task_id t)")
    case (Some m)
    then have "m \<in> set (modifiedTasks d)" "task_id m = task_id t"
      using map_of_by_id diff_valid_distinct [OF p(2)] by blast+
    with copies map_of_by_id [OF valid_ids_distinct [OF valid]] that Some
    show ?thesis by (simp add: getOr_def)
  qed (simp add: getOr_def copyOnly_def)
  then have "list_all2 copyOnly (tasks p) (tasks q)"
    by (simp add: q retainedTasks_def none list.rel_map list_all2_same)
  moreover have "applyPlanDiff raw d = applyPlanDiff (plan_as_input p) d"
    using p(1) valid by (simp add: applyPlanDiff_def parsePlan_def)
  ultimately show ?thesis using p cost by auto
qed

definition sample_retitle :: plan_diff where
  "sample_retitle = sample_diff\<lparr>addedTasks := [], removedTaskIds := [], supersededTaskIds := []\<rparr>"

theorem immaterial_diff_only_retitles_witness:
  "isMaterialPlanDiff (plan_as_input sample_chain) sample_retitle = Inr False \<and>
   (\<exists>q. applyPlanDiff (plan_as_input sample_chain) sample_retitle = Inr q \<and>
        list_all2 copyOnly (tasks sample_chain) (tasks q))"
proof -
  have d: "parseDiff sample_retitle = Inr sample_retitle"
    by (simp add: parseDiff_def PlanDiffSchema_parse_def diffIssues_def sample_retitle_def sample_diff_def
        uniqueTasks_def uniqueTaskIdList_def sample_simps schema_simps)
  have a: "assertDiffReferencesPlan sample_chain sample_retitle = Inr ()"
    unfolding assertDiff_Inr by (simp add: sample_chain_def sample_retitle_def sample_diff_def sample_simps)
  have none: "addedTasks sample_retitle = []" by (simp add: sample_retitle_def)
  define q where "q = sample_chain\<lparr>tasks := retainedTasks sample_chain sample_retitle\<rparr>"
  have q: "q = sample_plan [sample_task ''a'' [], (sample_task ''b'' [''a''])\<lparr>task_title := ''new''\<rparr>,
      sample_task ''c'' []]"
    by (simp add: q_def sample_chain_def sample_retitle_def sample_diff_def sample_simps
        retainedTasks_def getOr_def)
  have "PlanSchema_parse (plan_as_input q) = Inr q"
    by (simp add: PlanSchema_parse_def q sample_simps schema_simps)
  then have ap: "applyPlanDiff (plan_as_input sample_chain) sample_retitle = Inr q"
    using sample_parse d a none
    by (simp add: applyPlanDiff_def parsePlan_def q_def [symmetric] del: parse_valid_iff)
  have m: "isMaterialPlanDiff (plan_as_input sample_chain) sample_retitle = Inr False"
    using sample_parse d ap
    by (simp add: isMaterialPlanDiff_def derivePlanDiffImpact_def parsePlan_def q sample_chain_def
        sample_retitle_def sample_diff_def sample_simps planEstimate_def copyOnly_def archChanged_def
        del: parse_valid_iff)
  from immaterial_diff_only_retitles [OF m] ap m sample_parse show ?thesis by auto
qed

text \<open>
  \<open>dependentTaskClosure\<close> terminates and returns, in plan order, exactly the tasks that reach
  a seed along dependency edges; it throws only for a rejected plan or seed list or an unknown
  seed.
\<close>

theorem dependentTaskClosure_reachability:
  assumes "PlanSchema_parse raw = Inr p" and "uniqueTaskIdList seeds = []"
    and "set seeds \<subseteq> set (map task_id (tasks p))"
  shows "dependentTaskClosure raw seeds =
    Inr (filter (\<lambda>i. \<exists>s \<in> set seeds. (i, s) \<in> (taskDeps (tasks p))\<^sup>*) (map task_id (tasks p)))"
proof -
  let ?r = "{(x, y). y \<in> set (getOr (dependentsOf (tasks p)) x [])}"
  have r: "?r = (taskDeps (tasks p))\<inverse>" by (auto simp: set_dependentsOf)
  have "set (closureLoop (dependentsOf (tasks p)) seeds seeds) = ?r\<^sup>* `` set seeds"
    by (rule closureLoop_reaches) auto
  then have "i \<in> set (closureLoop (dependentsOf (tasks p)) seeds seeds) \<longleftrightarrow>
      (\<exists>s \<in> set seeds. (i, s) \<in> (taskDeps (tasks p))\<^sup>*)" for i
    unfolding r by (auto simp: rtrancl_converse)
  moreover have "find (\<lambda>i. i \<notin> set (map task_id (tasks p))) seeds = None"
    using assms(3) by (auto simp: find_None_iff)
  ultimately show ?thesis
    using assms by (simp add: dependentTaskClosure_def parsePlan_def filter_map comp_def del: set_map)
qed

theorem dependentTaskClosure_reachability_witness:
  "dependentTaskClosure (plan_as_input sample_chain) [''a''] =
     Inr (filter (\<lambda>i. \<exists>s \<in> set [''a'']. (i, s) \<in> (taskDeps (tasks sample_chain))\<^sup>*) [''a'', ''b'', ''c''])"
proof -
  have ids: "map task_id (tasks sample_chain) = [''a'', ''b'', ''c'']"
    by (simp add: sample_chain_def sample_simps)
  have seeds: "uniqueTaskIdList [''a''] = []" by (simp add: uniqueTaskIdList_def IdentifierSchema_def)
  have sub: "set [''a''] \<subseteq> set (map task_id (tasks sample_chain))" by (simp add: ids)
  from dependentTaskClosure_reachability [OF sample_parse seeds sub] show ?thesis unfolding ids .
qed

end
