(* ===== verification/Interview.thy ===== *)
theory Interview
  imports Prelude
begin

text \<open>
  The specification interview (\<^verbatim>\<open>packages/specification-engine/src/interview.ts\<close>): thirteen
  decision categories, one question each with a consequence score and a recommended option, and
  a session that asks up to three open questions at a time, highest score first, and records
  the answers.  A delegated answer ("you decide") records the recommended option as an
  assumption.  The theory shows the invariant of a session, that no operation of a fresh session
  can be refused by the state schema, that the questions asked are the highest-scoring open
  ones, and that answering what is asked completes the interview.
\<close>

section \<open>Categories and questions\<close>

datatype interview_category =
    TargetUsers | UserRoles | CoreWorkflows | DataEntities | Permissions | Authentication
  | Billing | Integrations | PlatformPriority | ProductionBehavior | CriticalWorkflows
  | DataSensitivity | DeploymentOwnership

definition INTERVIEW_CATEGORIES :: "interview_category list" where
  "INTERVIEW_CATEGORIES =
     [TargetUsers, UserRoles, CoreWorkflows, DataEntities, Permissions, Authentication,
      Billing, Integrations, PlatformPriority, ProductionBehavior, CriticalWorkflows,
      DataSensitivity, DeploymentOwnership]"

fun category_name :: "interview_category \<Rightarrow> string" where
  "category_name TargetUsers = ''targetUsers''"
| "category_name UserRoles = ''userRoles''"
| "category_name CoreWorkflows = ''coreWorkflows''"
| "category_name DataEntities = ''dataEntities''"
| "category_name Permissions = ''permissions''"
| "category_name Authentication = ''authentication''"
| "category_name Billing = ''billing''"
| "category_name Integrations = ''integrations''"
| "category_name PlatformPriority = ''platformPriority''"
| "category_name ProductionBehavior = ''productionBehavior''"
| "category_name CriticalWorkflows = ''criticalWorkflows''"
| "category_name DataSensitivity = ''dataSensitivity''"
| "category_name DeploymentOwnership = ''deploymentOwnership''"

record consequence =
  csq_architecture :: nat
  csq_scope :: nat
  csq_risk :: nat
  csq_acceptanceCriteria :: nat

record interview_option =
  option_label :: string
  option_tradeoff :: string
  recommended :: bool

record interview_question_definition =
  q_category :: interview_category
  q_question :: string
  q_consequence :: consequence
  q_options :: "interview_option list"

definition ConsequenceSchema :: "consequence \<Rightarrow> bool" where
  "ConsequenceSchema c \<longleftrightarrow>
     csq_architecture c \<le> 3 \<and> csq_scope c \<le> 3 \<and> csq_risk c \<le> 3 \<and> csq_acceptanceCriteria c \<le> 3"

definition InterviewOptionSchema :: "interview_option \<Rightarrow> bool" where
  "InterviewOptionSchema opt \<longleftrightarrow>
     1 \<le> length (trim (option_label opt)) \<and> length (trim (option_label opt)) \<le> 500 \<and>
     1 \<le> length (trim (option_tradeoff opt)) \<and> length (trim (option_tradeoff opt)) \<le> 2000"

definition InterviewQuestionDefinitionSchema :: "interview_question_definition \<Rightarrow> bool" where
  "InterviewQuestionDefinitionSchema d \<longleftrightarrow>
     1 \<le> length (trim (q_question d)) \<and> length (trim (q_question d)) \<le> 2000 \<and>
     ConsequenceSchema (q_consequence d) \<and>
     (\<forall>opt \<in> set (q_options d). InterviewOptionSchema opt) \<and>
     2 \<le> length (q_options d) \<and> length (q_options d) \<le> 5 \<and>
     length (filter recommended (q_options d)) = 1"

text \<open>The rows of the question table: category, question, the four scores, the two options.\<close>

definition question ::
    "interview_category \<Rightarrow> string \<Rightarrow> nat \<Rightarrow> nat \<Rightarrow> nat \<Rightarrow> nat \<Rightarrow> string \<Rightarrow> string \<Rightarrow> string \<Rightarrow> string
       \<Rightarrow> interview_question_definition" where
  "question c q a s r ac l1 t1 l2 t2 =
     \<lparr>q_category = c, q_question = q,
      q_consequence = \<lparr>csq_architecture = a, csq_scope = s, csq_risk = r, csq_acceptanceCriteria = ac\<rparr>,
      q_options = [\<lparr>option_label = l1, option_tradeoff = t1, recommended = True\<rparr>,
                   \<lparr>option_label = l2, option_tradeoff = t2, recommended = False\<rparr>]\<rparr>"

definition question_targetUsers :: interview_question_definition where
  "question_targetUsers =
     question TargetUsers ''Who is the primary user for the first releasable workflow?'' 1 3 1 2
       ''One narrow professional persona''
       ''Fastest path to precise workflows, but secondary personas wait.''
       ''Several equal-priority personas''
       ''Broader reach, but navigation and requirements become more complex.''"

definition question_userRoles :: interview_question_definition where
  "question_userRoles =
     question UserRoles ''Which user-role model must the first release support?'' 2 2 2 2
       ''Owner, builder, and viewer''
       ''Covers the common collaboration boundary with a modest policy surface.''
       ''Custom roles and permissions''
       ''More flexible, but adds policy editing, validation, and migration work.''"

definition question_coreWorkflows :: interview_question_definition where
  "question_coreWorkflows =
     question CoreWorkflows ''Which workflow must work end to end before the product is useful?'' 2 3 2 3
       ''One explicit critical workflow''
       ''Creates a sharp release gate while deferring less important paths.''
       ''A broad workflow suite''
       ''Covers more scenarios, but raises build and verification scope substantially.''"

definition question_dataEntities :: interview_question_definition where
  "question_dataEntities =
     question DataEntities ''What is the smallest durable data model required for the critical workflow?'' 3 2 2 2
       ''Only entities used by the critical workflow''
       ''Keeps migrations small, but later workflows may add compatible schema changes.''
       ''The anticipated full domain model''
       ''May reduce later migrations, but risks speculative complexity now.''"

definition question_permissions :: interview_question_definition where
  "question_permissions =
     question Permissions ''Where must authorization be enforced?'' 3 1 3 3
       ''Server-side on every tenant resource''
       ''Strong isolation with explicit policy tests; UI checks remain convenience only.''
       ''Shared resources with client-side visibility rules''
       ''Simpler server code, but does not provide an acceptable isolation boundary.''"

definition question_authentication :: interview_question_definition where
  "question_authentication =
     question Authentication ''How should users authenticate in the first production release?'' 3 2 3 2
       ''Managed identity provider''
       ''Reduces credential risk, but introduces a vendor integration and test project.''
       ''Application-managed credentials''
       ''Avoids an external dependency, but creates a large security and recovery burden.''"

definition question_billing :: interview_question_definition where
  "question_billing =
     question Billing ''Does the first release need paid-plan enforcement?'' 2 3 2 2
       ''No billing in the first release''
       ''Shortens launch scope, but monetization and entitlement work follow later.''
       ''Usage-based paid plans at launch''
       ''Supports revenue immediately, but adds metering, webhooks, and reconciliation.''"

definition question_integrations :: interview_question_definition where
  "question_integrations =
     question Integrations ''Which external systems are required for the critical workflow?'' 3 3 2 2
       ''Only launch-blocking integrations''
       ''Limits failure modes while preserving the required workflow.''
       ''All requested integrations''
       ''Improves breadth, but multiplies credentials, retries, and provider testing.''"

definition question_platformPriority :: interview_question_definition where
  "question_platformPriority =
     question PlatformPriority ''Which client platform is authoritative for the first release?'' 2 3 1 2
       ''Responsive web first''
       ''Maximizes reach with one client, but defers native-only capabilities.''
       ''Web and native mobile together''
       ''Covers more devices, but roughly doubles client delivery and QA surfaces.''"

definition question_productionBehavior :: interview_question_definition where
  "question_productionBehavior =
     question ProductionBehavior ''What production guarantees are mandatory at launch?'' 3 2 3 3
       ''Explicit reliability, recovery, and observability criteria''
       ''Adds operational work, but makes production readiness verifiable.''
       ''Best-effort prototype behavior''
       ''Launches sooner, but is not suitable for production-critical workflows.''"

definition question_criticalWorkflows :: interview_question_definition where
  "question_criticalWorkflows =
     question CriticalWorkflows ''Which workflows must be protected by release-blocking regression tests?'' 1 2 3 3
       ''The primary journey plus destructive actions''
       ''Protects the highest-consequence paths without blocking on exhaustive coverage.''
       ''Every visible interaction''
       ''Offers broad coverage, but creates a slower and more brittle release gate.''"

definition question_dataSensitivity :: interview_question_definition where
  "question_dataSensitivity =
     question DataSensitivity ''What is the most sensitive data the product will handle?'' 3 1 3 2
       ''Business-confidential data, no regulated records''
       ''Still requires tenant isolation and encryption, but avoids regulated-data scope.''
       ''Regulated or highly sensitive records''
       ''Requires stricter retention, access, audit, and compliance controls.''"

definition question_deploymentOwnership :: interview_question_definition where
  "question_deploymentOwnership =
     question DeploymentOwnership ''Who owns production deployment and rollback?'' 2 2 3 2
       ''The customer approves; the platform executes''
       ''Keeps a human release gate while allowing repeatable automation.''
       ''The customer operates deployment directly''
       ''Provides maximum control, but requires handoff tooling and customer operations skill.''"

definition INTERVIEW_QUESTIONS :: "interview_question_definition list" where
  "INTERVIEW_QUESTIONS =
    [question_targetUsers,
     question_userRoles,
     question_coreWorkflows,
     question_dataEntities,
     question_permissions,
     question_authentication,
     question_billing,
     question_integrations,
     question_platformPriority,
     question_productionBehavior,
     question_criticalWorkflows,
     question_dataSensitivity,
     question_deploymentOwnership]"

definition consequenceScore :: "consequence \<Rightarrow> nat" where
  "consequenceScore c =
     csq_architecture c + csq_scope c + csq_risk c + csq_acceptanceCriteria c"

section \<open>Session state\<close>

datatype resolution_source = User | Assumption

record resolution =
  decision :: string
  source :: resolution_source

record interview_state =
  resolutions :: "interview_category \<rightharpoonup> resolution"
  assumptions :: "string list"
  pendingCategories :: "interview_category list"

record interview_response =
  r_category :: interview_category
  r_answer :: string

datatype interview_error =
    Interview_state_shape
  | Interview_pending_category_duplicate
  | Interview_pending_category_already_resolved nat
  | Interview_response_shape
  | Interview_response_category_duplicate
  | Interview_response_not_pending nat
  | Interview_question_missing interview_category
  | Interview_recommendation_missing interview_category

definition text_ok :: "string \<Rightarrow> bool" where
  "text_ok s \<longleftrightarrow> 1 \<le> length (trim s) \<and> length (trim s) \<le> 20000"

text \<open>
  The state schema trims every text (an output text is the trimmed input) and refuses states
  whose texts or lists are out of bounds, whose pending categories repeat or are resolved.
\<close>

definition trimState :: "interview_state \<Rightarrow> interview_state" where
  "trimState st =
     st\<lparr>resolutions := (\<lambda>c. map_option (\<lambda>r. r\<lparr>decision := trim (decision r)\<rparr>) (resolutions st c)),
        assumptions := map trim (assumptions st)\<rparr>"

definition stateShapeOk :: "interview_state \<Rightarrow> bool" where
  "stateShapeOk st \<longleftrightarrow>
     (\<forall>c \<in> set INTERVIEW_CATEGORIES.
        case resolutions st c of None \<Rightarrow> True | Some r \<Rightarrow> text_ok (decision r)) \<and>
     (\<forall>a \<in> set (assumptions st). text_ok a) \<and>
     length (assumptions st) \<le> length INTERVIEW_CATEGORIES \<and>
     length (pendingCategories st) \<le> 3"

fun resolvedPending :: "interview_state \<Rightarrow> nat \<Rightarrow> interview_category list \<Rightarrow> interview_error list" where
  "resolvedPending st index [] = []"
| "resolvedPending st index (category # rest) =
     (if resolutions st category \<noteq> None
      then [Interview_pending_category_already_resolved index] else []) @
     resolvedPending st (Suc index) rest"

definition stateIssues :: "interview_state \<Rightarrow> interview_error list" where
  "stateIssues st =
     (if stateShapeOk st then [] else [Interview_state_shape]) @
     (if distinct (pendingCategories st) then [] else [Interview_pending_category_duplicate]) @
     resolvedPending st 0 (pendingCategories st)"

definition InterviewStateSchema_parse :: "interview_state \<Rightarrow> interview_error list + interview_state" where
  "InterviewStateSchema_parse st =
     (if stateIssues st = [] then Inr (trimState st) else Inl (stateIssues st))"

section \<open>Operations\<close>

definition questionFor :: "interview_category \<Rightarrow> interview_error list + interview_question_definition" where
  "questionFor category =
     (case find (\<lambda>d. q_category d = category) INTERVIEW_QUESTIONS of
        None \<Rightarrow> Inl [Interview_question_missing category]
      | Some d \<Rightarrow> Inr d)"

definition questionScore :: "interview_question_definition \<Rightarrow> nat" where
  "questionScore d = consequenceScore (q_consequence d)"

text \<open>Trailing full stops and exclamation marks, as \<open>/[.!]+$/\<close> removes them.\<close>

definition stripEnd :: "string \<Rightarrow> string" where
  "stripEnd s = rev (dropWhile (\<lambda>c. c = CHR ''.'' \<or> c = CHR ''!'') (rev s))"

definition delegated :: "string \<Rightarrow> bool" where
  "delegated answer =
     (let normalized = stripEnd (toLowerCase (trim answer))
      in normalized = ''you decide'' \<or> normalized = ''decide for me'')"

definition initialState :: interview_state where
  "initialState = \<lparr>resolutions = Map.empty, assumptions = [], pendingCategories = []\<rparr>"

definition createInterviewSession ::
    "interview_state option \<Rightarrow> interview_error list + interview_state" where
  "createInterviewSession initial =
     InterviewStateSchema_parse (case initial of None \<Rightarrow> initialState | Some st \<Rightarrow> st)"

definition getState :: "interview_state \<Rightarrow> interview_error list + interview_state" where
  "getState current = InterviewStateSchema_parse current"

definition isInterviewExecutable :: "interview_state \<Rightarrow> interview_error list + bool" where
  "isInterviewExecutable stateValue =
     andThen (InterviewStateSchema_parse stateValue) (\<lambda>st.
       Inr (\<forall>c \<in> set INTERVIEW_CATEGORIES. resolutions st c \<noteq> None))"

datatype interview_turn = Complete | Questions "interview_question_definition list"

text \<open>\<open>sort_key\<close> is stable, as the sort of the language is.\<close>

definition nextTurn :: "interview_state \<Rightarrow> interview_error list + (interview_state \<times> interview_turn)" where
  "nextTurn current =
     andThen (isInterviewExecutable current) (\<lambda>executable.
       if executable then Inr (current, Complete)
       else andThen
         (if pendingCategories current = []
          then andThen (mapThrow questionFor
                 (filter (\<lambda>c. resolutions current c = None) INTERVIEW_CATEGORIES)) (\<lambda>qs.
               let unresolved = take 3 (sort_key (\<lambda>d. - int (questionScore d)) qs)
               in InterviewStateSchema_parse (current\<lparr>pendingCategories := map q_category unresolved\<rparr>))
          else Inr current) (\<lambda>current'.
         andThen (mapThrow questionFor (pendingCategories current')) (\<lambda>qs.
           Inr (current', Questions qs))))"

fun notPending :: "interview_category list \<Rightarrow> nat \<Rightarrow> interview_response list \<Rightarrow> interview_error option" where
  "notPending pending index [] = None"
| "notPending pending index (response # rest) =
     (if r_category response \<notin> set pending then Some (Interview_response_not_pending index)
      else notPending pending (Suc index) rest)"

fun recordResponses ::
    "interview_response list \<Rightarrow> (interview_category \<rightharpoonup> resolution) \<times> string list
       \<Rightarrow> interview_error list + ((interview_category \<rightharpoonup> resolution) \<times> string list)" where
  "recordResponses [] acc = Inr acc"
| "recordResponses (response # rest) (res, ass) =
     (if delegated (r_answer response)
      then andThen (questionFor (r_category response)) (\<lambda>q.
             case find recommended (q_options q) of
               None \<Rightarrow> Inl [Interview_recommendation_missing (r_category response)]
             | Some selected \<Rightarrow>
                 recordResponses rest
                   (res(r_category response \<mapsto> \<lparr>decision = option_label selected, source = Assumption\<rparr>),
                    ass @ [category_name (r_category response) @ '': '' @ option_label selected
                           @ '' (delegated by user)'']))
      else recordResponses rest
             (res(r_category response \<mapsto> \<lparr>decision = r_answer response, source = User\<rparr>), ass))"

definition InterviewResponseSchema :: "interview_response \<Rightarrow> bool" where
  "InterviewResponseSchema r \<longleftrightarrow> text_ok (r_answer r)"

definition respond ::
    "interview_state \<Rightarrow> interview_response list \<Rightarrow> interview_error list + interview_state" where
  "respond current responseValues =
     (if \<not> (\<forall>r \<in> set responseValues. InterviewResponseSchema r) \<or>
         responseValues = [] \<or> 3 < length responseValues
      then Inl [Interview_response_shape]
      else
        let responses = map (\<lambda>r. r\<lparr>r_answer := trim (r_answer r)\<rparr>) responseValues;
            responseCategories = map r_category responses
        in if \<not> distinct responseCategories then Inl [Interview_response_category_duplicate]
           else case notPending (pendingCategories current) 0 responses of
             Some e \<Rightarrow> Inl [e]
           | None \<Rightarrow>
               andThen (recordResponses responses (resolutions current, assumptions current)) (\<lambda>(res, ass).
                 andThen (InterviewStateSchema_parse
                   \<lparr>resolutions = res, assumptions = ass,
                    pendingCategories =
                      filter (\<lambda>c. c \<notin> set responseCategories) (pendingCategories current)\<rparr>) getState))"

section \<open>Facts: the question table\<close>

lemmas question_defs = question_targetUsers_def
  question_userRoles_def
  question_coreWorkflows_def
  question_dataEntities_def
  question_permissions_def
  question_authentication_def
  question_billing_def
  question_integrations_def
  question_platformPriority_def
  question_productionBehavior_def
  question_criticalWorkflows_def
  question_dataSensitivity_def
  question_deploymentOwnership_def question_def

lemma question_categories [simp]:
  "q_category question_targetUsers = TargetUsers"
  "q_category question_userRoles = UserRoles"
  "q_category question_coreWorkflows = CoreWorkflows"
  "q_category question_dataEntities = DataEntities"
  "q_category question_permissions = Permissions"
  "q_category question_authentication = Authentication"
  "q_category question_billing = Billing"
  "q_category question_integrations = Integrations"
  "q_category question_platformPriority = PlatformPriority"
  "q_category question_productionBehavior = ProductionBehavior"
  "q_category question_criticalWorkflows = CriticalWorkflows"
  "q_category question_dataSensitivity = DataSensitivity"
  "q_category question_deploymentOwnership = DeploymentOwnership"
  by (simp_all add: question_defs)

lemma question_options:
  "d \<in> set INTERVIEW_QUESTIONS \<Longrightarrow>
     \<exists>x y. q_options d = [x, y] \<and> recommended x \<and> \<not> recommended y"
  by (auto simp: INTERVIEW_QUESTIONS_def question_defs)

lemma question_label_lengths:
  "d \<in> set INTERVIEW_QUESTIONS \<Longrightarrow>
     1 \<le> length (option_label (hd (q_options d))) \<and> length (option_label (hd (q_options d))) \<le> 100"
  by (auto simp: INTERVIEW_QUESTIONS_def question_defs)

lemma question_label_heads:
  "d \<in> set INTERVIEW_QUESTIONS \<Longrightarrow> \<not> is_space (hd (option_label (hd (q_options d))))"
  by (auto simp: INTERVIEW_QUESTIONS_def question_defs is_space_def)

lemma all_categories: "c \<in> set INTERVIEW_CATEGORIES"
  by (cases c) (simp_all add: INTERVIEW_CATEGORIES_def)

lemma distinct_categories: "distinct INTERVIEW_CATEGORIES"
  by (simp add: INTERVIEW_CATEGORIES_def)

lemma UNIV_categories: "UNIV = set INTERVIEW_CATEGORIES"
  using all_categories by auto

lemma finite_categories [simp]: "finite (A :: interview_category set)"
  using UNIV_categories by (metis finite_set finite_subset subset_UNIV)

lemma card_categories: "card (UNIV :: interview_category set) = 13"
  unfolding UNIV_categories distinct_card [OF distinct_categories]
  by (simp add: INTERVIEW_CATEGORIES_def)

definition question_of :: "interview_category \<Rightarrow> interview_question_definition" where
  "question_of c = (case questionFor c of Inr d \<Rightarrow> d | Inl _ \<Rightarrow> undefined)"

definition recommended_label :: "interview_category \<Rightarrow> string" where
  "recommended_label c = option_label (hd (q_options (question_of c)))"

lemma questionFor_category: "\<exists>d \<in> set INTERVIEW_QUESTIONS. questionFor c = Inr d \<and> q_category d = c"
  by (cases c) (simp_all add: questionFor_def INTERVIEW_QUESTIONS_def)

lemma question_of_in: "question_of c \<in> set INTERVIEW_QUESTIONS"
  and questionFor_total: "questionFor c = Inr (question_of c)"
  and question_of_category: "q_category (question_of c) = c"
  using questionFor_category [of c] by (auto simp: question_of_def)

lemma questionFor_simps [simp]:
  "questionFor c = Inr (question_of c)" "q_category (question_of c) = c"
  "find recommended (q_options (question_of c)) = Some (hd (q_options (question_of c)))"
  using questionFor_total question_of_category question_options [OF question_of_in [of c]] by auto

lemma length_recommended: "1 \<le> length (recommended_label c) \<and> length (recommended_label c) \<le> 100"
  unfolding recommended_label_def by (rule question_label_lengths [OF question_of_in])

lemma length_category_name: "1 \<le> length (category_name c) \<and> length (category_name c) \<le> 20"
  by (cases c) simp_all

lemma mapThrow_questionFor [simp]: "mapThrow questionFor cs = Inr (map question_of cs)"
  by (induction cs) simp_all

section \<open>Facts: texts\<close>

lemma text_ok_trim [simp]: "text_ok (trim s) = text_ok s"
  by (simp add: text_ok_def)

lemma text_ok_recommended: "text_ok (recommended_label c)"
proof -
  have "hd (recommended_label c) \<in> set (recommended_label c)"
    using length_recommended [of c] by (intro hd_in_set) auto
  then have "1 \<le> length (trim (recommended_label c))"
    using question_label_heads [OF question_of_in [of c]]
    by (intro trim_nonempty) (simp_all add: recommended_label_def)
  moreover have "length (trim (recommended_label c)) \<le> 20000"
    using length_trim [of "recommended_label c"] length_recommended [of c] by simp
  ultimately show ?thesis by (simp add: text_ok_def)
qed

definition delegation_note :: "interview_category \<Rightarrow> string" where
  "delegation_note c = category_name c @ '': '' @ recommended_label c @ '' (delegated by user)''"

lemma text_ok_note: "text_ok (delegation_note c)"
proof -
  have "1 \<le> length (trim (delegation_note c))"
    by (rule trim_nonempty [of "CHR '':''"]) (simp_all add: delegation_note_def is_space_def)
  moreover have "length (trim (delegation_note c)) \<le> 20000"
    using length_trim [of "delegation_note c"] length_recommended [of c] length_category_name [of c]
    by (simp add: delegation_note_def)
  ultimately show ?thesis by (simp add: text_ok_def)
qed

section \<open>Facts: the state schema\<close>

definition resolved :: "interview_state \<Rightarrow> interview_category set" where
  "resolved st = dom (resolutions st)"

lemma resolvedPending_Nil_iff:
  "resolvedPending st i cs = [] \<longleftrightarrow> set cs \<inter> resolved st = {}"
  by (induction st i cs rule: resolvedPending.induct) (auto simp: resolved_def)

lemma stateIssues_Nil_iff:
  "stateIssues st = [] \<longleftrightarrow>
     stateShapeOk st \<and> distinct (pendingCategories st) \<and> set (pendingCategories st) \<inter> resolved st = {}"
  by (simp add: stateIssues_def resolvedPending_Nil_iff)

lemma trimState_simps [simp]:
  "pendingCategories (trimState st) = pendingCategories st"
  "resolved (trimState st) = resolved st"
  "length (assumptions (trimState st)) = length (assumptions st)"
  by (auto simp: trimState_def resolved_def dom_def)

lemma trimState_idem [simp]: "trimState (trimState st) = trimState st"
  by (simp add: trimState_def comp_def option.map_comp)

lemma trimState_pending: "trimState (st\<lparr>pendingCategories := cs\<rparr>) = (trimState st)\<lparr>pendingCategories := cs\<rparr>"
  by (simp add: trimState_def)

lemma stateIssues_trim [simp]: "stateIssues (trimState st) = [] \<longleftrightarrow> stateIssues st = []"
  by (simp add: stateIssues_Nil_iff stateShapeOk_def)
    (simp add: trimState_def option.case_eq_if map_option_case)

lemma parse_state_Inr:
  "InterviewStateSchema_parse st = Inr st' \<longleftrightarrow> stateIssues st = [] \<and> st' = trimState st"
  by (auto simp: InterviewStateSchema_parse_def)

interpretation interview_schema: schema InterviewStateSchema_parse "\<lambda>st. st"
  by unfold_locales (auto simp: parse_state_Inr)

text \<open>
  The invariant of a session: the schema accepts the state unchanged, and every recorded
  assumption stands for a resolved category.
\<close>

definition session_inv :: "interview_state \<Rightarrow> bool" where
  "session_inv st \<longleftrightarrow>
     InterviewStateSchema_parse st = Inr st \<and> length (assumptions st) \<le> card (resolved st)"

lemma session_inv_parse: "session_inv st \<Longrightarrow> InterviewStateSchema_parse st = Inr st"
  by (simp add: session_inv_def)

lemma session_inv_pending:
  "session_inv st \<Longrightarrow> distinct (pendingCategories st) \<and> length (pendingCategories st) \<le> 3 \<and>
     set (pendingCategories st) \<inter> resolved st = {}"
  by (auto simp: session_inv_def parse_state_Inr stateIssues_Nil_iff stateShapeOk_def)

lemma initial_inv: "createInterviewSession None = Inr initialState \<and> session_inv initialState"
  by (simp add: createInterviewSession_def session_inv_def parse_state_Inr stateIssues_Nil_iff
      stateShapeOk_def initialState_def trimState_def resolved_def)

lemma session_inv_intro:
  assumes "stateShapeOk st" and "distinct (pendingCategories st)"
    and "set (pendingCategories st) \<inter> resolved st = {}" and "length (assumptions st) \<le> card (resolved st)"
  shows "InterviewStateSchema_parse st = Inr (trimState st) \<and> session_inv (trimState st)"
  using assms by (simp add: session_inv_def parse_state_Inr stateIssues_Nil_iff [of st])

lemma executable_iff:
  "session_inv st \<Longrightarrow> isInterviewExecutable st = Inr (resolved st = UNIV)"
  by (auto simp: isInterviewExecutable_def session_inv_parse resolved_def UNIV_categories dom_def
      all_categories)

section \<open>Facts: recording responses\<close>

definition resolution_for :: "interview_response \<Rightarrow> resolution" where
  "resolution_for r =
     (if delegated (r_answer r) then \<lparr>decision = recommended_label (r_category r), source = Assumption\<rparr>
      else \<lparr>decision = r_answer r, source = User\<rparr>)"

lemma map_upd_eq: "(\<lambda>a. if a = k then Some v else f a) = f(k \<mapsto> v)"
  by auto

lemma recordResponses_eq:
  "recordResponses rs (res, ass) =
     Inr (res ++ map_of (rev (map (\<lambda>r. (r_category r, resolution_for r)) rs)),
          ass @ map (delegation_note \<circ> r_category) (filter (delegated \<circ> r_answer) rs))"
proof (induction rs arbitrary: res ass)
  case (Cons r rs)
  then show ?case
    by (cases "delegated (r_answer r)")
      (simp_all add: resolution_for_def recommended_label_def delegation_note_def map_upd_eq)
qed simp

lemma notPending_None_iff:
  "notPending pending i rs = None \<longleftrightarrow> r_category ` set rs \<subseteq> set pending"
  by (induction pending i rs rule: notPending.induct) auto

definition responses_ok :: "interview_state \<Rightarrow> interview_response list \<Rightarrow> bool" where
  "responses_ok st rs \<longleftrightarrow>
     rs \<noteq> [] \<and> length rs \<le> 3 \<and> (\<forall>r \<in> set rs. text_ok (r_answer r)) \<and>
     distinct (map r_category rs) \<and> r_category ` set rs \<subseteq> set (pendingCategories st)"

definition trimResponse :: "interview_response \<Rightarrow> interview_response" where
  "trimResponse r = r\<lparr>r_answer := trim (r_answer r)\<rparr>"

lemma trimResponse_simps [simp]:
  "r_category (trimResponse r) = r_category r" "r_answer (trimResponse r) = trim (r_answer r)"
  by (simp_all add: trimResponse_def)

text \<open>The state a session holds after a set of accepted responses.\<close>

definition answered :: "interview_state \<Rightarrow> interview_response list \<Rightarrow> interview_state" where
  "answered st rs =
     \<lparr>resolutions = resolutions st ++ map_of (rev (map (\<lambda>r. (r_category r, resolution_for (trimResponse r))) rs)),
      assumptions = assumptions st @
        map (delegation_note \<circ> r_category) (filter (\<lambda>r. delegated (trim (r_answer r))) rs),
      pendingCategories = filter (\<lambda>c. c \<notin> r_category ` set rs) (pendingCategories st)\<rparr>"

lemma text_ok_resolution: "text_ok (r_answer r) \<Longrightarrow> text_ok (decision (resolution_for (trimResponse r)))"
  by (simp add: resolution_for_def text_ok_recommended)

lemma resolved_answered: "resolved (answered st rs) = resolved st \<union> r_category ` set rs"
  by (auto simp: resolved_def answered_def dom_map_of_conv_image_fst image_image)

lemma answered_shape:
  assumes inv: "session_inv st" and ok: "responses_ok st rs"
  shows "stateShapeOk (answered st rs) \<and> length (assumptions (answered st rs)) \<le> card (resolved (answered st rs))"
proof -
  have st: "stateShapeOk st"
    using inv by (simp add: session_inv_def parse_state_Inr stateIssues_Nil_iff)
  have "r_category ` set rs \<inter> resolved st = {}"
    using session_inv_pending [OF inv] ok by (auto simp: responses_ok_def)
  moreover have "card (r_category ` set rs) = length rs"
    using ok by (metis responses_ok_def distinct_card image_set length_map)
  ultimately have card: "card (resolved (answered st rs)) = card (resolved st) + length rs"
    unfolding resolved_answered by (subst card_Un_disjoint) auto
  have "length (filter (\<lambda>r. delegated (trim (r_answer r))) rs) \<le> length rs" by (rule length_filter_le)
  then have len: "length (assumptions (answered st rs)) \<le> card (resolved (answered st rs))"
    using inv unfolding card by (simp add: answered_def session_inv_def add_mono)
  have res: "text_ok (decision r)" if "resolutions (answered st rs) c = Some r" for c r
  proof -
    from that consider "resolutions st c = Some r"
      | y where "y \<in> set rs" "r = resolution_for (trimResponse y)"
      by (auto simp: answered_def map_add_Some_iff dest!: map_of_SomeD)
    then show ?thesis
    proof cases
      case 1
      then show ?thesis using st all_categories [of c] by (auto simp: stateShapeOk_def)
    next
      case 2
      then show ?thesis using ok by (auto simp: responses_ok_def intro: text_ok_resolution)
    qed
  qed
  have "card (resolved (answered st rs)) \<le> 13"
    using card_mono [of UNIV "resolved (answered st rs)"] card_categories by simp
  then have "length (assumptions (answered st rs)) \<le> length INTERVIEW_CATEGORIES"
    using len by (simp add: INTERVIEW_CATEGORIES_def)
  moreover have "length (pendingCategories (answered st rs)) \<le> 3"
    using st by (simp add: answered_def stateShapeOk_def le_trans [OF length_filter_le])
  moreover have "\<forall>a \<in> set (assumptions (answered st rs)). text_ok a"
    using st text_ok_note by (auto simp: answered_def stateShapeOk_def)
  ultimately show ?thesis
    using len res by (auto simp: stateShapeOk_def split: option.splits)
qed

lemma respond_answered:
  assumes "session_inv st" and "responses_ok st rs"
  shows "respond st rs = Inr (trimState (answered st rs)) \<and> session_inv (trimState (answered st rs))"
proof -
  note shape = answered_shape [OF assms]
  have "distinct (pendingCategories (answered st rs)) \<and>
      set (pendingCategories (answered st rs)) \<inter> resolved (answered st rs) = {}"
    using session_inv_pending [OF assms(1)] unfolding resolved_answered by (auto simp: answered_def)
  with shape have parse: "InterviewStateSchema_parse (answered st rs) = Inr (trimState (answered st rs))"
    and inv: "session_inv (trimState (answered st rs))"
    using session_inv_intro by blast+
  have "notPending (pendingCategories st) 0 (map trimResponse rs) = None"
    using assms(2) by (auto simp: notPending_None_iff responses_ok_def)
  moreover have "map r_category (map trimResponse rs) = map r_category rs" by simp
  ultimately have "respond st rs = andThen (InterviewStateSchema_parse (answered st rs)) getState"
    using assms(2)
    by (simp add: respond_def trimResponse_def [symmetric] InterviewResponseSchema_def responses_ok_def
        recordResponses_eq answered_def filter_map comp_def)
  with parse inv show ?thesis by (simp add: getState_def session_inv_parse)
qed

section \<open>Facts: choosing the next questions\<close>

lemma sorted_take_drop:
  assumes "sorted (map f xs)" and "x \<in> set (take n xs)" and "y \<in> set (drop n xs)"
  shows "f x \<le> f y"
proof -
  have "sorted (map f (take n xs) @ map f (drop n xs))"
    using assms(1) by (simp flip: map_append)
  with assms(2,3) show ?thesis by (auto simp: sorted_append)
qed

definition chosen :: "interview_state \<Rightarrow> interview_category list" where
  "chosen st = map q_category (take 3 (sort_key (\<lambda>d. - int (questionScore d))
     (map question_of (filter (\<lambda>c. resolutions st c = None) INTERVIEW_CATEGORIES))))"

definition categoryScore :: "interview_category \<Rightarrow> nat" where
  "categoryScore c = questionScore (question_of c)"

lemma chosen_sorted:
  "chosen st = take 3 (sort_key (\<lambda>c. - int (categoryScore c))
     (filter (\<lambda>c. resolutions st c = None) INTERVIEW_CATEGORIES))" (is "_ = take 3 (sort_key ?f ?xs)")
proof -
  have "sort_key (\<lambda>d. - int (questionScore d)) (map question_of xs) =
      map question_of (sort_key (\<lambda>c. - int (categoryScore c)) xs)" for xs
  proof (induction xs)
    case (Cons x xs)
    have "insort_key (\<lambda>d. - int (questionScore d)) (question_of x) (map question_of ys) =
        map question_of (insort_key (\<lambda>c. - int (categoryScore c)) x ys)" for ys
      by (induction ys) (auto simp: categoryScore_def)
    with Cons show ?case by simp
  qed simp
  then show ?thesis by (simp add: chosen_def take_map comp_def)
qed

lemma chosen_facts:
  shows "distinct (chosen st)" and "set (chosen st) \<inter> resolved st = {}" and "length (chosen st) \<le> 3"
    and "length (chosen st) = min 3 (card (- resolved st))"
    and "c \<in> set (chosen st) \<Longrightarrow> c' \<notin> resolved st \<Longrightarrow> c' \<notin> set (chosen st) \<Longrightarrow>
         categoryScore c' \<le> categoryScore c"
proof -
  let ?xs = "filter (\<lambda>c. resolutions st c = None) INTERVIEW_CATEGORIES"
  let ?s = "sort_key (\<lambda>c. - int (categoryScore c)) ?xs"
  have xs: "set ?xs = - resolved st" "distinct ?xs"
    using distinct_categories all_categories by (auto simp: resolved_def)
  then have s: "set ?s = - resolved st" "distinct ?s" by (simp_all only: set_sort distinct_sort)
  show "distinct (chosen st)" "set (chosen st) \<inter> resolved st = {}" "length (chosen st) \<le> 3"
    unfolding chosen_sorted using s set_take_subset [of 3 ?s] by (auto simp del: set_sort)
  have "length ?s = card (- resolved st)" using s distinct_card by (metis)
  then show "length (chosen st) = min 3 (card (- resolved st))" unfolding chosen_sorted by simp
  assume c: "c \<in> set (chosen st)" and c': "c' \<notin> resolved st" "c' \<notin> set (chosen st)"
  have "c' \<in> set (drop 3 ?s)"
    using c' s(1) unfolding chosen_sorted by (metis ComplI UnE append_take_drop_id set_append)
  with c have "- int (categoryScore c) \<le> - int (categoryScore c')"
    unfolding chosen_sorted by (intro sorted_take_drop [OF sorted_sort_key])
  then show "categoryScore c' \<le> categoryScore c" by simp
qed

lemma asked_inv:
  assumes "session_inv st" and "pendingCategories st = []"
  shows "InterviewStateSchema_parse (st\<lparr>pendingCategories := chosen st\<rparr>) = Inr (st\<lparr>pendingCategories := chosen st\<rparr>)
    \<and> session_inv (st\<lparr>pendingCategories := chosen st\<rparr>)"
proof -
  let ?st = "st\<lparr>pendingCategories := chosen st\<rparr>"
  have eq: "resolved ?st = resolved st" "trimState ?st = ?st"
    using assms(1) by (simp_all add: resolved_def session_inv_def parse_state_Inr trimState_pending)
  have "stateShapeOk ?st"
    using assms chosen_facts(3) by (simp add: session_inv_def parse_state_Inr stateIssues_Nil_iff stateShapeOk_def)
  moreover have "distinct (pendingCategories ?st)" "set (pendingCategories ?st) \<inter> resolved ?st = {}"
    using chosen_facts(1,2) eq by simp_all
  moreover have "length (assumptions ?st) \<le> card (resolved ?st)"
    using assms(1) eq by (simp add: session_inv_def)
  ultimately show ?thesis using session_inv_intro [of ?st] eq by simp
qed

lemma nextTurn_fresh:
  assumes "session_inv st" and "resolved st \<noteq> UNIV" and "pendingCategories st = []"
  shows "nextTurn st = Inr (st\<lparr>pendingCategories := chosen st\<rparr>, Questions (map question_of (chosen st)))"
  using assms asked_inv [OF assms(1,3)]
  by (simp add: nextTurn_def executable_iff chosen_def Let_def)

lemma nextTurn_pending:
  assumes "session_inv st" and "resolved st \<noteq> UNIV" and "pendingCategories st \<noteq> []"
  shows "nextTurn st = Inr (st, Questions (map question_of (pendingCategories st)))"
  using assms by (simp add: nextTurn_def executable_iff)

lemma nextTurn_complete: "session_inv st \<Longrightarrow> resolved st = UNIV \<Longrightarrow> nextTurn st = Inr (st, Complete)"
  by (simp add: nextTurn_def executable_iff)

lemma chosen_nonempty:
  assumes "resolved st \<noteq> UNIV" shows "chosen st \<noteq> []"
proof -
  have "- resolved st \<noteq> {}" using assms by (metis Compl_empty_eq double_complement)
  then have "length (chosen st) > 0" unfolding chosen_facts(4) by (simp add: card_gt_0_iff)
  then show ?thesis by auto
qed

section \<open>Properties\<close>

text \<open>
  C7.  A session that started fresh is never refused by its own state schema: answering any
  non-empty choice of pending questions with acceptable texts succeeds, keeps the invariant,
  resolves exactly those categories, takes them off the pending list, and records the trimmed
  answer, or the recommended option as an assumption when the answer delegates.
\<close>

theorem respond_succeeds:
  assumes "session_inv st" and "responses_ok st rs"
  shows "\<exists>st'. respond st rs = Inr st' \<and> session_inv st' \<and>
    resolved st' = resolved st \<union> r_category ` set rs \<and>
    pendingCategories st' = filter (\<lambda>c. c \<notin> r_category ` set rs) (pendingCategories st) \<and>
    length (assumptions st') =
      length (assumptions st) + length (filter (\<lambda>r. delegated (trim (r_answer r))) rs) \<and>
    (\<forall>r \<in> set rs. resolutions st' (r_category r) = Some
       (if delegated (trim (r_answer r))
        then \<lparr>decision = trim (recommended_label (r_category r)), source = Assumption\<rparr>
        else \<lparr>decision = trim (r_answer r), source = User\<rparr>))"
proof -
  have "map_of (rev (map (\<lambda>r. (r_category r, resolution_for (trimResponse r))) rs)) (r_category r)
      = Some (resolution_for (trimResponse r))" if "r \<in> set rs" for r
    using that assms(2)
    by (intro map_of_is_SomeI) (auto simp: responses_ok_def rev_map [symmetric] comp_def)
  then have "\<forall>r \<in> set rs. resolutions (trimState (answered st rs)) (r_category r) = Some
       (if delegated (trim (r_answer r))
        then \<lparr>decision = trim (recommended_label (r_category r)), source = Assumption\<rparr>
        else \<lparr>decision = trim (r_answer r), source = User\<rparr>)"
    by (simp add: trimState_def answered_def resolution_for_def map_add_def)
  with respond_answered [OF assms] show ?thesis
    by (intro exI [of _ "trimState (answered st rs)"]) (simp add: resolved_answered, simp add: answered_def)
qed

definition sample_asked :: interview_state where
  "sample_asked = initialState\<lparr>pendingCategories := chosen initialState\<rparr>"

lemma sample_asked_inv: "session_inv sample_asked"
  unfolding sample_asked_def using asked_inv [of initialState] initial_inv by (simp add: initialState_def)

lemma question_scores [simp]:
  "categoryScore TargetUsers = 7" "categoryScore UserRoles = 8" "categoryScore CoreWorkflows = 10"
  "categoryScore DataEntities = 9" "categoryScore Permissions = 10" "categoryScore Authentication = 10"
  "categoryScore Billing = 9" "categoryScore Integrations = 10" "categoryScore PlatformPriority = 8"
  "categoryScore ProductionBehavior = 11" "categoryScore CriticalWorkflows = 9"
  "categoryScore DataSensitivity = 9" "categoryScore DeploymentOwnership = 9"
  by (simp_all add: categoryScore_def question_of_def questionFor_def INTERVIEW_QUESTIONS_def
      del: questionFor_simps) (simp_all add: questionScore_def consequenceScore_def question_defs)

lemma first_questions: "chosen initialState = [ProductionBehavior, CoreWorkflows, Permissions]"
  unfolding chosen_sorted by (simp add: INTERVIEW_CATEGORIES_def initialState_def)

lemma sample_responses_ok:
  "responses_ok sample_asked [\<lparr>r_category = Permissions, r_answer = '' you decide! ''\<rparr>]"
  by (simp add: responses_ok_def sample_asked_def first_questions text_ok_def string_defs)

theorem respond_succeeds_witness:
  "\<exists>st'. respond sample_asked [\<lparr>r_category = Permissions, r_answer = '' you decide! ''\<rparr>] = Inr st' \<and>
     pendingCategories st' = [ProductionBehavior, CoreWorkflows] \<and>
     resolutions st' Permissions =
       Some \<lparr>decision = trim (recommended_label Permissions), source = Assumption\<rparr>"
proof -
  have del: "delegated (trim '' you decide! '')"
    by (simp add: delegated_def stripEnd_def string_defs)
  from respond_succeeds [OF sample_asked_inv sample_responses_ok] del show ?thesis
    by (auto simp: sample_asked_def first_questions)
qed

text \<open>
  When nothing is pending and the interview is not complete, \<open>nextTurn\<close> asks between one
  and three distinct unresolved questions, as many as are open up to three, and no open
  question it leaves out has a higher consequence score than one it asks.
\<close>

theorem nextTurn_asks_highest_consequence:
  assumes "session_inv st" and "resolved st \<noteq> UNIV" and "pendingCategories st = []"
  shows "\<exists>st' asked. nextTurn st = Inr (st', Questions (map question_of asked)) \<and>
    session_inv st' \<and> resolved st' = resolved st \<and> pendingCategories st' = asked \<and>
    distinct asked \<and> set asked \<inter> resolved st = {} \<and>
    length asked = min 3 (card (- resolved st)) \<and> asked \<noteq> [] \<and>
    (\<forall>c \<in> set asked. \<forall>c'. c' \<notin> resolved st \<longrightarrow> c' \<notin> set asked \<longrightarrow> categoryScore c' \<le> categoryScore c)"
proof -
  have "chosen st \<noteq> []" using assms(2) by (rule chosen_nonempty)
  then show ?thesis
    using nextTurn_fresh [OF assms] asked_inv [OF assms(1,3)] chosen_facts [where st = st]
    by (intro exI [of _ "st\<lparr>pendingCategories := chosen st\<rparr>"] exI [of _ "chosen st"])
      (auto simp: resolved_def)
qed

theorem nextTurn_asks_highest_consequence_witness:
  "\<exists>st' asked. nextTurn initialState = Inr (st', Questions (map question_of asked)) \<and> length asked = 3"
proof -
  have r: "resolved initialState \<noteq> UNIV" by (simp add: resolved_def initialState_def)
  have "resolved initialState = {}" by (simp add: resolved_def initialState_def)
  then have "card (- resolved initialState) = 13" by (simp add: card_categories)
  moreover have "pendingCategories initialState = []" by (simp add: initialState_def)
  ultimately show ?thesis
    using nextTurn_asks_highest_consequence [OF conjunct2 [OF initial_inv] r] by auto
qed

text \<open>
  A client that answers every question it is asked: one round is a \<open>nextTurn\<close> followed by a
  \<open>respond\<close> with one answer per question.
\<close>

fun interviewRounds ::
    "(interview_category \<Rightarrow> string) \<Rightarrow> nat \<Rightarrow> interview_state \<Rightarrow> interview_error list + interview_state" where
  "interviewRounds answer 0 st = Inr st"
| "interviewRounds answer (Suc n) st =
     andThen (nextTurn st) (\<lambda>(st', turn).
       case turn of
         Complete \<Rightarrow> Inr st'
       | Questions qs \<Rightarrow>
           andThen (respond st' (map (\<lambda>q. \<lparr>r_category = q_category q, r_answer = answer (q_category q)\<rparr>) qs))
             (interviewRounds answer n))"

lemma one_round:
  assumes "session_inv st" and "resolved st \<noteq> UNIV" and "pendingCategories st = []"
    and "\<And>c. text_ok (answer c)"
  shows "\<exists>st'. session_inv st' \<and> pendingCategories st' = [] \<and>
    card (- resolved st') = card (- resolved st) - 3 \<and>
    interviewRounds answer (Suc n) st = interviewRounds answer n st'"
proof -
  let ?st = "st\<lparr>pendingCategories := chosen st\<rparr>"
  let ?rs = "map (\<lambda>c. \<lparr>r_category = c, r_answer = answer c\<rparr>) (chosen st)"
  have ne: "chosen st \<noteq> []" using assms(2) by (rule chosen_nonempty)
  have inv: "session_inv ?st" using asked_inv [OF assms(1,3)] by simp
  have ok: "responses_ok ?st ?rs"
    using ne chosen_facts(1,3) [of st] assms(4) by (auto simp: responses_ok_def comp_def)
  define st' where "st' = trimState (answered ?st ?rs)"
  have st': "respond ?st ?rs = Inr st'" "session_inv st'"
    using respond_answered [OF inv ok] by (simp_all add: st'_def)
  have res: "resolved st' = resolved st \<union> set (chosen st)"
    unfolding st'_def trimState_simps resolved_answered by (auto simp: resolved_def image_image)
  have "- resolved st' = - resolved st - set (chosen st)" unfolding res by auto
  moreover have "set (chosen st) \<subseteq> - resolved st" using chosen_facts(2) by auto
  ultimately have "card (- resolved st') = card (- resolved st) - card (set (chosen st))"
    by (simp add: card_Diff_subset)
  also have "card (set (chosen st)) = min 3 (card (- resolved st))"
    using chosen_facts(1,4) distinct_card by metis
  finally have "card (- resolved st') = card (- resolved st) - 3" by simp
  moreover have "pendingCategories st' = []"
    unfolding st'_def trimState_simps by (simp add: answered_def filter_empty_conv image_image)
  moreover have "interviewRounds answer (Suc n) st = interviewRounds answer n st'"
    using nextTurn_fresh [OF assms(1-3)] st'(1) by (simp add: comp_def)
  ultimately show ?thesis using st'(2) by blast
qed

lemma rounds_complete:
  assumes "session_inv st" and "pendingCategories st = []" and "card (- resolved st) \<le> 3 * n"
    and "\<And>c. text_ok (answer c)"
  shows "\<exists>st'. interviewRounds answer n st = Inr st' \<and> session_inv st' \<and> resolved st' = UNIV"
  using assms(1-3)
proof (induction n arbitrary: st)
  case 0
  then have "resolved st = UNIV" by auto
  with 0 show ?case by simp
next
  case (Suc n)
  show ?case
  proof (cases "resolved st = UNIV")
    case True
    with Suc.prems(1) have "nextTurn st = Inr (st, Complete)" by (rule nextTurn_complete)
    then have "interviewRounds answer (Suc n) st = Inr st" by simp
    with Suc.prems(1) True show ?thesis by blast
  next
    case False
    from one_round [where answer = answer and n = n, OF Suc.prems(1) False Suc.prems(2) assms(4)]
    obtain st' where st': "session_inv st'" "pendingCategories st' = []"
        "card (- resolved st') = card (- resolved st) - 3"
        "interviewRounds answer (Suc n) st = interviewRounds answer n st'"
      by blast
    from Suc.IH [OF st'(1,2)] st'(3) Suc.prems(3) show ?thesis unfolding st'(4) by simp
  qed
qed

text \<open>
  C8.  The interview ends: whatever acceptable answers the user gives, a fresh session whose
  questions are all answered is executable after five rounds.
\<close>

theorem interview_completes:
  assumes "\<And>c. text_ok (answer c)"
  shows "\<exists>st. interviewRounds answer 5 initialState = Inr st \<and> isInterviewExecutable st = Inr True"
proof -
  have "resolved initialState = {}" "pendingCategories initialState = []"
    by (simp_all add: resolved_def initialState_def)
  then have "card (- resolved initialState) \<le> 3 * 5" by (simp add: card_categories)
  from rounds_complete [where answer = answer, OF conjunct2 [OF initial_inv] _ this assms] obtain st where
      st: "interviewRounds answer 5 initialState = Inr st" "session_inv st" "resolved st = UNIV"
    by (auto simp: initialState_def)
  then have "isInterviewExecutable st = Inr True" by (simp add: executable_iff)
  with st(1) show ?thesis by blast
qed

theorem interview_completes_witness:
  "\<exists>st. interviewRounds (\<lambda>_. ''you decide'') 5 initialState = Inr st \<and> isInterviewExecutable st = Inr True"
  by (rule interview_completes) (simp add: text_ok_def string_defs)

end
