(* ===== verification/Regex.thy ===== *)
theory Regex
  imports Prelude
begin

text \<open>
  The fragment of JavaScript regular expressions the policies use: character classes, groups,
  alternatives, \<open>*\<close>, \<open>+\<close>, \<open>?\<close>, bounded repetition, \<open>\<b>\<close>-style word boundaries and the
  anchors.  \<open>matches\<close> says what an expression matches between a left and a right context;
  \<open>ends\<close> computes all the ends of a match by consuming the text; \<open>test\<close> is \<open>RegExp.test\<close>.
  The left context is kept reversed, as the part of the text a reader has passed.
  None of the expressions has a back reference, so that which match a backtracking reader
  finds first does not matter to \<open>test\<close>.
\<close>

datatype rx =
    Eps
  | Cls "char \<Rightarrow> bool"
  | Seq rx rx
  | Alt rx rx
  | Star rx
  | Bound
  | AtStart
  | AtEnd

type_synonym zipper = "string \<times> string"

section \<open>Character classes\<close>

definition is_lower :: "char \<Rightarrow> bool" where
  "is_lower c \<longleftrightarrow> (97 \<le> (of_char c :: nat) \<and> (of_char c :: nat) \<le> 122)"

definition is_digit :: "char \<Rightarrow> bool" where
  "is_digit c \<longleftrightarrow> (48 \<le> (of_char c :: nat) \<and> (of_char c :: nat) \<le> 57)"

definition is_word :: "char \<Rightarrow> bool" where
  "is_word c \<longleftrightarrow> is_lower (lower_char c) \<or> is_digit c \<or> c = CHR ''_''"

definition is_boundary :: "zipper \<Rightarrow> bool" where
  "is_boundary z \<longleftrightarrow>
     (case fst z of [] \<Rightarrow> False | c # _ \<Rightarrow> is_word c) \<noteq> (case snd z of [] \<Rightarrow> False | c # _ \<Rightarrow> is_word c)"

section \<open>The matcher\<close>

fun star_ends :: "(zipper \<Rightarrow> zipper list) \<Rightarrow> nat \<Rightarrow> zipper \<Rightarrow> zipper list" where
  "star_ends step 0 z = [z]"
| "star_ends step (Suc n) z =
     z # concat (map (star_ends step n) (filter (\<lambda>z'. length (snd z') < length (snd z)) (step z)))"

fun ends :: "rx \<Rightarrow> zipper \<Rightarrow> zipper list" where
  "ends Eps z = [z]"
| "ends (Cls P) (l, []) = []"
| "ends (Cls P) (l, c # x) = (if P c then [(c # l, x)] else [])"
| "ends (Seq a b) z = concat (map (ends b) (ends a z))"
| "ends (Alt a b) z = ends a z @ ends b z"
| "ends (Star a) z = star_ends (ends a) (length (snd z)) z"
| "ends Bound z = (if is_boundary z then [z] else [])"
| "ends AtStart z = (if fst z = [] then [z] else [])"
| "ends AtEnd z = (if snd z = [] then [z] else [])"

fun scan :: "rx \<Rightarrow> string \<Rightarrow> string \<Rightarrow> bool" where
  "scan r l [] = (ends r (l, []) \<noteq> [])"
| "scan r l (c # x) = (ends r (l, c # x) \<noteq> [] \<or> scan r (c # l) x)"

definition test :: "rx \<Rightarrow> string \<Rightarrow> bool" where
  "test r s = scan r [] s"

section \<open>Derived expressions\<close>

definition ci :: "char \<Rightarrow> rx" where
  "ci c = Cls (\<lambda>d. lower_char d = c)"

definition exactly :: "char \<Rightarrow> rx" where
  "exactly c = Cls (\<lambda>d. d = c)"

fun seqs :: "rx list \<Rightarrow> rx" where
  "seqs [] = Eps"
| "seqs [r] = r"
| "seqs (r # rs) = Seq r (seqs rs)"

fun alts :: "rx list \<Rightarrow> rx" where
  "alts [] = Cls (\<lambda>_. False)"
| "alts [r] = r"
| "alts (r # rs) = Alt r (alts rs)"

text \<open>A word under the \<open>i\<close> flag; the word is written in lower case.\<close>

definition lit :: "string \<Rightarrow> rx" where
  "lit w = seqs (map ci w)"

definition sp :: rx where "sp = Cls is_space"

definition plus :: "rx \<Rightarrow> rx" where "plus r = Seq r (Star r)"

definition opt :: "rx \<Rightarrow> rx" where "opt r = Alt r Eps"

fun upto :: "nat \<Rightarrow> rx \<Rightarrow> rx" where
  "upto 0 r = Eps"
| "upto (Suc n) r = opt (Seq r (upto n r))"

lemmas rx_defs = ci_def exactly_def lit_def sp_def plus_def opt_def

section \<open>What an expression matches\<close>

inductive stars :: "(string \<Rightarrow> string \<Rightarrow> string \<Rightarrow> bool) \<Rightarrow> string \<Rightarrow> string \<Rightarrow> string \<Rightarrow> bool"
  for P where
  stars_Nil: "stars P l [] x"
| stars_step: "P l m (m' @ x) \<Longrightarrow> stars P (rev m @ l) m' x \<Longrightarrow> stars P l (m @ m') x"

fun matches :: "rx \<Rightarrow> string \<Rightarrow> string \<Rightarrow> string \<Rightarrow> bool" where
  "matches Eps l m x \<longleftrightarrow> m = []"
| "matches (Cls P) l m x \<longleftrightarrow> (\<exists>c. m = [c] \<and> P c)"
| "matches (Seq a b) l m x \<longleftrightarrow>
     (\<exists>m1 m2. m = m1 @ m2 \<and> matches a l m1 (m2 @ x) \<and> matches b (rev m1 @ l) m2 x)"
| "matches (Alt a b) l m x \<longleftrightarrow> matches a l m x \<or> matches b l m x"
| "matches (Star a) l m x \<longleftrightarrow> stars (matches a) l m x"
| "matches Bound l m x \<longleftrightarrow> m = [] \<and> is_boundary (l, x)"
| "matches AtStart l m x \<longleftrightarrow> m = [] \<and> l = []"
| "matches AtEnd l m x \<longleftrightarrow> m = [] \<and> x = []"

text \<open>A set of zippers reached from a zipper is exactly a set of matches.\<close>

definition ends_spec :: "(zipper \<Rightarrow> zipper list) \<Rightarrow> (string \<Rightarrow> string \<Rightarrow> string \<Rightarrow> bool) \<Rightarrow> bool" where
  "ends_spec step P \<longleftrightarrow>
     (\<forall>l x l' x'. (l', x') \<in> set (step (l, x)) \<longleftrightarrow> (\<exists>m. x = m @ x' \<and> l' = rev m @ l \<and> P l m x'))"

lemma ends_specD:
  "ends_spec step P \<Longrightarrow>
     (l', x') \<in> set (step (l, x)) \<longleftrightarrow> (\<exists>m. x = m @ x' \<and> l' = rev m @ l \<and> P l m x')"
  by (simp add: ends_spec_def)

lemma star_ends_sound:
  assumes "ends_spec step P"
  shows "(l', x') \<in> set (star_ends step n (l, x)) \<Longrightarrow>
    \<exists>m. x = m @ x' \<and> l' = rev m @ l \<and> stars P l m x'"
proof (induction n arbitrary: l x)
  case 0
  then show ?case by (auto intro: stars_Nil)
next
  case (Suc n)
  show ?case
  proof (cases "(l', x') = (l, x)")
    case True
    then show ?thesis by (auto intro: stars_Nil)
  next
    case False
    with Suc.prems obtain l1 x1 where
        step: "(l1, x1) \<in> set (step (l, x))" and rest: "(l', x') \<in> set (star_ends step n (l1, x1))"
      by auto
    from step obtain m where m: "x = m @ x1" "l1 = rev m @ l" "P l m x1"
      using ends_specD [OF assms] by blast
    from Suc.IH [OF rest] obtain m' where m': "x1 = m' @ x'" "l' = rev m' @ l1" "stars P l1 m' x'"
      by blast
    have "stars P l (m @ m') x'" by (rule stars_step) (use m m' in auto)
    with m m' show ?thesis by (intro exI [of _ "m @ m'"]) simp
  qed
qed

lemma star_ends_complete:
  assumes "ends_spec step P"
  shows "stars P l m x' \<Longrightarrow> length m \<le> n \<Longrightarrow> (rev m @ l, x') \<in> set (star_ends step n (l, m @ x'))"
proof (induction arbitrary: n rule: stars.induct)
  case (stars_Nil l x)
  then show ?case by (cases n) auto
next
  case (stars_step l m m' x)
  show ?case
  proof (cases "m = []")
    case True
    with stars_step show ?thesis by simp
  next
    case False
    with stars_step.prems obtain k where n: "n = Suc k" and k: "length m' \<le> k"
      by (cases n) (auto simp: Suc_le_eq neq_Nil_conv)
    have "(rev m @ l, m' @ x) \<in> set (step (l, m @ m' @ x))"
      using stars_step.hyps ends_specD [OF assms] by blast
    moreover have "(rev m' @ rev m @ l, x) \<in> set (star_ends step k (rev m @ l, m' @ x))"
      using stars_step.IH [OF k] .
    ultimately have "(rev m' @ rev m @ l, x) \<in> set (star_ends step n (l, m @ m' @ x))"
      using False n by (auto simp del: ex_simps) (metis length_greater_0_conv less_add_same_cancel2 length_append)
    then show ?thesis by simp
  qed
qed

lemma ends_matches: "ends_spec (ends r) (matches r)"
proof (induction r)
  case (Cls P)
  show ?case unfolding ends_spec_def
  proof (intro allI)
    fix l x l' x'
    show "(l', x') \<in> set (ends (Cls P) (l, x)) \<longleftrightarrow> (\<exists>m. x = m @ x' \<and> l' = rev m @ l \<and> matches (Cls P) l m x')"
      by (cases x) auto
  qed
next
  case (Seq a b)
  show ?case unfolding ends_spec_def
  proof (intro allI iffI)
    fix l x l' x'
    assume "(l', x') \<in> set (ends (Seq a b) (l, x))"
    then obtain l1 x1 where 1: "(l1, x1) \<in> set (ends a (l, x))" and 2: "(l', x') \<in> set (ends b (l1, x1))"
      by auto
    from 1 obtain m1 where m1: "x = m1 @ x1" "l1 = rev m1 @ l" "matches a l m1 x1"
      using ends_specD [OF Seq(1)] by blast
    from 2 obtain m2 where m2: "x1 = m2 @ x'" "l' = rev m2 @ l1" "matches b l1 m2 x'"
      using ends_specD [OF Seq(2)] by blast
    from m1 m2 show "\<exists>m. x = m @ x' \<and> l' = rev m @ l \<and> matches (Seq a b) l m x'"
      by (intro exI [of _ "m1 @ m2"]) auto
  next
    fix l x l' x'
    assume "\<exists>m. x = m @ x' \<and> l' = rev m @ l \<and> matches (Seq a b) l m x'"
    then obtain m1 m2 where x: "x = m1 @ m2 @ x'" "l' = rev m2 @ rev m1 @ l"
      and m: "matches a l m1 (m2 @ x')" "matches b (rev m1 @ l) m2 x'" by auto
    have "(rev m1 @ l, m2 @ x') \<in> set (ends a (l, x))" using ends_specD [OF Seq(1)] x m by blast
    moreover have "(l', x') \<in> set (ends b (rev m1 @ l, m2 @ x'))" using ends_specD [OF Seq(2)] x m by blast
    ultimately show "(l', x') \<in> set (ends (Seq a b) (l, x))" by auto
  qed
next
  case (Star a)
  show ?case unfolding ends_spec_def
  proof (intro allI iffI)
    fix l x l' x'
    assume "(l', x') \<in> set (ends (Star a) (l, x))"
    then show "\<exists>m. x = m @ x' \<and> l' = rev m @ l \<and> matches (Star a) l m x'"
      using star_ends_sound [OF Star] by auto
  next
    fix l x l' x'
    assume "\<exists>m. x = m @ x' \<and> l' = rev m @ l \<and> matches (Star a) l m x'"
    then show "(l', x') \<in> set (ends (Star a) (l, x))"
      using star_ends_complete [OF Star] by auto
  qed
qed (auto simp: ends_spec_def)

lemma ends_nonempty: "ends r (l, s) \<noteq> [] \<longleftrightarrow> (\<exists>m x. s = m @ x \<and> matches r l m x)"
proof
  assume "ends r (l, s) \<noteq> []"
  then obtain l' x' where "(l', x') \<in> set (ends r (l, s))" by (metis last_in_set surj_pair)
  then show "\<exists>m x. s = m @ x \<and> matches r l m x" using ends_specD [OF ends_matches] by blast
next
  assume "\<exists>m x. s = m @ x \<and> matches r l m x"
  then obtain m x where "(rev m @ l, x) \<in> set (ends r (l, s))" using ends_specD [OF ends_matches] by blast
  then show "ends r (l, s) \<noteq> []" by auto
qed

lemma scan_iff: "scan r l s \<longleftrightarrow> (\<exists>p m x. s = p @ m @ x \<and> matches r (rev p @ l) m x)"
proof (induction s arbitrary: l)
  case Nil
  show ?case by (simp add: ends_nonempty)
next
  case (Cons c s)
  have "(\<exists>p m x. c # s = p @ m @ x \<and> matches r (rev p @ l) m x) \<longleftrightarrow>
      (\<exists>m x. c # s = m @ x \<and> matches r l m x) \<or>
      (\<exists>p m x. s = p @ m @ x \<and> matches r (rev p @ c # l) m x)" (is "?L \<longleftrightarrow> ?A \<or> ?B")
  proof
    assume ?L
    then obtain p m x where p: "c # s = p @ m @ x" "matches r (rev p @ l) m x" by blast
    then show "?A \<or> ?B" by (cases p) auto
  next
    assume "?A \<or> ?B"
    then show ?L
    proof
      assume ?A then show ?L by (metis append_Nil rev.simps(1))
    next
      assume ?B
      then obtain p m x where "s = p @ m @ x" "matches r (rev p @ c # l) m x" by blast
      then show ?L by (intro exI [of _ "c # p"] exI [of _ m] exI [of _ x]) simp
    qed
  qed
  then show ?case unfolding scan.simps ends_nonempty Cons.IH by blast
qed

lemma test_iff: "test r s \<longleftrightarrow> (\<exists>p m x. s = p @ m @ x \<and> matches r (rev p) m x)"
  unfolding test_def scan_iff by simp

section \<open>Derived facts\<close>

lemma matches_seqs_Cons [simp]: "matches (seqs (r # rs)) l m x \<longleftrightarrow>
    (\<exists>m1 m2. m = m1 @ m2 \<and> matches r l m1 (m2 @ x) \<and> matches (seqs rs) (rev m1 @ l) m2 x)"
  by (cases rs) auto

lemma matches_alts_Cons [simp]: "matches (alts (r # rs)) l m x \<longleftrightarrow> matches r l m x \<or> matches (alts rs) l m x"
  by (cases rs) auto

lemma split_one [simp]:
  "(\<exists>m1 m2. m = m1 @ m2 \<and> (\<exists>c. m1 = [c] \<and> P c) \<and> Q m1 m2) \<longleftrightarrow> (\<exists>c m2. m = c # m2 \<and> P c \<and> Q [c] m2)"
  by auto (metis append_Cons append_Nil)

lemma matches_lit [simp]: "matches (lit w) l m x \<longleftrightarrow> map lower_char m = w"
proof -
  have "matches (seqs (map ci w)) l m x \<longleftrightarrow> map lower_char m = w" for m
  proof (induction w arbitrary: l m)
    case (Cons c w)
    show ?case unfolding list.map matches_seqs_Cons Cons.IH
      by (auto simp: ci_def map_eq_Cons_conv)
  qed simp
  then show ?thesis unfolding lit_def .
qed

lemma stars_class: "stars (matches (Cls P)) l m x \<longleftrightarrow> (\<forall>c \<in> set m. P c)"
proof
  assume "stars (matches (Cls P)) l m x"
  then show "\<forall>c \<in> set m. P c" by (induction rule: stars.induct) auto
next
  show "\<forall>c \<in> set m. P c \<Longrightarrow> stars (matches (Cls P)) l m x"
  proof (induction m arbitrary: l)
    case (Cons c m)
    have "stars (matches (Cls P)) l ([c] @ m) x"
      using Cons by (intro stars_step) (simp_all del: matches.simps(2), simp)
    then show ?case unfolding append.simps .
  qed (rule stars_Nil)
qed

lemma matches_star_class: "matches (Star (Cls P)) l m x \<longleftrightarrow> (\<forall>c \<in> set m. P c)"
  by (simp add: stars_class del: matches.simps(2))

lemma matches_plus_class: "matches (plus (Cls P)) l m x \<longleftrightarrow> m \<noteq> [] \<and> (\<forall>c \<in> set m. P c)"
proof -
  have "matches (plus (Cls P)) l m x \<longleftrightarrow> (\<exists>c m2. m = c # m2 \<and> P c \<and> (\<forall>c \<in> set m2. P c))"
    unfolding plus_def matches.simps(3) matches_star_class unfolding matches.simps(2) split_one ..
  also have "\<dots> \<longleftrightarrow> m \<noteq> [] \<and> (\<forall>c \<in> set m. P c)" by (cases m) auto
  finally show ?thesis .
qed

lemma matches_upto_class: "matches (upto n (Cls P)) l m x \<longleftrightarrow> length m \<le> n \<and> (\<forall>c \<in> set m. P c)"
proof (induction n arbitrary: l m)
  case (Suc n)
  have "matches (upto (Suc n) (Cls P)) l m x \<longleftrightarrow>
      (\<exists>c m2. m = c # m2 \<and> P c \<and> length m2 \<le> n \<and> (\<forall>c \<in> set m2. P c)) \<or> m = []"
    unfolding upto.simps opt_def matches.simps(1,3,4) Suc.IH unfolding matches.simps(2) split_one ..
  also have "\<dots> \<longleftrightarrow> length m \<le> Suc n \<and> (\<forall>c \<in> set m. P c)" by (cases m) auto
  finally show ?case .
qed auto

lemma matches_spaces [simp]: "matches (Star sp) l m x \<longleftrightarrow> (\<forall>c \<in> set m. is_space c)"
  unfolding sp_def by (rule matches_star_class)

lemma matches_spaces1 [simp]: "matches (plus sp) l m x \<longleftrightarrow> m \<noteq> [] \<and> (\<forall>c \<in> set m. is_space c)"
  unfolding sp_def by (rule matches_plus_class)

section \<open>Delimited expressions\<close>

definition ends_clear :: "(char \<Rightarrow> bool) \<Rightarrow> string \<Rightarrow> string \<Rightarrow> bool" where
  "ends_clear clear p x \<longleftrightarrow> (p = [] \<or> clear (last p)) \<and> (x = [] \<or> clear (hd x))"

abbreviation blank :: "string \<Rightarrow> bool" where
  "blank g \<equiv> g \<noteq> [] \<and> (\<forall>c \<in> set g. is_space c)"

lemma matches_seqs_append: "matches (seqs (us @ vs)) l m x \<longleftrightarrow>
    (\<exists>m1 m2. m = m1 @ m2 \<and> matches (seqs us) l m1 (m2 @ x) \<and> matches (seqs vs) (rev m1 @ l) m2 x)"
proof (induction us arbitrary: l m)
  case (Cons u us)
  show ?case (is "?L \<longleftrightarrow> ?R")
  proof
    assume ?L
    then obtain a b c where "m = (a @ b) @ c" "matches u l a ((b @ c) @ x)"
        "matches (seqs us) (rev a @ l) b (c @ x)" "matches (seqs vs) (rev (a @ b) @ l) c x"
      unfolding append_Cons matches_seqs_Cons Cons.IH by auto
    then have "m = (a @ b) @ c" "matches (seqs (u # us)) l (a @ b) (c @ x)" "matches (seqs vs) (rev (a @ b) @ l) c x"
      unfolding matches_seqs_Cons by auto
    then show ?R by blast
  next
    assume ?R
    then obtain a b c where "m = a @ b @ c" "matches u l a (b @ c @ x)"
        "matches (seqs us) (rev a @ l) b (c @ x)" "matches (seqs vs) (rev b @ rev a @ l) c x"
      unfolding matches_seqs_Cons by auto
    then show ?L unfolding append_Cons matches_seqs_Cons Cons.IH
      by (intro exI [of _ a] exI [of _ "b @ c"] conjI exI [of _ b] exI [of _ c]) simp_all
  qed
qed simp

lemma matches_framed: "matches (seqs (r # rs @ [r'])) l m x \<longleftrightarrow>
    (\<exists>a b c. m = a @ b @ c \<and> matches r l a (b @ c @ x) \<and> matches (seqs rs) (rev a @ l) b (c @ x) \<and>
       matches r' (rev b @ rev a @ l) c x)"
  unfolding matches_seqs_Cons matches_seqs_append seqs.simps(2) by auto (metis append.assoc)+

text \<open>
  An expression between \<open>(?:^|\s)\<close> and \<open>(?:\s|$)\<close> matches somewhere exactly where spaces or the
  ends of the text adjoin it; one between word boundaries exactly where no word character
  adjoins it.
\<close>

lemma test_spaced:
  assumes free: "\<And>l m x. matches (seqs rs) l m x \<longleftrightarrow> P m"
  shows "test (seqs (Alt AtStart sp # rs @ [Alt sp AtEnd])) s \<longleftrightarrow>
    (\<exists>p m x. s = p @ m @ x \<and> P m \<and> ends_clear is_space p x)" (is "?L \<longleftrightarrow> ?R")
proof
  assume ?L
  then obtain p a b c x where s: "s = p @ (a @ b @ c) @ x" and b: "P b"
    and a: "matches (Alt AtStart sp) (rev p) a (b @ c @ x)" and c: "matches (Alt sp AtEnd) (rev b @ rev a @ rev p) c x"
    unfolding test_iff matches_framed free by blast
  have "p @ a = [] \<or> is_space (last (p @ a))" using a by (auto simp: sp_def)
  moreover have "c @ x = [] \<or> is_space (hd (c @ x))" using c by (auto simp: sp_def)
  moreover have "s = (p @ a) @ b @ (c @ x)" using s by simp
  ultimately show ?R using b unfolding ends_clear_def by blast
next
  assume ?R
  then obtain p m x where s: "s = p @ m @ x" and m: "P m" and e: "ends_clear is_space p x" by blast
  define a where "a = (if p = [] then [] else [last p])"
  define c where "c = (if x = [] then [] else [hd x])"
  have "s = butlast p @ (a @ m @ c) @ tl x" unfolding s a_def c_def by simp
  moreover have "matches (Alt AtStart sp) (rev (butlast p)) a (m @ c @ tl x)"
    using e unfolding a_def ends_clear_def by (auto simp: sp_def)
  moreover have "matches (Alt sp AtEnd) (rev m @ rev a @ rev (butlast p)) c (tl x)"
    using e unfolding c_def ends_clear_def by (auto simp: sp_def)
  ultimately show ?L unfolding test_iff matches_framed free using m by blast
qed

lemma test_bounded:
  assumes free: "\<And>l m x. matches (seqs rs) l m x \<longleftrightarrow> P m"
    and words: "\<And>m. P m \<Longrightarrow> m \<noteq> [] \<and> is_word (hd m) \<and> is_word (last m)"
  shows "test (seqs (Bound # rs @ [Bound])) s \<longleftrightarrow>
    (\<exists>p m x. s = p @ m @ x \<and> P m \<and> ends_clear (\<lambda>c. \<not> is_word c) p x)"
proof -
  have before: "is_boundary (rev p, m @ x) \<longleftrightarrow> p = [] \<or> \<not> is_word (last p)"
    if "m \<noteq> []" "is_word (hd m)" for p m x
    using that by (cases p rule: rev_cases; cases m) (auto simp: is_boundary_def)
  have after: "is_boundary (rev m @ l, x) \<longleftrightarrow> x = [] \<or> \<not> is_word (hd x)"
    if "m \<noteq> []" "is_word (last m)" for l m x
    using that by (cases m rule: rev_cases; cases x) (auto simp: is_boundary_def)
  have "matches (seqs (Bound # rs @ [Bound])) (rev p) m x \<longleftrightarrow> P m \<and> ends_clear (\<lambda>c. \<not> is_word c) p x" for p m x
    unfolding matches_framed free using words [of m] before [of m p x] after [of m "rev p" x]
    by (auto simp: ends_clear_def)
  then show ?thesis unfolding test_iff by blast
qed

lemma is_word_letter: "lower_char c = d \<Longrightarrow> is_lower d \<Longrightarrow> is_word c"
  by (simp add: is_word_def)

lemma lower_ends:
  assumes "toLowerCase m = w" and "w \<noteq> []" and "\<forall>c \<in> set w. is_lower c"
  shows "m \<noteq> [] \<and> is_word (hd m) \<and> is_word (last m)"
proof -
  have m: "m \<noteq> []" using assms by (auto simp: toLowerCase_def)
  have "is_word c" if "c \<in> set m" for c
    using that assms is_word_letter unfolding toLowerCase_def by (metis image_eqI set_map)
  with m show ?thesis by simp
qed

section \<open>Expressions without assertions\<close>

fun assertion_free :: "rx \<Rightarrow> bool" where
  "assertion_free (Seq a b) \<longleftrightarrow> assertion_free a \<and> assertion_free b"
| "assertion_free (Alt a b) \<longleftrightarrow> assertion_free a \<and> assertion_free b"
| "assertion_free (Star a) \<longleftrightarrow> assertion_free a"
| "assertion_free Bound \<longleftrightarrow> False"
| "assertion_free AtStart \<longleftrightarrow> False"
| "assertion_free AtEnd \<longleftrightarrow> False"
| "assertion_free _ \<longleftrightarrow> True"

fun over :: "(char \<Rightarrow> bool) \<Rightarrow> rx \<Rightarrow> bool" where
  "over Q (Cls P) \<longleftrightarrow> (\<forall>c. P c \<longrightarrow> Q c)"
| "over Q (Seq a b) \<longleftrightarrow> over Q a \<and> over Q b"
| "over Q (Alt a b) \<longleftrightarrow> over Q a \<and> over Q b"
| "over Q (Star a) \<longleftrightarrow> over Q a"
| "over Q _ \<longleftrightarrow> True"

lemma stars_context:
  assumes "\<And>l m x l' x'. P l m x \<Longrightarrow> P l' m x'"
  shows "stars P l m x \<Longrightarrow> stars P l' m x'"
proof (induction arbitrary: l' rule: stars.induct)
  case (stars_step l m m' x)
  have "P l' m (m' @ x')" using assms stars_step.hyps by blast
  moreover have "stars P (rev m @ l') m' x'" by (rule stars_step.IH)
  ultimately show ?case by (rule stars.stars_step)
qed (rule stars_Nil)

lemma matches_context: "assertion_free r \<Longrightarrow> matches r l m x \<Longrightarrow> matches r l' m x'"
proof (induction r arbitrary: l m x l' x')
  case (Seq a b l m x l' x')
  then obtain m1 m2 where "m = m1 @ m2" "matches a l m1 (m2 @ x)" "matches b (rev m1 @ l) m2 x" by auto
  moreover from this Seq have "matches a l' m1 (m2 @ x')" "matches b (rev m1 @ l') m2 x'" by auto
  ultimately show ?case unfolding matches.simps(3) by blast
next
  case (Star a l m x l' x')
  then have "stars (matches a) l m x" by simp
  moreover have "matches a l m x \<Longrightarrow> matches a l' m x'" for l m x l' x' using Star by simp
  ultimately show ?case using stars_context [of "matches a"] by simp
qed auto

lemma matches_over: "over Q r \<Longrightarrow> matches r l m x \<Longrightarrow> \<forall>c \<in> set m. Q c"
proof (induction r arbitrary: l m x)
  case (Star a)
  from Star.prems have "stars (matches a) l m x" by simp
  then show ?case by (induction rule: stars.induct) (use Star in auto)
qed fastforce+

end
