(* ===== verification/Js_Value.thy ===== *)
theory Js_Value
  imports Prelude
begin

text \<open>
  Values of unknown type that reach a schema, and the object schema that refuses unknown keys.
  A missing property reads as \<open>JUndefined\<close>, so that an optional property accepts both its
  absence and an explicit \<open>undefined\<close>.  Numbers are the finite ones; everything that is neither
  a JSON value nor \<open>undefined\<close> is \<open>JOther\<close>, which every schema of the development refuses.
\<close>

datatype js_value =
    JUndefined
  | JNull
  | JBool bool
  | JNum rat
  | JString string
  | JArray "js_value list"
  | JObject "(string \<times> js_value) list"
  | JOther

definition property :: "(string \<times> js_value) list \<Rightarrow> string \<Rightarrow> js_value" where
  "property fields k = getOr fields k JUndefined"

definition strictObject :: "string list \<Rightarrow> js_value \<Rightarrow> (string \<Rightarrow> js_value) option" where
  "strictObject keys v =
     (case v of
        JObject fields \<Rightarrow> if list_all (\<lambda>(k, _). k \<in> set keys) fields then Some (property fields) else None
      | _ \<Rightarrow> None)"

text \<open>Readers for the primitive schemas: a refused value is \<open>None\<close>.\<close>

fun asString :: "js_value \<Rightarrow> string option" where
  "asString (JString s) = Some s"
| "asString _ = None"

definition asText :: "js_value \<Rightarrow> string option" where
  "asText v = (case asString v of Some s \<Rightarrow> if s \<noteq> '''' then Some s else None | None \<Rightarrow> None)"

definition asOptional :: "(js_value \<Rightarrow> 'a option) \<Rightarrow> js_value \<Rightarrow> 'a option option" where
  "asOptional rd v = (if v = JUndefined then Some None else map_option Some (rd v))"

fun asList :: "(js_value \<Rightarrow> 'a option) \<Rightarrow> js_value list \<Rightarrow> 'a list option" where
  "asList rd [] = Some []"
| "asList rd (v # vs) =
     (case (rd v, asList rd vs) of (Some x, Some xs) \<Rightarrow> Some (x # xs) | _ \<Rightarrow> None)"

fun asArray :: "(js_value \<Rightarrow> 'a option) \<Rightarrow> js_value \<Rightarrow> 'a list option" where
  "asArray rd (JArray vs) = asList rd vs"
| "asArray rd _ = None"

fun asInt :: "js_value \<Rightarrow> int option" where
  "asInt (JNum q) = (if of_int \<lfloor>q\<rfloor> = q then Some \<lfloor>q\<rfloor> else None)"
| "asInt _ = None"

fun asBool :: "js_value \<Rightarrow> bool option" where
  "asBool (JBool b) = Some b"
| "asBool _ = None"

definition asTrimmed :: "nat \<Rightarrow> nat \<Rightarrow> js_value \<Rightarrow> string option" where
  "asTrimmed lo hi v = (case asString v of Some s \<Rightarrow> if textOf lo hi s then Some (trim s) else None | None \<Rightarrow> None)"

definition asNullable :: "(js_value \<Rightarrow> 'a option) \<Rightarrow> js_value \<Rightarrow> 'a option option" where
  "asNullable rd v = (if v = JNull then Some None else map_option Some (rd v))"

lemma asList_strings [simp]: "asList asString (map JString xs) = Some xs"
  by (induction xs) auto

lemma asText_Some [simp]: "asText v = Some s \<longleftrightarrow> v = JString s \<and> s \<noteq> ''''"
  by (cases v) (auto simp: asText_def)

end
