(* ===== verification/Tool_Policy.thy ===== *)
theory Tool_Policy
  imports Agent_Guards Js_Value
begin

text \<open>
  The agent policy (\<open>packages/agent-policies/src\<close>: \<open>approval.ts\<close>, \<open>risk.ts\<close>) over the tool
  catalogue of \<open>packages/contracts/src/tools.ts\<close>: which tool calls of an agent are allowed,
  denied or stopped for a person.
  The context is typed in the source, so the model takes it as a record whose omitted fields
  are \<open>None\<close>; the tool input is \<open>unknown\<close> and is a \<open>js_value\<close>.
\<close>

section \<open>The tool catalogue\<close>

datatype tool_name =
    Read_file | List_files | File_stats | Search_code | Grep | Git_status | Git_diff |
    Git_log | Git_show | Read_logs | Read_test_results | Read_database_schema |
    Read_project_contract | Write_file | Apply_patch | Copy_file | Rename_file |
    Delete_file | Install_dependency | Execute_migration | Set_environment_variable |
    Run_command | Run_dev_server | Restart_dev_server | Run_build | Run_typecheck |
    Run_lint | Run_unit_tests | Run_integration_tests | Run_browser_tests |
    Capture_screenshot | Inspect_browser_console | Inspect_network_requests |
    Create_branch | Create_checkpoint | Commit_changes | Restore_file | Revert_commit |
    Merge_branch | Create_preview | Run_preview_smoke_test | Create_release_candidate |
    Deploy_release | Check_deployment_health | Rollback_release

definition TOOL_GROUPS_read :: "tool_name list" where
  "TOOL_GROUPS_read = [
     Read_file, List_files, File_stats, Search_code, Grep, Git_status, Git_diff, Git_log,
     Git_show, Read_logs, Read_test_results, Read_database_schema, Read_project_contract]"

definition TOOL_GROUPS_mutation :: "tool_name list" where
  "TOOL_GROUPS_mutation = [
     Write_file, Apply_patch, Copy_file, Rename_file, Delete_file, Install_dependency,
     Execute_migration, Set_environment_variable]"

definition TOOL_GROUPS_execution :: "tool_name list" where
  "TOOL_GROUPS_execution = [
     Run_command, Run_dev_server, Restart_dev_server, Run_build, Run_typecheck, Run_lint,
     Run_unit_tests, Run_integration_tests, Run_browser_tests, Capture_screenshot,
     Inspect_browser_console, Inspect_network_requests]"

definition TOOL_GROUPS_git :: "tool_name list" where
  "TOOL_GROUPS_git = [
     Create_branch, Create_checkpoint, Commit_changes, Restore_file, Revert_commit,
     Merge_branch]"

definition TOOL_GROUPS_release :: "tool_name list" where
  "TOOL_GROUPS_release = [
     Create_preview, Run_preview_smoke_test, Create_release_candidate, Deploy_release,
     Check_deployment_health, Rollback_release]"

definition TOOL_NAMES :: "tool_name list" where
  "TOOL_NAMES = TOOL_GROUPS_read @ TOOL_GROUPS_mutation @ TOOL_GROUPS_execution @ TOOL_GROUPS_git @ TOOL_GROUPS_release"

definition READ_ONLY_TOOL_NAMES :: "tool_name list" where
  "READ_ONLY_TOOL_NAMES = TOOL_GROUPS_read"

definition HIGH_RISK_POLICY_TOOL_NAMES :: "tool_name list" where
  "HIGH_RISK_POLICY_TOOL_NAMES = [Execute_migration, Set_environment_variable]"

definition HUMAN_APPROVAL_TOOL_NAMES :: "tool_name list" where
  "HUMAN_APPROVAL_TOOL_NAMES = [Deploy_release, Rollback_release]"

definition RELEASE_TOOL_NAMES :: "tool_name list" where
  "RELEASE_TOOL_NAMES = TOOL_GROUPS_release"

definition SANDBOX_CONTAINED_TOOL_NAMES :: "tool_name list" where
  "SANDBOX_CONTAINED_TOOL_NAMES = [
     Write_file, Apply_patch, Copy_file, Rename_file, Delete_file, Install_dependency,
     Run_command, Run_dev_server, Restart_dev_server, Run_build, Run_typecheck, Run_lint,
     Run_unit_tests, Run_integration_tests, Create_branch, Create_checkpoint,
     Commit_changes, Restore_file, Revert_commit, Merge_branch]"

lemmas tool_sets = TOOL_NAMES_def TOOL_GROUPS_read_def TOOL_GROUPS_mutation_def TOOL_GROUPS_execution_def
  TOOL_GROUPS_git_def TOOL_GROUPS_release_def READ_ONLY_TOOL_NAMES_def HIGH_RISK_POLICY_TOOL_NAMES_def
  HUMAN_APPROVAL_TOOL_NAMES_def RELEASE_TOOL_NAMES_def SANDBOX_CONTAINED_TOOL_NAMES_def

section \<open>Contexts, inputs and decisions\<close>

datatype run_mode = Ask | Prototype | Build | Fix | Autonomous

datatype environment_scope = Preview | Staging | Production

datatype execution_boundary = Uncontained | Network_profiled_sandbox

datatype data_disposition = Preserve | Transfer | Reset

datatype deployment_type = First_deploy | Redeploy | Replace_deployment

record deployment_approval =
  releaseId :: string
  deploymentType :: deployment_type
  dataDisposition :: "data_disposition option"

record policy_context =
  mode :: run_mode
  provenance :: "content_provenance list"
  executionBoundary :: execution_boundary
  environmentScope :: environment_scope
  approvedReleaseId :: "string option"
  approvedDeployment :: "deployment_approval option"

record policy_context_input =
  i_mode :: run_mode
  i_provenance :: "content_provenance list"
  i_executionBoundary :: "execution_boundary option"
  i_environmentScope :: "environment_scope option"
  i_approvedReleaseId :: "string option"
  i_approvedDeployment :: "deployment_approval option"

datatype tool_classification = Read_only | Mutating
datatype tool_risk_level = Low_risk | Medium_risk | High_risk
datatype tool_approval_policy = Auto | Policy | Human

record tool_policy_metadata =
  name :: tool_name
  classification :: tool_classification
  riskLevel :: tool_risk_level
  approvalPolicy :: tool_approval_policy

datatype approval_reason = Destructive_migration | Production_migration | Release_approval_required
datatype deny_reason = Ask_mode_mutation | Dangerous_command | Untrusted_instruction

datatype policy_decision = Allow | Require_approval approval_reason | Deny deny_reason

datatype policy_error = Invalid_context | Invalid_input

record run_command_input =
  cmd :: string
  args :: "string list"
  cwd :: "string option"
  timeoutMs :: "int option"

record execute_migration_input =
  environmentId :: string
  migration :: string

section \<open>Schemas\<close>

text \<open>The discriminated union: a disposition is given exactly when a deployment is replaced.\<close>

definition DeploymentApprovalSchema :: "deployment_approval \<Rightarrow> bool" where
  "DeploymentApprovalSchema d \<longleftrightarrow>
     releaseId d \<noteq> '''' \<and>
     (case deploymentType d of
        First_deploy \<Rightarrow> dataDisposition d = None
      | Redeploy \<Rightarrow> dataDisposition d = None
      | Replace_deployment \<Rightarrow> dataDisposition d \<noteq> None)"

definition PolicyContextSchema_parse :: "policy_context_input \<Rightarrow> policy_error + policy_context" where
  "PolicyContextSchema_parse c =
     (if list_all (\<lambda>p. source p \<noteq> '''') (i_provenance c) \<and>
         i_approvedReleaseId c \<noteq> Some '''' \<and>
         (case i_approvedDeployment c of None \<Rightarrow> True | Some d \<Rightarrow> DeploymentApprovalSchema d)
      then Inr \<lparr>mode = i_mode c, provenance = i_provenance c,
                executionBoundary = (case i_executionBoundary c of None \<Rightarrow> Uncontained | Some b \<Rightarrow> b),
                environmentScope = (case i_environmentScope c of None \<Rightarrow> Production | Some e \<Rightarrow> e),
                approvedReleaseId = i_approvedReleaseId c,
                approvedDeployment = i_approvedDeployment c\<rparr>
      else Inl Invalid_context)"

definition canonicalToolMetadata :: "tool_name \<Rightarrow> tool_policy_metadata" where
  "canonicalToolMetadata tool =
     (let readOnly = tool \<in> set READ_ONLY_TOOL_NAMES in
      \<lparr>name = tool,
       classification = (if readOnly then Read_only else Mutating),
       riskLevel =
         (if readOnly then Low_risk
          else if tool \<in> set RELEASE_TOOL_NAMES \<or> tool \<in> set HIGH_RISK_POLICY_TOOL_NAMES then High_risk
          else Medium_risk),
       approvalPolicy =
         (if readOnly then Auto
          else if tool \<in> set HUMAN_APPROVAL_TOOL_NAMES then Human
          else Policy)\<rparr>)"

definition asTimeout :: "js_value \<Rightarrow> int option" where
  "asTimeout v = (case asInt v of Some n \<Rightarrow> if 0 < n \<and> n \<le> 120000 then Some n else None | None \<Rightarrow> None)"

definition RunCommandPolicyInputSchema_parse :: "js_value \<Rightarrow> policy_error + run_command_input" where
  "RunCommandPolicyInputSchema_parse v =
     (case strictObject [''cmd'', ''args'', ''cwd'', ''timeoutMs''] v of
        None \<Rightarrow> Inl Invalid_input
      | Some f \<Rightarrow>
          (case (asText (f ''cmd''), asArray asString (f ''args''),
                 asOptional asText (f ''cwd''), asOptional asTimeout (f ''timeoutMs'')) of
             (Some c, Some xs, Some d, Some t) \<Rightarrow> Inr \<lparr>cmd = c, args = xs, cwd = d, timeoutMs = t\<rparr>
           | _ \<Rightarrow> Inl Invalid_input))"

definition ExecuteMigrationPolicyInputSchema_parse :: "js_value \<Rightarrow> policy_error + execute_migration_input" where
  "ExecuteMigrationPolicyInputSchema_parse v =
     (case strictObject [''environmentId'', ''migration''] v of
        None \<Rightarrow> Inl Invalid_input
      | Some f \<Rightarrow>
          (case (asText (f ''environmentId''), asText (f ''migration'')) of
             (Some e, Some m) \<Rightarrow> Inr \<lparr>environmentId = e, migration = m\<rparr>
           | _ \<Rightarrow> Inl Invalid_input))"

fun asDisposition :: "js_value \<Rightarrow> data_disposition option" where
  "asDisposition (JString s) =
     (if s = ''preserve'' then Some Preserve
      else if s = ''transfer'' then Some Transfer
      else if s = ''reset'' then Some Reset
      else None)"
| "asDisposition _ = None"

text \<open>
  The option of the union is chosen by the discriminator; the options for a first deploy and
  a redeploy do not know the key \<open>dataDisposition\<close>.
\<close>

definition DeployReleasePolicyInputSchema_parse ::
    "js_value \<Rightarrow> policy_error + (string \<times> deployment_type \<times> data_disposition option)" where
  "DeployReleasePolicyInputSchema_parse v =
     (case v of
        JObject kvs \<Rightarrow>
          (let option = property kvs ''deploymentType'' in
           if option = JString ''first_deploy'' \<or> option = JString ''redeploy'' then
             (case strictObject [''releaseId'', ''deploymentType''] v of
                None \<Rightarrow> Inl Invalid_input
              | Some f \<Rightarrow>
                  (case asText (f ''releaseId'') of
                     None \<Rightarrow> Inl Invalid_input
                   | Some r \<Rightarrow> Inr (r, if option = JString ''first_deploy'' then First_deploy else Redeploy, None)))
           else if option = JString ''replace_deployment'' then
             (case strictObject [''releaseId'', ''deploymentType'', ''dataDisposition''] v of
                None \<Rightarrow> Inl Invalid_input
              | Some f \<Rightarrow>
                  (case (asText (f ''releaseId''), asDisposition (f ''dataDisposition'')) of
                     (Some r, Some d) \<Rightarrow> Inr (r, Replace_deployment, Some d)
                   | _ \<Rightarrow> Inl Invalid_input))
           else Inl Invalid_input)
      | _ \<Rightarrow> Inl Invalid_input)"

definition canonicalDeployment :: "js_value \<Rightarrow> policy_error + deployment_approval" where
  "canonicalDeployment v =
     andThen (DeployReleasePolicyInputSchema_parse v) (\<lambda>(r, t, d).
       let deployment = \<lparr>releaseId = r, deploymentType = t,
             dataDisposition = (if t = Replace_deployment then d else None)\<rparr> in
       if DeploymentApprovalSchema deployment then Inr deployment else Inl Invalid_input)"

definition approvalMatchesDeployment :: "deployment_approval option \<Rightarrow> deployment_approval \<Rightarrow> bool" where
  "approvalMatchesDeployment approval deployment =
     (case approval of
        None \<Rightarrow> False
      | Some a \<Rightarrow> releaseId a = releaseId deployment \<and> deploymentType a = deploymentType deployment \<and>
          dataDisposition a = dataDisposition deployment)"

section \<open>Risk patterns\<close>

definition rm_pattern :: rx where
  "rm_pattern = seqs [Alt AtStart sp, lit ''rm'', plus sp, lit ''-rf'', plus sp, exactly CHR ''/'', Alt sp AtEnd]"

definition curl_pattern :: rx where
  "curl_pattern = seqs [Alt AtStart sp, lit ''curl'', Alt sp AtEnd,
     Star (Cls (\<lambda>c. c \<noteq> CHR ''|'' \<and> c \<noteq> CHR 0x0D \<and> c \<noteq> CHR 0x0A)), exactly CHR ''|'', Star sp,
     opt (Alt (lit ''ba'') (lit ''z'')), lit ''sh'', Alt sp AtEnd]"

definition fork_bomb_pattern :: rx where
  "fork_bomb_pattern = seqs [exactly CHR '':'', Star sp, exactly CHR ''('', Star sp, exactly CHR '')'', Star sp,
     exactly CHR ''{'', Star sp, exactly CHR '':'', Star sp, exactly CHR ''|'', Star sp, exactly CHR '':'', Star sp,
     exactly CHR ''&'', Star sp, exactly CHR ''}'', Star sp, exactly CHR '';'', Star sp, exactly CHR '':'']"

definition COMMAND_DENY_PATTERNS :: "rx list" where
  "COMMAND_DENY_PATTERNS = [rm_pattern, curl_pattern, fork_bomb_pattern]"

definition SQL_always :: "rx list" where
  "SQL_always = [seqs [Bound, lit ''drop'', plus sp, lit ''table'', Bound],
     seqs [Bound, lit ''drop'', plus sp, lit ''column'', Bound],
     seqs [Bound, lit ''truncate'', Bound]]"

definition SQL_deleteFrom :: rx where
  "SQL_deleteFrom = seqs [Bound, lit ''delete'', plus sp, lit ''from'', Bound]"

definition SQL_where :: rx where
  "SQL_where = seqs [Bound, lit ''where'', Bound]"

section \<open>The decision\<close>

definition hasUntrustedProvenance :: "policy_context \<Rightarrow> bool" where
  "hasUntrustedProvenance c = list_ex (\<lambda>p. trust p = Untrusted) (provenance c)"

definition commandLine :: "run_command_input \<Rightarrow> string" where
  "commandLine c = join '' '' (cmd c # args c)"

definition commandIsDenied :: "js_value \<Rightarrow> policy_error + bool" where
  "commandIsDenied v =
     andThen (RunCommandPolicyInputSchema_parse v) (\<lambda>command.
       Inr (list_ex (\<lambda>pattern. test pattern (commandLine command)) COMMAND_DENY_PATTERNS))"

definition migrationNeedsApproval :: "js_value \<Rightarrow> policy_error + bool" where
  "migrationNeedsApproval v =
     andThen (ExecuteMigrationPolicyInputSchema_parse v) (\<lambda>inp.
       let sql = migration inp in
       if list_ex (\<lambda>pattern. test pattern sql) SQL_always then Inr True
       else Inr (test SQL_deleteFrom sql \<and> \<not> test SQL_where sql))"

definition evaluateToolCall :: "policy_context_input \<Rightarrow> tool_name \<Rightarrow> js_value \<Rightarrow> policy_error + policy_decision" where
  "evaluateToolCall context tool input =
     andThen (PolicyContextSchema_parse context) (\<lambda>policyContext.
       let metadata = canonicalToolMetadata tool;
           consequential = (classification metadata = Mutating)
       in
       if consequential \<and> mode policyContext = Ask then Inr (Deny Ask_mode_mutation)
       else if consequential \<and> hasUntrustedProvenance policyContext \<and>
         \<not> (executionBoundary policyContext = Network_profiled_sandbox \<and> tool \<in> set SANDBOX_CONTAINED_TOOL_NAMES)
       then Inr (Deny Untrusted_instruction)
       else andThen (if name metadata = Run_command then commandIsDenied input else Inr False) (\<lambda>denied.
       if denied then Inr (Deny Dangerous_command)
       else andThen (if name metadata = Execute_migration then migrationNeedsApproval input else Inr False) (\<lambda>destructive.
       if destructive then Inr (Require_approval Destructive_migration)
       else if name metadata = Execute_migration \<and> environmentScope policyContext = Production
       then Inr (Require_approval Production_migration)
       else andThen (if name metadata = Deploy_release
              then andThen (canonicalDeployment input)
                     (\<lambda>deployment. Inr (\<not> approvalMatchesDeployment (approvedDeployment policyContext) deployment))
              else Inr False) (\<lambda>unapproved.
       if unapproved then Inr (Require_approval Release_approval_required)
       else if approvalPolicy metadata = Human \<and> name metadata \<noteq> Deploy_release
       then Inr (Require_approval Release_approval_required)
       else Inr Allow))))"

section \<open>What the patterns mean\<close>

text \<open>\<open>rm -rf /\<close> as words of the command line, in any case and with any spacing.\<close>

definition deletes_root :: "string \<Rightarrow> bool" where
  "deletes_root line \<longleftrightarrow>
     (\<exists>p m x. line = p @ m @ x \<and>
        (\<exists>r g f h. m = r @ g @ f @ h @ ''/'' \<and> toLowerCase r = ''rm'' \<and> blank g \<and>
           toLowerCase f = ''-rf'' \<and> blank h) \<and>
        ends_clear is_space p x)"

text \<open>A \<open>curl\<close> word whose output is piped, on the same line, into \<open>sh\<close>, \<open>bash\<close> or \<open>zsh\<close>.\<close>

definition pipes_to_shell :: "string \<Rightarrow> bool" where
  "pipes_to_shell line \<longleftrightarrow>
     (\<exists>p m x. line = p @ m @ x \<and>
        (\<exists>a b mid g sh. m = a @ b # mid @ CHR ''|'' # g @ sh \<and> toLowerCase a = ''curl'' \<and> is_space b \<and>
           (\<forall>c \<in> set mid. c \<noteq> CHR ''|'' \<and> c \<noteq> CHR 0x0D \<and> c \<noteq> CHR 0x0A) \<and>
           (\<forall>c \<in> set g. is_space c) \<and> toLowerCase sh \<in> {''sh'', ''bash'', ''zsh''}) \<and>
        ends_clear is_space p x)"

text \<open>The shell fork bomb, whatever white space is put into it.\<close>

definition fork_bomb :: "string \<Rightarrow> bool" where
  "fork_bomb line \<longleftrightarrow> sublist '':(){:|:&};:'' (filter (\<lambda>c. \<not> is_space c) line)"

text \<open>A word, or two words with space between, that no word character adjoins.\<close>

definition has_word :: "string \<Rightarrow> string \<Rightarrow> bool" where
  "has_word w s \<longleftrightarrow> (\<exists>p m x. s = p @ m @ x \<and> toLowerCase m = w \<and> ends_clear (\<lambda>c. \<not> is_word c) p x)"

definition has_words :: "string \<Rightarrow> string \<Rightarrow> string \<Rightarrow> bool" where
  "has_words v w s \<longleftrightarrow>
     (\<exists>p m x. s = p @ m @ x \<and>
        (\<exists>a g b. m = a @ g @ b \<and> toLowerCase a = v \<and> blank g \<and> toLowerCase b = w) \<and>
        ends_clear (\<lambda>c. \<not> is_word c) p x)"

definition destructive_sql :: "string \<Rightarrow> bool" where
  "destructive_sql s \<longleftrightarrow>
     has_words ''drop'' ''table'' s \<or> has_words ''drop'' ''column'' s \<or> has_word ''truncate'' s \<or>
     (has_words ''delete'' ''from'' s \<and> \<not> has_word ''where'' s)"

lemma lit_words: "matches (seqs [lit v, plus sp, lit w]) l m x \<longleftrightarrow>
    (\<exists>a g b. m = a @ g @ b \<and> toLowerCase a = v \<and> blank g \<and> toLowerCase b = w)"
  unfolding seqs.simps matches.simps(3) matches_spaces1 matches_lit toLowerCase_def [symmetric] by blast

lemma rm_pattern_iff: "test rm_pattern line \<longleftrightarrow> deletes_root line"
proof -
  have "matches (seqs [lit ''rm'', plus sp, lit ''-rf'', plus sp, exactly CHR ''/'']) l m x \<longleftrightarrow>
      (\<exists>r g f h. m = r @ g @ f @ h @ ''/'' \<and> toLowerCase r = ''rm'' \<and> blank g \<and> toLowerCase f = ''-rf'' \<and> blank h)" for l m x
    unfolding seqs.simps matches.simps(3) matches_spaces1 matches_lit toLowerCase_def [symmetric] exactly_def matches.simps(2)
    by blast
  from test_spaced [of "[lit ''rm'', plus sp, lit ''-rf'', plus sp, exactly CHR ''/'']", OF this, of line]
  show ?thesis unfolding rm_pattern_def deletes_root_def append_Cons append_Nil .
qed

abbreviation shell_rx :: rx where
  "shell_rx \<equiv> Seq (opt (Alt (lit ''ba'') (lit ''z''))) (lit ''sh'')"

abbreviation unpiped_rx :: rx where
  "unpiped_rx \<equiv> Star (Cls (\<lambda>c. c \<noteq> CHR ''|'' \<and> c \<noteq> CHR 0x0D \<and> c \<noteq> CHR 0x0A))"

abbreviation piped_rx :: rx where
  "piped_rx \<equiv> Seq unpiped_rx (Seq (exactly CHR ''|'') (Seq (Star sp) shell_rx))"

abbreviation unpiped :: "string \<Rightarrow> bool" where
  "unpiped mid \<equiv> \<forall>c \<in> set mid. c \<noteq> CHR ''|'' \<and> c \<noteq> CHR 0x0D \<and> c \<noteq> CHR 0x0A"

abbreviation spaces_only :: "string \<Rightarrow> bool" where
  "spaces_only g \<equiv> \<forall>c \<in> set g. is_space c"

abbreviation shells :: "string set" where
  "shells \<equiv> {''sh'', ''bash'', ''zsh''}"

lemma shell_iff: "matches shell_rx l m x \<longleftrightarrow> toLowerCase m \<in> shells"
proof -
  have "(\<exists>m1 m2. m = m1 @ m2 \<and> toLowerCase m1 = v \<and> toLowerCase m2 = w) \<longleftrightarrow> toLowerCase m = v @ w" for v w
    unfolding toLowerCase_def map_eq_append_conv by auto
  then show ?thesis
    unfolding matches.simps(1,3,4) opt_def matches_lit toLowerCase_def [symmetric] conj_disj_distribR
      conj_disj_distribL ex_disj_distrib by (auto simp: toLowerCase_def)
qed

lemma piped_iff:
  "matches piped_rx l m x \<longleftrightarrow> (\<exists>mid g sh. m = mid @ CHR ''|'' # g @ sh \<and> unpiped mid \<and> spaces_only g \<and> toLowerCase sh \<in> shells)"
proof -
  have spaced: "matches (Seq (Star sp) shell_rx) l m x \<longleftrightarrow> (\<exists>g sh. m = g @ sh \<and> spaces_only g \<and> toLowerCase sh \<in> shells)" for l m x
    unfolding matches.simps(3) [of "Star sp"] matches_spaces shell_iff ..
  have "(\<exists>m1 m2. m = m1 @ m2 \<and> A m1 \<and> (\<exists>c m3. m2 = c # m3 \<and> c = d \<and> (\<exists>g sh. m3 = g @ sh \<and> B g \<and> C sh))) \<longleftrightarrow>
      (\<exists>mid g sh. m = mid @ d # g @ sh \<and> A mid \<and> B g \<and> C sh)" for A B C and d :: char
    by blast
  from this [of unpiped "CHR ''|''" spaces_only "\<lambda>sh. toLowerCase sh \<in> shells"]
  show ?thesis
    unfolding matches.simps(3) [of "exactly _"] matches.simps(3) [of "Star (Cls _)"] matches_star_class spaced
    unfolding exactly_def matches.simps(2) split_one .
qed

lemma after_curl_iff:
  "matches (Seq (Alt sp AtEnd) piped_rx) l m x \<longleftrightarrow>
     (\<exists>b mid g sh. m = b # mid @ CHR ''|'' # g @ sh \<and> is_space b \<and> unpiped mid \<and> spaces_only g \<and> toLowerCase sh \<in> shells)"
proof -
  have "matches (Seq AtEnd piped_rx) l m x \<longleftrightarrow> False"
    unfolding matches.simps(3) [of AtEnd] matches.simps(8) piped_iff by auto
  moreover have "matches (Seq (Alt sp AtEnd) piped_rx) l m x \<longleftrightarrow> matches (Seq sp piped_rx) l m x \<or> matches (Seq AtEnd piped_rx) l m x"
    unfolding matches.simps(3) [of "Alt sp AtEnd"] matches.simps(3) [of sp] matches.simps(3) [of AtEnd]
      matches.simps(4) by blast
  moreover have "matches (Seq sp piped_rx) l m x \<longleftrightarrow> (\<exists>b m2. m = b # m2 \<and> is_space b \<and> matches piped_rx (rev [b] @ l) m2 x)"
    unfolding matches.simps(3) [of sp] unfolding sp_def matches.simps(2) split_one ..
  moreover have "(\<exists>b m2. m = b # m2 \<and> A b \<and> (\<exists>mid g sh. m2 = mid @ d # g @ sh \<and> B mid \<and> C g \<and> D sh)) \<longleftrightarrow>
      (\<exists>b mid g sh. m = b # mid @ d # g @ sh \<and> A b \<and> B mid \<and> C g \<and> D sh)" for A B C D and d :: char
    by blast
  ultimately show ?thesis unfolding piped_iff by simp
qed

lemma curl_pattern_iff: "test curl_pattern line \<longleftrightarrow> pipes_to_shell line"
proof -
  have "matches (seqs [lit ''curl'', Alt sp AtEnd, unpiped_rx, exactly CHR ''|'', Star sp, opt (Alt (lit ''ba'') (lit ''z'')),
      lit ''sh'']) l m x \<longleftrightarrow>
    (\<exists>a b mid g sh. m = a @ b # mid @ CHR ''|'' # g @ sh \<and> toLowerCase a = ''curl'' \<and> is_space b \<and>
       unpiped mid \<and> spaces_only g \<and> toLowerCase sh \<in> shells)" for l m x
  proof -
    have "(\<exists>a m2. m = a @ m2 \<and> Z a \<and> (\<exists>b mid g sh. m2 = b # mid @ d # g @ sh \<and> A b \<and> B mid \<and> C g \<and> D sh)) \<longleftrightarrow>
          (\<exists>a b mid g sh. m = a @ b # mid @ d # g @ sh \<and> Z a \<and> A b \<and> B mid \<and> C g \<and> D sh)" for Z A B C D and d :: char
      by blast
    with after_curl_iff show ?thesis
      unfolding seqs.simps matches.simps(3) [of "lit ''curl''"] matches_lit toLowerCase_def [symmetric] by simp
  qed
  from test_spaced [of "[lit ''curl'', Alt sp AtEnd, unpiped_rx, exactly CHR ''|'', Star sp, opt (Alt (lit ''ba'') (lit ''z'')),
      lit ''sh'']", OF this, of line]
  show ?thesis unfolding curl_pattern_def pipes_to_shell_def append_Cons append_Nil .
qed

lemma word_iff: "w \<noteq> [] \<Longrightarrow> \<forall>c \<in> set w. is_lower c \<Longrightarrow> test (seqs [Bound, lit w, Bound]) s \<longleftrightarrow> has_word w s"
proof -
  assume w: "w \<noteq> []" "\<forall>c \<in> set w. is_lower c"
  have "matches (seqs [lit w]) l m x \<longleftrightarrow> toLowerCase m = w" for l m x by (simp add: toLowerCase_def)
  from test_bounded [of "[lit w]", OF this] lower_ends w
  show ?thesis unfolding has_word_def by simp
qed

lemma words_iff:
  assumes v: "v \<noteq> []" "\<forall>c \<in> set v. is_lower c" and w: "w \<noteq> []" "\<forall>c \<in> set w. is_lower c"
  shows "test (seqs [Bound, lit v, plus sp, lit w, Bound]) s \<longleftrightarrow> has_words v w s"
proof -
  have ends: "m \<noteq> [] \<and> is_word (hd m) \<and> is_word (last m)"
    if "\<exists>a g b. m = a @ g @ b \<and> toLowerCase a = v \<and> blank g \<and> toLowerCase b = w" for m
    using that lower_ends [OF _ v] lower_ends [OF _ w] by (auto simp: hd_append)
  from test_bounded [of "[lit v, plus sp, lit w]", OF lit_words ends]
  show ?thesis unfolding has_words_def append_Cons append_Nil .
qed

lemma filter_split: "filter P s = u @ v \<Longrightarrow> \<exists>a b. s = a @ b \<and> filter P a = u \<and> filter P b = v"
proof (induction s arbitrary: u)
  case (Cons c s)
  show ?case
  proof (cases "u = []")
    case True
    with Cons.prems show ?thesis by (intro exI [of _ "[]"] exI [of _ "c # s"]) simp
  next
    case False
    then obtain u' where u': "filter P s = u' @ v" "u = (if P c then c # u' else u')"
      using Cons.prems by (cases u) (auto split: if_splits)
    from Cons.IH [OF u'(1)] obtain a b where "s = a @ b" "filter P a = u'" "filter P b = v" by blast
    with u'(2) show ?thesis by (intro exI [of _ "c # a"] exI [of _ b]) simp
  qed
qed simp

lemma sublist_filter: "sublist w (filter P s) \<longleftrightarrow> (\<exists>p m x. s = p @ m @ x \<and> filter P m = w)"
proof
  assume "sublist w (filter P s)"
  then obtain u v where "filter P s = u @ w @ v" by (auto simp: sublist_def)
  from filter_split [OF this] obtain p r where "s = p @ r" "filter P r = w @ v" by blast
  moreover from filter_split [OF this(2)] obtain m x where "r = m @ x" "filter P m = w" by blast
  ultimately have "s = p @ m @ x" "filter P m = w" by simp_all
  then show "\<exists>p m x. s = p @ m @ x \<and> filter P m = w" by blast
qed (auto simp: sublist_def, blast)

fun spaced_rx :: "string \<Rightarrow> rx list" where
  "spaced_rx [] = []"
| "spaced_rx [c] = [exactly c]"
| "spaced_rx (c # w) = exactly c # Star sp # spaced_rx w"

lemma spaced_sound: "matches (seqs (spaced_rx w)) l m x \<Longrightarrow> \<forall>c \<in> set w. \<not> is_space c \<Longrightarrow>
    filter (\<lambda>c. \<not> is_space c) m = w"
proof (induction w arbitrary: l m rule: spaced_rx.induct)
  case (3 c d w)
  from "3.prems"(1) obtain g m2 where m: "m = c # g @ m2" "\<forall>c \<in> set g. is_space c"
      "\<exists>l. matches (seqs (spaced_rx (d # w))) l m2 x"
    unfolding spaced_rx.simps(3) matches_seqs_Cons matches_spaces exactly_def matches.simps(2) split_one by blast
  then have "filter (\<lambda>c. \<not> is_space c) m2 = d # w" using "3.IH" "3.prems"(2) by auto
  with m "3.prems"(2) show ?case by (simp add: filter_empty_conv)
qed (auto simp: exactly_def)

lemma spaced_complete: "filter (\<lambda>c. \<not> is_space c) m = c # w \<Longrightarrow> m = c # m2 \<Longrightarrow>
    \<exists>m' x'. m = m' @ x' \<and> (\<forall>l x. matches (seqs (spaced_rx (c # w))) l m' x)"
proof (induction w arbitrary: c m m2)
  case Nil
  then show ?case by (intro exI [of _ "[c]"] exI [of _ m2]) (simp add: exactly_def)
next
  case (Cons d w)
  define g where "g = takeWhile is_space m2"
  define m3 where "m3 = dropWhile is_space m2"
  have g: "m2 = g @ m3" "\<forall>c \<in> set g. is_space c"
    unfolding g_def m3_def by (simp, meson set_takeWhileD)
  have "c \<in> set (filter (\<lambda>c. \<not> is_space c) m)" unfolding Cons.prems(1) by simp
  then have "\<not> is_space c" by simp
  then have "filter (\<lambda>c. \<not> is_space c) m2 = d # w" using Cons.prems by simp
  with g have f: "filter (\<lambda>c. \<not> is_space c) m3 = d # w" by (simp add: filter_empty_conv)
  then obtain m4 where m3: "m3 = d # m4"
    using dropWhile_hd [of is_space m2] by (cases m3) (auto simp: m3_def [symmetric])
  from Cons.IH [OF f m3] obtain m' x' where m': "m3 = m' @ x'" "\<forall>l x. matches (seqs (spaced_rx (d # w))) l m' x"
    by blast
  have "matches (seqs (spaced_rx (c # d # w))) l (c # g @ m') x" for l x
    unfolding spaced_rx.simps(3) matches_seqs_Cons matches_spaces exactly_def matches.simps(2) split_one
    using m'(2) g(2) by blast
  then show ?case using Cons.prems(2) g(1) m'(1)
    by (intro exI [of _ "c # g @ m'"] exI [of _ x']) simp
qed

lemma test_spaced_chars:
  assumes "\<forall>d \<in> set (c # w). \<not> is_space d"
  shows "test (seqs (spaced_rx (c # w))) s \<longleftrightarrow> sublist (c # w) (filter (\<lambda>d. \<not> is_space d) s)"
  unfolding test_iff sublist_filter
proof
  assume "\<exists>p m x. s = p @ m @ x \<and> matches (seqs (spaced_rx (c # w))) (rev p) m x"
  then show "\<exists>p m x. s = p @ m @ x \<and> filter (\<lambda>d. \<not> is_space d) m = c # w" using spaced_sound [OF _ assms] by blast
next
  assume "\<exists>p m x. s = p @ m @ x \<and> filter (\<lambda>d. \<not> is_space d) m = c # w"
  then obtain p m x where s: "s = p @ m @ x" and f: "filter (\<lambda>d. \<not> is_space d) m = c # w" by blast
  from filter_eq_ConsD [OF f] obtain g m2 where m: "m = g @ c # m2" "\<not> is_space c" "w = filter (\<lambda>d. \<not> is_space d) m2"
    by blast
  then have "filter (\<lambda>d. \<not> is_space d) (c # m2) = c # w" by simp
  from spaced_complete [OF this refl] obtain m' x' where
      "c # m2 = m' @ x'" "\<forall>l x. matches (seqs (spaced_rx (c # w))) l m' x" by blast
  then show "\<exists>p m x. s = p @ m @ x \<and> matches (seqs (spaced_rx (c # w))) (rev p) m x"
    using s m(1) by (intro exI [of _ "p @ g"] exI [of _ m'] exI [of _ "x' @ x"]) simp
qed

lemma fork_bomb_pattern_iff: "test fork_bomb_pattern line \<longleftrightarrow> fork_bomb line"
proof -
  have pattern: "fork_bomb_pattern = seqs (spaced_rx '':(){:|:&};:'')" by (simp add: fork_bomb_pattern_def)
  have "\<forall>d \<in> set '':(){:|:&};:''. \<not> is_space d" by (simp add: is_space_def)
  from test_spaced_chars [OF this, of line] show ?thesis unfolding pattern fork_bomb_def .
qed

section \<open>Facts: the decision\<close>

lemma destructive_iff:
  "list_ex (\<lambda>pattern. test pattern sql) SQL_always \<or> (test SQL_deleteFrom sql \<and> \<not> test SQL_where sql) \<longleftrightarrow>
     destructive_sql sql"
proof -
  have "test (seqs [Bound, lit ''drop'', plus sp, lit ''table'', Bound]) sql \<longleftrightarrow> has_words ''drop'' ''table'' sql"
      "test (seqs [Bound, lit ''drop'', plus sp, lit ''column'', Bound]) sql \<longleftrightarrow> has_words ''drop'' ''column'' sql"
      "test (seqs [Bound, lit ''delete'', plus sp, lit ''from'', Bound]) sql \<longleftrightarrow> has_words ''delete'' ''from'' sql"
    by (rule words_iff; simp add: is_lower_def)+
  moreover have "test (seqs [Bound, lit ''truncate'', Bound]) sql \<longleftrightarrow> has_word ''truncate'' sql"
      "test (seqs [Bound, lit ''where'', Bound]) sql \<longleftrightarrow> has_word ''where'' sql"
    by (rule word_iff; simp add: is_lower_def)+
  ultimately show ?thesis
    unfolding SQL_always_def SQL_deleteFrom_def SQL_where_def destructive_sql_def by simp
qed

definition dangerous_line :: "string \<Rightarrow> bool" where
  "dangerous_line line \<longleftrightarrow> deletes_root line \<or> pipes_to_shell line \<or> fork_bomb line"

lemma commandIsDenied_eq: "commandIsDenied v =
    andThen (RunCommandPolicyInputSchema_parse v) (\<lambda>command. Inr (dangerous_line (commandLine command)))"
  unfolding commandIsDenied_def COMMAND_DENY_PATTERNS_def
  by (simp add: rm_pattern_iff curl_pattern_iff fork_bomb_pattern_iff dangerous_line_def)

lemma migrationNeedsApproval_eq: "migrationNeedsApproval v =
    andThen (ExecuteMigrationPolicyInputSchema_parse v) (\<lambda>inp. Inr (destructive_sql (migration inp)))"
proof -
  have "(if list_ex (\<lambda>pattern. test pattern sql) SQL_always then Inr True
       else Inr (test SQL_deleteFrom sql \<and> \<not> test SQL_where sql)) = (Inr (destructive_sql sql) :: policy_error + bool)" for sql
    unfolding destructive_iff [symmetric] by (cases "list_ex (\<lambda>pattern. test pattern sql) SQL_always") simp_all
  then show ?thesis unfolding migrationNeedsApproval_def Let_def by presburger
qed

lemma approvalMatches_iff: "approvalMatchesDeployment a d \<longleftrightarrow> a = Some d"
  by (cases a) (auto simp: approvalMatchesDeployment_def)

lemma metadata [simp]:
  "name (canonicalToolMetadata t) = t"
  "classification (canonicalToolMetadata t) = Mutating \<longleftrightarrow> t \<notin> set TOOL_GROUPS_read"
  "approvalPolicy (canonicalToolMetadata t) = Human \<longleftrightarrow> t = Deploy_release \<or> t = Rollback_release"
  by (auto simp: canonicalToolMetadata_def Let_def READ_ONLY_TOOL_NAMES_def HUMAN_APPROVAL_TOOL_NAMES_def TOOL_GROUPS_read_def)

definition trusted_or_contained :: "policy_context \<Rightarrow> tool_name \<Rightarrow> bool" where
  "trusted_or_contained ctx tool \<longleftrightarrow>
     hasUntrustedProvenance ctx \<longrightarrow>
       executionBoundary ctx = Network_profiled_sandbox \<and> tool \<in> set SANDBOX_CONTAINED_TOOL_NAMES"

lemma evaluate_mutating:
  assumes "PolicyContextSchema_parse c = Inr ctx" and "tool \<notin> set TOOL_GROUPS_read"
  shows "evaluateToolCall c tool input =
     (if mode ctx = Ask then Inr (Deny Ask_mode_mutation)
      else if \<not> trusted_or_contained ctx tool then Inr (Deny Untrusted_instruction)
      else if tool = Run_command then
        andThen (RunCommandPolicyInputSchema_parse input) (\<lambda>command.
          Inr (if dangerous_line (commandLine command) then Deny Dangerous_command else Allow))
      else if tool = Execute_migration then
        andThen (ExecuteMigrationPolicyInputSchema_parse input) (\<lambda>inp.
          Inr (if destructive_sql (migration inp) then Require_approval Destructive_migration
               else if environmentScope ctx = Production then Require_approval Production_migration
               else Allow))
      else if tool = Deploy_release then
        andThen (canonicalDeployment input) (\<lambda>d.
          Inr (if approvedDeployment ctx = Some d then Allow else Require_approval Release_approval_required))
      else if tool = Rollback_release then Inr (Require_approval Release_approval_required)
      else Inr Allow)"
proof -
  have bind: "andThen (andThen r f) g = andThen r (\<lambda>x. andThen (f x) g)"
    for r :: "policy_error + 'x" and f :: "'x \<Rightarrow> policy_error + 'y" and g :: "'y \<Rightarrow> policy_error + 'z"
    by (cases r) simp_all
  have swap: "(if \<not> b then x else y) = (if b then y else x)" for b and x y :: "policy_error + policy_decision"
    by simp
  have guards: "evaluateToolCall c tool input =
      (if mode ctx = Ask then Inr (Deny Ask_mode_mutation)
       else if \<not> trusted_or_contained ctx tool then Inr (Deny Untrusted_instruction)
       else andThen (if tool = Run_command then commandIsDenied input else Inr False) (\<lambda>denied.
         if denied then Inr (Deny Dangerous_command)
         else andThen (if tool = Execute_migration then migrationNeedsApproval input else Inr False) (\<lambda>destructive.
         if destructive then Inr (Require_approval Destructive_migration)
         else if tool = Execute_migration \<and> environmentScope ctx = Production
         then Inr (Require_approval Production_migration)
         else andThen (if tool = Deploy_release
                then andThen (canonicalDeployment input) (\<lambda>d. Inr (approvedDeployment ctx \<noteq> Some d))
                else Inr False) (\<lambda>unapproved.
         if unapproved then Inr (Require_approval Release_approval_required)
         else if (tool = Deploy_release \<or> tool = Rollback_release) \<and> tool \<noteq> Deploy_release
         then Inr (Require_approval Release_approval_required)
         else Inr Allow))))"
    unfolding evaluateToolCall_def assms(1) andThen.simps(2) Let_def metadata trusted_or_contained_def
      approvalMatches_iff not_imp using assms(2) by simp
  show ?thesis
  proof (cases "mode ctx \<noteq> Ask \<and> trusted_or_contained ctx tool")
    case True
    then show ?thesis unfolding guards commandIsDenied_eq migrationNeedsApproval_eq
      by (simp add: bind swap if_distrib [of Inr] cong: if_cong)
  qed (auto simp: guards)
qed

lemma evaluate_read:
  assumes "PolicyContextSchema_parse c = Inr ctx" and "tool \<in> set TOOL_GROUPS_read"
  shows "evaluateToolCall c tool input = Inr Allow"
proof -
  have "tool \<notin> {Run_command, Execute_migration, Deploy_release, Rollback_release}"
    using assms(2) by (auto simp: TOOL_GROUPS_read_def)
  then show ?thesis
    unfolding evaluateToolCall_def assms(1) andThen.simps(2) Let_def metadata using assms(2) by simp
qed

definition permitted :: "policy_context \<Rightarrow> tool_name \<Rightarrow> js_value \<Rightarrow> bool" where
  "permitted ctx tool input \<longleftrightarrow>
     tool \<in> set TOOL_GROUPS_read \<or>
     (mode ctx \<noteq> Ask \<and> trusted_or_contained ctx tool \<and> tool \<noteq> Rollback_release \<and>
      (tool = Run_command \<longrightarrow>
         (\<exists>command. RunCommandPolicyInputSchema_parse input = Inr command \<and> \<not> dangerous_line (commandLine command))) \<and>
      (tool = Execute_migration \<longrightarrow> environmentScope ctx \<noteq> Production \<and>
         (\<exists>inp. ExecuteMigrationPolicyInputSchema_parse input = Inr inp \<and> \<not> destructive_sql (migration inp))) \<and>
      (tool = Deploy_release \<longrightarrow>
         (\<exists>d. canonicalDeployment input = Inr d \<and> approvedDeployment ctx = Some d)))"

lemma allow_iff_permitted:
  assumes "PolicyContextSchema_parse c = Inr ctx"
  shows "evaluateToolCall c tool input = Inr Allow \<longleftrightarrow> permitted ctx tool input"
proof (cases "tool \<in> set TOOL_GROUPS_read")
  case True
  with evaluate_read [OF assms] show ?thesis by (simp add: permitted_def)
next
  case False
  note ev = evaluate_mutating [OF assms False]
  show ?thesis
  proof (cases "tool \<in> {Run_command, Execute_migration, Deploy_release, Rollback_release}")
    case True
    then show ?thesis unfolding ev permitted_def using False
      by (auto simp: andThen_Inr_iff split: if_splits)
  next
    case other: False
    then show ?thesis unfolding ev permitted_def using False by auto
  qed
qed

section \<open>Properties\<close>

text \<open>
  C9.  A tool call is allowed exactly when the tool only reads, or the run is not in ask mode,
  no untrusted content is in play outside the sandbox, and the tool's own condition holds: a
  command line in which no \<open>rm -rf /\<close>, no \<open>curl\<close> piped into a shell and no fork bomb occurs,
  however spelled; a migration outside production that neither drops a table or a column nor
  truncates nor deletes without a \<open>where\<close>; a deployment identical to the approved one.  A
  rollback is never allowed without a person.
\<close>

theorem evaluateToolCall_allow_iff:
  assumes "PolicyContextSchema_parse c = Inr ctx"
  shows "evaluateToolCall c tool input = Inr Allow \<longleftrightarrow>
     tool \<in> set TOOL_GROUPS_read \<or>
     (mode ctx \<noteq> Ask \<and>
      (hasUntrustedProvenance ctx \<longrightarrow>
         executionBoundary ctx = Network_profiled_sandbox \<and> tool \<in> set SANDBOX_CONTAINED_TOOL_NAMES) \<and>
      tool \<noteq> Rollback_release \<and>
      (tool = Run_command \<longrightarrow>
         (\<exists>command. RunCommandPolicyInputSchema_parse input = Inr command \<and>
            \<not> (deletes_root (commandLine command) \<or> pipes_to_shell (commandLine command) \<or> fork_bomb (commandLine command)))) \<and>
      (tool = Execute_migration \<longrightarrow> environmentScope ctx \<noteq> Production \<and>
         (\<exists>inp. ExecuteMigrationPolicyInputSchema_parse input = Inr inp \<and> \<not> destructive_sql (migration inp))) \<and>
      (tool = Deploy_release \<longrightarrow>
         (\<exists>d. canonicalDeployment input = Inr d \<and> approvedDeployment ctx = Some d)))"
proof -
  have "evaluateToolCall c tool input = Inr Allow \<longleftrightarrow> permitted ctx tool input"
    using assms by (rule allow_iff_permitted)
  then show ?thesis unfolding permitted_def trusted_or_contained_def dangerous_line_def .
qed

definition sample_context :: policy_context_input where
  "sample_context = \<lparr>i_mode = Build, i_provenance = [\<lparr>trust = Untrusted, source = ''web''\<rparr>],
     i_executionBoundary = Some Network_profiled_sandbox, i_environmentScope = None,
     i_approvedReleaseId = None, i_approvedDeployment = None\<rparr>"

lemma sample_context_parse: "PolicyContextSchema_parse sample_context =
    Inr \<lparr>mode = Build, provenance = [\<lparr>trust = Untrusted, source = ''web''\<rparr>],
      executionBoundary = Network_profiled_sandbox, environmentScope = Production,
      approvedReleaseId = None, approvedDeployment = None\<rparr>"
  by (simp add: PolicyContextSchema_parse_def sample_context_def)

theorem evaluateToolCall_allow_iff_witness:
  "evaluateToolCall sample_context Write_file JNull = Inr Allow \<and>
   evaluateToolCall sample_context Deploy_release JNull \<noteq> Inr Allow"
  unfolding evaluateToolCall_allow_iff [OF sample_context_parse]
  by (simp add: TOOL_GROUPS_read_def SANDBOX_CONTAINED_TOOL_NAMES_def hasUntrustedProvenance_def)

text \<open>
  The policy fails closed: what is allowed when the execution boundary, the environment
  scope and the approval are all left out of the context, and further provenance is added to
  it, is allowed with any values of those fields.  Omitting information never permits more.
\<close>

theorem evaluateToolCall_fails_closed:
  assumes "PolicyContextSchema_parse c = Inr ctx"
    and "evaluateToolCall (c\<lparr>i_provenance := extra @ i_provenance c, i_executionBoundary := None,
           i_environmentScope := None, i_approvedDeployment := None\<rparr>) tool input = Inr Allow"
  shows "evaluateToolCall c tool input = Inr Allow"
proof -
  let ?c = "c\<lparr>i_provenance := extra @ i_provenance c, i_executionBoundary := None,
    i_environmentScope := None, i_approvedDeployment := None\<rparr>"
  obtain strict where strict: "PolicyContextSchema_parse ?c = Inr strict"
    using assms(2) unfolding evaluateToolCall_def andThen_Inr_iff by blast
  then have "mode strict = mode ctx" "provenance strict = extra @ provenance ctx"
      "executionBoundary strict = Uncontained" "environmentScope strict = Production" "approvedDeployment strict = None"
    using assms(1) by (auto simp: PolicyContextSchema_parse_def split: if_splits)
  moreover have "permitted strict tool input" using assms(2) allow_iff_permitted [OF strict] by simp
  ultimately have "permitted ctx tool input"
    by (auto simp: permitted_def trusted_or_contained_def hasUntrustedProvenance_def)
  then show ?thesis using allow_iff_permitted [OF assms(1)] by simp
qed

theorem evaluateToolCall_fails_closed_witness:
  "evaluateToolCall sample_context Read_file JNull = Inr Allow"
proof -
  let ?c = "sample_context\<lparr>i_provenance := [] @ i_provenance sample_context, i_executionBoundary := None,
    i_environmentScope := None, i_approvedDeployment := None\<rparr>"
  obtain ctx where "PolicyContextSchema_parse ?c = Inr ctx"
    by (simp add: PolicyContextSchema_parse_def sample_context_def)
  from evaluate_read [OF this, of Read_file] have "evaluateToolCall ?c Read_file JNull = Inr Allow"
    by (simp add: TOOL_GROUPS_read_def)
  with evaluateToolCall_fails_closed [OF sample_context_parse] show ?thesis by blast
qed

end
