(* ===== verification/Identifiers.thy ===== *)
theory Identifiers
  imports Regex
begin

text \<open>
  Entity identifiers (\<open>packages/contracts/src/id-schema.ts\<close>): a prefix, an underscore and a
  ULID; and the operation keys of the sandbox service.
\<close>

text \<open>Crockford base32: the digits and the capitals without I, L, O and U.\<close>

definition is_ulid_char :: "char \<Rightarrow> bool" where
  "is_ulid_char c \<longleftrightarrow>
     is_digit c \<or> (65 \<le> (of_char c :: nat) \<and> (of_char c :: nat) \<le> 90 \<and> c \<notin> set ''ILOU'')"

definition idSchema :: "string \<Rightarrow> string \<Rightarrow> bool" where
  "idSchema pre s \<longleftrightarrow>
     take (length pre + 1) s = pre @ ''_'' \<and> length s = length pre + 27 \<and>
     list_all is_ulid_char (drop (length pre + 1) s)"

definition is_hex :: "char \<Rightarrow> bool" where
  "is_hex c \<longleftrightarrow> is_digit c \<or> (97 \<le> (of_char c :: nat) \<and> (of_char c :: nat) \<le> 102)"

definition opKeySchema :: "string \<Rightarrow> bool" where
  "opKeySchema s \<longleftrightarrow> take 3 s = ''op_'' \<and> length s = 67 \<and> list_all is_hex (drop 3 s)"

definition CommitShaSchema :: "string \<Rightarrow> bool" where
  "CommitShaSchema s \<longleftrightarrow>
     length s = 40 \<and> list_all is_hex s"

end
