(* ===== verification/Gate_Policy.thy ===== *)
theory Gate_Policy
  imports Identifiers
begin

text \<open>
  The gate policy of the verification engine
  (\<open>packages/verification-engine/src/policy-matrix.ts\<close> and \<open>gates/registry.ts\<close>): which gates a
  project at a support level has to pass, which of them a person may waive, and the registry
  of gate implementations.  The date format of a waiver belongs to the validation library and
  is the parameter \<open>datetime\<close>.
\<close>

section \<open>Gates and classes\<close>

datatype gate_id =
    Dev_server_start | Production_build | Typecheck | Lint | Unit_tests | Integration_tests
  | Browser_smoke | Browser_acceptance | Authorization_tests | Migration_validation
  | Secret_scan | Dependency_scan | Preview_health | Rollback_readiness | Observability_check

definition GATE_IDS :: "gate_id list" where
  "GATE_IDS = [Dev_server_start, Production_build, Typecheck, Lint, Unit_tests, Integration_tests,
     Browser_smoke, Browser_acceptance, Authorization_tests, Migration_validation,
     Secret_scan, Dependency_scan, Preview_health, Rollback_readiness, Observability_check]"

datatype gate_requirement_class =
    Required | Best_effort | If_available | Required_or_explicit_waiver | Project_policy
  | Existing_only | Required_for_critical_logic | As_applicable | Required_for_managed_integrations
  | Optional | If_applicable | Required_for_managed_auth | No_requirement | Advisory | Required_policy
  | Required_for_code | Required_for_supported_release_state | Recommended

datatype support_level = Compatible | Verified | Managed

record gate_waiver =
  w_gateId :: gate_id
  actorId :: string
  reason :: string
  createdAt :: string

type_synonym project_policy = "gate_waiver list"

datatype gate_requirement =
    Run gate_id gate_requirement_class
  | Waived gate_id gate_requirement_class gate_waiver

fun requirement_gate :: "gate_requirement \<Rightarrow> gate_id" where
  "requirement_gate (Run g k) = g"
| "requirement_gate (Waived g k w) = g"

fun requirement_class :: "gate_requirement \<Rightarrow> gate_requirement_class" where
  "requirement_class (Run g k) = k"
| "requirement_class (Waived g k w) = k"

datatype gate_policy_error = Invalid_policy | Gate_not_waivable | Duplicate_gate_waiver | Invalid_requirement

section \<open>The matrix\<close>

fun MATRIX :: "gate_id \<Rightarrow> gate_requirement_class list" where
  "MATRIX Dev_server_start = [Required, Required, Required]"
| "MATRIX Production_build = [Best_effort, Required, Required]"
| "MATRIX Typecheck = [If_available, Required_or_explicit_waiver, Required_or_explicit_waiver]"
| "MATRIX Lint = [If_available, Project_policy, Project_policy]"
| "MATRIX Unit_tests = [Existing_only, Required_for_critical_logic, Required]"
| "MATRIX Integration_tests = [Existing_only, As_applicable, Required_for_managed_integrations]"
| "MATRIX Browser_smoke = [Required, Required, Required]"
| "MATRIX Browser_acceptance = [Optional, Required, Required]"
| "MATRIX Authorization_tests = [Optional, If_applicable, Required_for_managed_auth]"
| "MATRIX Migration_validation = [No_requirement, If_applicable, Required]"
| "MATRIX Secret_scan = [Required, Required, Required]"
| "MATRIX Dependency_scan = [Advisory, Required_policy, Required_policy]"
| "MATRIX Preview_health = [Required, Required, Required]"
| "MATRIX Rollback_readiness = [No_requirement, Required_for_code, Required_for_supported_release_state]"
| "MATRIX Observability_check = [No_requirement, Recommended, Required]"

fun levelIndex :: "support_level \<Rightarrow> nat" where
  "levelIndex Compatible = 0"
| "levelIndex Verified = 1"
| "levelIndex Managed = 2"

definition GateWaiverSchema_parse :: "(string \<Rightarrow> bool) \<Rightarrow> gate_waiver \<Rightarrow> gate_policy_error + gate_waiver" where
  "GateWaiverSchema_parse datetime w =
     (let r = trim (reason w) in
      if idSchema ''user'' (actorId w) \<and> 1 \<le> length r \<and> length r \<le> 2000 \<and> datetime (createdAt w)
      then Inr (w\<lparr>reason := r\<rparr>) else Inl Invalid_policy)"

definition ProjectPolicySchema_parse :: "(string \<Rightarrow> bool) \<Rightarrow> project_policy \<Rightarrow> gate_policy_error + project_policy" where
  "ProjectPolicySchema_parse datetime policy = mapThrow (GateWaiverSchema_parse datetime) policy"

fun collectWaivers ::
    "nat \<Rightarrow> (gate_id \<rightharpoonup> gate_waiver) \<Rightarrow> gate_waiver list \<Rightarrow> gate_policy_error + (gate_id \<rightharpoonup> gate_waiver)" where
  "collectWaivers index waivers [] = Inr waivers"
| "collectWaivers index waivers (w # ws) =
     (if MATRIX (w_gateId w) ! index \<noteq> Required_or_explicit_waiver then Inl Gate_not_waivable
      else if waivers (w_gateId w) \<noteq> None then Inl Duplicate_gate_waiver
      else collectWaivers index (waivers(w_gateId w \<mapsto> w)) ws)"

definition requirementFor :: "nat \<Rightarrow> (gate_id \<rightharpoonup> gate_waiver) \<Rightarrow> gate_id \<Rightarrow> gate_policy_error + gate_requirement" where
  "requirementFor index waivers g =
     (let k = MATRIX g ! index in
      case waivers g of
        None \<Rightarrow> Inr (Run g k)
      | Some w \<Rightarrow> if k = Required_or_explicit_waiver then Inr (Waived g k w) else Inl Invalid_requirement)"

definition requiredGates ::
    "(string \<Rightarrow> bool) \<Rightarrow> support_level \<Rightarrow> project_policy \<Rightarrow> gate_policy_error + gate_requirement list" where
  "requiredGates datetime level policyValue =
     andThen (ProjectPolicySchema_parse datetime policyValue) (\<lambda>policy.
     let index = levelIndex level in
     andThen (collectWaivers index (\<lambda>_. None) policy) (\<lambda>waivers.
     mapThrow (requirementFor index waivers) GATE_IDS))"

section \<open>The registry of gates\<close>

type_synonym 'g gate_registry = "(gate_id \<times> 'g) list"

datatype registry_error = Gate_already_registered

definition register :: "'g gate_registry \<Rightarrow> gate_id \<Rightarrow> 'g \<Rightarrow> registry_error + 'g gate_registry" where
  "register gates g impl =
     (if g \<in> set (map fst gates) then Inl Gate_already_registered else Inr (gates @ [(g, impl)]))"

definition get :: "'g gate_registry \<Rightarrow> gate_id \<Rightarrow> 'g option" where
  "get gates g = map_of gates g"

definition ids :: "'g gate_registry \<Rightarrow> gate_id list" where
  "ids gates = map fst gates"

text \<open>
  What a client relies on: a key can be registered once, what is registered is what is looked
  up, and the keys are listed in the order of their registration.
\<close>

locale registry =
  fixes init :: 's
    and add :: "'s \<Rightarrow> 'k \<Rightarrow> 'g \<Rightarrow> 'e + 's"
    and look :: "'s \<Rightarrow> 'k \<Rightarrow> 'g option"
    and keys :: "'s \<Rightarrow> 'k list"
  assumes look_init: "look init k = None"
    and keys_init: "keys init = []"
    and add_fresh: "look s k = None \<Longrightarrow> \<exists>s'. add s k g = Inr s'"
    and add_taken: "look s k \<noteq> None \<Longrightarrow> \<exists>e. add s k g = Inl e"
    and look_add: "add s k g = Inr s' \<Longrightarrow> look s' k' = (if k' = k then Some g else look s k')"
    and keys_add: "add s k g = Inr s' \<Longrightarrow> keys s' = keys s @ [k]"
begin

fun addAll :: "'s \<Rightarrow> ('k \<times> 'g) list \<Rightarrow> 'e + 's" where
  "addAll s [] = Inr s"
| "addAll s ((k, g) # gs) = andThen (add s k g) (\<lambda>s'. addAll s' gs)"

lemma addAll_fresh:
  "distinct (map fst gs) \<Longrightarrow> (\<forall>k \<in> set (map fst gs). look s k = None) \<Longrightarrow>
   \<exists>s'. addAll s gs = Inr s' \<and> keys s' = keys s @ map fst gs \<and>
     (\<forall>k. look s' k = (case map_of gs k of None \<Rightarrow> look s k | Some g \<Rightarrow> Some g))"
proof (induction gs arbitrary: s)
  case (Cons kg gs)
  obtain k g where kg: "kg = (k, g)" by (cases kg)
  from Cons.prems kg obtain s1 where s1: "add s k g = Inr s1" using add_fresh by fastforce
  have "\<forall>k' \<in> set (map fst gs). look s1 k' = None"
    using Cons.prems kg look_add [OF s1] by auto
  moreover have "distinct (map fst gs)" using Cons.prems by simp
  ultimately obtain s' where s': "addAll s1 gs = Inr s'" "keys s' = keys s1 @ map fst gs"
      "\<forall>k. look s' k = (case map_of gs k of None \<Rightarrow> look s1 k | Some g \<Rightarrow> Some g)"
    using Cons.IH [of s1] by blast
  have "look s' k' = (case map_of (kg # gs) k' of None \<Rightarrow> look s k' | Some g \<Rightarrow> Some g)" for k'
  proof (cases "k' = k")
    case True
    have "map_of gs k = None" using Cons.prems kg by (simp add: map_of_eq_None_iff)
    with True kg s'(3) look_add [OF s1, of k] show ?thesis by simp
  next
    case False
    with kg s'(3) look_add [OF s1, of k'] show ?thesis by (simp split: option.split)
  qed
  moreover have "addAll s (kg # gs) = Inr s'" "keys s' = keys s @ map fst (kg # gs)"
    using s' s1 kg keys_add [OF s1] by simp_all
  ultimately show ?case by blast
qed simp

lemma addAll_init:
  assumes "distinct (map fst gs)"
  shows "\<exists>s. addAll init gs = Inr s \<and> keys s = map fst gs \<and> (\<forall>k. look s k = map_of gs k)"
proof -
  from addAll_fresh [OF assms, of init] obtain s where s: "addAll init gs = Inr s" "keys s = keys init @ map fst gs"
      "\<forall>k. look s k = (case map_of gs k of None \<Rightarrow> look init k | Some g \<Rightarrow> Some g)"
    by (auto simp: look_init)
  then have "look s k = map_of gs k" for k by (cases "map_of gs k") (simp_all add: look_init)
  with s show ?thesis by (auto simp: keys_init)
qed

end

interpretation gates: registry "[] :: 'g gate_registry" register get ids
proof
  show "look_init": "get [] k = None" for k :: gate_id by (simp add: get_def)
next
  fix s :: "'g gate_registry" and k :: gate_id and g :: 'g
  show "get s k = None \<Longrightarrow> \<exists>s'. register s k g = Inr s'"
    by (simp add: get_def register_def map_of_eq_None_iff)
  show "get s k \<noteq> None \<Longrightarrow> \<exists>e. register s k g = Inl e"
    using map_of_in_keys [of k s] by (simp add: get_def register_def)
next
  fix s s' :: "'g gate_registry" and k k' :: gate_id and g :: 'g
  show "register s k g = Inr s' \<Longrightarrow> get s' k' = (if k' = k then Some g else get s k')"
    using map_of_in_keys [of k s]
    by (auto simp: get_def register_def map_add_def split: if_splits option.splits)
qed (auto simp: ids_def register_def split: if_splits)

section \<open>Facts: waivers\<close>

lemma all_gates: "g \<in> set GATE_IDS"
  by (cases g) (simp_all add: GATE_IDS_def)

lemma distinct_gates: "distinct GATE_IDS"
  by (simp add: GATE_IDS_def)

lemma collectWaivers_Inr: "collectWaivers i m ws = Inr m' \<longleftrightarrow>
    (\<forall>w \<in> set ws. MATRIX (w_gateId w) ! i = Required_or_explicit_waiver \<and> m (w_gateId w) = None) \<and>
    distinct (map w_gateId ws) \<and> m' = m ++ map_of (map (\<lambda>w. (w_gateId w, w)) ws)"
proof (induction ws arbitrary: m)
  case (Cons w ws)
  let ?f = "map_of (map (\<lambda>w. (w_gateId w, w)) ws)"
  have none: "?f (w_gateId w) = None \<longleftrightarrow> w_gateId w \<notin> w_gateId ` set ws"
    by (simp add: map_of_eq_None_iff image_image)
  define g where "g = map_of (map (\<lambda>w. (w_gateId w, w)) (w # ws))"
  have swap: "m(w_gateId w \<mapsto> w) ++ ?f = m ++ g" if "?f (w_gateId w) = None"
    using that by (auto simp: g_def map_add_def fun_eq_iff split: option.splits)
  show ?case
  proof (cases "MATRIX (w_gateId w) ! i = Required_or_explicit_waiver \<and> m (w_gateId w) = None")
    case True
    then have step: "collectWaivers i m (w # ws) = collectWaivers i (m(w_gateId w \<mapsto> w)) ws" by (simp add: fun_upd_def)
    have free: "(\<forall>v \<in> set ws. P v \<and> (m(w_gateId w \<mapsto> w)) (w_gateId v) = None) \<longleftrightarrow>
        (\<forall>v \<in> set ws. P v \<and> m (w_gateId v) = None) \<and> ?f (w_gateId w) = None" for P
      unfolding none by (auto simp: image_iff)
    show ?thesis
    proof (cases "?f (w_gateId w) = None")
      case new: True
      with none have "w_gateId w \<notin> w_gateId ` set ws" by simp
      with True new show ?thesis
        unfolding step Cons.IH free swap [OF new] g_def [symmetric] by auto
    next
      case old: False
      with none have "w_gateId w \<in> w_gateId ` set ws" by blast
      with old show ?thesis unfolding step Cons.IH free by simp
    qed
  qed auto
qed auto

lemma collectWaivers_Inl: "collectWaivers i m ws = Inl e \<Longrightarrow> e = Gate_not_waivable \<or> e = Duplicate_gate_waiver"
  by (induction i m ws rule: collectWaivers.induct) (auto split: if_splits)

lemma parse_policy_gates:
  assumes "ProjectPolicySchema_parse dt policy = Inr p"
  shows "map w_gateId p = map w_gateId policy"
proof -
  have "list_all2 (\<lambda>x y. GateWaiverSchema_parse dt x = Inr y) policy p"
    using assms unfolding ProjectPolicySchema_parse_def mapThrow_Inr_iff .
  then show ?thesis
    by (induction rule: list_all2_induct) (auto simp: GateWaiverSchema_parse_def Let_def split: if_splits)
qed

lemma requirementFor_waivable:
  assumes "\<And>g w. m g = Some w \<Longrightarrow> MATRIX g ! i = Required_or_explicit_waiver"
  shows "mapThrow (requirementFor i m) gs =
    Inr (map (\<lambda>g. case m g of None \<Rightarrow> Run g (MATRIX g ! i) | Some w \<Rightarrow> Waived g (MATRIX g ! i) w) gs)"
  using assms by (intro mapThrow_all) (auto simp: requirementFor_def Let_def split: option.splits)

lemma requiredGates_Inr_iff: "requiredGates dt level policy = Inr rs \<longleftrightarrow>
    (\<exists>p. ProjectPolicySchema_parse dt policy = Inr p \<and>
       (\<forall>w \<in> set p. MATRIX (w_gateId w) ! levelIndex level = Required_or_explicit_waiver) \<and>
       distinct (map w_gateId p) \<and>
       rs = map (\<lambda>g. case map_of (map (\<lambda>w. (w_gateId w, w)) p) g of
             None \<Rightarrow> Run g (MATRIX g ! levelIndex level)
           | Some w \<Rightarrow> Waived g (MATRIX g ! levelIndex level) w) GATE_IDS)"
proof -
  have "mapThrow (requirementFor (levelIndex level) (map_of (map (\<lambda>w. (w_gateId w, w)) p))) GATE_IDS = Inr rs \<longleftrightarrow>
      rs = map (\<lambda>g. case map_of (map (\<lambda>w. (w_gateId w, w)) p) g of
             None \<Rightarrow> Run g (MATRIX g ! levelIndex level)
           | Some w \<Rightarrow> Waived g (MATRIX g ! levelIndex level) w) GATE_IDS"
    if "\<forall>w \<in> set p. MATRIX (w_gateId w) ! levelIndex level = Required_or_explicit_waiver" for p
    using that by (subst requirementFor_waivable) (auto dest!: map_of_SomeD)
  then show ?thesis
    unfolding requiredGates_def andThen_Inr_iff Let_def collectWaivers_Inr by auto
qed

lemma waivable_gate: "MATRIX g ! levelIndex level = Required_or_explicit_waiver \<longleftrightarrow> g = Typecheck \<and> level \<noteq> Compatible"
  by (cases g; cases level) simp_all

lemma requirement_gates: "requiredGates dt level policy = Inr rs \<Longrightarrow> map requirement_gate rs = GATE_IDS"
  unfolding requiredGates_Inr_iff by (auto split: option.splits intro!: map_idI)

lemma requirement_of_gate:
  assumes "requiredGates dt level policy = Inr rs" and "r \<in> set rs"
  shows "requirement_class r = MATRIX (requirement_gate r) ! levelIndex level"
  using assms unfolding requiredGates_Inr_iff by (auto split: option.splits)

lemma requiredGates_accepts: "(\<exists>rs. requiredGates dt level policy = Inr rs) \<longleftrightarrow>
    (\<forall>w \<in> set policy. GateWaiverSchema_parse dt w \<noteq> Inl Invalid_policy \<and>
       w_gateId w = Typecheck \<and> level \<noteq> Compatible) \<and>
    length policy \<le> 1"
proof -
  let ?ok = "\<lambda>w. GateWaiverSchema_parse dt w \<noteq> Inl Invalid_policy"
  have ok: "?ok w \<longleftrightarrow> (\<exists>v. GateWaiverSchema_parse dt w = Inr v)" for w
    by (auto simp: GateWaiverSchema_parse_def Let_def)
  have parsed: "(\<exists>p. ProjectPolicySchema_parse dt policy = Inr p) \<longleftrightarrow> (\<forall>w \<in> set policy. ?ok w)"
    unfolding ProjectPolicySchema_parse_def ok
  proof (induction policy)
    case (Cons w ws)
    then show ?case by (auto simp: andThen_Inr_iff)
  qed simp
  have one: "distinct (map w_gateId p) \<longleftrightarrow> length p \<le> 1" if "\<forall>w \<in> set p. w_gateId w = Typecheck" for p
  proof -
    show ?thesis
    proof (cases p)
      case (Cons v vs)
      with that show ?thesis by (cases vs) auto
    qed simp
  qed
  let ?tc = "\<lambda>w. w_gateId w = Typecheck \<and> level \<noteq> Compatible"
  have same: "(\<forall>w \<in> set p. ?tc w) \<and> distinct (map w_gateId p) \<longleftrightarrow> (\<forall>w \<in> set policy. ?tc w) \<and> length policy \<le> 1"
    if "ProjectPolicySchema_parse dt policy = Inr p" for p
  proof -
    note eq = parse_policy_gates [OF that]
    have "w_gateId ` set p = w_gateId ` set policy" using eq by (metis set_map)
    then have "(\<forall>g \<in> w_gateId ` set p. g = Typecheck \<and> level \<noteq> Compatible) \<longleftrightarrow>
        (\<forall>g \<in> w_gateId ` set policy. g = Typecheck \<and> level \<noteq> Compatible)" by simp
    then have "(\<forall>w \<in> set p. ?tc w) \<longleftrightarrow> (\<forall>w \<in> set policy. ?tc w)" by simp
    moreover have "(\<forall>w \<in> set policy. ?tc w) \<Longrightarrow> distinct (map w_gateId p) \<longleftrightarrow> length policy \<le> 1"
      unfolding eq by (rule one) blast
    ultimately show ?thesis by blast
  qed
  have "(\<exists>rs. requiredGates dt level policy = Inr rs) \<longleftrightarrow>
      (\<exists>p. ProjectPolicySchema_parse dt policy = Inr p \<and> (\<forall>w \<in> set p. ?tc w) \<and> distinct (map w_gateId p))"
    unfolding requiredGates_Inr_iff waivable_gate by blast
  also have "\<dots> \<longleftrightarrow> (\<exists>p. ProjectPolicySchema_parse dt policy = Inr p) \<and>
      (\<forall>w \<in> set policy. ?tc w) \<and> length policy \<le> 1"
    using same by blast
  finally have "(\<exists>rs. requiredGates dt level policy = Inr rs) \<longleftrightarrow> (\<exists>p. ProjectPolicySchema_parse dt policy = Inr p) \<and>
      (\<forall>w \<in> set policy. ?tc w) \<and> length policy \<le> 1" .
  then show "(\<exists>rs. requiredGates dt level policy = Inr rs) \<longleftrightarrow>
      (\<forall>w \<in> set policy. ?ok w \<and> w_gateId w = Typecheck \<and> level \<noteq> Compatible) \<and> length policy \<le> 1"
    unfolding parsed by blast
qed

section \<open>Properties\<close>

text \<open>
  C14.  The gate policy yields one requirement per gate, in the order of the catalogue, each of
  the class the matrix gives the level; the only gate that can come out waived is the type
  check, at the two upper levels, by a waiver of the policy.  It refuses a policy exactly when
  a waiver is malformed, names a gate that may not be waived, or names a gate twice.
\<close>

theorem requiredGates_correct:
  "(\<forall>rs. requiredGates dt level policy = Inr rs \<longrightarrow>
      map requirement_gate rs = GATE_IDS \<and>
      (\<forall>r \<in> set rs. requirement_class r = MATRIX (requirement_gate r) ! levelIndex level) \<and>
      (\<forall>g k w. Waived g k w \<in> set rs \<longrightarrow> g = Typecheck \<and> level \<noteq> Compatible \<and> w_gateId w = Typecheck)) \<and>
   ((\<exists>rs. requiredGates dt level policy = Inr rs) \<longleftrightarrow>
      (\<forall>w \<in> set policy. GateWaiverSchema_parse dt w \<noteq> Inl Invalid_policy \<and>
         w_gateId w = Typecheck \<and> level \<noteq> Compatible) \<and>
      length policy \<le> 1)"
proof (intro conjI allI impI)
  fix rs
  assume rs: "requiredGates dt level policy = Inr rs"
  show "map requirement_gate rs = GATE_IDS" using rs by (rule requirement_gates)
  show "\<forall>r \<in> set rs. requirement_class r = MATRIX (requirement_gate r) ! levelIndex level"
    using requirement_of_gate [OF rs] by blast
  fix g k w
  assume w: "Waived g k w \<in> set rs"
  then have "w_gateId w = g \<and> MATRIX g ! levelIndex level = Required_or_explicit_waiver"
    using rs unfolding requiredGates_Inr_iff by (auto split: option.splits dest!: map_of_SomeD)
  then show "g = Typecheck" "level \<noteq> Compatible" "w_gateId w = Typecheck"
    unfolding waivable_gate by simp_all
qed (rule requiredGates_accepts)

definition sample_waiver :: gate_waiver where
  "sample_waiver = \<lparr>w_gateId = Typecheck, actorId = ''user_01J8ME7YQZJ2V9Q0X3T5B6K7N9'', reason = ''legacy types'',
     createdAt = ''2025-01-01T00:00:00Z''\<rparr>"

theorem requiredGates_correct_witness:
  "\<exists>rs. requiredGates (\<lambda>_. True) Verified [sample_waiver] = Inr rs \<and> map requirement_gate rs = GATE_IDS"
proof -
  have "GateWaiverSchema_parse (\<lambda>_. True) sample_waiver \<noteq> Inl Invalid_policy" "w_gateId sample_waiver = Typecheck"
    by (simp_all add: GateWaiverSchema_parse_def sample_waiver_def idSchema_def is_ulid_char_def is_digit_def
        trim_def is_space_def)
  then show ?thesis using requiredGates_correct [of "\<lambda>_. True" Verified "[sample_waiver]"] by auto
qed

text \<open>
  Registering implementations for distinct gates in an empty registry succeeds, lists the
  gates in the order of registration and finds each implementation under its gate; a second
  registration of a gate is refused.
\<close>

theorem registry_faithful:
  assumes "distinct (map fst gs)"
  shows "\<exists>s. gates.addAll [] gs = Inr s \<and> ids s = map fst gs \<and> (\<forall>g. get s g = map_of gs g) \<and>
    (\<forall>g impl. g \<in> set (ids s) \<longrightarrow> register s g impl = Inl Gate_already_registered)"
proof -
  from gates.addAll_init [OF assms] obtain s where
      s: "gates.addAll [] gs = Inr s" "ids s = map fst gs" "\<forall>g. get s g = map_of gs g" by blast
  moreover have "register s g impl = Inl Gate_already_registered" if "g \<in> set (ids s)" for g impl
    using that by (simp add: register_def ids_def)
  ultimately show ?thesis by blast
qed

theorem registry_faithful_witness:
  "\<exists>s. gates.addAll [] [(Lint, ''a''), (Typecheck, ''b'')] = Inr s \<and> ids s = [Lint, Typecheck] \<and> get s Typecheck = Some ''b''"
  using registry_faithful [of "[(Lint, ''a''), (Typecheck, ''b'')]"] by auto

end
