(* ===== verification/Criteria.thy ===== *)
theory Criteria
  imports Regex
begin

text \<open>
  The traceability of acceptance criteria (\<open>packages/verification-engine/src/criteria.ts\<close>): test
  cases are attributed to criteria by the identifier in brackets at the start of their title,
  tasks and waivers name criteria, and one record per criterion says whether it passed.
  Whatever the validation library refuses is the one error \<open>Invalid_input\<close> (or \<open>Invalid_record\<close>
  where the code validates its own output).  Sorting uses the locale's collation, the parameter
  \<open>le\<close>.
\<close>

section \<open>Identifiers\<close>

definition is_upper :: "char \<Rightarrow> bool" where
  "is_upper c \<longleftrightarrow> 65 \<le> (of_char c :: nat) \<and> (of_char c :: nat) \<le> 90"

definition upper_or_digit :: "char \<Rightarrow> bool" where
  "upper_or_digit c \<longleftrightarrow> is_upper c \<or> is_digit c"

definition criterion_id_rx :: rx where
  "criterion_id_rx =
     seqs [Cls is_upper, Star (Cls upper_or_digit), Star (Seq (exactly CHR ''-'') (plus (Cls upper_or_digit)))]"

definition CriterionIdSchema :: "string \<Rightarrow> bool" where
  "CriterionIdSchema s = test (seqs [AtStart, criterion_id_rx, AtEnd]) s"

definition criterionTitlePattern :: rx where
  "criterionTitlePattern = seqs [AtStart, exactly CHR ''['', criterion_id_rx, exactly CHR '']'', Alt sp AtEnd]"

section \<open>Data\<close>

datatype case_status = Case_passed | Case_failed | Case_skipped

datatype criterion_result = Passed | Failed | Unverified | Waived_result

record criterion_source =
  s_criterionId :: string
  s_verifierComments :: "string list option"

record criterion_task =
  t_taskId :: string
  acceptanceCriteriaIds :: "string list"

record criterion_test_case =
  testCaseId :: string
  title :: string
  status :: case_status
  c_evidenceArtifactIds :: "string list"

record criterion_waiver =
  cw_criterionId :: string
  cw_actorId :: string
  cw_reason :: string

record criterion_assembly_input =
  specificationVersion :: int
  criteria :: "criterion_source list"
  tasks :: "criterion_task list"
  testCases :: "criterion_test_case list"
  waivers :: "criterion_waiver list option"

record criterion_record =
  criterionId :: string
  r_specificationVersion :: int
  taskIds :: "string list"
  testCaseIds :: "string list"
  result :: criterion_result
  evidenceArtifactIds :: "string list"
  verifierComments :: "string list"

datatype criterion_error =
    Invalid_input
  | Invalid_record
  | Task_reference_missing string
  | Test_reference_missing string
  | Waiver_reference_missing string
  | Report_empty

section \<open>Schemas\<close>

text \<open>Texts are trimmed first and their length is judged after that.\<close>

definition fits :: "nat \<Rightarrow> string \<Rightarrow> bool" where
  "fits n s \<longleftrightarrow> 1 \<le> length (trim s) \<and> length (trim s) \<le> n"

definition UniqueIdentifiersSchema :: "string list \<Rightarrow> bool" where
  "UniqueIdentifiersSchema xs \<longleftrightarrow> length xs \<le> 10000 \<and> list_all (fits 1024) xs \<and> distinct (map trim xs)"

definition CriterionSourceSchema :: "criterion_source \<Rightarrow> bool" where
  "CriterionSourceSchema c \<longleftrightarrow>
     CriterionIdSchema (s_criterionId c) \<and>
     (case s_verifierComments c of None \<Rightarrow> True | Some xs \<Rightarrow> list_all (fits 10000) xs \<and> length xs \<le> 1000)"

definition CriterionTaskSchema :: "criterion_task \<Rightarrow> bool" where
  "CriterionTaskSchema t \<longleftrightarrow>
     fits 1024 (t_taskId t) \<and> list_all CriterionIdSchema (acceptanceCriteriaIds t) \<and>
     1 \<le> length (acceptanceCriteriaIds t) \<and> length (acceptanceCriteriaIds t) \<le> 1000"

definition CriterionTestCaseSchema :: "criterion_test_case \<Rightarrow> bool" where
  "CriterionTestCaseSchema t \<longleftrightarrow>
     fits 1024 (testCaseId t) \<and> fits 2048 (title t) \<and> UniqueIdentifiersSchema (c_evidenceArtifactIds t)"

definition CriterionWaiverSchema :: "criterion_waiver \<Rightarrow> bool" where
  "CriterionWaiverSchema w \<longleftrightarrow>
     CriterionIdSchema (cw_criterionId w) \<and> fits 1024 (cw_actorId w) \<and> fits 10000 (cw_reason w)"

text \<open>What the parsed input holds: every text that the schema trims is trimmed.\<close>

definition trimInput :: "criterion_assembly_input \<Rightarrow> criterion_assembly_input" where
  "trimInput i = i\<lparr>
     criteria := map (\<lambda>c. c\<lparr>s_verifierComments := map_option (map trim) (s_verifierComments c)\<rparr>) (criteria i),
     tasks := map (\<lambda>t. t\<lparr>t_taskId := trim (t_taskId t)\<rparr>) (tasks i),
     testCases := map (\<lambda>t. t\<lparr>testCaseId := trim (testCaseId t), title := trim (title t),
       c_evidenceArtifactIds := map trim (c_evidenceArtifactIds t)\<rparr>) (testCases i),
     waivers := map_option (map (\<lambda>w. w\<lparr>cw_actorId := trim (cw_actorId w), cw_reason := trim (cw_reason w)\<rparr>)) (waivers i)\<rparr>"

definition waiverList :: "criterion_assembly_input \<Rightarrow> criterion_waiver list" where
  "waiverList i = (case waivers i of None \<Rightarrow> [] | Some ws \<Rightarrow> ws)"

definition CriterionAssemblyInputSchema_parse ::
    "criterion_assembly_input \<Rightarrow> criterion_error + criterion_assembly_input" where
  "CriterionAssemblyInputSchema_parse i =
     (let p = trimInput i in
      if 0 < specificationVersion i \<and>
         list_all CriterionSourceSchema (criteria i) \<and> 1 \<le> length (criteria i) \<and> length (criteria i) \<le> 1000 \<and>
         list_all CriterionTaskSchema (tasks i) \<and> length (tasks i) \<le> 10000 \<and>
         list_all CriterionTestCaseSchema (testCases i) \<and> length (testCases i) \<le> 100000 \<and>
         list_all CriterionWaiverSchema (waiverList i) \<and> length (waiverList i) \<le> 1000 \<and>
         distinct (map s_criterionId (criteria p)) \<and> distinct (map t_taskId (tasks p)) \<and>
         distinct (map testCaseId (testCases p)) \<and> distinct (map cw_criterionId (waiverList p))
      then Inr p else Inl Invalid_input)"

definition trimRecord :: "criterion_record \<Rightarrow> criterion_record" where
  "trimRecord r = r\<lparr>taskIds := map trim (taskIds r), testCaseIds := map trim (testCaseIds r),
     evidenceArtifactIds := map trim (evidenceArtifactIds r), verifierComments := map trim (verifierComments r)\<rparr>"

definition CriterionRecordSchema :: "criterion_record \<Rightarrow> bool" where
  "CriterionRecordSchema r \<longleftrightarrow>
     CriterionIdSchema (criterionId r) \<and> 0 < r_specificationVersion r \<and>
     UniqueIdentifiersSchema (taskIds r) \<and> UniqueIdentifiersSchema (testCaseIds r) \<and>
     UniqueIdentifiersSchema (evidenceArtifactIds r) \<and>
     list_all (fits 10000) (verifierComments r) \<and> length (verifierComments r) \<le> 1000"

definition CriterionRecordSchema_parse :: "criterion_record \<Rightarrow> criterion_error + criterion_record" where
  "CriterionRecordSchema_parse r = (if CriterionRecordSchema r then Inr (trimRecord r) else Inl Invalid_record)"

section \<open>Attribution and assembly\<close>

text \<open>The captured group is the text between the brackets: no identifier has a bracket in it.\<close>

definition criterionIdFromTestTitle :: "string \<Rightarrow> criterion_error + string option" where
  "criterionIdFromTestTitle t =
     (if test criterionTitlePattern t
      then (let found = takeWhile (\<lambda>c. c \<noteq> CHR '']'') (tl t) in
            if CriterionIdSchema found then Inr (Some found) else Inl Invalid_input)
      else Inr None)"

definition uniqueSorted :: "(string \<Rightarrow> string \<Rightarrow> bool) \<Rightarrow> string list \<Rightarrow> string list" where
  "uniqueSorted le xs = foldr (insertBy le) (uniq xs) []"

definition resultFor :: "criterion_test_case list \<Rightarrow> bool \<Rightarrow> criterion_result" where
  "resultFor cases waived =
     (if list_ex (\<lambda>c. status c = Case_failed) cases then Failed
      else if waived then Waived_result
      else if cases = [] \<or> list_ex (\<lambda>c. status c = Case_skipped) cases then Unverified
      else Passed)"

fun missingTaskReference :: "string list \<Rightarrow> criterion_task list \<Rightarrow> string option" where
  "missingTaskReference known [] = None"
| "missingTaskReference known (t # ts) =
     (case find (\<lambda>c. c \<notin> set known) (acceptanceCriteriaIds t) of
        Some c \<Rightarrow> Some c
      | None \<Rightarrow> missingTaskReference known ts)"

type_synonym case_map = "string \<Rightarrow> criterion_test_case list"

fun casesByCriterion :: "string list \<Rightarrow> case_map \<Rightarrow> criterion_test_case list \<Rightarrow> criterion_error + case_map" where
  "casesByCriterion known m [] = Inr m"
| "casesByCriterion known m (c # rest) =
     andThen (criterionIdFromTestTitle (title c)) (\<lambda>found.
       case found of
         None \<Rightarrow> casesByCriterion known m rest
       | Some k \<Rightarrow>
           if k \<notin> set known then Inl (Test_reference_missing k)
           else casesByCriterion known (m(k := m k @ [c])) rest)"

definition waiverComment :: "criterion_waiver \<Rightarrow> string" where
  "waiverComment w = ''Waived by '' @ cw_actorId w @ '': '' @ cw_reason w"

definition recordFor ::
    "(string \<Rightarrow> string \<Rightarrow> bool) \<Rightarrow> criterion_assembly_input \<Rightarrow> case_map \<Rightarrow> (string \<rightharpoonup> criterion_waiver) \<Rightarrow>
     criterion_source \<Rightarrow> criterion_record" where
  "recordFor le parsed caseMap waiverMap c =
     (let cases = caseMap (s_criterionId c);
          waiver = waiverMap (s_criterionId c);
          comments = (case s_verifierComments c of None \<Rightarrow> [] | Some xs \<Rightarrow> xs) @
            (case waiver of None \<Rightarrow> [] | Some w \<Rightarrow> [waiverComment w])
      in \<lparr>criterionId = s_criterionId c,
          r_specificationVersion = specificationVersion parsed,
          taskIds = uniqueSorted le
            (map t_taskId (filter (\<lambda>t. s_criterionId c \<in> set (acceptanceCriteriaIds t)) (tasks parsed))),
          testCaseIds = uniqueSorted le (map testCaseId cases),
          result = resultFor cases (waiver \<noteq> None),
          evidenceArtifactIds = uniqueSorted le (concat (map c_evidenceArtifactIds cases)),
          verifierComments = comments\<rparr>)"

definition assembleCriterionRecords ::
    "(string \<Rightarrow> string \<Rightarrow> bool) \<Rightarrow> criterion_assembly_input \<Rightarrow> criterion_error + criterion_record list" where
  "assembleCriterionRecords le i =
     andThen (CriterionAssemblyInputSchema_parse i) (\<lambda>parsed.
     let criterionIds = map s_criterionId (criteria parsed) in
     case missingTaskReference criterionIds (tasks parsed) of
       Some c \<Rightarrow> Inl (Task_reference_missing c)
     | None \<Rightarrow>
       andThen (casesByCriterion criterionIds (\<lambda>_. []) (testCases parsed)) (\<lambda>caseMap.
       case find (\<lambda>w. cw_criterionId w \<notin> set criterionIds) (waiverList parsed) of
         Some w \<Rightarrow> Inl (Waiver_reference_missing (cw_criterionId w))
       | None \<Rightarrow>
         let waiverMap = map_of (map (\<lambda>w. (cw_criterionId w, w)) (waiverList parsed)) in
         mapThrow (\<lambda>c. CriterionRecordSchema_parse (recordFor le parsed caseMap waiverMap c)) (criteria parsed)))"

section \<open>The report\<close>

definition listText :: "string list \<Rightarrow> string" where
  "listText xs = (if xs = [] then ''none'' else join '', '' xs)"

fun resultName :: "criterion_result \<Rightarrow> string" where
  "resultName Passed = ''passed''"
| "resultName Failed = ''failed''"
| "resultName Unverified = ''unverified''"
| "resultName Waived_result = ''waived''"

fun digits :: "nat \<Rightarrow> string" where
  "digits n = (if n < 10 then [char_of (48 + n)] else digits (n div 10) @ [char_of (48 + n mod 10)])"

definition reportLine :: "criterion_record \<Rightarrow> string" where
  "reportLine r =
     ''- '' @ criterionId r @ '' | '' @ resultName (result r) @ '' | tasks: '' @ listText (taskIds r) @
     '' | tests: '' @ listText (testCaseIds r) @ '' | evidence: '' @ listText (evidenceArtifactIds r) @
     '' | comments: '' @ listText (verifierComments r)"

definition buildCriteriaCompletionReport ::
    "(string \<Rightarrow> string \<Rightarrow> bool) \<Rightarrow> criterion_assembly_input \<Rightarrow>
     criterion_error + criterion_record list \<times> string" where
  "buildCriteriaCompletionReport le i =
     andThen (assembleCriterionRecords le i) (\<lambda>rs.
       case rs of
         [] \<Rightarrow> Inl Report_empty
       | r # _ \<Rightarrow>
           Inr (rs, join [CHR 0x0A]
             ((''Acceptance criteria (specification v'' @ digits (nat (r_specificationVersion r)) @ ''): '' @
               digits (length rs) @ '' total'') # map reportLine rs)))"

section \<open>Facts: identifiers and titles\<close>

lemma criterion_id_free: "assertion_free criterion_id_rx"
  by (simp add: criterion_id_rx_def exactly_def plus_def)

lemma criterion_id_over: "over (\<lambda>c. c \<noteq> CHR '']'') criterion_id_rx"
  by (auto simp: criterion_id_rx_def exactly_def plus_def upper_or_digit_def is_upper_def is_digit_def)

lemma CriterionId_iff: "CriterionIdSchema s \<longleftrightarrow> matches criterion_id_rx [] s []"
proof -
  have "(\<exists>p m x. s = p @ m @ x \<and> p = [] \<and> x = [] \<and> matches criterion_id_rx (rev p) m x) \<longleftrightarrow>
      matches criterion_id_rx [] s []" by auto
  then show ?thesis unfolding CriterionIdSchema_def test_iff by auto
qed

lemma title_capture:
  assumes "test criterionTitlePattern t"
  shows "CriterionIdSchema (takeWhile (\<lambda>c. c \<noteq> CHR '']'') (tl t))"
proof -
  from assms obtain m1 y where t: "t = CHR ''['' # m1 @ CHR '']'' # y"
      and m1: "matches criterion_id_rx ''['' m1 (CHR '']'' # y)"
    unfolding criterionTitlePattern_def test_iff by (auto simp: exactly_def)
  define a where "a = m1"
  have a: "matches criterion_id_rx [] a []" unfolding a_def by (rule matches_context [OF criterion_id_free m1])
  have "\<forall>c \<in> set a. c \<noteq> CHR '']''" using matches_over [OF criterion_id_over a] .
  then have "takeWhile (\<lambda>c. c \<noteq> CHR '']'') (tl t) = a" unfolding t a_def by (simp add: takeWhile_append)
  with a show ?thesis unfolding CriterionId_iff by simp
qed

definition title_id :: "string \<Rightarrow> string option" where
  "title_id t = (if test criterionTitlePattern t then Some (takeWhile (\<lambda>c. c \<noteq> CHR '']'') (tl t)) else None)"

lemma criterionIdFromTestTitle_eq: "criterionIdFromTestTitle t = Inr (title_id t)"
  using title_capture by (simp add: criterionIdFromTestTitle_def title_id_def Let_def)

section \<open>Facts: assembly\<close>

lemma uniqueSorted_facts: "set (uniqueSorted le xs) = set xs" "distinct (uniqueSorted le xs)"
    "length (uniqueSorted le xs) = length (uniq xs)"
proof -
  show "set (uniqueSorted le xs) = set xs" "distinct (uniqueSorted le xs)"
      "length (uniqueSorted le xs) = length (uniq xs)"
    unfolding uniqueSorted_def by (simp_all add: sorted_facts)
qed

lemma find_Some_in: "find P xs = Some x \<Longrightarrow> x \<in> set xs \<and> P x"
  by (auto simp: find_Some_iff)

lemma missingTaskReference_None: "missingTaskReference known ts = None \<longleftrightarrow>
    (\<forall>t \<in> set ts. set (acceptanceCriteriaIds t) \<subseteq> set known)"
  by (induction ts) (auto split: option.splits simp: find_None_iff dest: find_Some_in)

lemma casesByCriterion_Inr: "casesByCriterion known m cases = Inr m' \<longleftrightarrow>
    (\<forall>c \<in> set cases. \<forall>k. title_id (title c) = Some k \<longrightarrow> k \<in> set known) \<and>
    m' = (\<lambda>k. m k @ filter (\<lambda>c. title_id (title c) = Some k) cases)"
proof (induction cases arbitrary: m)
  case (Cons c rest)
  show ?case
  proof (cases "title_id (title c)")
    case None
    with Cons.IH [of m] show ?thesis by (simp add: criterionIdFromTestTitle_eq)
  next
    case (Some k)
    have upd: "(\<lambda>k'. (m(k := m k @ [c])) k' @ filter (\<lambda>c. title_id (title c) = Some k') rest) =
        (\<lambda>k'. m k' @ filter (\<lambda>c. title_id (title c) = Some k') (c # rest))"
      using Some by (auto simp: fun_eq_iff)
    show ?thesis
      using Cons.IH [of "m(k := m k @ [c])", unfolded upd] Some
      by (simp add: criterionIdFromTestTitle_eq fun_upd_def)
  qed
qed auto

text \<open>The cases whose title names a criterion, and the waiver that names it.\<close>

definition cases_of :: "criterion_assembly_input \<Rightarrow> string \<Rightarrow> criterion_test_case list" where
  "cases_of p k = filter (\<lambda>c. title_id (title c) = Some k) (testCases p)"

definition waiver_of :: "criterion_assembly_input \<Rightarrow> string \<rightharpoonup> criterion_waiver" where
  "waiver_of p = map_of (map (\<lambda>w. (cw_criterionId w, w)) (waiverList p))"

lemma assemble_Inr_iff: "assembleCriterionRecords le i = Inr rs \<longleftrightarrow>
    (\<exists>p. CriterionAssemblyInputSchema_parse i = Inr p \<and>
       (\<forall>t \<in> set (tasks p). set (acceptanceCriteriaIds t) \<subseteq> s_criterionId ` set (criteria p)) \<and>
       (\<forall>c \<in> set (testCases p). \<forall>k. title_id (title c) = Some k \<longrightarrow> k \<in> s_criterionId ` set (criteria p)) \<and>
       (\<forall>w \<in> set (waiverList p). cw_criterionId w \<in> s_criterionId ` set (criteria p)) \<and>
       (\<forall>c \<in> set (criteria p). CriterionRecordSchema (recordFor le p (cases_of p) (waiver_of p) c)) \<and>
       rs = map (\<lambda>c. trimRecord (recordFor le p (cases_of p) (waiver_of p) c)) (criteria p))"
proof -
  have tail: "mapThrow (\<lambda>c. CriterionRecordSchema_parse (f c)) cs = Inr rs \<longleftrightarrow>
      (\<forall>c \<in> set cs. CriterionRecordSchema (f c)) \<and> rs = map (\<lambda>c. trimRecord (f c)) cs" for f cs
  proof (induction cs arbitrary: rs)
    case (Cons c cs)
    then show ?case by (auto simp: andThen_Inr_iff CriterionRecordSchema_parse_def)
  qed auto
  have split: "(case find P ws of None \<Rightarrow> r | Some w \<Rightarrow> Inl (e w)) = Inr rs \<longleftrightarrow> (\<forall>w \<in> set ws. \<not> P w) \<and> r = Inr rs"
    for P ws r and e :: "criterion_waiver \<Rightarrow> criterion_error"
    by (auto split: option.splits simp: find_None_iff find_Some_iff)
  have split': "(case missingTaskReference ks ts of None \<Rightarrow> r | Some c \<Rightarrow> Inl (e c)) = Inr rs \<longleftrightarrow>
      (\<forall>t \<in> set ts. set (acceptanceCriteriaIds t) \<subseteq> set ks) \<and> r = Inr rs" for ks ts r and e :: "string \<Rightarrow> criterion_error"
    unfolding missingTaskReference_None [symmetric] by (cases "missingTaskReference ks ts") simp_all
  show ?thesis
    unfolding assembleCriterionRecords_def andThen_Inr_iff Let_def split split' casesByCriterion_Inr tail
      cases_of_def [abs_def] waiver_of_def by (auto simp del: set_map simp: set_map)
qed

lemma trim_trimmed: "x \<in> set (map trim xs) \<Longrightarrow> trim x = x"
  by auto

lemma parse_input_Inr: "CriterionAssemblyInputSchema_parse i = Inr p \<Longrightarrow> p = trimInput i"
  by (auto simp: CriterionAssemblyInputSchema_parse_def Let_def split: if_splits)

lemma trimmed_lists:
  assumes "p = trimInput i"
  shows "map trim (uniqueSorted le (map t_taskId (filter P (tasks p)))) = uniqueSorted le (map t_taskId (filter P (tasks p)))"
    and "map trim (uniqueSorted le (map testCaseId (cases_of p k))) = uniqueSorted le (map testCaseId (cases_of p k))"
    and "map trim (uniqueSorted le (concat (map c_evidenceArtifactIds (cases_of p k)))) =
      uniqueSorted le (concat (map c_evidenceArtifactIds (cases_of p k)))"
  unfolding assms by (auto intro!: map_idI simp: uniqueSorted_facts cases_of_def trimInput_def)

lemma record_facts:
  assumes "p = trimInput i" and "r = trimRecord (recordFor le p (cases_of p) (waiver_of p) c)"
  shows "criterionId r = s_criterionId c"
    and "r_specificationVersion r = specificationVersion p"
    and "set (taskIds r) = {t_taskId t | t. t \<in> set (tasks p) \<and> criterionId r \<in> set (acceptanceCriteriaIds t)}"
    and "set (testCaseIds r) = testCaseId ` set (cases_of p (criterionId r))"
    and "set (evidenceArtifactIds r) = (\<Union>c \<in> set (cases_of p (criterionId r)). set (c_evidenceArtifactIds c))"
    and "result r = resultFor (cases_of p (criterionId r)) (waiver_of p (criterionId r) \<noteq> None)"
  unfolding assms(2) trimRecord_def recordFor_def Let_def
  by (auto simp: trimmed_lists [OF assms(1)] uniqueSorted_facts)

lemma waiver_of_Some: "waiver_of p k \<noteq> None \<longleftrightarrow> k \<in> cw_criterionId ` set (waiverList p)"
  unfolding waiver_of_def using map_of_in_keys [of k "map (\<lambda>w. (cw_criterionId w, w)) (waiverList p)"]
  by (simp add: image_image)

text \<open>What a record has to say of its criterion, given the validated input.\<close>

definition faithful_record :: "criterion_assembly_input \<Rightarrow> criterion_record \<Rightarrow> bool" where
  "faithful_record p r \<longleftrightarrow>
     (let cases = cases_of p (criterionId r) in
      set (taskIds r) = {t_taskId t | t. t \<in> set (tasks p) \<and> criterionId r \<in> set (acceptanceCriteriaIds t)} \<and>
      set (testCaseIds r) = testCaseId ` set cases \<and>
      set (evidenceArtifactIds r) = (\<Union>c \<in> set cases. set (c_evidenceArtifactIds c)) \<and>
      (result r = Failed \<longleftrightarrow> (\<exists>c \<in> set cases. status c = Case_failed)) \<and>
      (result r = Passed \<longleftrightarrow> cases \<noteq> [] \<and> (\<forall>c \<in> set cases. status c = Case_passed) \<and>
         criterionId r \<notin> cw_criterionId ` set (waiverList p)))"

lemma recordFor_faithful:
  assumes "p = trimInput i" and "r = trimRecord (recordFor le p (cases_of p) (waiver_of p) c)"
  shows "faithful_record p r"
proof -
  have status: "status c = Case_passed \<longleftrightarrow> status c \<noteq> Case_failed \<and> status c \<noteq> Case_skipped" for c
    by (cases "status c") simp_all
  show ?thesis
    unfolding faithful_record_def Let_def record_facts(3-6) [OF assms] waiver_of_Some status
    by (auto simp: resultFor_def list_ex_iff)
qed

lemma long_waiver_record:
  assumes "p = trimInput i" and "waiver_of p (s_criterionId c) = Some w"
    and "9988 < length (cw_actorId w) + length (cw_reason w)" and "cw_reason w \<noteq> []"
  shows "\<not> CriterionRecordSchema (recordFor le p caseMap (waiver_of p) c)"
proof -
  have "w \<in> set (waiverList p)" using assms(2) unfolding waiver_of_def by (auto dest: map_of_SomeD)
  then have "trim (cw_reason w) = cw_reason w"
    unfolding assms(1) by (auto simp: waiverList_def trimInput_def split: option.splits)
  then have "\<not> is_space (last (cw_reason w))"
    using assms(4) unfolding trim_def by (metis dropWhile_hd hd_rev list.collapse rev_is_Nil_conv rev_rev_ident)
  then have "trim (waiverComment w) = waiverComment w"
    using assms(4) by (simp add: trim_def waiverComment_def is_space_def dropWhile_not_hd hd_rev hd_append)
  moreover have "10000 < length (waiverComment w)" using assms(3) by (simp add: waiverComment_def)
  ultimately have "\<not> fits 10000 (waiverComment w)" by (simp add: fits_def)
  moreover have "waiverComment w \<in> set (verifierComments (recordFor le p caseMap (waiver_of p) c))"
    using assms(2) by (simp add: recordFor_def Let_def)
  ultimately show ?thesis unfolding CriterionRecordSchema_def list_all_iff by blast
qed

section \<open>Properties\<close>

text \<open>
  C13.  What the assembly returns: one record per criterion in the order of the specification,
  tied to exactly the tasks that list it, exactly the test cases whose title names it and
  exactly their evidence.  A criterion with a failing case is failed whether or not it is
  waived; it passes only if it has cases, every one passed and nobody waived it; and every
  titled test case is attributed to a criterion of the specification.
\<close>

theorem assembleCriterionRecords_traceability:
  assumes "assembleCriterionRecords le i = Inr rs"
  shows "map criterionId rs = map s_criterionId (criteria i) \<and>
    (\<forall>c \<in> set (testCases (trimInput i)). \<forall>k. title_id (title c) = Some k \<longrightarrow> k \<in> criterionId ` set rs) \<and>
    (\<forall>r \<in> set rs. faithful_record (trimInput i) r)"
proof -
  define p where "p = trimInput i"
  from assms obtain q where q: "CriterionAssemblyInputSchema_parse i = Inr q"
      "\<forall>c \<in> set (testCases q). \<forall>k. title_id (title c) = Some k \<longrightarrow> k \<in> s_criterionId ` set (criteria q)"
      "rs = map (\<lambda>c. trimRecord (recordFor le q (cases_of q) (waiver_of q) c)) (criteria q)"
    unfolding assemble_Inr_iff by blast
  have qp: "q = p" using parse_input_Inr [OF q(1)] by (simp add: p_def)
  have "map criterionId rs = map s_criterionId (criteria i)"
    unfolding q(3) qp by (simp add: p_def trimInput_def trimRecord_def recordFor_def Let_def)
  moreover have "criterionId ` set rs = s_criterionId ` set (criteria p)"
    unfolding q(3) qp by (force simp: trimRecord_def recordFor_def Let_def)
  with q(2) have "\<forall>c \<in> set (testCases p). \<forall>k. title_id (title c) = Some k \<longrightarrow> k \<in> criterionId ` set rs"
    unfolding qp by simp
  moreover have "\<forall>r \<in> set rs. faithful_record p r"
    unfolding q(3) qp using recordFor_faithful [OF p_def] by auto
  ultimately show ?thesis unfolding p_def by blast
qed

definition sample_assembly :: "string \<Rightarrow> criterion_assembly_input" where
  "sample_assembly why = \<lparr>specificationVersion = 1,
     criteria = [\<lparr>s_criterionId = ''A1'', s_verifierComments = None\<rparr>], tasks = [],
     testCases = [\<lparr>testCaseId = ''t1'', title = ''[A1] signs in'', status = Case_passed, c_evidenceArtifactIds = [''e1'']\<rparr>],
     waivers = (if why = [] then None else Some [\<lparr>cw_criterionId = ''A1'', cw_actorId = ''u'', cw_reason = why\<rparr>])\<rparr>"

lemma trim_solid: "\<forall>c \<in> set s. \<not> is_space c \<Longrightarrow> trim s = s"
proof -
  assume "\<forall>c \<in> set s. \<not> is_space c"
  then have "dropWhile is_space s = s" "dropWhile is_space (rev s) = rev s"
    by (auto simp: dropWhile_eq_self_iff hd_rev)
  then show ?thesis by (simp add: trim_def)
qed

lemma solid_text: "\<forall>c \<in> set (replicate n CHR ''x''). \<not> is_space c"
  by (simp add: is_space_def)

lemmas sample_simps = sample_assembly_def trimInput_def trim_def is_space_def fits_def waiverList_def
  CriterionSourceSchema_def CriterionTestCaseSchema_def UniqueIdentifiersSchema_def CriterionWaiverSchema_def

lemma sample_id: "CriterionIdSchema ''A1''"
  by (simp add: CriterionIdSchema_def test_def criterion_id_rx_def is_upper_def upper_or_digit_def is_digit_def plus_def exactly_def)

lemma sample_title: "title_id ''[A1] signs in'' = Some ''A1''"
  by (simp add: title_id_def test_def criterionTitlePattern_def criterion_id_rx_def is_upper_def upper_or_digit_def
      is_digit_def plus_def exactly_def sp_def is_space_def)

lemma sample_assembly_parse: "why = [] \<or> (\<forall>c \<in> set why. \<not> is_space c) \<and> length why \<le> 10000 \<Longrightarrow>
    CriterionAssemblyInputSchema_parse (sample_assembly why) = Inr (sample_assembly why)"
  using trim_solid [of why]
  by (auto simp: CriterionAssemblyInputSchema_parse_def Let_def sample_id sample_assembly_def trimInput_def fits_def
      waiverList_def CriterionSourceSchema_def CriterionTestCaseSchema_def UniqueIdentifiersSchema_def CriterionWaiverSchema_def
      Suc_le_eq) (simp_all add: trim_def is_space_def)

theorem assembleCriterionRecords_traceability_witness:
  "\<exists>rs. assembleCriterionRecords (\<lambda>_ _. True) (sample_assembly []) = Inr rs \<and> map criterionId rs = [''A1'']"
proof -
  let ?p = "sample_assembly []"
  have t: "trimInput ?p = ?p" using parse_input_Inr [OF sample_assembly_parse [of "[]"]] by simp
  have "CriterionRecordSchema (recordFor (\<lambda>_ _. True) ?p (cases_of ?p) (waiver_of ?p) c)" if "c \<in> set (criteria ?p)" for c
    using that by (simp add: CriterionRecordSchema_def recordFor_def cases_of_def waiver_of_def sample_simps sample_id sample_title
        uniqueSorted_def Let_def)
  then obtain rs where rs: "assembleCriterionRecords (\<lambda>_ _. True) ?p = Inr rs"
    unfolding assemble_Inr_iff using sample_assembly_parse [of "[]"]
    by (auto simp: sample_assembly_def waiverList_def sample_title)
  moreover have "map criterionId rs = map s_criterionId (criteria ?p)"
    using assembleCriterionRecords_traceability [OF rs] by blast
  ultimately show ?thesis by (auto simp: sample_assembly_def)
qed

text \<open>
  A waiver the input schema accepts can make the assembly fail: the comment the code
  composes from the waiver has to fit the comment limit of the record, so a waiver whose
  actor and reason together exceed 9988 characters, although each is within its own limit,
  is never turned into records.
\<close>

theorem long_waiver_blocks_assembly:
  assumes "w \<in> set (waiverList (trimInput i))"
    and "9988 < length (cw_actorId w) + length (cw_reason w)"
  shows "assembleCriterionRecords le i \<noteq> Inr rs"
proof
  assume "assembleCriterionRecords le i = Inr rs"
  then obtain p where p: "CriterionAssemblyInputSchema_parse i = Inr p"
      "\<forall>w \<in> set (waiverList p). cw_criterionId w \<in> s_criterionId ` set (criteria p)"
      "\<forall>c \<in> set (criteria p). CriterionRecordSchema (recordFor le p (cases_of p) (waiver_of p) c)"
    unfolding assemble_Inr_iff by blast
  note pt = parse_input_Inr [OF p(1)]
  have w: "w \<in> set (waiverList p)" using assms(1) pt by simp
  then obtain c where c: "c \<in> set (criteria p)" "s_criterionId c = cw_criterionId w" using p(2) by auto
  have d: "distinct (map cw_criterionId (waiverList p))" and ok: "list_all CriterionWaiverSchema (waiverList i)"
    using p(1) by (auto simp: CriterionAssemblyInputSchema_parse_def Let_def split: if_splits)
  have "waiver_of p (cw_criterionId w) = Some w"
    unfolding waiver_of_def using w d by (intro map_of_is_SomeI) (auto simp: comp_def)
  moreover have "cw_reason w \<noteq> []"
    using w ok unfolding pt by (auto simp: waiverList_def trimInput_def list_all_iff CriterionWaiverSchema_def fits_def split: option.splits)
  ultimately have "\<not> CriterionRecordSchema (recordFor le p (cases_of p) (waiver_of p) c)"
    using long_waiver_record [OF pt, of c w] assms(2) c(2) by simp
  with p(3) c(1) show False by blast
qed

theorem long_waiver_blocks_assembly_witness:
  "CriterionAssemblyInputSchema_parse (sample_assembly (replicate 10000 CHR ''x'')) =
     Inr (sample_assembly (replicate 10000 CHR ''x'')) \<and>
   (\<forall>rs. assembleCriterionRecords (\<lambda>_ _. True) (sample_assembly (replicate 10000 CHR ''x'')) \<noteq> Inr rs)"
proof -
  define why where "why = replicate 10000 CHR ''x''"
  have why: "\<forall>c \<in> set why. \<not> is_space c" "length why = 10000"
    unfolding why_def by (rule solid_text, rule length_replicate)
  then have ne: "why \<noteq> []" by auto
  have parse: "CriterionAssemblyInputSchema_parse (sample_assembly why) = Inr (sample_assembly why)"
    using why by (intro sample_assembly_parse) simp
  have "\<lparr>cw_criterionId = ''A1'', cw_actorId = ''u'', cw_reason = why\<rparr> \<in> set (waiverList (trimInput (sample_assembly why)))"
    using parse_input_Inr [OF parse] ne by (simp add: waiverList_def sample_assembly_def)
  then have "assembleCriterionRecords (\<lambda>_ _. True) (sample_assembly why) \<noteq> Inr rs" for rs
    by (rule long_waiver_blocks_assembly) (simp add: why(2))
  with parse show ?thesis unfolding why_def [symmetric] by blast
qed

end
