(* ===== verification/Verifier.thy ===== *)
theory Verifier
  imports Gate_Policy Criteria
begin

text \<open>
  The verifier's decision (\<open>packages/verification-engine/src/verifier/decision.ts\<close>): gate
  evaluations, criterion records and policy signals become risks, and the risks decide between
  approval, rejection and human review.  Every pushed risk is validated by its schema, which
  bounds the summary at 1024 characters, so a very long criterion identifier makes the
  decision throw.  The free-form \<open>details\<close> of a gate result are never read and are left out.
\<close>

section \<open>Data\<close>

datatype gate_status = Gate_passed | Gate_failed | Gate_waived | Gate_not_applicable

record gate_result =
  g_status :: gate_status
  g_evidence :: "string list"

record gate_evaluation =
  e_gateId :: gate_id
  e_class :: gate_requirement_class
  e_result :: gate_result
  e_waiver :: "gate_waiver option"

datatype policy_severity = Blocking | Human_review | Warning

datatype policy_signal_id =
    Placeholder | Todo | Duplicate | Unused_deps | Empty_catch | Disabled_tests | Diff_size | Mock_detect | States_check

record policy_location =
  path :: string
  line :: "int option"
  column :: "int option"

record policy_signal =
  signalId :: policy_signal_id
  severity :: policy_severity
  locations :: "policy_location list"
  autofixable :: bool

record verifier_input =
  gateEvaluations :: "gate_evaluation list"
  v_criteria :: "criterion_record list"
  criticalCriterionIds :: "string list"
  policySignals :: "policy_signal list"

datatype risk_code =
    Gate_failed_risk | Gate_evidence_missing | Required_gate_not_applicable | Criterion_failed
  | Critical_criterion_unverified | Criterion_unverified | Criterion_waived | Policy_signal_risk

record verification_risk =
  code :: risk_code
  r_severity :: policy_severity
  r_gateId :: "gate_id option"
  r_criterionId :: "string option"
  r_signal :: "policy_signal option"
  summary :: string

datatype verification_decision = Approved | Rejected | Needs_human

record verifier_result =
  decision :: verification_decision
  criteriaResults :: "criterion_record list"
  risks :: "verification_risk list"

datatype verifier_error = Invalid_verifier_input | Invalid_risk

section \<open>Schemas\<close>

fun gate_name :: "gate_id \<Rightarrow> string" where
  "gate_name Dev_server_start = ''dev_server_start''"
| "gate_name Production_build = ''production_build''"
| "gate_name Typecheck = ''typecheck''"
| "gate_name Lint = ''lint''"
| "gate_name Unit_tests = ''unit_tests''"
| "gate_name Integration_tests = ''integration_tests''"
| "gate_name Browser_smoke = ''browser_smoke''"
| "gate_name Browser_acceptance = ''browser_acceptance''"
| "gate_name Authorization_tests = ''authorization_tests''"
| "gate_name Migration_validation = ''migration_validation''"
| "gate_name Secret_scan = ''secret_scan''"
| "gate_name Dependency_scan = ''dependency_scan''"
| "gate_name Preview_health = ''preview_health''"
| "gate_name Rollback_readiness = ''rollback_readiness''"
| "gate_name Observability_check = ''observability_check''"

fun signal_name :: "policy_signal_id \<Rightarrow> string" where
  "signal_name Placeholder = ''placeholder''"
| "signal_name Todo = ''todo''"
| "signal_name Duplicate = ''duplicate''"
| "signal_name Unused_deps = ''unused-deps''"
| "signal_name Empty_catch = ''empty-catch''"
| "signal_name Disabled_tests = ''disabled-tests''"
| "signal_name Diff_size = ''diff-size''"
| "signal_name Mock_detect = ''mock-detect''"
| "signal_name States_check = ''states-check''"

definition waiverAuthorized :: "gate_evaluation \<Rightarrow> bool" where
  "waiverAuthorized e \<longleftrightarrow>
     (if g_status (e_result e) = Gate_waived
      then e_class e = Required_or_explicit_waiver \<and> map_option w_gateId (e_waiver e) = Some (e_gateId e)
      else e_waiver e = None)"

definition GateEvaluationSchema :: "(string \<Rightarrow> bool) \<Rightarrow> gate_evaluation \<Rightarrow> bool" where
  "GateEvaluationSchema datetime e \<longleftrightarrow>
     list_all (\<lambda>a. a \<noteq> []) (g_evidence (e_result e)) \<and>
     (case e_waiver e of None \<Rightarrow> True | Some w \<Rightarrow> isl (GateWaiverSchema_parse datetime w) = False) \<and>
     waiverAuthorized e"

definition positive :: "int option \<Rightarrow> bool" where
  "positive n = (case n of None \<Rightarrow> True | Some k \<Rightarrow> 0 < k)"

definition PolicyLocationSchema :: "policy_location \<Rightarrow> bool" where
  "PolicyLocationSchema l \<longleftrightarrow> 1 \<le> length (path l) \<and> length (path l) \<le> 4096 \<and> positive (line l) \<and> positive (column l)"

definition PolicySignalSchema :: "policy_signal \<Rightarrow> bool" where
  "PolicySignalSchema s \<longleftrightarrow>
     list_all PolicyLocationSchema (locations s) \<and> 1 \<le> length (locations s) \<and> length (locations s) \<le> 2000"

definition VerifierDecisionInputSchema :: "(string \<Rightarrow> bool) \<Rightarrow> verifier_input \<Rightarrow> bool" where
  "VerifierDecisionInputSchema datetime i \<longleftrightarrow>
     list_all (GateEvaluationSchema datetime) (gateEvaluations i) \<and> length (gateEvaluations i) \<le> 100 \<and>
     list_all CriterionRecordSchema (v_criteria i) \<and> 1 \<le> length (v_criteria i) \<and> length (v_criteria i) \<le> 1000 \<and>
     list_all CriterionIdSchema (criticalCriterionIds i) \<and> length (criticalCriterionIds i) \<le> 1000 \<and>
     list_all PolicySignalSchema (policySignals i) \<and> length (policySignals i) \<le> 9 \<and>
     distinct (map e_gateId (gateEvaluations i)) \<and>
     distinct (map criterionId (v_criteria i)) \<and>
     distinct (criticalCriterionIds i) \<and>
     set (criticalCriterionIds i) \<subseteq> criterionId ` set (v_criteria i)"

section \<open>Risks\<close>

definition STRICT_APPLICABILITY_CLASSES :: "gate_requirement_class list" where
  "STRICT_APPLICABILITY_CLASSES = [Required, Required_or_explicit_waiver, Required_policy,
     Required_for_critical_logic, Required_for_managed_integrations, Required_for_managed_auth,
     Required_for_code, Required_for_supported_release_state]"

definition NON_BLOCKING_FAILURE_CLASSES :: "gate_requirement_class list" where
  "NON_BLOCKING_FAILURE_CLASSES = [Best_effort, Advisory]"

definition gateFailureSeverity :: "gate_requirement_class \<Rightarrow> policy_severity" where
  "gateFailureSeverity k = (if k \<in> set NON_BLOCKING_FAILURE_CLASSES then Warning else Blocking)"

definition VerificationRiskSchema_parse :: "verification_risk \<Rightarrow> verifier_error + verification_risk" where
  "VerificationRiskSchema_parse r =
     (if 1 \<le> length (summary r) \<and> length (summary r) \<le> 1024 then Inr r else Inl Invalid_risk)"

definition gateRisk :: "gate_evaluation \<Rightarrow> verification_risk option" where
  "gateRisk e =
     (let risk = (\<lambda>c sev txt. Some \<lparr>code = c, r_severity = sev, r_gateId = Some (e_gateId e), r_criterionId = None,
            r_signal = None, summary = gate_name (e_gateId e) @ txt\<rparr>)
      in
      if g_status (e_result e) = Gate_passed \<and> length (g_evidence (e_result e)) = 0
      then risk Gate_evidence_missing (gateFailureSeverity (e_class e)) '' reported success without an evidence artifact.''
      else if g_status (e_result e) = Gate_failed
      then risk Gate_failed_risk (gateFailureSeverity (e_class e)) '' returned a failed result.''
      else if g_status (e_result e) = Gate_not_applicable \<and> e_class e \<in> set STRICT_APPLICABILITY_CLASSES
      then risk Required_gate_not_applicable Blocking '' is required but returned not applicable.''
      else None)"

definition criterionRisk :: "string list \<Rightarrow> criterion_record \<Rightarrow> verification_risk option" where
  "criterionRisk criticalCriteria c =
     (let risk = (\<lambda>k sev txt. Some \<lparr>code = k, r_severity = sev, r_gateId = None, r_criterionId = Some (criterionId c),
            r_signal = None, summary = criterionId c @ txt\<rparr>);
          critical = criterionId c \<in> set criticalCriteria
      in
      case result c of
        Failed \<Rightarrow> risk Criterion_failed Blocking '' failed independent verification.''
      | Unverified \<Rightarrow>
          if critical
          then risk Critical_criterion_unverified Blocking '' is a critical-flow criterion without passing evidence.''
          else risk Criterion_unverified Human_review '' has no conclusive verification evidence.''
      | Waived_result \<Rightarrow> risk Criterion_waived Warning '' was explicitly waived.''
      | Passed \<Rightarrow> None)"

definition signalRisk :: "policy_signal \<Rightarrow> verification_risk option" where
  "signalRisk s = Some \<lparr>code = Policy_signal_risk, r_severity = severity s, r_gateId = None, r_criterionId = None,
     r_signal = Some s,
     summary = signal_name (signalId s) @ '' reported '' @ digits (length (locations s)) @ '' location(s).''\<rparr>"

fun pushRisks :: "verification_risk option list \<Rightarrow> verifier_error + verification_risk list" where
  "pushRisks [] = Inr []"
| "pushRisks (None # rs) = pushRisks rs"
| "pushRisks (Some r # rs) =
     andThen (VerificationRiskSchema_parse r) (\<lambda>r'. andThen (pushRisks rs) (\<lambda>rs'. Inr (r' # rs')))"

definition decideVerification :: "(string \<Rightarrow> bool) \<Rightarrow> verifier_input \<Rightarrow> verifier_error + verifier_result" where
  "decideVerification datetime inputValue =
     (if \<not> VerifierDecisionInputSchema datetime inputValue then Inl Invalid_verifier_input
      else
        let inp = inputValue\<lparr>v_criteria := map trimRecord (v_criteria inputValue)\<rparr> in
        andThen (pushRisks (map gateRisk (gateEvaluations inp) @
                   map (criterionRisk (criticalCriterionIds inp)) (v_criteria inp) @
                   map signalRisk (policySignals inp))) (\<lambda>rs.
          Inr \<lparr>decision =
                 (if list_ex (\<lambda>r. r_severity r = Blocking) rs then Rejected
                  else if list_ex (\<lambda>r. r_severity r = Human_review) rs then Needs_human
                  else Approved),
               criteriaResults = v_criteria inp,
               risks = rs\<rparr>))"

section \<open>Facts\<close>

lemma pushRisks_Inr: "pushRisks os = Inr rs \<longleftrightarrow>
    rs = map the (filter (\<lambda>p. p \<noteq> None) os) \<and> (\<forall>r. Some r \<in> set os \<longrightarrow> 1 \<le> length (summary r) \<and> length (summary r) \<le> 1024)"
  by (induction os arbitrary: rs rule: pushRisks.induct)
    (auto simp: andThen_Inr_iff VerificationRiskSchema_parse_def)

lemma some_risk: "list_ex P (map the (filter (\<lambda>p. p \<noteq> None) os)) \<longleftrightarrow> (\<exists>r. Some r \<in> set os \<and> P r)"
  by (induction os) (auto split: option.splits)

definition gate_ok :: "gate_evaluation \<Rightarrow> bool" where
  "gate_ok e \<longleftrightarrow>
     (case g_status (e_result e) of
        Gate_passed \<Rightarrow> g_evidence (e_result e) \<noteq> [] \<or> e_class e \<in> set NON_BLOCKING_FAILURE_CLASSES
      | Gate_failed \<Rightarrow> e_class e \<in> set NON_BLOCKING_FAILURE_CLASSES
      | Gate_waived \<Rightarrow> True
      | Gate_not_applicable \<Rightarrow> e_class e \<notin> set STRICT_APPLICABILITY_CLASSES)"

lemma gateRisk_blocking: "(\<exists>r. gateRisk e = Some r \<and> r_severity r = Blocking) \<longleftrightarrow> \<not> gate_ok e"
  by (cases "g_status (e_result e)") (auto simp: gateRisk_def gate_ok_def gateFailureSeverity_def Let_def)

lemma gateRisk_human: "gateRisk e = Some r \<Longrightarrow> r_severity r \<noteq> Human_review"
  by (auto simp: gateRisk_def gateFailureSeverity_def Let_def split: if_splits)

lemma criterionRisk_blocking: "(\<exists>r. criterionRisk ks c = Some r \<and> r_severity r = Blocking) \<longleftrightarrow>
    result c = Failed \<or> (result c = Unverified \<and> criterionId c \<in> set ks)"
  by (cases "result c") (auto simp: criterionRisk_def Let_def)

lemma criterionRisk_human: "(\<exists>r. criterionRisk ks c = Some r \<and> r_severity r = Human_review) \<longleftrightarrow>
    result c = Unverified \<and> criterionId c \<notin> set ks"
  by (cases "result c") (auto simp: criterionRisk_def Let_def)

lemma signalRisk_severity: "(\<exists>r. signalRisk s = Some r \<and> r_severity r = v) \<longleftrightarrow> severity s = v"
  by (simp add: signalRisk_def)

definition blocked :: "verifier_input \<Rightarrow> bool" where
  "blocked i \<longleftrightarrow>
     (\<exists>e \<in> set (gateEvaluations i). \<not> gate_ok e) \<or>
     (\<exists>c \<in> set (v_criteria i). result c = Failed \<or> (result c = Unverified \<and> criterionId c \<in> set (criticalCriterionIds i))) \<or>
     (\<exists>s \<in> set (policySignals i). severity s = Blocking)"

definition reviewed :: "verifier_input \<Rightarrow> bool" where
  "reviewed i \<longleftrightarrow>
     (\<exists>c \<in> set (v_criteria i). result c = Unverified \<and> criterionId c \<notin> set (criticalCriterionIds i)) \<or>
     (\<exists>s \<in> set (policySignals i). severity s = Human_review)"

lemma trimRecord_same [simp]: "result (trimRecord c) = result c" "criterionId (trimRecord c) = criterionId c"
  by (simp_all add: trimRecord_def)

lemma decide_Inr:
  assumes "decideVerification dt i = Inr d"
  shows "VerifierDecisionInputSchema dt i"
    and "criteriaResults d = map trimRecord (v_criteria i)"
    and "decision d = (if blocked i then Rejected else if reviewed i then Needs_human else Approved)"
proof -
  let ?os = "map gateRisk (gateEvaluations i) @ map (criterionRisk (criticalCriterionIds i)) (map trimRecord (v_criteria i)) @
    map signalRisk (policySignals i)"
  show ok: "VerifierDecisionInputSchema dt i" using assms by (auto simp: decideVerification_def split: if_splits)
  from assms ok obtain rs where rs: "pushRisks ?os = Inr rs"
      "decision d = (if list_ex (\<lambda>r. r_severity r = Blocking) rs then Rejected
         else if list_ex (\<lambda>r. r_severity r = Human_review) rs then Needs_human else Approved)"
      "criteriaResults d = map trimRecord (v_criteria i)"
    by (auto simp: decideVerification_def Let_def andThen_Inr_iff)
  show "criteriaResults d = map trimRecord (v_criteria i)" by (rule rs(3))
  have sev: "list_ex (\<lambda>r. r_severity r = v) rs \<longleftrightarrow>
      (\<exists>e \<in> set (gateEvaluations i). \<exists>r. gateRisk e = Some r \<and> r_severity r = v) \<or>
      (\<exists>c \<in> set (v_criteria i). \<exists>r. criterionRisk (criticalCriterionIds i) (trimRecord c) = Some r \<and> r_severity r = v) \<or>
      (\<exists>s \<in> set (policySignals i). \<exists>r. signalRisk s = Some r \<and> r_severity r = v)" for v
  proof -
    have "rs = map the (filter (\<lambda>p. p \<noteq> None) ?os)" using rs(1) unfolding pushRisks_Inr by (rule conjunct1)
    then have "list_ex (\<lambda>r. r_severity r = v) rs \<longleftrightarrow> (\<exists>r. Some r \<in> set ?os \<and> r_severity r = v)"
      by (simp only: some_risk)
    also have "\<dots> \<longleftrightarrow> (\<exists>q \<in> set ?os. \<exists>r. q = Some r \<and> r_severity r = v)" by blast
    finally show ?thesis by (simp only: set_append set_map bex_Un bex_simps image_image)
  qed
  have "list_ex (\<lambda>r. r_severity r = Blocking) rs \<longleftrightarrow> blocked i"
    unfolding sev gateRisk_blocking criterionRisk_blocking signalRisk_severity blocked_def by simp
  moreover have "list_ex (\<lambda>r. r_severity r = Human_review) rs \<longleftrightarrow> reviewed i"
    unfolding sev criterionRisk_human signalRisk_severity reviewed_def using gateRisk_human by auto
  ultimately show "decision d = (if blocked i then Rejected else if reviewed i then Needs_human else Approved)"
    using rs(2) by simp
qed

lemma length_digits: "n < 10 ^ k \<Longrightarrow> 1 \<le> k \<Longrightarrow> 1 \<le> length (digits n) \<and> length (digits n) \<le> k"
proof (induction n arbitrary: k rule: digits.induct)
  case (1 n)
  show ?case
  proof (cases "n < 10")
    case False
    from "1.prems" obtain j where j: "k = Suc j" by (cases k) auto
    with "1.prems" False have "j \<noteq> 0" by (cases j) auto
    with j have k: "k = Suc j" "1 \<le> j" by simp_all
    have "n div 10 < 10 ^ j" using "1.prems" k by (simp add: less_mult_imp_div_less mult.commute)
    with "1.IH" [OF False _ k(2)] have "1 \<le> length (digits (n div 10)) \<and> length (digits (n div 10)) \<le> j" by blast
    moreover have "digits n = digits (n div 10) @ [char_of (48 + n mod 10)]" using False by (subst digits.simps) simp
    ultimately show ?thesis using k by simp
  next
    case True
    then show ?thesis using "1.prems" by (subst (1 2) digits.simps) simp
  qed
qed

lemma gate_name_length: "1 \<le> length (gate_name g) \<and> length (gate_name g) \<le> 20"
  by (cases g) simp_all

lemma signal_name_length: "1 \<le> length (signal_name s) \<and> length (signal_name s) \<le> 20"
  by (cases s) simp_all

definition short_risk :: "verification_risk \<Rightarrow> bool" where
  "short_risk r \<longleftrightarrow> 1 \<le> length (summary r) \<and> length (summary r) \<le> 1024"

lemma gateRisk_short: "gateRisk e = Some r \<Longrightarrow> short_risk r"
  using gate_name_length [of "e_gateId e"]
  by (auto simp: gateRisk_def short_risk_def Let_def split: if_splits)

lemma criterionRisk_short: "criterionRisk ks c = Some r \<Longrightarrow> length (criterionId c) \<le> 900 \<Longrightarrow> short_risk r"
  by (cases "result c") (auto simp: criterionRisk_def short_risk_def Let_def split: if_splits)

lemma signalRisk_short:
  assumes "signalRisk s = Some r" and "PolicySignalSchema s"
  shows "short_risk r"
proof -
  have "length (locations s) < 10 ^ 4" using assms(2) by (simp add: PolicySignalSchema_def)
  with length_digits [of _ 4] have "length (digits (length (locations s))) \<le> 4" by simp
  with assms(1) signal_name_length [of "signalId s"] show ?thesis
    by (auto simp: signalRisk_def short_risk_def)
qed

lemma decide_returns:
  assumes ok: "VerifierDecisionInputSchema dt i" and short: "\<forall>c \<in> set (v_criteria i). length (criterionId c) \<le> 900"
  shows "\<exists>d. decideVerification dt i = Inr d"
proof -
  let ?os = "map gateRisk (gateEvaluations i) @ map (criterionRisk (criticalCriterionIds i)) (map trimRecord (v_criteria i)) @
    map signalRisk (policySignals i)"
  have sig: "PolicySignalSchema s" if "s \<in> set (policySignals i)" for s
    using ok that by (simp add: VerifierDecisionInputSchema_def list_all_iff)
  have "short_risk r" if "Some r \<in> set ?os" for r
  proof -
    from that consider e where "gateRisk e = Some r"
      | c where "c \<in> set (v_criteria i)" "criterionRisk (criticalCriterionIds i) (trimRecord c) = Some r"
      | s where "s \<in> set (policySignals i)" "signalRisk s = Some r"
      by (auto simp: image_iff)
    then show ?thesis
      by cases (use gateRisk_short criterionRisk_short signalRisk_short sig short in auto)
  qed
  then obtain rs where "pushRisks ?os = Inr rs" unfolding pushRisks_Inr short_risk_def by blast
  then show ?thesis using ok by (simp add: decideVerification_def Let_def)
qed

section \<open>Properties\<close>

text \<open>
  C12.  The decision on a valid input whose criterion identifiers are at most 900 characters
  long is always reached.  It is a rejection exactly when a gate is not satisfied, a criterion
  failed, a critical criterion is unverified or a signal blocks; otherwise it asks for a
  person exactly when another criterion is unverified or a signal asks for review; and only
  otherwise it approves.  A gate counts as satisfied when it passed with evidence, was waived,
  fell short in a best-effort or advisory class, or did not apply and need not.
\<close>

theorem decideVerification_correct:
  assumes "VerifierDecisionInputSchema dt i" and "\<forall>c \<in> set (v_criteria i). length (criterionId c) \<le> 900"
  shows "\<exists>d. decideVerification dt i = Inr d \<and>
    (decision d = Rejected \<longleftrightarrow>
       (\<exists>e \<in> set (gateEvaluations i). \<not> gate_ok e) \<or>
       (\<exists>c \<in> set (v_criteria i). result c = Failed \<or> (result c = Unverified \<and> criterionId c \<in> set (criticalCriterionIds i))) \<or>
       (\<exists>s \<in> set (policySignals i). severity s = Blocking)) \<and>
    (decision d = Approved \<longleftrightarrow>
       (\<forall>e \<in> set (gateEvaluations i). gate_ok e) \<and>
       (\<forall>c \<in> set (v_criteria i). result c = Passed \<or> result c = Waived_result) \<and>
       (\<forall>s \<in> set (policySignals i). severity s = Warning))"
proof -
  obtain d where d: "decideVerification dt i = Inr d" using decide_returns [OF assms] by blast
  have "(\<not> blocked i \<and> \<not> reviewed i) \<longleftrightarrow> (\<forall>e \<in> set (gateEvaluations i). gate_ok e) \<and>
       (\<forall>c \<in> set (v_criteria i). result c = Passed \<or> result c = Waived_result) \<and>
       (\<forall>s \<in> set (policySignals i). severity s = Warning)"
    unfolding blocked_def reviewed_def by (auto, (metis criterion_result.exhaust policy_severity.exhaust)+)
  with d decide_Inr(3) [OF d] show ?thesis unfolding blocked_def [symmetric] by auto
qed

definition sample_verification :: verifier_input where
  "sample_verification = \<lparr>gateEvaluations = [\<lparr>e_gateId = Lint, e_class = Advisory,
       e_result = \<lparr>g_status = Gate_failed, g_evidence = []\<rparr>, e_waiver = None\<rparr>],
     v_criteria = [\<lparr>criterionId = ''A1'', r_specificationVersion = 1, taskIds = [], testCaseIds = [],
       result = Passed, evidenceArtifactIds = [], verifierComments = []\<rparr>],
     criticalCriterionIds = [''A1''], policySignals = []\<rparr>"

lemma sample_verification_valid: "VerifierDecisionInputSchema dt sample_verification"
  by (simp add: VerifierDecisionInputSchema_def sample_verification_def GateEvaluationSchema_def waiverAuthorized_def
      CriterionRecordSchema_def sample_id UniqueIdentifiersSchema_def)

theorem decideVerification_correct_witness:
  "\<exists>d. decideVerification (\<lambda>_. True) sample_verification = Inr d \<and> decision d = Approved"
proof -
  have "\<forall>c \<in> set (v_criteria sample_verification). length (criterionId c) \<le> 900" by (simp add: sample_verification_def)
  from decideVerification_correct [OF sample_verification_valid this, of "\<lambda>_. True"] show ?thesis
    by (auto simp: sample_verification_def gate_ok_def NON_BLOCKING_FAILURE_CLASSES_def)
qed

text \<open>In an approval a strictly applicable gate has passed with evidence, or it is the waived type check.\<close>

lemma approved_strict:
  assumes "decideVerification dt i = Inr d" and "decision d = Approved" and e: "e \<in> set (gateEvaluations i)"
    and k: "e_class e \<in> set STRICT_APPLICABILITY_CLASSES" and "e_class e = MATRIX (e_gateId e) ! levelIndex level"
  shows "(g_status (e_result e) = Gate_passed \<and> g_evidence (e_result e) \<noteq> []) \<or>
    (e_gateId e = Typecheck \<and> (\<exists>w. e_waiver e = Some w \<and> w_gateId w = Typecheck))"
proof -
  have ok: "gate_ok e \<and> waiverAuthorized e"
    using decide_Inr(1,3) [OF assms(1)] assms(2) e
    by (auto simp: blocked_def VerifierDecisionInputSchema_def list_all_iff GateEvaluationSchema_def split: if_splits)
  have nb: "e_class e \<notin> set NON_BLOCKING_FAILURE_CLASSES"
    using k by (auto simp: STRICT_APPLICABILITY_CLASSES_def NON_BLOCKING_FAILURE_CLASSES_def)
  show ?thesis
  proof (cases "g_status (e_result e)")
    case Gate_waived
    then have "e_class e = Required_or_explicit_waiver" "map_option w_gateId (e_waiver e) = Some (e_gateId e)"
      using ok by (simp_all add: waiverAuthorized_def)
    then show ?thesis using assms(5) waivable_gate [of "e_gateId e" level] by auto
  qed (use ok nb k in \<open>auto simp: gate_ok_def\<close>)
qed

text \<open>
  C11.  From policy to verdict: when the evaluations cover the requirements that the gate policy
  gives a level, an approval means that every gate of a strictly applicable class passed with
  evidence, the only exception being a type check waived by a person; at every level the dev
  server, the browser smoke test, the secret scan and the preview health check passed with
  evidence.
\<close>

theorem approval_means_required_gates_passed:
  assumes "requiredGates dt level policy = Inr reqs"
    and "map (\<lambda>e. (e_gateId e, e_class e)) (gateEvaluations i) = map (\<lambda>r. (requirement_gate r, requirement_class r)) reqs"
    and "decideVerification dt i = Inr d" and "decision d = Approved"
  shows "(\<forall>e \<in> set (gateEvaluations i). e_class e \<in> set STRICT_APPLICABILITY_CLASSES \<longrightarrow>
      (g_status (e_result e) = Gate_passed \<and> g_evidence (e_result e) \<noteq> []) \<or>
      (e_gateId e = Typecheck \<and> (\<exists>w. e_waiver e = Some w \<and> w_gateId w = Typecheck))) \<and>
    (\<forall>g \<in> {Dev_server_start, Browser_smoke, Secret_scan, Preview_health}.
       \<exists>e \<in> set (gateEvaluations i). e_gateId e = g \<and> g_status (e_result e) = Gate_passed \<and> g_evidence (e_result e) \<noteq> [])"
proof -
  have gates: "e_class e = MATRIX (e_gateId e) ! levelIndex level" if "e \<in> set (gateEvaluations i)" for e
  proof -
    have "(e_gateId e, e_class e) \<in> set (map (\<lambda>r. (requirement_gate r, requirement_class r)) reqs)"
      unfolding assms(2) [symmetric] using that by simp
    then show ?thesis using requirement_of_gate [OF assms(1)] by auto
  qed
  have covered: "\<exists>e \<in> set (gateEvaluations i). e_gateId e = g" for g
  proof -
    have "g \<in> set (map requirement_gate reqs)" unfolding requirement_gates [OF assms(1)] by (rule all_gates)
    then obtain r where "r \<in> set reqs" "requirement_gate r = g" by auto
    then have "(g, requirement_class r) \<in> set (map (\<lambda>e. (e_gateId e, e_class e)) (gateEvaluations i))"
      unfolding assms(2) by force
    then show ?thesis by auto
  qed
  have strict: "(g_status (e_result e) = Gate_passed \<and> g_evidence (e_result e) \<noteq> []) \<or>
      (e_gateId e = Typecheck \<and> (\<exists>w. e_waiver e = Some w \<and> w_gateId w = Typecheck))"
    if "e \<in> set (gateEvaluations i)" and "e_class e \<in> set STRICT_APPLICABILITY_CLASSES" for e
    using approved_strict [OF assms(3,4) that gates [OF that(1)]] .
  have "\<exists>e \<in> set (gateEvaluations i). e_gateId e = g \<and> g_status (e_result e) = Gate_passed \<and> g_evidence (e_result e) \<noteq> []"
    if "g \<in> {Dev_server_start, Browser_smoke, Secret_scan, Preview_health}" for g
  proof -
    from covered obtain e where e: "e \<in> set (gateEvaluations i)" "e_gateId e = g" by blast
    have "MATRIX g ! levelIndex level = Required" using that by (cases level) auto
    then have "e_class e \<in> set STRICT_APPLICABILITY_CLASSES" using gates [OF e(1)] e(2) by (simp add: STRICT_APPLICABILITY_CLASSES_def)
    with strict [OF e(1)] e that show ?thesis by auto
  qed
  with strict show ?thesis by blast
qed

definition sample_full :: verifier_input where
  "sample_full = sample_verification\<lparr>gateEvaluations := map (\<lambda>g. \<lparr>e_gateId = g, e_class = MATRIX g ! 0,
     e_result = \<lparr>g_status = Gate_passed, g_evidence = [''art'']\<rparr>, e_waiver = None\<rparr>) GATE_IDS\<rparr>"

theorem approval_means_required_gates_passed_witness:
  "\<exists>e \<in> set (gateEvaluations sample_full). e_gateId e = Secret_scan \<and> g_evidence (e_result e) \<noteq> []"
proof -
  have valid: "VerifierDecisionInputSchema (\<lambda>_. True) sample_full"
    using sample_verification_valid [of "\<lambda>_. True"]
    by (simp add: VerifierDecisionInputSchema_def sample_full_def GateEvaluationSchema_def waiverAuthorized_def
        list_all_iff comp_def distinct_gates) (simp add: GATE_IDS_def)
  obtain d where d: "decideVerification (\<lambda>_. True) sample_full = Inr d"
    using decide_returns [OF valid] by (auto simp: sample_full_def sample_verification_def)
  have "\<not> blocked sample_full" "\<not> reviewed sample_full"
    by (auto simp: blocked_def reviewed_def sample_full_def sample_verification_def gate_ok_def)
  then have ap: "decision d = Approved" using decide_Inr(3) [OF d] by simp
  obtain reqs where reqs: "requiredGates (\<lambda>_. True) Compatible [] = Inr reqs"
    "reqs = map (\<lambda>g. Run g (MATRIX g ! 0)) GATE_IDS"
    unfolding requiredGates_Inr_iff by (auto simp: ProjectPolicySchema_parse_def)
  have "map (\<lambda>e. (e_gateId e, e_class e)) (gateEvaluations sample_full) =
      map (\<lambda>r. (requirement_gate r, requirement_class r)) reqs"
    unfolding reqs(2) by (simp add: sample_full_def comp_def)
  from approval_means_required_gates_passed [OF reqs(1) this d ap] show ?thesis by auto
qed

end
