(* ===== verification/Failure_Class.thy ===== *)
theory Failure_Class
  imports Gate_Policy Js_Value
begin

text \<open>
  The classification of a failed gate (\<open>packages/verification-engine/src/repair/classify.ts\<close>).
  Infrastructure failures are recognised by signatures in the output, flaky ones by a recorded
  retry or a known fingerprint; everything else is asked of a model, whose answer is trusted
  for the other classes only.  The model is a port: its answer is an arbitrary value, or
  \<open>None\<close> when the call is rejected.  All Latin-1 strings are in normal form C, so the
  normalisation test of a path always succeeds here.
\<close>

section \<open>Data\<close>

datatype failure_classification = Product_code | Test_code | Environment | Flaky_dependency | Infrastructure

datatype protected_failure = Security | Destructive_migration_failure

record repair_criterion =
  rc_id :: string
  rc_text :: string

record repair_diff =
  changedFiles :: "string list"
  d_summary :: string

record repair_failure =
  failureId :: string
  f_gateId :: gate_id
  fingerprint :: string
  f_output :: string
  f_evidence :: "string list"
  relatedFiles :: "string list"
  f_criterion :: repair_criterion
  f_diff :: repair_diff
  retriedPass :: bool
  knownFlakeFingerprints :: "string list"
  protectedFailure :: "protected_failure option"

record model_request =
  q_failureId :: string
  q_gateId :: gate_id
  q_output :: string
  q_relatedFiles :: "string list"
  q_criterion :: repair_criterion
  q_diff :: repair_diff

record classification_scope =
  organizationId :: string
  projectId :: string
  runId :: string
  taskId :: string

datatype classification_source = Infrastructure_signature | Flake_record | Model | Safe_fallback

record classification_result =
  classification :: failure_classification
  c_reason :: string
  c_source :: classification_source

datatype classification_error = Invalid_failure | Invalid_scope | Invalid_classification

section \<open>Schemas\<close>

fun splitOn :: "char \<Rightarrow> string \<Rightarrow> string list" where
  "splitOn d [] = [[]]"
| "splitOn d (c # s) =
     (if c = d then [] # splitOn d s
      else case splitOn d s of [] \<Rightarrow> [[c]] | w # ws \<Rightarrow> (c # w) # ws)"

definition is_control :: "char \<Rightarrow> bool" where
  "is_control c \<longleftrightarrow> (of_char c :: nat) \<le> 31 \<or> (of_char c :: nat) = 127"

definition RepairRepositoryPathSchema :: "string \<Rightarrow> bool" where
  "RepairRepositoryPathSchema path \<longleftrightarrow>
     1 \<le> length path \<and> length path \<le> 1024 \<and>
     hd path \<noteq> CHR ''/'' \<and> last path \<noteq> CHR ''/'' \<and>
     CHR 0x5C \<notin> set path \<and> \<not> list_ex is_control path \<and>
     list_all (\<lambda>segment. segment \<noteq> '''' \<and> segment \<noteq> ''.'' \<and> segment \<noteq> ''..'') (splitOn CHR ''/'' path)"

definition reason_ok :: "string \<Rightarrow> bool" where
  "reason_ok s \<longleftrightarrow> sized 1 2000 s"

definition RepairCriterionSchema :: "repair_criterion \<Rightarrow> bool" where
  "RepairCriterionSchema c \<longleftrightarrow> sized 1 256 (rc_id c) \<and> sized 1 10000 (trim (rc_text c))"

definition trimCriterion :: "repair_criterion \<Rightarrow> repair_criterion" where
  "trimCriterion c = c\<lparr>rc_text := trim (rc_text c)\<rparr>"

definition RepairRelatedFilesSchema :: "string list \<Rightarrow> bool" where
  "RepairRelatedFilesSchema fs \<longleftrightarrow> list_all RepairRepositoryPathSchema fs \<and> length fs \<le> 1000"

definition RepairEvidenceArtifactIdSchema :: "string \<Rightarrow> bool" where
  "RepairEvidenceArtifactIdSchema s \<longleftrightarrow> sized 1 128 s"

definition diffOk :: "repair_diff \<Rightarrow> bool" where
  "diffOk d \<longleftrightarrow> RepairRelatedFilesSchema (changedFiles d) \<and> sized 0 100000 (d_summary d)"

definition RepairFailureSchema :: "repair_failure \<Rightarrow> bool" where
  "RepairFailureSchema f \<longleftrightarrow>
     sized 1 256 (failureId f) \<and> sized 1 512 (fingerprint f) \<and> sized 0 1000000 (f_output f) \<and>
     list_all RepairEvidenceArtifactIdSchema (f_evidence f) \<and> 1 \<le> length (f_evidence f) \<and> length (f_evidence f) \<le> 50 \<and>
     RepairRelatedFilesSchema (relatedFiles f) \<and> RepairCriterionSchema (f_criterion f) \<and> diffOk (f_diff f) \<and>
     list_all (sized 1 512) (knownFlakeFingerprints f) \<and> length (knownFlakeFingerprints f) \<le> 10000 \<and>
     distinct (f_evidence f) \<and> distinct (relatedFiles f) \<and> distinct (changedFiles (f_diff f)) \<and>
     distinct (knownFlakeFingerprints f)"

definition RepairFailureSchema_parse :: "repair_failure \<Rightarrow> classification_error + repair_failure" where
  "RepairFailureSchema_parse f =
     (if RepairFailureSchema f then Inr (f\<lparr>f_criterion := trimCriterion (f_criterion f)\<rparr>) else Inl Invalid_failure)"

definition FailureClassificationScopeSchema :: "classification_scope \<Rightarrow> bool" where
  "FailureClassificationScopeSchema s \<longleftrightarrow>
     idSchema ''org'' (organizationId s) \<and> idSchema ''proj'' (projectId s) \<and>
     idSchema ''run'' (runId s) \<and> idSchema ''task'' (taskId s)"

fun asClassification :: "js_value \<Rightarrow> failure_classification option" where
  "asClassification (JString s) =
     (if s = ''product_code'' then Some Product_code
      else if s = ''test_code'' then Some Test_code
      else if s = ''environment'' then Some Environment
      else if s = ''flaky_dependency'' then Some Flaky_dependency
      else if s = ''infrastructure'' then Some Infrastructure
      else None)"
| "asClassification _ = None"

definition asReason :: "js_value \<Rightarrow> string option" where
  "asReason v = (case asString v of None \<Rightarrow> None | Some s \<Rightarrow> if reason_ok (trim s) then Some (trim s) else None)"

definition FailureModelClassificationResponseSchema_safeParse ::
    "js_value \<Rightarrow> (failure_classification \<times> string) option" where
  "FailureModelClassificationResponseSchema_safeParse v =
     (case strictObject [''classification'', ''reason''] v of
        None \<Rightarrow> None
      | Some f \<Rightarrow>
          (case (asClassification (f ''classification''), asReason (f ''reason'')) of
             (Some k, Some r) \<Rightarrow> Some (k, r)
           | _ \<Rightarrow> None))"

definition FailureClassificationResultSchema_parse ::
    "failure_classification \<Rightarrow> string \<Rightarrow> classification_source \<Rightarrow> classification_error + classification_result" where
  "FailureClassificationResultSchema_parse k r src =
     (if reason_ok (trim r) then Inr \<lparr>classification = k, c_reason = trim r, c_source = src\<rparr>
      else Inl Invalid_classification)"

section \<open>Signatures\<close>

definition dot :: rx where
  "dot = Cls (\<lambda>c. c \<noteq> CHR 0x0A \<and> c \<noteq> CHR 0x0D)"

definition timeout_signature :: rx where
  "timeout_signature =
     seqs [Bound, Alt (seqs [lit ''time'', opt (lit ''d''), Star sp, lit ''out'']) (lit ''timeout''), Bound]"

definition memory_signature :: rx where
  "memory_signature =
     seqs [Bound,
       alts [seqs [lit ''out'', plus sp, lit ''of'', plus sp, lit ''memory''], lit ''oom'',
         seqs [lit ''exit'', opt (seqs [plus sp, lit ''code'']), Star sp, lit ''137''], lit ''sigkill''],
       Bound]"

definition sandbox_signature :: rx where
  "sandbox_signature =
     seqs [Bound, Alt (lit ''sandbox'') (lit ''workspace''), Bound, upto 80 dot, Bound,
       alts [lit ''unavailable'', lit ''lost'', lit ''terminated'', seqs [lit ''not'', plus sp, lit ''found''],
         seqs [lit ''failed'', plus sp, lit ''to'', plus sp, alts [lit ''start'', lit ''create'', lit ''restore'']]],
       Bound]"

definition INFRASTRUCTURE_SIGNATURES :: "rx list" where
  "INFRASTRUCTURE_SIGNATURES = [timeout_signature, memory_signature, sandbox_signature]"

definition hasInfrastructureSignature :: "string \<Rightarrow> bool" where
  "hasInfrastructureSignature out = list_ex (\<lambda>r. test r out) INFRASTRUCTURE_SIGNATURES"

section \<open>Classification\<close>

definition modelRequest :: "repair_failure \<Rightarrow> model_request" where
  "modelRequest f = \<lparr>q_failureId = failureId f, q_gateId = f_gateId f, q_output = f_output f,
     q_relatedFiles = relatedFiles f, q_criterion = f_criterion f, q_diff = f_diff f\<rparr>"

text \<open>
  The answer of the model, if it is needed, and what becomes of it.  \<open>consultsModel\<close> says
  whether the port is called at all.
\<close>

definition consultsModel :: "repair_failure \<Rightarrow> bool" where
  "consultsModel f \<longleftrightarrow>
     \<not> hasInfrastructureSignature (f_output f) \<and>
     \<not> (retriedPass f \<or> fingerprint f \<in> set (knownFlakeFingerprints f))"

definition judgeResponse :: "js_value option \<Rightarrow> classification_error + classification_result" where
  "judgeResponse rawResponse =
     (case rawResponse of
        None \<Rightarrow> FailureClassificationResultSchema_parse Environment
          ''The model classifier was unavailable; automation stopped at the safe fallback.'' Safe_fallback
      | Some raw \<Rightarrow>
          (case FailureModelClassificationResponseSchema_safeParse raw of
             None \<Rightarrow> FailureClassificationResultSchema_parse Environment
               ''The model classifier returned an invalid response; automation stopped at the safe fallback.'' Safe_fallback
           | Some (k, r) \<Rightarrow>
               if k = Infrastructure \<or> k = Flaky_dependency
               then FailureClassificationResultSchema_parse Environment
                 ''Code rejected a model-only transient classification without structural retry evidence.'' Safe_fallback
               else FailureClassificationResultSchema_parse k r Model))"

definition classifyFailure ::
    "(model_request \<Rightarrow> classification_scope \<Rightarrow> js_value option) \<Rightarrow> repair_failure \<Rightarrow> classification_scope \<Rightarrow>
     classification_error + classification_result" where
  "classifyFailure classify failureValue scope =
     andThen (RepairFailureSchema_parse failureValue) (\<lambda>failure.
     if \<not> FailureClassificationScopeSchema scope then Inl Invalid_scope
     else if hasInfrastructureSignature (f_output failure)
     then FailureClassificationResultSchema_parse Infrastructure
       ''A sandbox, timeout, or out-of-memory infrastructure signature was present.'' Infrastructure_signature
     else if retriedPass failure \<or> fingerprint failure \<in> set (knownFlakeFingerprints failure)
     then FailureClassificationResultSchema_parse Flaky_dependency
       (if retriedPass failure then ''The same check passed on its recorded retry.''
        else ''The failure fingerprint is present in the known flake list.'') Flake_record
     else judgeResponse (classify (modelRequest failure) scope))"

section \<open>Facts\<close>

lemma result_parse_ok: "reason_ok (trim r) \<Longrightarrow>
    FailureClassificationResultSchema_parse k r src = Inr \<lparr>classification = k, c_reason = trim r, c_source = src\<rparr>"
  by (simp add: FailureClassificationResultSchema_parse_def)

lemma canned_reasons:
  "reason_ok (trim ''The model classifier was unavailable; automation stopped at the safe fallback.'')"
  "reason_ok (trim ''The model classifier returned an invalid response; automation stopped at the safe fallback.'')"
  "reason_ok (trim ''Code rejected a model-only transient classification without structural retry evidence.'')"
  "reason_ok (trim ''A sandbox, timeout, or out-of-memory infrastructure signature was present.'')"
  "reason_ok (trim ''The same check passed on its recorded retry.'')"
  "reason_ok (trim ''The failure fingerprint is present in the known flake list.'')"
  by (simp_all add: reason_ok_def sized_def trim_def is_space_def)

lemma safeParse_reason: "FailureModelClassificationResponseSchema_safeParse v = Some (k, r) \<Longrightarrow> reason_ok (trim r)"
  by (auto simp: FailureModelClassificationResponseSchema_safeParse_def asReason_def split: option.splits if_splits)

lemma judgeResponse_total: "\<exists>c. judgeResponse raw = Inr c \<and> classification c \<notin> {Infrastructure, Flaky_dependency} \<and>
    reason_ok (c_reason c)"
proof (cases "raw")
  case None
  then show ?thesis by (simp add: judgeResponse_def result_parse_ok [OF canned_reasons(1)] canned_reasons(1))
next
  case (Some v)
  show ?thesis
  proof (cases "FailureModelClassificationResponseSchema_safeParse v")
    case None
    with Some show ?thesis by (simp add: judgeResponse_def result_parse_ok [OF canned_reasons(2)] canned_reasons(2))
  next
    case (Some kr)
    obtain k r where kr: "kr = (k, r)" by (cases kr)
    note ok = safeParse_reason [OF Some [unfolded kr]]
    show ?thesis using \<open>raw = Some v\<close> Some kr ok
      by (simp add: judgeResponse_def result_parse_ok [OF canned_reasons(3)] canned_reasons(3) result_parse_ok)
  qed
qed

lemma classify_cases:
  assumes "RepairFailureSchema f" and "FailureClassificationScopeSchema scope"
  shows "classifyFailure classify f scope =
    (if hasInfrastructureSignature (f_output f) then
       Inr \<lparr>classification = Infrastructure,
         c_reason = trim ''A sandbox, timeout, or out-of-memory infrastructure signature was present.'',
         c_source = Infrastructure_signature\<rparr>
     else if retriedPass f then
       Inr \<lparr>classification = Flaky_dependency, c_reason = trim ''The same check passed on its recorded retry.'',
         c_source = Flake_record\<rparr>
     else if fingerprint f \<in> set (knownFlakeFingerprints f) then
       Inr \<lparr>classification = Flaky_dependency,
         c_reason = trim ''The failure fingerprint is present in the known flake list.'', c_source = Flake_record\<rparr>
     else judgeResponse (classify (modelRequest (f\<lparr>f_criterion := trimCriterion (f_criterion f)\<rparr>)) scope))"
  using assms
  by (simp add: classifyFailure_def RepairFailureSchema_parse_def result_parse_ok [OF canned_reasons(4)]
      result_parse_ok [OF canned_reasons(5)] result_parse_ok [OF canned_reasons(6)])

section \<open>Properties\<close>

text \<open>
  C15.  Classification of a valid failure always returns, and only structural evidence makes a
  failure retryable: it is called infrastructure exactly when a signature is in the output,
  and flaky exactly when there is none but a recorded retry passed or the fingerprint is a
  known flake.  Whatever a model answers, or if it fails to answer, it cannot bring about
  either class; an invalid answer counts as an environment failure.
\<close>

theorem classifyFailure_structural:
  assumes "RepairFailureSchema f" and "FailureClassificationScopeSchema scope"
  shows "\<exists>c. classifyFailure classify f scope = Inr c \<and> reason_ok (c_reason c) \<and>
    (classification c = Infrastructure \<longleftrightarrow> hasInfrastructureSignature (f_output f)) \<and>
    (classification c = Flaky_dependency \<longleftrightarrow> \<not> hasInfrastructureSignature (f_output f) \<and>
       (retriedPass f \<or> fingerprint f \<in> set (knownFlakeFingerprints f)))"
proof (cases "consultsModel f")
  case True
  obtain c where "judgeResponse (classify (modelRequest (f\<lparr>f_criterion := trimCriterion (f_criterion f)\<rparr>)) scope) = Inr c"
      "classification c \<notin> {Infrastructure, Flaky_dependency}" "reason_ok (c_reason c)"
    using judgeResponse_total by blast
  with True classify_cases [OF assms] show ?thesis unfolding consultsModel_def by auto
next
  case False
  then show ?thesis unfolding classify_cases [OF assms] consultsModel_def using canned_reasons(4-6) by auto
qed

definition sample_failure :: "string \<Rightarrow> repair_failure" where
  "sample_failure out = \<lparr>failureId = ''f1'', f_gateId = Unit_tests, fingerprint = ''fp'', f_output = out,
     f_evidence = [''e1''], relatedFiles = [''src/a.ts''], f_criterion = \<lparr>rc_id = ''A1'', rc_text = ''signs in''\<rparr>,
     f_diff = \<lparr>changedFiles = [], d_summary = ''''\<rparr>, retriedPass = False, knownFlakeFingerprints = [],
     protectedFailure = None\<rparr>"

definition sample_scope :: classification_scope where
  "sample_scope = \<lparr>organizationId = ''org_01J8ME7YQZJ2V9Q0X3T5B6K7N9'', projectId = ''proj_01J8ME7YQZJ2V9Q0X3T5B6K7N9'',
     runId = ''run_01J8ME7YQZJ2V9Q0X3T5B6K7N9'', taskId = ''task_01J8ME7YQZJ2V9Q0X3T5B6K7N9''\<rparr>"

lemma sample_failure_valid: "length out \<le> 1000000 \<Longrightarrow> RepairFailureSchema (sample_failure out)"
  by (simp add: RepairFailureSchema_def sample_failure_def sized_def RepairEvidenceArtifactIdSchema_def
      RepairRelatedFilesSchema_def RepairRepositoryPathSchema_def is_control_def RepairCriterionSchema_def
      diffOk_def trim_def is_space_def)

lemma sample_scope_valid: "FailureClassificationScopeSchema sample_scope"
  by (simp add: FailureClassificationScopeSchema_def sample_scope_def idSchema_def is_ulid_char_def is_digit_def)

lemma sample_oom: "hasInfrastructureSignature ''sigkill''"
  by (simp add: hasInfrastructureSignature_def INFRASTRUCTURE_SIGNATURES_def memory_signature_def test_def
      lit_def ci_def is_boundary_def is_word_def is_lower_def lower_char_def)

theorem classifyFailure_structural_witness:
  "\<exists>c. classifyFailure (\<lambda>_ _. None) (sample_failure ''sigkill'') sample_scope = Inr c \<and> classification c = Infrastructure"
  using classifyFailure_structural [OF sample_failure_valid [of "''sigkill''"] sample_scope_valid, of "\<lambda>_ _. None"] sample_oom
  by (auto simp: sample_failure_def)

end
