(* ===== verification/Ports.thy ===== *)
theory Ports
  imports Prelude
begin

text \<open>
  Computations that call ports.  A component that awaits calls of injected dependencies is a
  function from the state it threads through (most often the history of its calls with their
  replies) to what it throws or returns and the state after it.  The dependencies are one
  parameter: given the calls made so far with their replies, it says how the next call is
  answered, \<open>None\<close> for a rejected promise.
\<close>

section \<open>Sequencing\<close>

type_synonym ('e, 's, 'a) effect = "'s \<Rightarrow> ('e + 'a) \<times> 's"

definition pureR :: "'a \<Rightarrow> ('e, 's, 'a) effect" where
  "pureR x h = (Inr x, h)"

definition throwR :: "'e \<Rightarrow> ('e, 's, 'a) effect" where
  "throwR e h = (Inl e, h)"

definition bindR :: "('e, 's, 'a) effect \<Rightarrow> ('a \<Rightarrow> ('e, 's, 'b) effect) \<Rightarrow> ('e, 's, 'b) effect" where
  "bindR m f h = (case m h of (Inl e, h') \<Rightarrow> (Inl e, h') | (Inr x, h') \<Rightarrow> f x h')"

definition expectR :: "'e \<Rightarrow> 'a option \<Rightarrow> ('e, 's, 'a) effect" where
  "expectR e v = (case v of None \<Rightarrow> throwR e | Some x \<Rightarrow> pureR x)"

text \<open>\<open>try ... catch\<close> with a handler, and \<open>try ... finally\<close>, whose last part wins when it throws.\<close>

definition catchR :: "('e, 's, 'a) effect \<Rightarrow> ('e \<Rightarrow> ('e, 's, 'a) effect) \<Rightarrow> ('e, 's, 'a) effect" where
  "catchR m f h = (case m h of (Inl e, h') \<Rightarrow> f e h' | (Inr x, h') \<Rightarrow> (Inr x, h'))"

definition finallyR :: "('e, 's, 'a) effect \<Rightarrow> ('e, 's, unit) effect \<Rightarrow> ('e, 's, 'a) effect" where
  "finallyR m f h =
     (case m h of (r, h') \<Rightarrow> (case f h' of (Inl e, h'') \<Rightarrow> (Inl e, h'') | (Inr u, h'') \<Rightarrow> (r, h'')))"

lemma bindR_assoc: "bindR (bindR m f) g = bindR m (\<lambda>x. bindR (f x) g)"
  by (rule ext) (auto simp: bindR_def split: prod.splits sum.splits)

lemma bindR_pure [simp]: "bindR (pureR x) f = f x"
  by (rule ext) (simp add: bindR_def pureR_def)

lemma bindR_throw [simp]: "bindR (throwR e) f = throwR e"
  by (rule ext) (simp add: bindR_def throwR_def)

lemma bindR_if: "bindR (if b then m else m') f = (if b then bindR m f else bindR m' f)"
  by simp

lemma bindR_Inr_iff: "bindR m f h = (Inr y, h') \<longleftrightarrow> (\<exists>x h1. m h = (Inr x, h1) \<and> f x h1 = (Inr y, h'))"
  by (auto simp: bindR_def split: prod.splits sum.splits)

lemma pureR_iff: "pureR x h = (r, h') \<longleftrightarrow> r = Inr x \<and> h' = h"
  by (auto simp: pureR_def)

lemma throwR_iff: "throwR e h = (r, h') \<longleftrightarrow> r = Inl e \<and> h' = h"
  by (auto simp: throwR_def)

lemma expectR_Inr: "expectR e v s = (Inr x, s') \<longleftrightarrow> v = Some x \<and> s' = s"
  by (auto simp: expectR_def pureR_iff throwR_iff split: option.splits)

lemmas effect_results = pureR_iff throwR_iff expectR_Inr

section \<open>Calls\<close>

type_synonym ('c, 'r) entry = "'c \<times> 'r option"
type_synonym ('c, 'r) ports = "('c, 'r) entry list \<Rightarrow> 'c \<Rightarrow> 'r option"

text \<open>One awaited call; \<open>e\<close> is what the rejection throws.\<close>

definition awaitR :: "'e \<Rightarrow> ('c, 'r) ports \<Rightarrow> 'c \<Rightarrow> ('e, ('c, 'r) entry list, 'r) effect" where
  "awaitR e env c h =
     (case env h c of
        None \<Rightarrow> (Inl e, h @ [(c, None)])
      | Some v \<Rightarrow> (Inr v, h @ [(c, Some v)]))"

text \<open>A call whose argument is parsed first.\<close>

definition parsedCallR :: "('c \<Rightarrow> bool) \<Rightarrow> 'e \<Rightarrow> 'e \<Rightarrow> ('c, 'r) ports \<Rightarrow> 'c \<Rightarrow> ('e, ('c, 'r) entry list, 'r) effect" where
  "parsedCallR ok invalid rejected env c = (if ok c then awaitR rejected env c else throwR invalid)"

text \<open>The same step for each element of a list, one after the other.\<close>

fun awaitAll :: "('c \<Rightarrow> ('e, 's, 'a) effect) \<Rightarrow> 'c list \<Rightarrow> ('e, 's, unit) effect" where
  "awaitAll f [] = pureR ()"
| "awaitAll f (c # cs) = bindR (f c) (\<lambda>_. awaitAll f cs)"

section \<open>Triples\<close>

text \<open>What holds of the state before a computation, of its result, and of what it throws.\<close>

definition triple ::
    "('s \<Rightarrow> bool) \<Rightarrow> ('e, 's, 'a) effect \<Rightarrow> ('a \<Rightarrow> 's \<Rightarrow> bool) \<Rightarrow> ('e \<Rightarrow> 's \<Rightarrow> bool) \<Rightarrow> bool" where
  "triple P m Q E \<longleftrightarrow> (\<forall>h. P h \<longrightarrow> (case m h of (Inl e, h') \<Rightarrow> E e h' | (Inr x, h') \<Rightarrow> Q x h'))"

lemma tripleD:
  "triple P m Q E \<Longrightarrow> P h \<Longrightarrow> m h = (r, h') \<Longrightarrow> (case r of Inl e \<Rightarrow> E e h' | Inr x \<Rightarrow> Q x h')"
  by (auto simp: triple_def split: sum.splits)

lemma triple_pure: "(\<And>h. P h \<Longrightarrow> Q x h) \<Longrightarrow> triple P (pureR x) Q E"
  by (simp add: triple_def pureR_def)

lemma triple_throw: "(\<And>h. P h \<Longrightarrow> E e h) \<Longrightarrow> triple P (throwR e) Q E"
  by (simp add: triple_def throwR_def)

lemma triple_bind:
  assumes "triple P m R E" and "\<And>x. triple (R x) (f x) Q E"
  shows "triple P (bindR m f) Q E"
  unfolding triple_def bindR_def
proof (intro allI impI)
  fix h assume "P h"
  then show "case (case m h of (Inl e, h') \<Rightarrow> (Inl e, h') | (Inr x, h') \<Rightarrow> f x h') of
      (Inl e, h') \<Rightarrow> E e h' | (Inr x, h') \<Rightarrow> Q x h'"
    using assms(1) assms(2) unfolding triple_def by (fastforce split: prod.splits sum.splits)
qed

lemma triple_weaken:
  "triple P m Q E \<Longrightarrow> (\<And>h. P' h \<Longrightarrow> P h) \<Longrightarrow> (\<And>x h. Q x h \<Longrightarrow> Q' x h) \<Longrightarrow> (\<And>e h. E e h \<Longrightarrow> E' e h) \<Longrightarrow>
   triple P' m Q' E'"
  unfolding triple_def by (fastforce split: prod.splits sum.splits)

lemma triple_if: "(b \<Longrightarrow> triple P m Q E) \<Longrightarrow> (\<not> b \<Longrightarrow> triple P m' Q E) \<Longrightarrow> triple P (if b then m else m') Q E"
  by simp

lemma triple_await:
  assumes "\<And>h v. P h \<Longrightarrow> Q v (h @ [(c, Some v)])" and "\<And>h. P h \<Longrightarrow> E e (h @ [(c, None)])"
  shows "triple P (awaitR e env c) Q E"
  using assms by (auto simp: triple_def awaitR_def split: option.splits)

lemma triple_catch:
  assumes "triple P m Q R" and "\<And>e. triple (R e) (f e) Q E"
  shows "triple P (catchR m f) Q E"
  unfolding triple_def catchR_def
proof (intro allI impI)
  fix h assume "P h"
  then show "case (case m h of (Inl e, h') \<Rightarrow> f e h' | (Inr x, h') \<Rightarrow> (Inr x, h')) of
      (Inl e, h') \<Rightarrow> E e h' | (Inr x, h') \<Rightarrow> Q x h'"
    using assms(1) assms(2) unfolding triple_def by (fastforce split: prod.splits sum.splits)
qed

section \<open>Scripts\<close>

text \<open>
  A history that performs a list of calls, and one that stops at the first call that is
  rejected.  A computation is scripted when, from any history, it adds one of the two.
\<close>

definition accepted :: "'c list \<Rightarrow> ('c, 'r) entry list \<Rightarrow> bool" where
  "accepted cs h \<longleftrightarrow> map fst h = cs \<and> (\<forall>e \<in> set h. snd e \<noteq> None)"

definition cutOff :: "'c list \<Rightarrow> ('c, 'r) entry list \<Rightarrow> bool" where
  "cutOff cs h \<longleftrightarrow> (\<exists>ds c rest h'. cs = ds @ c # rest \<and> h = h' @ [(c, None)] \<and> accepted ds h')"

definition scripted :: "'e \<Rightarrow> 'c list \<Rightarrow> 'a \<Rightarrow> ('e, ('c, 'r) entry list, 'a) effect \<Rightarrow> bool" where
  "scripted e cs x m \<longleftrightarrow>
     (\<forall>h. (\<exists>h'. m h = (Inr x, h @ h') \<and> accepted cs h') \<or> (\<exists>h'. m h = (Inl e, h @ h') \<and> cutOff cs h'))"

lemma accepted_Nil [simp]: "accepted [] h \<longleftrightarrow> h = []"
  by (auto simp: accepted_def)

lemma accepted_Cons: "accepted (c # cs) h \<longleftrightarrow> (\<exists>v h'. h = (c, Some v) # h' \<and> accepted cs h')"
  by (auto simp: accepted_def map_eq_Cons_conv)

lemma accepted_append: "accepted cs h \<Longrightarrow> accepted ds h' \<Longrightarrow> accepted (cs @ ds) (h @ h')"
  by (auto simp: accepted_def)

lemma cutOff_append: "cutOff cs h \<Longrightarrow> cutOff (cs @ ds) h"
  unfolding cutOff_def by (metis append.assoc append_Cons)

lemma accepted_cutOff: "accepted cs h \<Longrightarrow> cutOff ds h' \<Longrightarrow> cutOff (cs @ ds) (h @ h')"
  unfolding cutOff_def by (metis accepted_append append.assoc)

lemma cutOff_Nil [simp]: "\<not> cutOff [] h"
  by (simp add: cutOff_def)

lemma cutOff_not_accepted: "cutOff cs h \<Longrightarrow> \<not> accepted ds h"
  by (auto simp: cutOff_def accepted_def)

lemma cutOff_first: "cutOff (c # cs) [(c, None)]"
  unfolding cutOff_def by (rule exI [of _ "[]"]) auto

lemma scripted_pure: "scripted e [] x (pureR x)"
  by (simp add: scripted_def pureR_def)

lemma scripted_bind:
  assumes "scripted e cs x m" and "scripted e ds y (f x)"
  shows "scripted e (cs @ ds) y (bindR m f)"
  unfolding scripted_def
proof
  fix h
  consider (all) h1 where "m h = (Inr x, h @ h1)" "accepted cs h1"
    | (cut) h1 where "m h = (Inl e, h @ h1)" "cutOff cs h1"
    using assms(1) unfolding scripted_def by blast
  then show "(\<exists>h'. bindR m f h = (Inr y, h @ h') \<and> accepted (cs @ ds) h') \<or>
      (\<exists>h'. bindR m f h = (Inl e, h @ h') \<and> cutOff (cs @ ds) h')"
  proof cases
    case all
    then have m: "bindR m f h = f x (h @ h1)" by (simp add: bindR_def)
    from assms(2) have "(\<exists>h2. f x (h @ h1) = (Inr y, (h @ h1) @ h2) \<and> accepted ds h2) \<or>
        (\<exists>h2. f x (h @ h1) = (Inl e, (h @ h1) @ h2) \<and> cutOff ds h2)"
      unfolding scripted_def by blast
    then show ?thesis unfolding m using accepted_append [OF all(2)] accepted_cutOff [OF all(2)] by fastforce
  next
    case cut
    then show ?thesis using cutOff_append by (fastforce simp: bindR_def)
  qed
qed

lemma scripted_result: "scripted e cs x m \<Longrightarrow> scripted e cs (g x) (bindR m (\<lambda>y. pureR (g y)))"
  using scripted_bind [of e cs x m "[]" "g x" "\<lambda>y. pureR (g y)", OF _ scripted_pure] by simp

lemma scripted_await:
  assumes "scripted e cs x m"
  shows "scripted e (c # cs) x (bindR (awaitR e env c) (\<lambda>_. m))"
proof -
  have "(\<exists>h'. bindR (awaitR e env c) (\<lambda>_. m) h = (Inr x, h @ h') \<and> accepted (c # cs) h') \<or>
      (\<exists>h'. bindR (awaitR e env c) (\<lambda>_. m) h = (Inl e, h @ h') \<and> cutOff (c # cs) h')" for h
  proof (cases "env h c")
    case None
    then have "bindR (awaitR e env c) (\<lambda>_. m) h = (Inl e, h @ [(c, None)])" by (simp add: bindR_def awaitR_def)
    then show ?thesis by (simp add: cutOff_first)
  next
    case (Some v)
    then have *: "bindR (awaitR e env c) (\<lambda>_. m) h = m (h @ [(c, Some v)])" by (simp add: bindR_def awaitR_def)
    have one: "accepted [c] [(c, Some v)]" by (simp add: accepted_def)
    from assms have "(\<exists>h'. m (h @ [(c, Some v)]) = (Inr x, (h @ [(c, Some v)]) @ h') \<and> accepted cs h') \<or>
        (\<exists>h'. m (h @ [(c, Some v)]) = (Inl e, (h @ [(c, Some v)]) @ h') \<and> cutOff cs h')"
      unfolding scripted_def by blast
    then show ?thesis unfolding * using accepted_append [OF one] accepted_cutOff [OF one] by force
  qed
  then show ?thesis unfolding scripted_def by blast
qed

lemma scripted_awaitAll: "scripted e cs () (awaitAll (awaitR e env) cs)"
  by (induction cs) (auto intro: scripted_pure scripted_await)

section \<open>Traces\<close>

text \<open>
  What a computation adds to the history: \<open>Q\<close> relates a result to the entries added before it is
  returned, \<open>E\<close> what is thrown to the entries added before it is thrown.
\<close>

definition emits ::
    "('e, 'x list, 'a) effect \<Rightarrow> ('a \<Rightarrow> 'x list \<Rightarrow> bool) \<Rightarrow> ('e \<Rightarrow> 'x list \<Rightarrow> bool) \<Rightarrow> bool" where
  "emits m Q E \<longleftrightarrow>
     (\<forall>h. (\<exists>x t. m h = (Inr x, h @ t) \<and> Q x t) \<or> (\<exists>e t. m h = (Inl e, h @ t) \<and> E e t))"

lemma emits_cases:
  assumes "emits m Q E"
  obtains (returned) x t where "m h = (Inr x, h @ t)" "Q x t" | (thrown) e t where "m h = (Inl e, h @ t)" "E e t"
  using assms unfolding emits_def by blast

lemma emits_weaken:
  "emits m Q E \<Longrightarrow> (\<And>x t. Q x t \<Longrightarrow> Q' x t) \<Longrightarrow> (\<And>e t. E e t \<Longrightarrow> E' e t) \<Longrightarrow> emits m Q' E'"
  unfolding emits_def by metis

lemma emits_pure: "Q x [] \<Longrightarrow> emits (pureR x) Q E"
  by (simp add: emits_def pureR_def)

lemma emits_throw: "E e [] \<Longrightarrow> emits (throwR e) Q E"
  by (simp add: emits_def throwR_def)

lemma emits_bind:
  assumes "emits m R E" and "\<And>x t. R x t \<Longrightarrow> emits (f x) (\<lambda>y u. Q y (t @ u)) (\<lambda>e u. E e (t @ u))"
  shows "emits (bindR m f) Q E"
  unfolding emits_def
proof
  fix h
  from assms(1) show "(\<exists>y t. bindR m f h = (Inr y, h @ t) \<and> Q y t) \<or> (\<exists>e t. bindR m f h = (Inl e, h @ t) \<and> E e t)"
  proof (cases rule: emits_cases [of m R E h])
    case (returned x t)
    from assms(2) [OF returned(2)] show ?thesis
      by (cases rule: emits_cases [of "f x" _ _ "h @ t"]) (use returned(1) in \<open>auto simp: bindR_def\<close>)
  qed (auto simp: bindR_def)
qed

lemma emits_catch:
  assumes "emits m Q R" and "\<And>e t. R e t \<Longrightarrow> emits (f e) (\<lambda>y u. Q y (t @ u)) (\<lambda>e u. E e (t @ u))"
  shows "emits (catchR m f) Q E"
  unfolding emits_def
proof
  fix h
  from assms(1) show "(\<exists>y t. catchR m f h = (Inr y, h @ t) \<and> Q y t) \<or> (\<exists>e t. catchR m f h = (Inl e, h @ t) \<and> E e t)"
  proof (cases rule: emits_cases [of m Q R h])
    case (thrown e t)
    from assms(2) [OF thrown(2)] show ?thesis
      by (cases rule: emits_cases [of "f e" _ _ "h @ t"]) (use thrown(1) in \<open>auto simp: catchR_def\<close>)
  qed (auto simp: catchR_def)
qed

lemma emits_parsedCall:
  assumes "\<not> ok c \<Longrightarrow> E invalid []" and "\<And>v. ok c \<Longrightarrow> Q v [(c, Some v)]" and "ok c \<Longrightarrow> E rejected [(c, None)]"
  shows "emits (parsedCallR ok invalid rejected env c) Q E"
  using assms by (auto simp: emits_def parsedCallR_def awaitR_def throwR_def split: option.splits)

lemma emits_result:
  assumes "emits m Q E" and "m [] = (r, h)"
  shows "case r of Inl e \<Rightarrow> E e h | Inr x \<Rightarrow> Q x h"
  using assms(2) by (cases rule: emits_cases [OF assms(1), of "[]"]) auto

end
