(* ===== verification/Repair_Loop.thy ===== *)
theory Repair_Loop
  imports Failure_Class Ports
begin

text \<open>
  The bounded repair loop (\<open>packages/verification-engine/src/repair/loop.ts\<close>).  Everything the
  loop asks of the outside (the model, the repair task store, the builder, the commit verifier,
  the checks, the outcome sink) is a call on a port.  The ports are one parameter \<open>env\<close>: given
  the calls made so far with their replies, it says how the next call is answered, \<open>None\<close> for a
  rejected promise.  A computation passes the history of calls along and may throw.  The
  digest in the idempotency keys is the parameter \<open>sha\<close>.
\<close>

section \<open>Data\<close>

record repair_scope =
  rs_runId :: string
  rs_phaseId :: string
  rs_taskId :: string
  rs_organizationId :: string
  rs_projectId :: string

record builder_context =
  b_criterion :: repair_criterion
  b_gateId :: gate_id
  b_output :: string
  b_evidence :: "string list"
  b_relatedFiles :: "string list"

record repair_loop_input =
  i_scope :: repair_scope
  idempotencyKey :: string
  failingCommitSha :: string
  affectedGateIds :: "gate_id list"
  failure :: repair_failure
  builderContext :: builder_context

record commit_receipt =
  commitSha :: string
  parentCommitSha :: string
  r_repairTaskId :: string
  workspaceId :: string
  branchName :: string

datatype check_status = Check_passed | Check_failed | Check_waived

record check_result =
  k_status :: check_status
  k_evidence :: "string list"
  k_output :: string

datatype check_kind = Repair_iteration | Transient_retry

datatype success_status = Repaired | Recovered

datatype repair_call =
    Classify model_request classification_scope
  | Create_task repair_scope string string failure_classification "protected_failure option" builder_context
  | Build repair_scope string string nat failure_classification string "string option" "gate_id list" builder_context
  | Verify_commit repair_scope string commit_receipt string string
  | Check_targeted repair_scope string string nat string failure_classification repair_criterion "string list"
  | Check_affected repair_scope string string check_kind nat string "gate_id list" "protected_failure option"
  | Succeeded repair_scope string string success_status failure_classification nat nat "string list" "string list"
  | Escalated repair_scope string string failure_classification nat nat string "string list"

type_synonym repair_entry = "(repair_call, js_value) entry"
type_synonym repair_ports = "(repair_call, js_value) ports"

datatype loop_status = Loop_repaired | Loop_recovered | Loop_escalated

record repair_loop_result =
  l_status :: loop_status
  l_classification :: failure_classification
  classificationReason :: string
  repairIterations :: nat
  transientRetries :: nat
  commitShas :: "string list"
  l_evidence :: "string list"

datatype repair_error =
    Invalid_loop_input
  | Classification_threw classification_error
  | Invalid_call
  | Port_rejected
  | Invalid_response
  | New_commit_required
  | Invalid_result

type_synonym 'a repair = "(repair_error, repair_entry list, 'a) effect"

section \<open>Budgets and schemas\<close>

definition TRANSIENT_RETRY_BUDGET :: nat where "TRANSIENT_RETRY_BUDGET = 3"

definition DETERMINISTIC_REPAIR_BUDGET :: nat where "DETERMINISTIC_REPAIR_BUDGET = 2"

definition OperationKeySchema :: "string \<Rightarrow> bool" where
  "OperationKeySchema s \<longleftrightarrow> sized 1 512 s"

definition RepairScopeSchema :: "repair_scope \<Rightarrow> bool" where
  "RepairScopeSchema s \<longleftrightarrow>
     idSchema ''run'' (rs_runId s) \<and> idSchema ''phase'' (rs_phaseId s) \<and> idSchema ''task'' (rs_taskId s) \<and>
     idSchema ''org'' (rs_organizationId s) \<and> idSchema ''proj'' (rs_projectId s)"

definition CollectedEvidenceIdsSchema :: "string list \<Rightarrow> bool" where
  "CollectedEvidenceIdsSchema xs \<longleftrightarrow> list_all RepairEvidenceArtifactIdSchema xs \<and> 1 \<le> length xs \<and> length xs \<le> 250"

definition EvidenceIdsSchema :: "string list \<Rightarrow> bool" where
  "EvidenceIdsSchema xs \<longleftrightarrow> list_all RepairEvidenceArtifactIdSchema xs \<and> 1 \<le> length xs \<and> length xs \<le> 50"

definition gatesOk :: "gate_id list \<Rightarrow> bool" where
  "gatesOk gs \<longleftrightarrow> 1 \<le> length gs \<and> length gs \<le> 100"

definition RepairBuilderContextSchema :: "builder_context \<Rightarrow> bool" where
  "RepairBuilderContextSchema c \<longleftrightarrow>
     RepairCriterionSchema (b_criterion c) \<and> sized 0 1000000 (b_output c) \<and> EvidenceIdsSchema (b_evidence c) \<and>
     RepairRelatedFilesSchema (b_relatedFiles c)"

definition RepairLoopExecutionInputSchema :: "repair_loop_input \<Rightarrow> bool" where
  "RepairLoopExecutionInputSchema i \<longleftrightarrow>
     RepairScopeSchema (i_scope i) \<and> OperationKeySchema (idempotencyKey i) \<and> CommitShaSchema (failingCommitSha i) \<and>
     gatesOk (affectedGateIds i) \<and> RepairFailureSchema (failure i) \<and> RepairBuilderContextSchema (builderContext i) \<and>
     distinct (affectedGateIds i) \<and> f_gateId (failure i) \<in> set (affectedGateIds i)"

definition trimLoopInput :: "repair_loop_input \<Rightarrow> repair_loop_input" where
  "trimLoopInput i = i\<lparr>failure := (failure i)\<lparr>f_criterion := trimCriterion (f_criterion (failure i))\<rparr>,
     builderContext := (builderContext i)\<lparr>b_criterion := trimCriterion (b_criterion (builderContext i))\<rparr>\<rparr>"

definition RepairCommitReceiptSchema :: "commit_receipt \<Rightarrow> bool" where
  "RepairCommitReceiptSchema r \<longleftrightarrow>
     CommitShaSchema (commitSha r) \<and> CommitShaSchema (parentCommitSha r) \<and> idSchema ''task'' (r_repairTaskId r) \<and>
     sized 1 512 (workspaceId r) \<and> sized 1 255 (branchName r)"

text \<open>The schema of the argument of each call.\<close>

fun callSchema :: "repair_call \<Rightarrow> bool" where
  "callSchema (Classify q s) \<longleftrightarrow>
     sized 1 256 (q_failureId q) \<and> sized 0 1000000 (q_output q) \<and> RepairRelatedFilesSchema (q_relatedFiles q) \<and>
     RepairCriterionSchema (q_criterion q) \<and> diffOk (q_diff q)"
| "callSchema (Create_task s key commit k p ctx) \<longleftrightarrow>
     RepairScopeSchema s \<and> OperationKeySchema key \<and> CommitShaSchema commit \<and> RepairBuilderContextSchema ctx"
| "callSchema (Build s key t iteration k base ws gs ctx) \<longleftrightarrow>
     RepairScopeSchema s \<and> OperationKeySchema key \<and> idSchema ''task'' t \<and>
     1 \<le> iteration \<and> iteration \<le> DETERMINISTIC_REPAIR_BUDGET \<and> (k = Product_code \<or> k = Test_code) \<and>
     CommitShaSchema base \<and> (case ws of None \<Rightarrow> True | Some w \<Rightarrow> sized 1 512 w) \<and> gatesOk gs \<and>
     RepairBuilderContextSchema ctx"
| "callSchema (Verify_commit s key r parent branch) \<longleftrightarrow>
     RepairScopeSchema s \<and> OperationKeySchema key \<and> RepairCommitReceiptSchema r \<and> CommitShaSchema parent \<and>
     sized 1 255 branch"
| "callSchema (Check_targeted s key t iteration commit k criterion files) \<longleftrightarrow>
     RepairScopeSchema s \<and> OperationKeySchema key \<and> idSchema ''task'' t \<and>
     1 \<le> iteration \<and> iteration \<le> DETERMINISTIC_REPAIR_BUDGET \<and> CommitShaSchema commit \<and>
     (k = Product_code \<or> k = Test_code) \<and> RepairCriterionSchema criterion \<and> RepairRelatedFilesSchema files"
| "callSchema (Check_affected s key t kind attempt commit gs p) \<longleftrightarrow>
     RepairScopeSchema s \<and> OperationKeySchema key \<and> idSchema ''task'' t \<and>
     1 \<le> attempt \<and> attempt \<le> TRANSIENT_RETRY_BUDGET \<and> CommitShaSchema commit \<and> gatesOk gs"
| "callSchema (Succeeded s key t st k iterations retries commits evidence) \<longleftrightarrow>
     RepairScopeSchema s \<and> OperationKeySchema key \<and> idSchema ''task'' t \<and>
     iterations \<le> DETERMINISTIC_REPAIR_BUDGET \<and> retries \<le> TRANSIENT_RETRY_BUDGET \<and>
     list_all CommitShaSchema commits \<and> length commits \<le> DETERMINISTIC_REPAIR_BUDGET \<and> CollectedEvidenceIdsSchema evidence"
| "callSchema (Escalated s key t k iterations retries blocker evidence) \<longleftrightarrow>
     RepairScopeSchema s \<and> OperationKeySchema key \<and> idSchema ''task'' t \<and>
     iterations \<le> DETERMINISTIC_REPAIR_BUDGET \<and> retries \<le> TRANSIENT_RETRY_BUDGET \<and>
     sized 1 2000 blocker \<and> CollectedEvidenceIdsSchema evidence"

definition callR :: "repair_ports \<Rightarrow> repair_call \<Rightarrow> js_value repair" where
  "callR = parsedCallR callSchema Invalid_call Port_rejected"

text \<open>A call whose reply is parsed: \<open>Schema.parse(await port(ArgumentSchema.parse(...)))\<close>.\<close>

definition askR :: "repair_ports \<Rightarrow> repair_call \<Rightarrow> (js_value \<Rightarrow> 'a option) \<Rightarrow> 'a repair" where
  "askR env c parse = bindR (callR env c) (\<lambda>raw. expectR Invalid_response (parse raw))"

section \<open>Replies\<close>

definition asTaskCreated :: "js_value \<Rightarrow> string option" where
  "asTaskCreated v =
     (case strictObject [''repairTaskId''] v of
        None \<Rightarrow> None
      | Some f \<Rightarrow> (case asString (f ''repairTaskId'') of
            None \<Rightarrow> None | Some t \<Rightarrow> if idSchema ''task'' t then Some t else None))"

definition asReceipt :: "js_value \<Rightarrow> commit_receipt option" where
  "asReceipt v =
     (case strictObject [''commitSha'', ''parentCommitSha'', ''repairTaskId'', ''workspaceId'', ''branchName''] v of
        None \<Rightarrow> None
      | Some f \<Rightarrow>
          (case (asString (f ''commitSha''), asString (f ''parentCommitSha''), asString (f ''repairTaskId''),
                 asString (f ''workspaceId''), asString (f ''branchName'')) of
             (Some c, Some p, Some t, Some w, Some b) \<Rightarrow>
               (let r = \<lparr>commitSha = c, parentCommitSha = p, r_repairTaskId = t, workspaceId = w, branchName = b\<rparr>
                in if RepairCommitReceiptSchema r then Some r else None)
           | _ \<Rightarrow> None))"

definition asBuilt :: "js_value \<Rightarrow> commit_receipt option" where
  "asBuilt v = (case strictObject [''receipt''] v of None \<Rightarrow> None | Some f \<Rightarrow> asReceipt (f ''receipt''))"

fun asCheckStatus :: "js_value \<Rightarrow> check_status option" where
  "asCheckStatus (JString s) =
     (if s = ''passed'' then Some Check_passed
      else if s = ''failed'' then Some Check_failed
      else if s = ''waived'' then Some Check_waived
      else None)"
| "asCheckStatus _ = None"

definition asCheck :: "js_value \<Rightarrow> check_result option" where
  "asCheck v =
     (case strictObject [''status'', ''evidenceArtifactIds'', ''output''] v of
        None \<Rightarrow> None
      | Some f \<Rightarrow>
          (case (asCheckStatus (f ''status''), asArray asString (f ''evidenceArtifactIds''), asString (f ''output'')) of
             (Some st, Some es, Some out) \<Rightarrow>
               if EvidenceIdsSchema es \<and> sized 0 1000000 out
               then Some \<lparr>k_status = st, k_evidence = es, k_output = out\<rparr> else None
           | _ \<Rightarrow> None))"

definition asVerified :: "js_value \<Rightarrow> unit option" where
  "asVerified v =
     (case strictObject [''verified''] v of
        None \<Rightarrow> None
      | Some f \<Rightarrow> if f ''verified'' = JBool True then Some () else None)"

definition isPassing :: "check_result \<Rightarrow> bool" where
  "isPassing k \<longleftrightarrow> k_status k = Check_passed"

section \<open>Outcomes\<close>

definition uniqueEvidence :: "string list \<Rightarrow> string list" where
  "uniqueEvidence xs = uniq xs"

definition operationKey :: "(string \<Rightarrow> string) \<Rightarrow> string \<Rightarrow> string \<Rightarrow> string" where
  "operationKey sha rootKey stage = ''repair:'' @ sha (rootKey @ [CHR 0x00] @ stage)"

definition resultFrom ::
    "classification_result \<Rightarrow> loop_status \<Rightarrow> nat \<Rightarrow> nat \<Rightarrow> string list \<Rightarrow> string list \<Rightarrow> repair_loop_result repair" where
  "resultFrom c st iterations retries commits evidence =
     (let r = \<lparr>l_status = st, l_classification = classification c, classificationReason = c_reason c,
            repairIterations = iterations, transientRetries = retries, commitShas = commits,
            l_evidence = uniqueEvidence evidence\<rparr>
      in if reason_ok (classificationReason r) \<and> iterations \<le> DETERMINISTIC_REPAIR_BUDGET \<and>
            retries \<le> TRANSIENT_RETRY_BUDGET \<and> list_all CommitShaSchema commits \<and>
            length commits \<le> DETERMINISTIC_REPAIR_BUDGET \<and> CollectedEvidenceIdsSchema (l_evidence r)
         then pureR r else throwR Invalid_result)"

definition escalate ::
    "(string \<Rightarrow> string) \<Rightarrow> repair_ports \<Rightarrow> repair_loop_input \<Rightarrow> string \<Rightarrow> classification_result \<Rightarrow>
     nat \<Rightarrow> nat \<Rightarrow> string list \<Rightarrow> string list \<Rightarrow> string \<Rightarrow> repair_loop_result repair" where
  "escalate sha env i t c iterations retries commits evidence blocker =
     (let evidence' = uniqueEvidence evidence in
      bindR (callR env (Escalated (i_scope i) (operationKey sha (idempotencyKey i) ''outcome:escalated'') t
               (classification c) iterations retries blocker evidence')) (\<lambda>_.
      resultFrom c Loop_escalated iterations retries commits evidence'))"

definition succeed ::
    "(string \<Rightarrow> string) \<Rightarrow> repair_ports \<Rightarrow> repair_loop_input \<Rightarrow> string \<Rightarrow> classification_result \<Rightarrow>
     success_status \<Rightarrow> nat \<Rightarrow> nat \<Rightarrow> string list \<Rightarrow> string list \<Rightarrow> repair_loop_result repair" where
  "succeed sha env i t c st iterations retries commits evidence =
     (let evidence' = uniqueEvidence evidence;
          stage = (case st of Repaired \<Rightarrow> ''outcome:repaired'' | Recovered \<Rightarrow> ''outcome:recovered'')
      in bindR (callR env (Succeeded (i_scope i) (operationKey sha (idempotencyKey i) stage) t st
               (classification c) iterations retries commits evidence')) (\<lambda>_.
      resultFrom c (case st of Repaired \<Rightarrow> Loop_repaired | Recovered \<Rightarrow> Loop_recovered) iterations retries commits evidence'))"

definition numbered :: "string \<Rightarrow> nat \<Rightarrow> string" where
  "numbered stage n = stage @ [char_of (48 + n)]"

section \<open>The loops\<close>

definition checkAffected ::
    "(string \<Rightarrow> string) \<Rightarrow> repair_ports \<Rightarrow> repair_loop_input \<Rightarrow> string \<Rightarrow> check_kind \<Rightarrow> nat \<Rightarrow> string \<Rightarrow> check_result repair" where
  "checkAffected sha env i t kind n commit =
     askR env (Check_affected (i_scope i)
       (operationKey sha (idempotencyKey i)
          (numbered (case kind of Transient_retry \<Rightarrow> ''affected:transient:'' | Repair_iteration \<Rightarrow> ''affected:repair:'') n))
       t kind n commit (affectedGateIds i) (protectedFailure (failure i))) asCheck"

fun transientLoop ::
    "(string \<Rightarrow> string) \<Rightarrow> repair_ports \<Rightarrow> repair_loop_input \<Rightarrow> string \<Rightarrow> classification_result \<Rightarrow>
     nat \<Rightarrow> nat \<Rightarrow> string list \<Rightarrow> repair_loop_result repair" where
  "transientLoop sha env i t c 0 attempt evidence =
     escalate sha env i t c 0 TRANSIENT_RETRY_BUDGET [] evidence ''Failure remained after 3 transient retries.''"
| "transientLoop sha env i t c (Suc left) attempt evidence =
     bindR (checkAffected sha env i t Transient_retry attempt (failingCommitSha i)) (\<lambda>check.
       let evidence' = evidence @ k_evidence check in
       if isPassing check then succeed sha env i t c Recovered 0 attempt [] evidence'
       else transientLoop sha env i t c left (attempt + 1) evidence')"

text \<open>One iteration up to its checks: build, insist on a new commit on top of the base, verify it, check it.\<close>

definition attemptRepair ::
    "(string \<Rightarrow> string) \<Rightarrow> repair_ports \<Rightarrow> repair_loop_input \<Rightarrow> string \<Rightarrow> failure_classification \<Rightarrow>
     nat \<Rightarrow> string \<Rightarrow> string option \<Rightarrow> string list \<Rightarrow> (commit_receipt \<times> check_result \<times> check_result) repair" where
  "attemptRepair sha env i t k iteration base ws commits =
     bindR (askR env (Build (i_scope i) (operationKey sha (idempotencyKey i) (numbered ''builder:'' iteration)) t iteration
              k base ws (affectedGateIds i) (builderContext i)) asBuilt) (\<lambda>receipt.
     let branch = ''task/'' @ t in
     if commitSha receipt = base \<or> commitSha receipt \<in> set commits \<or> parentCommitSha receipt \<noteq> base \<or>
        r_repairTaskId receipt \<noteq> t \<or> branchName receipt \<noteq> branch
     then throwR New_commit_required
     else
     bindR (askR env (Verify_commit (i_scope i)
              (operationKey sha (idempotencyKey i) (numbered ''commit:verify:'' iteration)) receipt base branch) asVerified) (\<lambda>_.
     bindR (askR env (Check_targeted (i_scope i)
              (operationKey sha (idempotencyKey i) (numbered ''targeted:'' iteration)) t iteration (commitSha receipt)
              k (f_criterion (failure i)) (relatedFiles (failure i))) asCheck) (\<lambda>targeted.
     bindR (checkAffected sha env i t Repair_iteration iteration (commitSha receipt)) (\<lambda>affected.
     pureR (receipt, targeted, affected)))))"

fun repairIteration ::
    "(string \<Rightarrow> string) \<Rightarrow> repair_ports \<Rightarrow> repair_loop_input \<Rightarrow> string \<Rightarrow> classification_result \<Rightarrow>
     nat \<Rightarrow> nat \<Rightarrow> string \<Rightarrow> string option \<Rightarrow> string list \<Rightarrow> string list \<Rightarrow> repair_loop_result repair" where
  "repairIteration sha env i t c 0 iteration base ws commits evidence =
     escalate sha env i t c DETERMINISTIC_REPAIR_BUDGET 0 commits evidence ''Failure remained after 2 repair iterations.''"
| "repairIteration sha env i t c (Suc left) iteration base ws commits evidence =
     bindR (attemptRepair sha env i t (classification c) iteration base ws commits) (\<lambda>(receipt, targeted, affected).
     let commits' = commits @ [commitSha receipt];
         evidence' = evidence @ k_evidence targeted @ k_evidence affected
     in
     if isPassing targeted \<and> isPassing affected then succeed sha env i t c Repaired iteration 0 commits' evidence'
     else repairIteration sha env i t c left (iteration + 1) (commitSha receipt) (Some (workspaceId receipt)) commits' evidence')"

text \<open>
  The classifier is the port call \<open>Classify\<close>; its rejection is caught, so the history goes on
  with the reply \<open>None\<close>.
\<close>

definition classifyR :: "repair_ports \<Rightarrow> repair_failure \<Rightarrow> classification_scope \<Rightarrow> classification_result repair" where
  "classifyR env f scope h =
     (let answer = (\<lambda>q s. if callSchema (Classify q s) then env h (Classify q s) else None);
          h' = (case RepairFailureSchema_parse f of
                  Inl _ \<Rightarrow> h
                | Inr g \<Rightarrow>
                    if FailureClassificationScopeSchema scope \<and> consultsModel g \<and> callSchema (Classify (modelRequest g) scope)
                    then h @ [(Classify (modelRequest g) scope, env h (Classify (modelRequest g) scope))] else h)
      in case classifyFailure answer f scope of
           Inl e \<Rightarrow> (Inl (Classification_threw e), h')
         | Inr c \<Rightarrow> (Inr c, h'))"

definition classificationScope :: "repair_scope \<Rightarrow> classification_scope" where
  "classificationScope s = \<lparr>organizationId = rs_organizationId s, projectId = rs_projectId s,
     runId = rs_runId s, taskId = rs_taskId s\<rparr>"

definition runRepairLoop ::
    "(string \<Rightarrow> string) \<Rightarrow> repair_ports \<Rightarrow> repair_loop_input \<Rightarrow> repair_loop_result repair" where
  "runRepairLoop sha env inputValue =
     (if \<not> RepairLoopExecutionInputSchema inputValue then throwR Invalid_loop_input
      else
        let i = trimLoopInput inputValue in
        bindR (classifyR env (failure i) (classificationScope (i_scope i))) (\<lambda>c.
        bindR (askR env (Create_task (i_scope i) (operationKey sha (idempotencyKey i) ''task:create'')
                 (failingCommitSha i) (classification c) (protectedFailure (failure i)) (builderContext i)) asTaskCreated) (\<lambda>t.
        let evidence = f_evidence (failure i) in
        if classification c = Infrastructure \<or> classification c = Flaky_dependency
        then transientLoop sha env i t c TRANSIENT_RETRY_BUDGET 1 evidence
        else if classification c = Environment
        then escalate sha env i t c 0 0 [] evidence
          ''Environment failure requires human correction before verification can continue.''
        else repairIteration sha env i t c DETERMINISTIC_REPAIR_BUDGET 1 (failingCommitSha i) None [] evidence)))"

section \<open>The protocol\<close>

text \<open>
  An abstract specification of the calls: a machine that reads the history and knows which
  call may come next.  \<open>Retrying k n b\<close> has checked the failing commit \<open>n\<close> times, \<open>b\<close> saying
  whether the last check passed; \<open>Checked k cs b\<close> has built, verified and checked the commits
  \<open>cs\<close>; \<open>Stuck\<close> has met a rejected call or an unusable reply and allows nothing more.
\<close>

datatype phase =
    Idle | Asked | Halted
  | Retrying failure_classification nat bool
  | Built failure_classification "string list" commit_receipt
  | Verified_commit failure_classification "string list"
  | Targeted failure_classification "string list" bool
  | Checked failure_classification "string list" bool
  | Closed
  | Stuck

definition transient :: "failure_classification \<Rightarrow> bool" where
  "transient k \<longleftrightarrow> k = Infrastructure \<or> k = Flaky_dependency"

definition opened :: "failure_classification \<Rightarrow> phase" where
  "opened k = (if transient k then Retrying k 0 False else if k = Environment then Halted else Checked k [] False)"

definition baseOf :: "repair_loop_input \<Rightarrow> string list \<Rightarrow> string" where
  "baseOf i cs = (if cs = [] then failingCommitSha i else last cs)"

definition onReply :: "(js_value \<Rightarrow> 'a option) \<Rightarrow> js_value option \<Rightarrow> ('a \<Rightarrow> phase) \<Rightarrow> phase" where
  "onReply parse reply f = (case Option.bind reply parse of None \<Rightarrow> Stuck | Some x \<Rightarrow> f x)"

definition only :: "bool \<Rightarrow> phase \<Rightarrow> phase option" where
  "only b ph = (if b then Some ph else None)"

definition advance :: "repair_loop_input \<Rightarrow> phase \<Rightarrow> repair_entry \<Rightarrow> phase option" where
  "advance i ph e =
     (let reply = snd e in
      case fst e of
        Classify q s \<Rightarrow> only (ph = Idle) Asked
      | Create_task s key commit k p ctx \<Rightarrow>
          only ((ph = Idle \<and> transient k \<or> ph = Asked \<and> \<not> transient k) \<and> commit = failingCommitSha i)
            (onReply asTaskCreated reply (\<lambda>_. opened k))
      | Build s key t n k base ws gs ctx \<Rightarrow>
          (case ph of
             Checked k' cs b \<Rightarrow>
               only (\<not> b \<and> k' = k \<and> length cs < DETERMINISTIC_REPAIR_BUDGET \<and> n = length cs + 1 \<and> base = baseOf i cs)
                 (onReply asBuilt reply (Built k cs))
           | _ \<Rightarrow> None)
      | Verify_commit s key r parent branch \<Rightarrow>
          (case ph of
             Built k cs r' \<Rightarrow>
               only (r' = r \<and> parent = baseOf i cs \<and> parentCommitSha r = parent \<and> commitSha r \<noteq> parent \<and> commitSha r \<notin> set cs)
                 (onReply asVerified reply (\<lambda>_. Verified_commit k (cs @ [commitSha r])))
           | _ \<Rightarrow> None)
      | Check_targeted s key t n commit k criterion files \<Rightarrow>
          (case ph of
             Verified_commit k' cs \<Rightarrow>
               only (k' = k \<and> n = length cs \<and> commit = last cs) (onReply asCheck reply (\<lambda>x. Targeted k cs (isPassing x)))
           | _ \<Rightarrow> None)
      | Check_affected s key t kind n commit gs p \<Rightarrow>
          (case ph of
             Retrying k m b \<Rightarrow>
               only (kind = Transient_retry \<and> \<not> b \<and> m < TRANSIENT_RETRY_BUDGET \<and> n = m + 1 \<and>
                     commit = failingCommitSha i \<and> gs = affectedGateIds i)
                 (onReply asCheck reply (\<lambda>x. Retrying k n (isPassing x)))
           | Targeted k cs b \<Rightarrow>
               only (kind = Repair_iteration \<and> n = length cs \<and> commit = last cs \<and> gs = affectedGateIds i)
                 (onReply asCheck reply (\<lambda>x. Checked k cs (b \<and> isPassing x)))
           | _ \<Rightarrow> None)
      | Succeeded s key t st k iterations retries commits evidence \<Rightarrow>
          (case ph of
             Retrying k' m b \<Rightarrow>
               only (b \<and> st = Recovered \<and> k' = k \<and> iterations = 0 \<and> retries = m \<and> commits = [])
                 (onReply Some reply (\<lambda>_. Closed))
           | Checked k' cs b \<Rightarrow>
               only (b \<and> st = Repaired \<and> k' = k \<and> iterations = length cs \<and> retries = 0 \<and> commits = cs)
                 (onReply Some reply (\<lambda>_. Closed))
           | _ \<Rightarrow> None)
      | Escalated s key t k iterations retries blocker evidence \<Rightarrow>
          (case ph of
             Halted \<Rightarrow> only (k = Environment \<and> iterations = 0 \<and> retries = 0) (onReply Some reply (\<lambda>_. Closed))
           | Retrying k' m b \<Rightarrow>
               only (\<not> b \<and> k' = k \<and> m = TRANSIENT_RETRY_BUDGET \<and> iterations = 0 \<and> retries = m)
                 (onReply Some reply (\<lambda>_. Closed))
           | Checked k' cs b \<Rightarrow>
               only (\<not> b \<and> k' = k \<and> length cs = DETERMINISTIC_REPAIR_BUDGET \<and> iterations = length cs \<and> retries = 0)
                 (onReply Some reply (\<lambda>_. Closed))
           | _ \<Rightarrow> None))"

definition phase_of :: "repair_loop_input \<Rightarrow> repair_entry list \<Rightarrow> phase option" where
  "phase_of i h = fold (\<lambda>e ph. Option.bind ph (\<lambda>p. advance i p e)) h (Some Idle)"

lemma phase_of_Nil [simp]: "phase_of i [] = Some Idle"
  by (simp add: phase_of_def)

lemma phase_of_snoc: "phase_of i (h @ [e]) = Option.bind (phase_of i h) (\<lambda>p. advance i p e)"
  by (simp add: phase_of_def)

section \<open>The loop follows the protocol\<close>

definition inPhase :: "repair_loop_input \<Rightarrow> phase \<Rightarrow> repair_entry list \<Rightarrow> bool" where
  "inPhase i ph h \<longleftrightarrow> phase_of i h = Some ph"

definition live :: "repair_loop_input \<Rightarrow> repair_entry list \<Rightarrow> bool" where
  "live i h \<longleftrightarrow> phase_of i h \<noteq> None"

text \<open>The outcome a call reports, and that it is the result of the loop.\<close>

fun reports :: "repair_call \<Rightarrow> repair_loop_result \<Rightarrow> bool" where
  "reports (Succeeded s key t st k iterations retries commits evidence) r \<longleftrightarrow>
     l_status r = (case st of Repaired \<Rightarrow> Loop_repaired | Recovered \<Rightarrow> Loop_recovered) \<and> l_classification r = k \<and>
     repairIterations r = iterations \<and> transientRetries r = retries \<and> commitShas r = commits \<and> l_evidence r = evidence"
| "reports (Escalated s key t k iterations retries blocker evidence) r \<longleftrightarrow>
     l_status r = Loop_escalated \<and> l_classification r = k \<and>
     repairIterations r = iterations \<and> transientRetries r = retries \<and> l_evidence r = evidence"
| "reports _ r \<longleftrightarrow> False"

definition finished :: "repair_loop_input \<Rightarrow> repair_loop_result \<Rightarrow> repair_entry list \<Rightarrow> bool" where
  "finished i r h \<longleftrightarrow> inPhase i Closed h \<and> h \<noteq> [] \<and> reports (fst (last h)) r"

lemma ask_at:
  assumes "\<And>reply. advance i ph (c, reply) = Some (onReply p reply g)"
  shows "triple (inPhase i ph) (askR env c p) (\<lambda>x. inPhase i (g x)) (\<lambda>_. live i)"
  unfolding triple_def askR_def bindR_def callR_def parsedCallR_def awaitR_def throwR_def expectR_def pureR_def inPhase_def live_def
  by (auto split: option.splits simp: phase_of_snoc assms onReply_def)

lemma outcome_at:
  assumes "\<And>reply. advance i ph (c, reply) = Some (onReply Some reply (\<lambda>_. Closed))"
  shows "triple (inPhase i ph) (callR env c) (\<lambda>_ h. inPhase i Closed h \<and> h \<noteq> [] \<and> fst (last h) = c) (\<lambda>_. live i)"
  unfolding triple_def callR_def parsedCallR_def awaitR_def throwR_def inPhase_def live_def
  by (auto split: option.splits simp: phase_of_snoc assms onReply_def)

lemma uniqueEvidence_idem [simp]: "uniqueEvidence (uniqueEvidence xs) = uniqueEvidence xs"
  by (simp add: uniqueEvidence_def)

lemma resultFrom_finished:
  assumes "\<And>r. l_status r = st \<Longrightarrow> l_classification r = classification c \<Longrightarrow> repairIterations r = n \<Longrightarrow>
      transientRetries r = m \<Longrightarrow> commitShas r = cs \<Longrightarrow> l_evidence r = uniqueEvidence ev \<Longrightarrow> reports call r"
  shows "triple (\<lambda>h. inPhase i Closed h \<and> h \<noteq> [] \<and> fst (last h) = call) (resultFrom c st n m cs ev) (finished i) (\<lambda>_. live i)"
proof -
  have "reports call \<lparr>l_status = st, l_classification = classification c, classificationReason = c_reason c,
      repairIterations = n, transientRetries = m, commitShas = cs, l_evidence = uniqueEvidence ev\<rparr>"
    by (rule assms) simp_all
  then show ?thesis unfolding resultFrom_def Let_def
    by (intro triple_if triple_pure triple_throw) (auto simp: finished_def live_def inPhase_def)
qed

lemma escalate_finished:
  assumes "\<And>s key t' blocker' ev' reply. advance i ph (Escalated s key t' (classification c) n m blocker' ev', reply) =
      Some (onReply Some reply (\<lambda>_. Closed))"
  shows "triple (inPhase i ph) (escalate sha env i t c n m cs ev blocker) (finished i) (\<lambda>_. live i)"
  unfolding escalate_def Let_def
  by (rule triple_bind, rule outcome_at, rule assms, rule resultFrom_finished) simp

lemma succeed_finished:
  assumes "\<And>s key t' ev' reply. advance i ph (Succeeded s key t' st (classification c) n m cs ev', reply) =
      Some (onReply Some reply (\<lambda>_. Closed))"
  shows "triple (inPhase i ph) (succeed sha env i t c st n m cs ev) (finished i) (\<lambda>_. live i)"
  unfolding succeed_def Let_def
  by (rule triple_bind, rule outcome_at, rule assms, rule resultFrom_finished) simp

lemma transientLoop_finished:
  "left + m = TRANSIENT_RETRY_BUDGET \<Longrightarrow>
   triple (inPhase i (Retrying (classification c) m False)) (transientLoop sha env i t c left (m + 1) ev) (finished i) (\<lambda>_. live i)"
proof (induction left arbitrary: m ev)
  case 0
  then show ?case unfolding transientLoop.simps
    by (intro escalate_finished) (simp add: advance_def only_def)
next
  case (Suc left)
  let ?k = "classification c"
  have check: "triple (inPhase i (Retrying ?k m False)) (checkAffected sha env i t Transient_retry (m + 1) (failingCommitSha i))
      (\<lambda>x. inPhase i (Retrying ?k (m + 1) (isPassing x))) (\<lambda>_. live i)"
    unfolding checkAffected_def using Suc.prems by (intro ask_at) (simp add: advance_def only_def)
  have next': "triple (inPhase i (Retrying ?k (m + 1) (isPassing x)))
      (if isPassing x then succeed sha env i t c Recovered 0 (m + 1) [] (ev @ k_evidence x)
       else transientLoop sha env i t c left (m + 1 + 1) (ev @ k_evidence x)) (finished i) (\<lambda>_. live i)" for x
  proof (cases "isPassing x")
    case True
    then show ?thesis using succeed_finished [of i "Retrying ?k (m + 1) True" Recovered c 0 "m + 1" "[]"]
      by (simp add: advance_def only_def)
  next
    case False
    then show ?thesis using Suc.IH [of "m + 1"] Suc.prems by simp
  qed
  show ?case unfolding transientLoop.simps Let_def by (rule triple_bind [OF check next'])
qed

lemma attemptRepair_checked:
  assumes "length commits < DETERMINISTIC_REPAIR_BUDGET" and "base = baseOf i commits"
  shows "triple (inPhase i (Checked k commits False)) (attemptRepair sha env i t k (length commits + 1) base ws commits)
    (\<lambda>(r, x, y). inPhase i (Checked k (commits @ [commitSha r]) (isPassing x \<and> isPassing y))) (\<lambda>_. live i)"
  unfolding attemptRepair_def Let_def
proof (rule triple_bind)
  let ?n = "length commits + 1"
  show "triple (inPhase i (Checked k commits False)) (askR env (Build (i_scope i) (operationKey sha (idempotencyKey i)
        (numbered ''builder:'' ?n)) t ?n k base ws (affectedGateIds i) (builderContext i)) asBuilt)
      (\<lambda>r. inPhase i (Built k commits r)) (\<lambda>_. live i)"
    using assms by (intro ask_at) (simp add: advance_def only_def)
  fix r :: commit_receipt
  let ?bad = "commitSha r = base \<or> commitSha r \<in> set commits \<or> parentCommitSha r \<noteq> base \<or>
    r_repairTaskId r \<noteq> t \<or> branchName r \<noteq> ''task/'' @ t"
  let ?cs = "commits @ [commitSha r]"
  have verify: "triple (inPhase i (Built k commits r)) (askR env (Verify_commit s key r base branch) asVerified)
      (\<lambda>_. inPhase i (Verified_commit k ?cs)) (\<lambda>_. live i)" if "\<not> ?bad" for s key branch
    using that assms(2) by (intro ask_at) (auto simp: advance_def only_def)
  have targeted: "triple (inPhase i (Verified_commit k ?cs)) (askR env (Check_targeted s key t ?n (commitSha r) k criterion files) asCheck)
      (\<lambda>x. inPhase i (Targeted k ?cs (isPassing x))) (\<lambda>_. live i)" for s key criterion files
    by (intro ask_at) (simp add: advance_def only_def)
  have affected: "triple (inPhase i (Targeted k ?cs b)) (checkAffected sha env i t Repair_iteration ?n (commitSha r))
      (\<lambda>x. inPhase i (Checked k ?cs (b \<and> isPassing x))) (\<lambda>_. live i)" for b
    unfolding checkAffected_def by (intro ask_at) (simp add: advance_def only_def)
  show "triple (inPhase i (Built k commits r)) (if ?bad then throwR New_commit_required
      else bindR (askR env (Verify_commit (i_scope i) (operationKey sha (idempotencyKey i) (numbered ''commit:verify:'' ?n))
             r base (''task/'' @ t)) asVerified) (\<lambda>_.
        bindR (askR env (Check_targeted (i_scope i) (operationKey sha (idempotencyKey i) (numbered ''targeted:'' ?n)) t ?n
             (commitSha r) k (f_criterion (failure i)) (relatedFiles (failure i))) asCheck) (\<lambda>targeted.
        bindR (checkAffected sha env i t Repair_iteration ?n (commitSha r)) (\<lambda>affected.
        pureR (r, targeted, affected)))))
      (\<lambda>(r, x, y). inPhase i (Checked k (commits @ [commitSha r]) (isPassing x \<and> isPassing y))) (\<lambda>_. live i)"
    by (intro triple_if triple_throw triple_bind [OF verify] triple_bind [OF targeted] triple_bind [OF affected] triple_pure)
      (auto simp: inPhase_def live_def)
qed

lemma repairIteration_finished:
  "left + length commits = DETERMINISTIC_REPAIR_BUDGET \<Longrightarrow> base = baseOf i commits \<Longrightarrow>
   triple (inPhase i (Checked (classification c) commits False))
     (repairIteration sha env i t c left (length commits + 1) base ws commits ev) (finished i) (\<lambda>_. live i)"
proof (induction left arbitrary: base ws commits ev)
  case 0
  then show ?case unfolding repairIteration.simps
    by (intro escalate_finished) (simp add: advance_def only_def)
next
  case (Suc left)
  let ?k = "classification c" and ?n = "length commits + 1"
  have again: "triple (inPhase i (Checked ?k (commits @ [commit]) b))
      (if b then succeed sha env i t c Repaired ?n 0 (commits @ [commit]) ev'
       else repairIteration sha env i t c left (?n + 1) commit ws' (commits @ [commit]) ev') (finished i) (\<lambda>_. live i)"
    for b commit ev' ws'
  proof (cases b)
    case True
    then show ?thesis using succeed_finished [of i "Checked ?k (commits @ [commit]) True" Repaired c ?n 0 "commits @ [commit]"]
      by (simp add: advance_def only_def)
  next
    case False
    then show ?thesis using Suc.IH [of "commits @ [commit]" commit ws' ev'] Suc.prems by (simp add: baseOf_def)
  qed
  have attempt: "triple (inPhase i (Checked ?k commits False)) (attemptRepair sha env i t ?k ?n base ws commits)
    (\<lambda>(r, x, y). inPhase i (Checked ?k (commits @ [commitSha r]) (isPassing x \<and> isPassing y))) (\<lambda>_. live i)"
    using Suc.prems by (intro attemptRepair_checked) auto
  show ?case unfolding repairIteration.simps Let_def
    by (rule triple_bind [OF attempt]) (use again in \<open>auto split: prod.splits\<close>)
qed

lemma scope_valid: "RepairScopeSchema s \<Longrightarrow> FailureClassificationScopeSchema (classificationScope s)"
  by (simp add: RepairScopeSchema_def FailureClassificationScopeSchema_def classificationScope_def)

lemma trimmed_failure: "RepairFailureSchema f \<Longrightarrow> RepairFailureSchema (f\<lparr>f_criterion := trimCriterion (f_criterion f)\<rparr>)"
  by (simp add: RepairFailureSchema_def RepairCriterionSchema_def trimCriterion_def)

lemma classify_call_valid: "RepairFailureSchema f \<Longrightarrow> callSchema (Classify (modelRequest f) scope)"
  by (simp add: RepairFailureSchema_def modelRequest_def)

lemma classifyR_cases:
  assumes f: "RepairFailureSchema f" and scope: "FailureClassificationScopeSchema scope"
  shows "\<exists>c. reason_ok (c_reason c) \<and>
    (\<not> consultsModel f \<and> transient (classification c) \<and> classifyR env f scope h = (Inr c, h) \<or>
     consultsModel f \<and> \<not> transient (classification c) \<and>
     (\<exists>q reply. classifyR env f scope h = (Inr c, h @ [(Classify q scope, reply)])))"
proof -
  let ?g = "f\<lparr>f_criterion := trimCriterion (f_criterion f)\<rparr>"
  let ?answer = "\<lambda>q s. if callSchema (Classify q s) then env h (Classify q s) else None"
  have parse: "RepairFailureSchema_parse f = Inr ?g" using f by (simp add: RepairFailureSchema_parse_def)
  have same: "consultsModel ?g = consultsModel f" by (simp add: consultsModel_def)
  obtain c where c: "classifyFailure ?answer f scope = Inr c" "reason_ok (c_reason c)"
    "transient (classification c) \<longleftrightarrow> \<not> consultsModel f"
  proof -
    have "\<exists>c. classifyFailure ?answer f scope = Inr c \<and> reason_ok (c_reason c) \<and> (transient (classification c) \<longleftrightarrow> \<not> consultsModel f)"
    proof (cases "consultsModel f")
      case True
      obtain c where "judgeResponse (?answer (modelRequest ?g) scope) = Inr c"
          "classification c \<notin> {Infrastructure, Flaky_dependency}" "reason_ok (c_reason c)"
        using judgeResponse_total by blast
      with True show ?thesis unfolding classify_cases [OF f scope] consultsModel_def transient_def by auto
    next
      case False
      then show ?thesis unfolding classify_cases [OF f scope] consultsModel_def transient_def using canned_reasons(4-6) by auto
    qed
    then show thesis using that by blast
  qed
  have eq: "classifyR env f scope h = (Inr c,
      if consultsModel f then h @ [(Classify (modelRequest ?g) scope, env h (Classify (modelRequest ?g) scope))] else h)"
    using c(1) classify_call_valid [OF trimmed_failure [OF f]] scope
    by (simp add: classifyR_def parse same Let_def del: callSchema.simps)
  show ?thesis
  proof (cases "consultsModel f")
    case True
    with c eq show ?thesis by auto
  next
    case False
    with c eq show ?thesis by auto
  qed
qed

lemma trimLoopInput_simps [simp]:
  "i_scope (trimLoopInput i) = i_scope i" "idempotencyKey (trimLoopInput i) = idempotencyKey i"
  "failingCommitSha (trimLoopInput i) = failingCommitSha i" "affectedGateIds (trimLoopInput i) = affectedGateIds i"
  "f_evidence (failure (trimLoopInput i)) = f_evidence (failure i)"
  "failure (trimLoopInput i) = (failure i)\<lparr>f_criterion := trimCriterion (f_criterion (failure i))\<rparr>"
  by (simp_all add: trimLoopInput_def)

lemma phase_of_trim: "phase_of (trimLoopInput i) h = phase_of i h"
proof -
  have base: "baseOf (trimLoopInput i) = baseOf i" by (rule ext) (simp add: baseOf_def)
  have "advance (trimLoopInput i) ph e = advance i ph e" for ph e
    by (cases e; cases "fst e"; cases ph) (simp_all add: advance_def base)
  then have "advance (trimLoopInput i) = advance i" by blast
  then show ?thesis by (simp add: phase_of_def)
qed

lemma runRepairLoop_triple:
  "triple (\<lambda>h. h = []) (runRepairLoop sha env v) (finished (trimLoopInput v)) (\<lambda>_. live (trimLoopInput v))"
proof (cases "RepairLoopExecutionInputSchema v")
  case False
  then show ?thesis by (simp add: runRepairLoop_def triple_def throwR_def live_def)
next
  case True
  define i where "i = trimLoopInput v"
  define Q :: "classification_result \<Rightarrow> repair_entry list \<Rightarrow> bool" where "Q = (\<lambda>c h. (transient (classification c) \<longrightarrow> inPhase i Idle h) \<and> (\<not> transient (classification c) \<longrightarrow> inPhase i Asked h))"
  have f: "RepairFailureSchema (failure i)" "FailureClassificationScopeSchema (classificationScope (i_scope i))"
    using True trimmed_failure scope_valid by (simp_all add: i_def RepairLoopExecutionInputSchema_def)
  have classify: "triple (\<lambda>h. h = []) (classifyR env (failure i) (classificationScope (i_scope i))) Q (\<lambda>_. live i)"
    unfolding triple_def
  proof (intro allI impI)
    fix h :: "repair_entry list" assume "h = []"
    with classifyR_cases [OF f, of env h] show "case classifyR env (failure i) (classificationScope (i_scope i)) h of
        (Inl e, h') \<Rightarrow> live i h' | (Inr x, h') \<Rightarrow> Q x h'"
      by (auto simp: Q_def inPhase_def phase_of_def advance_def only_def)
  qed
  have create: "triple (Q c) (askR env (Create_task s key (failingCommitSha i) (classification c) p ctx) asTaskCreated)
      (\<lambda>_. inPhase i (opened (classification c))) (\<lambda>_. live i)" for c s key p ctx
  proof (cases "transient (classification c)")
    case True
    have "triple (inPhase i Idle) (askR env (Create_task s key (failingCommitSha i) (classification c) p ctx) asTaskCreated)
        (\<lambda>_. inPhase i (opened (classification c))) (\<lambda>_. live i)"
      using True by (intro ask_at) (simp add: advance_def only_def)
    then show ?thesis by (rule triple_weaken) (use True in \<open>simp_all add: Q_def\<close>)
  next
    case False
    have "triple (inPhase i Asked) (askR env (Create_task s key (failingCommitSha i) (classification c) p ctx) asTaskCreated)
        (\<lambda>_. inPhase i (opened (classification c))) (\<lambda>_. live i)"
      using False by (intro ask_at) (simp add: advance_def only_def)
    then show ?thesis by (rule triple_weaken) (use False in \<open>simp_all add: Q_def\<close>)
  qed
  have rest: "triple (inPhase i (opened (classification c)))
      (if classification c = Infrastructure \<or> classification c = Flaky_dependency
       then transientLoop sha env i t c TRANSIENT_RETRY_BUDGET 1 ev
       else if classification c = Environment then escalate sha env i t c 0 0 [] ev blocker
       else repairIteration sha env i t c DETERMINISTIC_REPAIR_BUDGET 1 (failingCommitSha i) None [] ev)
      (finished i) (\<lambda>_. live i)" for c t ev blocker
  proof (intro triple_if)
    assume "classification c = Infrastructure \<or> classification c = Flaky_dependency"
    then show "triple (inPhase i (opened (classification c))) (transientLoop sha env i t c TRANSIENT_RETRY_BUDGET 1 ev)
        (finished i) (\<lambda>_. live i)"
      using transientLoop_finished [of TRANSIENT_RETRY_BUDGET 0 i c sha env t ev] by (simp add: opened_def transient_def)
  next
    assume "classification c = Environment"
    then show "triple (inPhase i (opened (classification c))) (escalate sha env i t c 0 0 [] ev blocker) (finished i) (\<lambda>_. live i)"
      by (intro escalate_finished) (simp add: opened_def transient_def advance_def only_def)
  next
    assume "\<not> (classification c = Infrastructure \<or> classification c = Flaky_dependency)" "classification c \<noteq> Environment"
    then show "triple (inPhase i (opened (classification c)))
        (repairIteration sha env i t c DETERMINISTIC_REPAIR_BUDGET 1 (failingCommitSha i) None [] ev) (finished i) (\<lambda>_. live i)"
      using repairIteration_finished [of DETERMINISTIC_REPAIR_BUDGET "[]" "failingCommitSha i" i c sha env t None ev]
      by (simp add: opened_def transient_def baseOf_def)
  qed
  show ?thesis unfolding runRepairLoop_def Let_def i_def [symmetric] using True
    by (simp only: not_True_eq_False if_False)
      (intro triple_bind [OF classify] triple_bind [OF create] rest)
qed

section \<open>What the protocol limits\<close>

fun isBuild :: "repair_call \<Rightarrow> bool" where
  "isBuild (Build s key t n k base ws gs ctx) = True"
| "isBuild _ = False"

fun isAffected :: "repair_call \<Rightarrow> bool" where
  "isAffected (Check_affected s key t kind n commit gs p) = True"
| "isAffected _ = False"

fun isOutcome :: "repair_call \<Rightarrow> bool" where
  "isOutcome (Succeeded s key t st k iterations retries commits evidence) = True"
| "isOutcome (Escalated s key t k iterations retries blocker evidence) = True"
| "isOutcome _ = False"

text \<open>The commits a history submits to the commit verifier, each with the parent it claims.\<close>

fun submitted :: "repair_call \<Rightarrow> (string \<times> string) list" where
  "submitted (Verify_commit s key r parent branch) = [(parent, commitSha r)]"
| "submitted _ = []"

definition submissions :: "repair_entry list \<Rightarrow> (string \<times> string) list" where
  "submissions h = concat (map (submitted \<circ> fst) h)"

definition calls :: "(repair_call \<Rightarrow> bool) \<Rightarrow> repair_entry list \<Rightarrow> nat" where
  "calls P h = length (filter (P \<circ> fst) h)"

text \<open>Each commit of a chain sits on the one before it, and none comes twice.\<close>

definition chain :: "string \<Rightarrow> (string \<times> string) list \<Rightarrow> bool" where
  "chain base ps \<longleftrightarrow> distinct (map snd ps) \<and> map fst ps = butlast (base # map snd ps)"

lemma chain_snoc:
  "chain base (ps @ [(p, c)]) \<longleftrightarrow> chain base ps \<and> c \<notin> set (map snd ps) \<and> p = last (base # map snd ps)"
proof -
  have "butlast (base # map snd ps @ [c]) = base # map snd ps" by (metis append_Cons butlast_snoc)
  moreover have "base # map snd ps = butlast (base # map snd ps) @ [last (base # map snd ps)]"
    by (simp del: butlast.simps last.simps)
  ultimately show ?thesis unfolding chain_def by auto
qed

lemma calls_simps [simp]:
  "calls P [] = 0" "calls P (h @ [e]) = calls P h + (if P (fst e) then 1 else 0)"
  by (simp_all add: calls_def)

lemma submissions_simps [simp]:
  "submissions [] = []" "submissions (h @ [e]) = submissions h @ submitted (fst e)"
  by (simp_all add: submissions_def)

text \<open>What a phase says of the calls made so far.\<close>

fun accounts :: "phase \<Rightarrow> nat \<Rightarrow> nat \<Rightarrow> nat \<Rightarrow> string list \<Rightarrow> bool" where
  "accounts (Retrying k n b) builds checks outcomes cs \<longleftrightarrow>
     builds = 0 \<and> checks = n \<and> n \<le> TRANSIENT_RETRY_BUDGET \<and> outcomes = 0 \<and> cs = []"
| "accounts (Built k cs' r) builds checks outcomes cs \<longleftrightarrow>
     builds = length cs + 1 \<and> builds \<le> DETERMINISTIC_REPAIR_BUDGET \<and> checks = length cs \<and> outcomes = 0 \<and> cs' = cs"
| "accounts (Verified_commit k cs') builds checks outcomes cs \<longleftrightarrow>
     builds = length cs \<and> builds \<le> DETERMINISTIC_REPAIR_BUDGET \<and> checks + 1 = length cs \<and> outcomes = 0 \<and> cs' = cs"
| "accounts (Targeted k cs' b) builds checks outcomes cs \<longleftrightarrow>
     builds = length cs \<and> builds \<le> DETERMINISTIC_REPAIR_BUDGET \<and> checks + 1 = length cs \<and> outcomes = 0 \<and> cs' = cs"
| "accounts (Checked k cs' b) builds checks outcomes cs \<longleftrightarrow>
     builds = length cs \<and> builds \<le> DETERMINISTIC_REPAIR_BUDGET \<and> checks = length cs \<and> outcomes = 0 \<and> cs' = cs"
| "accounts Closed builds checks outcomes cs \<longleftrightarrow>
     builds \<le> DETERMINISTIC_REPAIR_BUDGET \<and> checks \<le> TRANSIENT_RETRY_BUDGET \<and> outcomes = 1"
| "accounts Stuck builds checks outcomes cs \<longleftrightarrow>
     builds \<le> DETERMINISTIC_REPAIR_BUDGET \<and> checks \<le> TRANSIENT_RETRY_BUDGET \<and> outcomes \<le> 1"
| "accounts _ builds checks outcomes cs \<longleftrightarrow> builds = 0 \<and> checks = 0 \<and> outcomes = 0 \<and> cs = []"

abbreviation accounted :: "phase \<Rightarrow> repair_entry list \<Rightarrow> bool" where
  "accounted ph h \<equiv> accounts ph (calls isBuild h) (calls isAffected h) (calls isOutcome h) (map snd (submissions h))"

lemmas budgets = TRANSIENT_RETRY_BUDGET_def DETERMINISTIC_REPAIR_BUDGET_def

lemma advance_accounted:
  assumes "accounted ph h" and "advance i ph e = Some ph'"
  shows "accounted ph' (h @ [e])"
  using assms
  by (cases "fst e"; cases ph)
    (auto simp: advance_def only_def onReply_def opened_def budgets split: if_splits option.splits)

lemma advance_chain:
  assumes "accounted ph h" and "advance i ph e = Some ph'" and "chain (failingCommitSha i) (submissions h)"
  shows "chain (failingCommitSha i) (submissions (h @ [e]))"
  using assms
  by (cases "fst e"; cases ph)
    (auto simp: advance_def only_def chain_snoc baseOf_def split: if_splits)

lemma phase_of_accounted:
  "phase_of i h = Some ph \<Longrightarrow> accounted ph h \<and> chain (failingCommitSha i) (submissions h)"
proof (induction h arbitrary: ph rule: rev_induct)
  case Nil
  then show ?case by (auto simp: chain_def)
next
  case (snoc e h)
  then obtain q where q: "phase_of i h = Some q" "advance i q e = Some ph"
    by (auto simp: phase_of_snoc split: option.splits bind_splits)
  with snoc.IH [OF q(1)] show ?case using advance_accounted advance_chain by blast
qed

lemma accounted_limits:
  assumes "accounted ph h"
  shows "calls isBuild h \<le> 2 \<and> calls isAffected h \<le> 3 \<and> calls isOutcome h \<le> 1"
  using assms by (cases ph) (auto simp: budgets)

section \<open>The loop never fails on its own account\<close>

text \<open>
  With a valid input, what the loop throws was brought about by a port: it rejected, its reply
  does not parse, or the builder's receipt is not a new commit on the base.
\<close>

definition blamesPort :: "repair_error \<Rightarrow> repair_entry list \<Rightarrow> bool" where
  "blamesPort e h \<longleftrightarrow> e \<in> {Port_rejected, Invalid_response, New_commit_required}"

abbreviation yields :: "'a repair \<Rightarrow> ('a \<Rightarrow> bool) \<Rightarrow> bool" where
  "yields m Q \<equiv> triple (\<lambda>_. True) m (\<lambda>x _. Q x) blamesPort"

lemma yields_bind: "yields m R \<Longrightarrow> (\<And>x. R x \<Longrightarrow> yields (f x) Q) \<Longrightarrow> yields (bindR m f) Q"
  by (rule triple_bind, assumption) (auto simp: triple_def)

lemma yields_call: "callSchema c \<Longrightarrow> yields (callR env c) (\<lambda>_. True)"
  by (auto simp: triple_def callR_def parsedCallR_def awaitR_def throwR_def blamesPort_def split: option.splits)

lemma yields_ask:
  assumes "callSchema c" and "\<And>v x. p v = Some x \<Longrightarrow> Q x"
  shows "yields (askR env c p) Q"
  unfolding askR_def using assms(2)
  by (intro yields_bind [OF yields_call [OF assms(1)]])
    (auto simp: triple_def expectR_def throwR_def pureR_def blamesPort_def split: option.splits)

lemma asTaskCreated_valid: "asTaskCreated v = Some t \<Longrightarrow> idSchema ''task'' t"
  by (auto simp: asTaskCreated_def split: option.splits if_splits)

lemma asBuilt_valid: "asBuilt v = Some r \<Longrightarrow> RepairCommitReceiptSchema r"
  by (auto simp: asBuilt_def asReceipt_def Let_def split: option.splits if_splits)

lemma asCheck_valid: "asCheck v = Some k \<Longrightarrow> EvidenceIdsSchema (k_evidence k)"
  by (auto simp: asCheck_def split: option.splits if_splits)

text \<open>The evidence collected so far: \<open>n\<close> batches of fifty at most.\<close>

definition collected :: "nat \<Rightarrow> string list \<Rightarrow> bool" where
  "collected n xs \<longleftrightarrow> list_all RepairEvidenceArtifactIdSchema xs \<and> xs \<noteq> [] \<and> length xs \<le> 50 * n"

lemma collected_append: "collected n xs \<Longrightarrow> EvidenceIdsSchema ys \<Longrightarrow> collected (Suc n) (xs @ ys)"
  by (simp add: collected_def EvidenceIdsSchema_def)

lemma collected_ok: "collected n xs \<Longrightarrow> n \<le> 5 \<Longrightarrow> CollectedEvidenceIdsSchema (uniqueEvidence xs)"
  using length_uniq [of xs]
  by (auto simp: collected_def CollectedEvidenceIdsSchema_def uniqueEvidence_def list_all_iff Suc_le_eq)

definition prepared :: "(string \<Rightarrow> string) \<Rightarrow> repair_loop_input \<Rightarrow> bool" where
  "prepared sha i \<longleftrightarrow> (\<forall>s. length (sha s) = 64) \<and> RepairLoopExecutionInputSchema i"

lemma prepared_key [simp]: "prepared sha i \<Longrightarrow> OperationKeySchema (operationKey sha k st)"
  by (simp add: prepared_def OperationKeySchema_def operationKey_def sized_def)

lemma trimmed_context: "RepairBuilderContextSchema x \<Longrightarrow> RepairBuilderContextSchema (x\<lparr>b_criterion := trimCriterion (b_criterion x)\<rparr>)"
  by (simp add: RepairBuilderContextSchema_def RepairCriterionSchema_def trimCriterion_def)

lemma prepared_trim: "prepared sha i \<Longrightarrow> prepared sha (trimLoopInput i)"
proof -
  have "builderContext (trimLoopInput i) = (builderContext i)\<lparr>b_criterion := trimCriterion (b_criterion (builderContext i))\<rparr>"
    by (simp add: trimLoopInput_def)
  then show "prepared sha i \<Longrightarrow> prepared sha (trimLoopInput i)"
    by (simp add: prepared_def RepairLoopExecutionInputSchema_def trimmed_context trimmed_failure)
qed

lemma prepared_simps [simp]:
  assumes "prepared sha i"
  shows "RepairScopeSchema (i_scope i)" "CommitShaSchema (failingCommitSha i)" "gatesOk (affectedGateIds i)"
    "RepairBuilderContextSchema (builderContext i)" "RepairCriterionSchema (f_criterion (failure i))"
    "RepairRelatedFilesSchema (relatedFiles (failure i))" "RepairFailureSchema (failure i)"
  using assms by (simp_all add: prepared_def RepairLoopExecutionInputSchema_def RepairFailureSchema_def)

lemma resultFrom_yields:
  assumes "reason_ok (c_reason c)" "n \<le> DETERMINISTIC_REPAIR_BUDGET" "m \<le> TRANSIENT_RETRY_BUDGET"
    "list_all CommitShaSchema cs" "length cs \<le> DETERMINISTIC_REPAIR_BUDGET" "collected k ev" "k \<le> 5"
  shows "yields (resultFrom c st n m cs (uniqueEvidence ev)) (\<lambda>_. True)"
  using assms collected_ok [OF assms(6,7)] by (simp add: resultFrom_def triple_def pureR_def)

lemma escalate_yields:
  assumes "prepared sha i" "idSchema ''task'' t" "sized 1 2000 blocker"
    "reason_ok (c_reason c)" "n \<le> DETERMINISTIC_REPAIR_BUDGET" "m \<le> TRANSIENT_RETRY_BUDGET"
    "list_all CommitShaSchema cs" "length cs \<le> DETERMINISTIC_REPAIR_BUDGET" "collected k ev" "k \<le> 5"
  shows "yields (escalate sha env i t c n m cs ev blocker) (\<lambda>_. True)"
  unfolding escalate_def Let_def
  using assms collected_ok [OF assms(9,10)] by (intro yields_bind [OF yields_call] resultFrom_yields [of c]) auto

lemma succeed_yields:
  assumes "prepared sha i" "idSchema ''task'' t"
    "reason_ok (c_reason c)" "n \<le> DETERMINISTIC_REPAIR_BUDGET" "m \<le> TRANSIENT_RETRY_BUDGET"
    "list_all CommitShaSchema cs" "length cs \<le> DETERMINISTIC_REPAIR_BUDGET" "collected k ev" "k \<le> 5"
  shows "yields (succeed sha env i t c st n m cs ev) (\<lambda>_. True)"
  unfolding succeed_def Let_def
  using assms collected_ok [OF assms(8,9)] by (intro yields_bind [OF yields_call] resultFrom_yields [of c]) auto

lemma checkAffected_yields:
  assumes "prepared sha i" "idSchema ''task'' t" "1 \<le> n" "n \<le> TRANSIENT_RETRY_BUDGET" "CommitShaSchema commit"
  shows "yields (checkAffected sha env i t kind n commit) (\<lambda>x. EvidenceIdsSchema (k_evidence x))"
  unfolding checkAffected_def using assms by (intro yields_ask) (auto dest: asCheck_valid)

lemma transientLoop_yields:
  assumes "prepared sha i" "idSchema ''task'' t" "reason_ok (c_reason c)"
  shows "left + n = TRANSIENT_RETRY_BUDGET \<Longrightarrow> collected (Suc n) ev \<Longrightarrow>
    yields (transientLoop sha env i t c left (Suc n) ev) (\<lambda>_. True)"
proof (induction left arbitrary: n ev)
  case 0
  then show ?case unfolding transientLoop.simps using assms
    by (intro escalate_yields [where k = "Suc n"]) (auto simp: sized_def budgets)
next
  case (Suc left)
  have step: "yields (if isPassing x then succeed sha env i t c Recovered 0 (Suc n) [] (ev @ k_evidence x)
      else transientLoop sha env i t c left (Suc n + 1) (ev @ k_evidence x)) (\<lambda>_. True)"
    if "EvidenceIdsSchema (k_evidence x)" for x
    using Suc.IH [of "Suc n"] Suc.prems assms collected_append [OF Suc.prems(2) that]
    by (intro triple_if succeed_yields [where k = "Suc (Suc n)"]) (auto simp: budgets)
  have check: "yields (checkAffected sha env i t Transient_retry (Suc n) (failingCommitSha i)) (\<lambda>x. EvidenceIdsSchema (k_evidence x))"
    using assms Suc.prems by (intro checkAffected_yields) auto
  show ?case unfolding transientLoop.simps Let_def by (rule yields_bind [OF check step])
qed

lemma attemptRepair_yields:
  assumes "prepared sha i" "idSchema ''task'' t" "k = Product_code \<or> k = Test_code" "1 \<le> n" "n \<le> DETERMINISTIC_REPAIR_BUDGET"
    "CommitShaSchema base" "case ws of None \<Rightarrow> True | Some w \<Rightarrow> sized 1 512 w"
  shows "yields (attemptRepair sha env i t k n base ws commits)
    (\<lambda>(r, x, y). RepairCommitReceiptSchema r \<and> EvidenceIdsSchema (k_evidence x) \<and> EvidenceIdsSchema (k_evidence y))"
proof -
  have branch: "sized 1 255 (''task/'' @ t)" using assms(2) by (simp add: idSchema_def sized_def)
  have n: "n \<le> TRANSIENT_RETRY_BUDGET" using assms(5) by (simp add: budgets)
  show ?thesis unfolding attemptRepair_def Let_def
  proof (rule yields_bind [OF yields_ask [of _ asBuilt RepairCommitReceiptSchema]], goal_cases)
    case (3 r)
    then have sha: "CommitShaSchema (commitSha r)" by (simp add: RepairCommitReceiptSchema_def)
    show ?case
      by (intro triple_if triple_throw yields_bind [OF yields_ask [of _ asVerified "\<lambda>_. True"]]
          yields_bind [OF yields_ask [of _ asCheck "\<lambda>x. EvidenceIdsSchema (k_evidence x)"]]
          yields_bind [OF checkAffected_yields] triple_pure)
        (use assms branch n sha 3 in \<open>auto simp: blamesPort_def dest: asCheck_valid\<close>)
  qed (use assms in \<open>auto dest: asBuilt_valid\<close>)
qed

lemma repairIteration_yields:
  assumes "prepared sha i" "idSchema ''task'' t" "reason_ok (c_reason c)"
    "classification c = Product_code \<or> classification c = Test_code"
  shows "left + length commits = DETERMINISTIC_REPAIR_BUDGET \<Longrightarrow> CommitShaSchema base \<Longrightarrow> list_all CommitShaSchema commits \<Longrightarrow>
    (case ws of None \<Rightarrow> True | Some w \<Rightarrow> sized 1 512 w) \<Longrightarrow> collected (2 * length commits + 1) ev \<Longrightarrow>
    yields (repairIteration sha env i t c left (length commits + 1) base ws commits ev) (\<lambda>_. True)"
proof (induction left arbitrary: base ws commits ev)
  case 0
  then show ?case unfolding repairIteration.simps using assms
    by (intro escalate_yields [where k = "2 * length commits + 1"]) (auto simp: sized_def budgets)
next
  case (Suc left)
  let ?n = "length commits + 1"
  have step: "yields (if isPassing x \<and> isPassing y then succeed sha env i t c Repaired ?n 0 (commits @ [commitSha r]) (ev @ k_evidence x @ k_evidence y)
      else repairIteration sha env i t c left (?n + 1) (commitSha r) (Some (workspaceId r)) (commits @ [commitSha r])
        (ev @ k_evidence x @ k_evidence y)) (\<lambda>_. True)"
    if "RepairCommitReceiptSchema r" and ev: "EvidenceIdsSchema (k_evidence x)" "EvidenceIdsSchema (k_evidence y)" for r x y
  proof -
    have r: "CommitShaSchema (commitSha r)" "sized 1 512 (workspaceId r)"
      using that(1) by (simp_all add: RepairCommitReceiptSchema_def)
    have more: "collected (2 * length commits + 3) (ev @ k_evidence x @ k_evidence y)"
      using collected_append [OF collected_append [OF Suc.prems(5) ev(1)] ev(2)] by (simp add: numeral_3_eq_3)
    show ?thesis using Suc.IH [of "commits @ [commitSha r]" "commitSha r" "Some (workspaceId r)"] Suc.prems assms r more
      by (intro triple_if succeed_yields [where k = "2 * length commits + 3"]) (auto simp: budgets numeral_3_eq_3)
  qed
  have attempt: "yields (attemptRepair sha env i t (classification c) ?n base ws commits)
      (\<lambda>(r, x, y). RepairCommitReceiptSchema r \<and> EvidenceIdsSchema (k_evidence x) \<and> EvidenceIdsSchema (k_evidence y))"
    using assms Suc.prems by (intro attemptRepair_yields) auto
  show ?case unfolding repairIteration.simps Let_def
    by (rule yields_bind [OF attempt], clarify) (rule step)
qed

lemma runRepairLoop_yields:
  assumes "prepared sha v"
  shows "yields (runRepairLoop sha env v) (\<lambda>_. True)"
proof -
  define i where "i = trimLoopInput v"
  have i: "prepared sha i" using prepared_trim [OF assms] by (simp add: i_def)
  have valid: "FailureClassificationScopeSchema (classificationScope (i_scope i))" "RepairFailureSchema (failure i)"
    using i scope_valid by simp_all
  have classify: "yields (classifyR env (failure i) (classificationScope (i_scope i))) (\<lambda>c. reason_ok (c_reason c))"
    unfolding triple_def
  proof (intro allI impI)
    fix h
    show "case classifyR env (failure i) (classificationScope (i_scope i)) h of
        (Inl e, h') \<Rightarrow> blamesPort e h' | (Inr c, h') \<Rightarrow> reason_ok (c_reason c)"
      using classifyR_cases [OF valid(2,1), of env h] by auto
  qed
  have ev: "collected (Suc 0) (f_evidence (failure i))"
    using valid(2) by (auto simp: RepairFailureSchema_def collected_def)
  have code: "k = Product_code \<or> k = Test_code" if "k \<noteq> Environment" "k \<noteq> Infrastructure" "k \<noteq> Flaky_dependency" for k
    using that by (cases k) auto
  have rest: "yields (if classification c = Infrastructure \<or> classification c = Flaky_dependency
       then transientLoop sha env i t c TRANSIENT_RETRY_BUDGET 1 (f_evidence (failure i))
       else if classification c = Environment then escalate sha env i t c 0 0 [] (f_evidence (failure i))
          ''Environment failure requires human correction before verification can continue.''
       else repairIteration sha env i t c DETERMINISTIC_REPAIR_BUDGET 1 (failingCommitSha i) None [] (f_evidence (failure i)))
      (\<lambda>_. True)" if c: "reason_ok (c_reason c)" and t: "idSchema ''task'' t" for c t
    using transientLoop_yields [OF i t c, of TRANSIENT_RETRY_BUDGET 0 "f_evidence (failure i)" env]
      repairIteration_yields [OF i t c, of DETERMINISTIC_REPAIR_BUDGET "[]" "failingCommitSha i" None "f_evidence (failure i)" env]
      i t c ev
    by (intro triple_if escalate_yields [where k = "Suc 0"]) (use code [of "classification c"] in \<open>auto simp: sized_def budgets\<close>)
  show ?thesis unfolding runRepairLoop_def Let_def i_def [symmetric]
    using assms i by (intro triple_if yields_bind [OF classify] yields_bind [OF yields_ask [of _ asTaskCreated "idSchema ''task''"]] rest)
      (auto simp: prepared_def dest: asTaskCreated_valid)
qed

section \<open>Properties\<close>

text \<open>
  C16.  The repair loop refines its protocol: from an empty history every call it makes is one
  the protocol allows next, whatever the ports answer and also when it throws; and when it
  returns, the protocol is closed and the last call has reported exactly the result returned.
\<close>

theorem repair_loop_follows_protocol:
  assumes "runRepairLoop sha env v [] = (r, h)"
  shows "case r of
      Inl e \<Rightarrow> phase_of v h \<noteq> None
    | Inr res \<Rightarrow> phase_of v h = Some Closed \<and> h \<noteq> [] \<and> reports (fst (last h)) res"
  using tripleD [OF runRepairLoop_triple _ assms] unfolding finished_def inPhase_def live_def phase_of_trim
  by (simp split: sum.splits)

text \<open>
  C17.  Whatever the ports answer, one run of the repair loop asks for at most two builds and
  three checks of the affected gates, reports at most one outcome, and hands the commit verifier
  distinct commits that form a chain on top of the failing commit.
\<close>

theorem repair_loop_is_bounded:
  assumes "runRepairLoop sha env v [] = (r, h)"
  shows "calls isBuild h \<le> 2 \<and> calls isAffected h \<le> 3 \<and> calls isOutcome h \<le> 1 \<and>
    chain (failingCommitSha v) (submissions h)"
proof -
  obtain ph where "phase_of v h = Some ph"
    using tripleD [OF runRepairLoop_triple _ assms] unfolding finished_def inPhase_def live_def phase_of_trim
    by (auto split: sum.splits)
  then have "accounted ph h" and "chain (failingCommitSha v) (submissions h)" using phase_of_accounted by auto
  then show ?thesis using accounted_limits by simp
qed

text \<open>
  On a valid input the repair loop either returns a result or throws because of a port: a
  rejected call, a reply that does not parse, or a receipt that is not a new commit.  None of
  its own parses fails: the calls it makes are valid, the evidence it collects stays within the
  limit of the outcome and result schemas, and its keys within theirs.
\<close>

theorem repair_loop_blames_ports:
  assumes "\<And>s. length (sha s) = 64" and "RepairLoopExecutionInputSchema v"
  shows "case fst (runRepairLoop sha env v []) of
      Inl e \<Rightarrow> e = Port_rejected \<or> e = Invalid_response \<or> e = New_commit_required
    | Inr res \<Rightarrow> True"
proof -
  have "prepared sha v" using assms by (simp add: prepared_def)
  from tripleD [OF runRepairLoop_yields [OF this] TrueI surjective_pairing, of env "[]"]
  show ?thesis by (auto simp: blamesPort_def split: sum.splits)
qed

definition sample_loop_input :: repair_loop_input where
  "sample_loop_input = \<lparr>i_scope = \<lparr>rs_runId = ''run_01J8ME7YQZJ2V9Q0X3T5B6K7N9'', rs_phaseId = ''phase_01J8ME7YQZJ2V9Q0X3T5B6K7N9'',
       rs_taskId = ''task_01J8ME7YQZJ2V9Q0X3T5B6K7N9'', rs_organizationId = ''org_01J8ME7YQZJ2V9Q0X3T5B6K7N9'',
       rs_projectId = ''proj_01J8ME7YQZJ2V9Q0X3T5B6K7N9''\<rparr>,
     idempotencyKey = ''key'', failingCommitSha = replicate 40 CHR ''a'', affectedGateIds = [Unit_tests],
     failure = sample_failure ''sigkill'',
     builderContext = \<lparr>b_criterion = \<lparr>rc_id = ''A1'', rc_text = ''signs in''\<rparr>, b_gateId = Unit_tests, b_output = '''',
       b_evidence = [''e1''], b_relatedFiles = []\<rparr>\<rparr>"

text \<open>Ports whose task store answers and whose check passes.\<close>

definition sample_ports :: repair_ports where
  "sample_ports h c = Some (case c of
     Create_task s key commit k p ctx \<Rightarrow> JObject [(''repairTaskId'', JString ''task_01J8ME7YQZJ2V9Q0X3T5B6K7N9'')]
   | Check_affected s key t kind n commit gs p \<Rightarrow> JObject [(''status'', JString ''passed''),
       (''evidenceArtifactIds'', JArray [JString ''e2'']), (''output'', JString '''')]
   | _ \<Rightarrow> JUndefined)"

definition sample_sha :: "string \<Rightarrow> string" where
  "sample_sha s = replicate 64 CHR ''0''"

lemma sample_loop_input_valid: "RepairLoopExecutionInputSchema sample_loop_input"
  using sample_failure_valid [of "''sigkill''"]
  by (simp add: RepairLoopExecutionInputSchema_def sample_loop_input_def RepairScopeSchema_def idSchema_def is_ulid_char_def
      is_digit_def OperationKeySchema_def sized_def CommitShaSchema_def gatesOk_def RepairBuilderContextSchema_def
      RepairCriterionSchema_def trim_def is_space_def EvidenceIdsSchema_def RepairEvidenceArtifactIdSchema_def
      RepairRelatedFilesSchema_def sample_failure_def list_all_iff is_hex_def)

theorem repair_loop_blames_ports_witness:
  "case fst (runRepairLoop sample_sha sample_ports sample_loop_input []) of
     Inl e \<Rightarrow> e = Port_rejected \<or> e = Invalid_response \<or> e = New_commit_required | Inr res \<Rightarrow> True"
  by (rule repair_loop_blames_ports [OF _ sample_loop_input_valid]) (simp add: sample_sha_def)

theorem repair_loop_follows_protocol_witness:
  "\<exists>r h. runRepairLoop sample_sha sample_ports sample_loop_input [] = (r, h) \<and> phase_of sample_loop_input h \<noteq> None"
  using repair_loop_follows_protocol [where sha = sample_sha and env = sample_ports and v = sample_loop_input]
  by (cases "runRepairLoop sample_sha sample_ports sample_loop_input []") (fastforce split: sum.splits)

theorem repair_loop_is_bounded_witness:
  "\<exists>r h. runRepairLoop sample_sha sample_ports sample_loop_input [] = (r, h) \<and> calls isBuild h \<le> 2"
  using repair_loop_is_bounded [where sha = sample_sha and env = sample_ports and v = sample_loop_input]
  by (cases "runRepairLoop sample_sha sample_ports sample_loop_input []") auto

end
