(* ===== verification/Capacity.thy ===== *)
theory Capacity
  imports Identifiers "HOL-Library.List_Lexorder" "HOL-Library.Char_ord" "HOL-Library.Product_Lexorder"
begin

text \<open>
  The capacity repository of the sandbox service (\<open>services/sandbox-service/src/state/capacity.ts\<close>)
  on the table it keeps (\<open>sandboxCapacityAdmissions\<close> in \<open>packages/db/src/schema/execution.ts\<close>).
  The table is a list of rows; its primary key, unique index and check constraints are part of
  the model, and the foreign keys are the parameter \<open>refs\<close>.  An operation returns what it throws
  (the transaction is rolled back, the table unchanged) or its answer with the new table.  Times
  are milliseconds; \<open>new Date()\<close> is an argument.  The columns \<open>createdAt\<close> and \<open>updatedAt\<close>, which no
  operation reads, are left out.
\<close>

section \<open>Rows and inputs\<close>

datatype workspace_purpose = Purpose_builder | Purpose_verifier | Purpose_preview | Purpose_scan

datatype capacity_decision = Admitted | Queued

record slot_identity =
  workspaceId :: string
  organizationId :: string
  projectId :: string
  runId :: string
  taskId :: string
  purpose :: workspace_purpose

record admission_input = slot_identity +
  operationKey :: string

record claim_input = admission_input +
  c_requestedAt :: int
  budgetMs :: nat
  globalLimit :: nat
  organizationLimit :: nat

record admission = admission_input +
  decision :: capacity_decision
  queuePosition :: "nat option"
  requestedAt :: int
  deadlineAt :: "int option"
  active :: bool
  releasedAt :: "int option"
  leaseOwnerId :: "string option"
  leaseToken :: "string option"
  leaseExpiresAt :: "int option"

record termination_candidate = slot_identity +
  t_deadlineAt :: int

record expired_claim = termination_candidate +
  x_leaseToken :: string

record claim_expired_input =
  e_now :: int
  ownerId :: string
  leaseMs :: nat
  limit :: nat

type_synonym table = "admission list"
type_synonym refs = "string \<Rightarrow> string \<Rightarrow> string \<Rightarrow> bool"

datatype admission_decision = Is_admitted int | Is_replay int | Is_queued nat

datatype capacity_error =
    Invalid_input
  | Conflicting_identity
  | Invalid_row
  | Invalid_date
  | Unique_violation
  | Foreign_key_violation
  | Check_violation
  | Lease_mismatch

section \<open>Schemas\<close>

definition dateOk :: "int \<Rightarrow> bool" where
  "dateOk t \<longleftrightarrow> \<bar>t\<bar> \<le> 8640000000000000"

definition identityOk :: "'a slot_identity_scheme \<Rightarrow> bool" where
  "identityOk i \<longleftrightarrow>
     idSchema ''ws'' (workspaceId i) \<and> idSchema ''org'' (organizationId i) \<and> idSchema ''proj'' (projectId i) \<and>
     idSchema ''run'' (runId i) \<and> idSchema ''task'' (taskId i)"

definition GovernorAdmissionInputSchema :: "'a admission_input_scheme \<Rightarrow> bool" where
  "GovernorAdmissionInputSchema i \<longleftrightarrow> identityOk i \<and> opKeySchema (operationKey i)"

definition GovernorClaimInputSchema :: "claim_input \<Rightarrow> bool" where
  "GovernorClaimInputSchema i \<longleftrightarrow>
     GovernorAdmissionInputSchema i \<and> dateOk (c_requestedAt i) \<and> 0 < budgetMs i \<and> 0 < globalLimit i \<and>
     0 < organizationLimit i"

definition ClaimExpiredInputSchema :: "claim_expired_input \<Rightarrow> bool" where
  "ClaimExpiredInputSchema i \<longleftrightarrow> dateOk (e_now i) \<and> ownerId i \<noteq> '''' \<and> 0 < leaseMs i \<and> 0 < limit i"

definition fenceOk :: "string \<Rightarrow> string \<Rightarrow> bool" where
  "fenceOk ws token \<longleftrightarrow> idSchema ''ws'' ws \<and> token \<noteq> ''''"

section \<open>The table\<close>

text \<open>The check constraints on a row.\<close>

definition shapeCheck :: "admission \<Rightarrow> bool" where
  "shapeCheck r \<longleftrightarrow>
     (case decision r of
        Admitted \<Rightarrow> deadlineAt r \<noteq> None \<and> queuePosition r = None
      | Queued \<Rightarrow> deadlineAt r = None \<and> (\<exists>n\<in>set_option (queuePosition r). 0 < n) \<and> \<not> active r)"

definition leaseCheck :: "admission \<Rightarrow> bool" where
  "leaseCheck r \<longleftrightarrow>
     (leaseOwnerId r = None) = (leaseToken r = None) \<and> (leaseToken r = None) = (leaseExpiresAt r = None) \<and>
     (leaseToken r = None \<or> active r)"

definition insertRow :: "refs \<Rightarrow> table \<Rightarrow> admission \<Rightarrow> capacity_error + table" where
  "insertRow refs t x =
     (if list_ex (\<lambda>r. workspaceId r = workspaceId x \<or> operationKey r = operationKey x) t then Inl Unique_violation
      else if \<not> refs (workspaceId x) (projectId x) (organizationId x) then Inl Foreign_key_violation
      else if \<not> (shapeCheck x \<and> leaseCheck x) then Inl Check_violation
      else Inr (t @ [x]))"

text \<open>\<open>update ... set ... where ... returning\<close>: the updated rows and the new table.\<close>

definition updateRows ::
    "(admission \<Rightarrow> bool) \<Rightarrow> (admission \<Rightarrow> admission) \<Rightarrow> table \<Rightarrow> capacity_error + (admission list \<times> table)" where
  "updateRows p f t =
     (let rows = map f (filter p t)
      in if \<not> list_all (\<lambda>r. shapeCheck r \<and> leaseCheck r) rows then Inl Check_violation
         else Inr (rows, map (\<lambda>r. if p r then f r else r) t))"

definition activeRows :: "table \<Rightarrow> nat" where
  "activeRows t = length (filter active t)"

definition activeIn :: "string \<Rightarrow> table \<Rightarrow> nat" where
  "activeIn org t = length (filter (\<lambda>r. organizationId r = org \<and> active r) t)"

section \<open>Operations\<close>

definition sameIdentity :: "admission \<Rightarrow> claim_input \<Rightarrow> bool" where
  "sameIdentity row i \<longleftrightarrow>
     workspaceId row = workspaceId i \<and> organizationId row = organizationId i \<and> projectId row = projectId i \<and>
     runId row = runId i \<and> taskId row = taskId i \<and> purpose row = purpose i"

definition storedDecision :: "admission \<Rightarrow> capacity_error + admission_decision" where
  "storedDecision row =
     (case decision row of
        Queued \<Rightarrow> (case queuePosition row of
            Some n \<Rightarrow> if 0 < n then Inr (Is_queued n) else Inl Invalid_row
          | None \<Rightarrow> Inl Invalid_row)
      | Admitted \<Rightarrow> (case deadlineAt row of Some d \<Rightarrow> Inr (Is_replay d) | None \<Rightarrow> Inl Invalid_row))"

definition queuedRow :: "claim_input \<Rightarrow> nat \<Rightarrow> admission" where
  "queuedRow i n = \<lparr>workspaceId = workspaceId i, organizationId = organizationId i, projectId = projectId i,
     runId = runId i, taskId = taskId i, purpose = purpose i, operationKey = operationKey i,
     decision = Queued, queuePosition = Some n, requestedAt = c_requestedAt i, deadlineAt = None, active = False,
     releasedAt = None, leaseOwnerId = None, leaseToken = None, leaseExpiresAt = None\<rparr>"

definition admittedRow :: "claim_input \<Rightarrow> int \<Rightarrow> admission" where
  "admittedRow i d = \<lparr>workspaceId = workspaceId i, organizationId = organizationId i, projectId = projectId i,
     runId = runId i, taskId = taskId i, purpose = purpose i, operationKey = operationKey i,
     decision = Admitted, queuePosition = None, requestedAt = c_requestedAt i, deadlineAt = Some d, active = True,
     releasedAt = None, leaseOwnerId = None, leaseToken = None, leaseExpiresAt = None\<rparr>"

definition claim :: "refs \<Rightarrow> claim_input \<Rightarrow> table \<Rightarrow> capacity_error + (admission_decision \<times> table)" where
  "claim refs i t =
     (if \<not> GovernorClaimInputSchema i then Inl Invalid_input
      else case find (\<lambda>r. operationKey r = operationKey i) t of
        Some row \<Rightarrow>
          if \<not> sameIdentity row i then Inl Conflicting_identity
          else andThen (storedDecision row) (\<lambda>d. Inr (d, t))
      | None \<Rightarrow>
          let activeGlobal = activeRows t; activeOrganization = activeIn (organizationId i) t in
          if globalLimit i \<le> activeGlobal \<or> organizationLimit i \<le> activeOrganization then
            andThen (insertRow refs t (queuedRow i (activeOrganization + 1)))
              (\<lambda>t'. Inr (Is_queued (activeOrganization + 1), t'))
          else
            let d = c_requestedAt i + int (budgetMs i) in
            if \<not> dateOk d then Inl Invalid_date
            else andThen (insertRow refs t (admittedRow i d)) (\<lambda>t'. Inr (Is_admitted d, t')))"

definition unleased :: "admission \<Rightarrow> admission" where
  "unleased r = r\<lparr>leaseOwnerId := None, leaseToken := None, leaseExpiresAt := None\<rparr>"

definition released :: "int \<Rightarrow> admission \<Rightarrow> admission" where
  "released now r = (unleased r)\<lparr>active := False, releasedAt := Some now\<rparr>"

definition release :: "int \<Rightarrow> string \<Rightarrow> string \<Rightarrow> string \<Rightarrow> table \<Rightarrow> capacity_error + table" where
  "release now ws org key t =
     (if \<not> (idSchema ''ws'' ws \<and> idSchema ''org'' org \<and> opKeySchema key) then Inl Invalid_input
      else andThen (updateRows (\<lambda>r. workspaceId r = ws \<and> organizationId r = org \<and> active r) (released now) t)
        (\<lambda>(_, t'). Inr t'))"

definition terminationCandidate :: "admission \<Rightarrow> capacity_error + termination_candidate" where
  "terminationCandidate row =
     (case deadlineAt row of
        Some d \<Rightarrow>
          if identityOk row
          then Inr \<lparr>workspaceId = workspaceId row, organizationId = organizationId row, projectId = projectId row,
                 runId = runId row, taskId = taskId row, purpose = purpose row, t_deadlineAt = d\<rparr>
          else Inl Invalid_row
      | None \<Rightarrow> Inl Invalid_row)"

definition expiredClaim :: "admission \<Rightarrow> capacity_error + expired_claim" where
  "expiredClaim row =
     (case (deadlineAt row, leaseToken row) of
        (Some d, Some token) \<Rightarrow>
          if identityOk row \<and> token \<noteq> []
          then Inr \<lparr>workspaceId = workspaceId row, organizationId = organizationId row, projectId = projectId row,
                 runId = runId row, taskId = taskId row, purpose = purpose row, t_deadlineAt = d, x_leaseToken = token\<rparr>
          else Inl Invalid_row
      | _ \<Rightarrow> Inl Invalid_row)"

text \<open>The rows a sweep may lease; rows locked by another transaction are skipped.\<close>

definition expired :: "int \<Rightarrow> admission \<Rightarrow> bool" where
  "expired now r \<longleftrightarrow>
     active r \<and> (\<exists>d\<in>set_option (deadlineAt r). d \<le> now) \<and> (\<forall>e\<in>set_option (leaseExpiresAt r). e \<le> now)"

definition dueKey :: "admission \<Rightarrow> int \<times> string" where
  "dueKey r = ((case deadlineAt r of Some d \<Rightarrow> d | None \<Rightarrow> 0), workspaceId r)"

definition candidates :: "(string \<Rightarrow> bool) \<Rightarrow> int \<Rightarrow> nat \<Rightarrow> table \<Rightarrow> admission list" where
  "candidates locked now n t =
     take n (sort_key dueKey (filter (\<lambda>r. expired now r \<and> \<not> locked (workspaceId r)) t))"

definition leased :: "string \<Rightarrow> string \<Rightarrow> int \<Rightarrow> admission \<Rightarrow> admission" where
  "leased owner token expiry r = r\<lparr>leaseOwnerId := Some owner, leaseToken := Some token, leaseExpiresAt := Some expiry\<rparr>"

text \<open>The loop over the candidates; \<open>uuid\<close> gives the random part of the token for a workspace.\<close>

fun leaseAll ::
    "(string \<Rightarrow> string) \<Rightarrow> claim_expired_input \<Rightarrow> admission list \<Rightarrow> table \<Rightarrow> capacity_error + (expired_claim list \<times> table)" where
  "leaseAll uuid i [] t = Inr ([], t)"
| "leaseAll uuid i (c # cs) t =
     (let token = ownerId i @ '':'' @ uuid (workspaceId c); expiry = e_now i + int (leaseMs i) in
      if \<not> dateOk expiry then Inl Invalid_date
      else andThen (updateRows (\<lambda>r. workspaceId r = workspaceId c) (leased (ownerId i) token expiry) t) (\<lambda>(rows, t').
        andThen (mapThrow expiredClaim (take 1 rows)) (\<lambda>claims.
        andThen (leaseAll uuid i cs t') (\<lambda>(rest, t''). Inr (claims @ rest, t'')))))"

definition claimExpired ::
    "(string \<Rightarrow> bool) \<Rightarrow> (string \<Rightarrow> string) \<Rightarrow> claim_expired_input \<Rightarrow> table \<Rightarrow> capacity_error + (expired_claim list \<times> table)" where
  "claimExpired locked uuid i t =
     (if \<not> ClaimExpiredInputSchema i then Inl Invalid_input
      else leaseAll uuid i (candidates locked (e_now i) (limit i) t) t)"

definition holds :: "string \<Rightarrow> string \<Rightarrow> admission \<Rightarrow> bool" where
  "holds ws token r \<longleftrightarrow> workspaceId r = ws \<and> leaseToken r = Some token \<and> active r"

definition renewExpired :: "int \<Rightarrow> string \<Rightarrow> string \<Rightarrow> nat \<Rightarrow> table \<Rightarrow> capacity_error + (bool \<times> table)" where
  "renewExpired now ws token ms t =
     (if \<not> (fenceOk ws token \<and> 0 < ms) then Inl Invalid_input
      else if \<not> dateOk (now + int ms) then Inl Invalid_date
      else andThen (updateRows (holds ws token) (\<lambda>r. r\<lparr>leaseExpiresAt := Some (now + int ms)\<rparr>) t)
        (\<lambda>(rows, t'). Inr (length rows = 1, t')))"

text \<open>
  These two throw after their statement has run: the new table is kept also then.  They are
  single statements, not transactions.
\<close>

definition fenced ::
    "(admission \<Rightarrow> admission) \<Rightarrow> string \<Rightarrow> string \<Rightarrow> string \<Rightarrow> table \<Rightarrow> (capacity_error + unit) \<times> table" where
  "fenced f ws token key t =
     (if \<not> (fenceOk ws token \<and> opKeySchema key) then (Inl Invalid_input, t)
      else case updateRows (holds ws token) f t of
          Inl e \<Rightarrow> (Inl e, t)
        | Inr (rows, t') \<Rightarrow> (if length rows \<noteq> 1 then Inl Lease_mismatch else Inr (), t'))"

definition completeExpired :: "int \<Rightarrow> string \<Rightarrow> string \<Rightarrow> string \<Rightarrow> table \<Rightarrow> (capacity_error + unit) \<times> table" where
  "completeExpired now = fenced (released now)"

definition releaseExpired :: "string \<Rightarrow> string \<Rightarrow> string \<Rightarrow> table \<Rightarrow> (capacity_error + unit) \<times> table" where
  "releaseExpired = fenced unleased"

definition listOrganization :: "string \<Rightarrow> string \<Rightarrow> table \<Rightarrow> capacity_error + termination_candidate list" where
  "listOrganization org key t =
     (if \<not> (idSchema ''org'' org \<and> opKeySchema key) then Inl Invalid_input
      else mapThrow terminationCandidate
        (sort_key (\<lambda>r. (requestedAt r, workspaceId r)) (filter (\<lambda>r. organizationId r = org \<and> active r) t)))"

section \<open>The invariant of the table\<close>

definition rowOk :: "admission \<Rightarrow> bool" where
  "rowOk r \<longleftrightarrow> shapeCheck r \<and> leaseCheck r \<and> GovernorAdmissionInputSchema r"

definition tableOk :: "table \<Rightarrow> bool" where
  "tableOk t \<longleftrightarrow> distinct (map workspaceId t) \<and> distinct (map operationKey t) \<and> list_all rowOk t"

text \<open>What no operation changes of a row once it is stored.\<close>

definition fixedPart :: "admission \<Rightarrow> admission" where
  "fixedPart r = r\<lparr>active := False, releasedAt := None, leaseOwnerId := None, leaseToken := None, leaseExpiresAt := None\<rparr>"

text \<open>How a stored row may change: its fixed part stays, and a slot that is free stays free.\<close>

definition evolves :: "admission \<Rightarrow> admission \<Rightarrow> bool" where
  "evolves r r' \<longleftrightarrow> fixedPart r' = fixedPart r \<and> (active r' \<longrightarrow> active r) \<and> rowOk r'"

abbreviation evolved :: "table \<Rightarrow> table \<Rightarrow> bool" where
  "evolved \<equiv> list_all2 evolves"

named_theorems row_defs \<open>what the constraints and updates of a row unfold to\<close>

lemmas [row_defs] = rowOk_def shapeCheck_def leaseCheck_def GovernorAdmissionInputSchema_def identityOk_def
  released_def unleased_def leased_def fixedPart_def

lemma fixedPart_simps [simp]:
  "workspaceId (fixedPart r) = workspaceId r" "organizationId (fixedPart r) = organizationId r"
  "operationKey (fixedPart r) = operationKey r" "projectId (fixedPart r) = projectId r" "runId (fixedPart r) = runId r"
  "taskId (fixedPart r) = taskId r" "purpose (fixedPart r) = purpose r" "decision (fixedPart r) = decision r"
  "deadlineAt (fixedPart r) = deadlineAt r" "queuePosition (fixedPart r) = queuePosition r"
  by (simp_all add: fixedPart_def)

lemma fixedPart_fields:
  assumes "fixedPart r' = fixedPart r"
  shows "workspaceId r' = workspaceId r" "organizationId r' = organizationId r" "operationKey r' = operationKey r"
    "projectId r' = projectId r" "runId r' = runId r" "taskId r' = taskId r" "purpose r' = purpose r"
    "decision r' = decision r" "deadlineAt r' = deadlineAt r" "queuePosition r' = queuePosition r"
  using assms by (metis fixedPart_simps(1), metis fixedPart_simps(2), metis fixedPart_simps(3), metis fixedPart_simps(4),
      metis fixedPart_simps(5), metis fixedPart_simps(6), metis fixedPart_simps(7), metis fixedPart_simps(8),
      metis fixedPart_simps(9), metis fixedPart_simps(10))

lemma fixedPart_updates [simp]:
  "fixedPart (released now r) = fixedPart r" "fixedPart (unleased r) = fixedPart r"
  "fixedPart (leased owner token expiry r) = fixedPart r" "fixedPart (r\<lparr>leaseExpiresAt := e\<rparr>) = fixedPart r"
  by (simp_all add: row_defs)

lemma active_updates [simp]:
  "\<not> active (released now r)" "active (unleased r) = active r" "active (leased owner token expiry r) = active r"
  by (simp_all add: row_defs)

lemma rowOk_updates:
  "rowOk r \<Longrightarrow> rowOk (released now r)" "rowOk r \<Longrightarrow> rowOk (unleased r)"
  "rowOk r \<Longrightarrow> active r \<Longrightarrow> rowOk (leased owner token expiry r)"
  "rowOk r \<Longrightarrow> leaseToken r = Some token \<Longrightarrow> rowOk (r\<lparr>leaseExpiresAt := Some e\<rparr>)"
  by (auto simp: row_defs split: capacity_decision.splits)

lemma evolves_refl: "rowOk r \<Longrightarrow> evolves r r"
  by (simp add: evolves_def)

lemma evolves_trans: "evolves r s \<Longrightarrow> evolves s u \<Longrightarrow> evolves r u"
  by (simp add: evolves_def)

lemma evolved_refl: "tableOk t \<Longrightarrow> evolved t t"
  by (auto simp: tableOk_def list_all_iff intro!: list.rel_refl_strong evolves_refl)

lemma evolved_trans: "evolved t u \<Longrightarrow> evolved u v \<Longrightarrow> evolved t v"
  by (rule list_all2_trans [OF evolves_trans])

lemma evolved_map_eq:
  assumes "evolved t t'" and "\<And>r r'. fixedPart r' = fixedPart r \<Longrightarrow> f r' = f r"
  shows "map f t' = map f t"
  using assms(1) by (induction rule: list_all2_induct) (auto simp: evolves_def dest: assms(2))

lemma evolved_tableOk:
  assumes "evolved t t'" and "tableOk t"
  shows "tableOk t'"
proof -
  have "map workspaceId t' = map workspaceId t" and "map operationKey t' = map operationKey t"
    using evolved_map_eq [OF assms(1)] fixedPart_fields by blast+
  moreover have "list_all rowOk t'" using assms(1) by (induction rule: list_all2_induct) (simp_all add: evolves_def)
  ultimately show ?thesis using assms(2) by (simp add: tableOk_def)
qed

lemma evolved_active:
  assumes "evolved t t'"
  shows "activeRows t' \<le> activeRows t" and "activeIn org t' \<le> activeIn org t"
  using assms unfolding activeRows_def activeIn_def
  by (induction rule: list_all2_induct) (auto simp: evolves_def dest: fixedPart_fields(2))

text \<open>Every update of the repository succeeds on a well-formed table and lets its rows evolve.\<close>

lemma updateRows_ok:
  assumes "tableOk t" and "\<And>r. r \<in> set t \<Longrightarrow> p r \<Longrightarrow> evolves r (f r)"
  shows "updateRows p f t = Inr (map f (filter p t), map (\<lambda>r. if p r then f r else r) t)"
    and "evolved t (map (\<lambda>r. if p r then f r else r) t)"
proof -
  show "updateRows p f t = Inr (map f (filter p t), map (\<lambda>r. if p r then f r else r) t)"
    using assms by (auto simp: updateRows_def list_all_iff evolves_def rowOk_def)
  show "evolved t (map (\<lambda>r. if p r then f r else r) t)"
    using assms by (auto simp: list_all2_conv_all_nth tableOk_def list_all_iff intro: evolves_refl)
qed

lemma evolves_updates:
  "rowOk r \<Longrightarrow> evolves r (released now r)" "rowOk r \<Longrightarrow> evolves r (unleased r)"
  "rowOk r \<Longrightarrow> active r \<Longrightarrow> evolves r (leased owner token expiry r)"
  "rowOk r \<Longrightarrow> leaseToken r = Some token \<Longrightarrow> evolves r (r\<lparr>leaseExpiresAt := Some e\<rparr>)"
  by (simp_all add: evolves_def rowOk_updates)

lemma tableOk_row: "tableOk t \<Longrightarrow> r \<in> set t \<Longrightarrow> rowOk r"
  by (simp add: tableOk_def list_all_iff)

lemma tableOk_unique:
  "tableOk t \<Longrightarrow> r \<in> set t \<Longrightarrow> s \<in> set t \<Longrightarrow> workspaceId r = workspaceId s \<Longrightarrow> r = s"
  "tableOk t \<Longrightarrow> r \<in> set t \<Longrightarrow> s \<in> set t \<Longrightarrow> operationKey r = operationKey s \<Longrightarrow> r = s"
  by (auto simp: tableOk_def distinct_map dest: inj_onD)

section \<open>Each operation lets the table evolve\<close>

lemma release_ok:
  assumes "tableOk t" and "idSchema ''ws'' ws" "idSchema ''org'' org" "opKeySchema key"
  shows "release now ws org key t =
    Inr (map (\<lambda>r. if workspaceId r = ws \<and> organizationId r = org \<and> active r then released now r else r) t)"
  using assms updateRows_ok(1) [OF assms(1), of "\<lambda>r. workspaceId r = ws \<and> organizationId r = org \<and> active r" "released now"]
  by (simp add: release_def evolves_updates tableOk_row)

lemma release_evolved: "tableOk t \<Longrightarrow> release now ws org key t = Inr t' \<Longrightarrow> evolved t t'"
  using release_ok [of t ws org key now]
    updateRows_ok(2) [of t "\<lambda>r. workspaceId r = ws \<and> organizationId r = org \<and> active r" "released now"]
  by (cases "idSchema ''ws'' ws \<and> idSchema ''org'' org \<and> opKeySchema key")
    (auto simp: evolves_updates tableOk_row release_def)

lemma renewExpired_evolved: "tableOk t \<Longrightarrow> renewExpired now ws token ms t = Inr (b, t') \<Longrightarrow> evolved t t'"
  using updateRows_ok [of t "holds ws token" "\<lambda>r. r\<lparr>leaseExpiresAt := Some (now + int ms)\<rparr>"]
  by (auto simp: renewExpired_def holds_def evolves_updates tableOk_row split: if_splits)

lemma fenced_ok:
  assumes "tableOk t" and "\<And>r. rowOk r \<Longrightarrow> evolves r (f r)"
  shows "evolved t (snd (fenced f ws token key t))"
    and "fenceOk ws token \<Longrightarrow> opKeySchema key \<Longrightarrow>
      fenced f ws token key t =
        (if list_ex (holds ws token) t then Inr () else Inl Lease_mismatch, map (\<lambda>r. if holds ws token r then f r else r) t)"
proof -
  note upd = updateRows_ok [OF assms(1), of "holds ws token" f]
  have ev: "\<And>r. r \<in> set t \<Longrightarrow> holds ws token r \<Longrightarrow> evolves r (f r)" using assms tableOk_row by blast
  show "evolved t (snd (fenced f ws token key t))"
    using upd ev evolved_refl [OF assms(1)] by (simp add: fenced_def)
  have "distinct t" using assms(1) by (simp add: tableOk_def distinct_map)
  have "length (filter (holds ws token) t) = (if list_ex (holds ws token) t then 1 else 0)"
  proof (cases "list_ex (holds ws token) t")
    case True
    then obtain r where r: "r \<in> set t" "holds ws token r" by (auto simp: list_ex_iff)
    have "filter (holds ws token) t = [r]"
      using r tableOk_unique(1) [OF assms(1)] unfolding holds_def
      by (intro distinct_filter_singleton [OF \<open>distinct t\<close> r(1)]) metis
    then show ?thesis using True by simp
  next
    case False
    then show ?thesis by (auto simp: list_ex_iff filter_empty_conv)
  qed
  then show "fenced f ws token key t =
        (if list_ex (holds ws token) t then Inr () else Inl Lease_mismatch, map (\<lambda>r. if holds ws token r then f r else r) t)"
    if "fenceOk ws token" "opKeySchema key"
    using upd ev that by (simp add: fenced_def)
qed

lemma completeExpired_evolved: "tableOk t \<Longrightarrow> completeExpired now ws token key t = (r, t') \<Longrightarrow> evolved t t'"
  using fenced_ok(1) [of t "released now" ws token key] by (simp add: completeExpired_def evolves_updates(1))

lemma releaseExpired_evolved: "tableOk t \<Longrightarrow> releaseExpired ws token key t = (r, t') \<Longrightarrow> evolved t t'"
  using fenced_ok(1) [of t unleased ws token key] by (simp add: releaseExpired_def evolves_updates(2))

text \<open>A batch of leases: each candidate row is leased, in order, and no other row changes.\<close>

lemma lease_row:
  assumes "tableOk t" and "\<exists>r\<in>set t. workspaceId r = w \<and> active r"
  obtains r where "r \<in> set t" "workspaceId r = w" "active r"
    "updateRows (\<lambda>r. workspaceId r = w) (leased owner token expiry) t =
      Inr ([leased owner token expiry r], map (\<lambda>r. if workspaceId r = w then leased owner token expiry r else r) t)"
    "evolved t (map (\<lambda>r. if workspaceId r = w then leased owner token expiry r else r) t)"
proof -
  obtain r where r: "r \<in> set t" "workspaceId r = w" "active r" using assms(2) by blast
  have only: "s = r" if "s \<in> set t" "workspaceId s = w" for s using that r tableOk_unique(1) [OF assms(1)] by auto
  have "distinct t" using assms(1) by (simp add: tableOk_def distinct_map)
  then have "filter (\<lambda>s. workspaceId s = w) t = [r]"
    using r only by (intro distinct_filter_singleton [OF _ r(1)]) blast+
  moreover have "evolves s (leased owner token expiry s)" if "s \<in> set t" "workspaceId s = w" for s
    using that only r evolves_updates(3) tableOk_row [OF assms(1)] by blast
  ultimately show thesis using that r updateRows_ok [OF assms(1), of "\<lambda>r. workspaceId r = w"] by force
qed

lemma expiredClaim_leased:
  assumes "rowOk r" and "active r" and "token \<noteq> []"
  obtains x where "expiredClaim (leased owner token expiry r) = Inr x" "workspaceId x = workspaceId r" "x_leaseToken x = token"
proof -
  obtain d where "deadlineAt r = Some d"
    using assms(1,2) by (auto simp: rowOk_def shapeCheck_def split: capacity_decision.splits)
  then show thesis using that assms by (simp add: expiredClaim_def row_defs)
qed

lemma leaseAll_ok:
  assumes date: "dateOk (e_now i + int (leaseMs i))" and owner: "ownerId i \<noteq> []"
  shows "tableOk t \<Longrightarrow> (\<And>c. c \<in> set cs \<Longrightarrow> \<exists>r\<in>set t. workspaceId r = workspaceId c \<and> active r) \<Longrightarrow>
    distinct (map workspaceId cs) \<Longrightarrow>
    \<exists>claims t'. leaseAll uuid i cs t = Inr (claims, t') \<and> evolved t t' \<and> map workspaceId claims = map workspaceId cs \<and>
      (\<forall>c\<in>set claims. list_ex (holds (workspaceId c) (x_leaseToken c)) t') \<and>
      (\<forall>r\<in>set t. workspaceId r \<notin> workspaceId ` set cs \<longrightarrow> r \<in> set t')"
proof (induction cs arbitrary: t)
  case Nil
  then show ?case using evolved_refl by auto
next
  case (Cons c cs)
  let ?w = "workspaceId c"
  define token expiry where "token = ownerId i @ '':'' @ uuid ?w" and "expiry = e_now i + int (leaseMs i)"
  let ?lease = "leased (ownerId i) token expiry"
  define t1 where "t1 = map (\<lambda>r. if workspaceId r = ?w then ?lease r else r) t"
  obtain r where r: "r \<in> set t" "workspaceId r = ?w" "active r"
    "updateRows (\<lambda>r. workspaceId r = ?w) ?lease t = Inr ([?lease r], t1)" and ev: "evolved t t1"
    unfolding t1_def using lease_row [OF Cons.prems(1) Cons.prems(2) [OF list.set_intros(1)], where owner = "ownerId i"] by blast
  obtain x where x: "expiredClaim (?lease r) = Inr x" "workspaceId x = ?w" "x_leaseToken x = token"
  proof -
    have "token \<noteq> []" by (simp add: token_def)
    from expiredClaim_leased [OF tableOk_row [OF Cons.prems(1) r(1)] r(3) this, of "ownerId i" expiry] show thesis
      using that unfolding r(2) .
  qed
  have t1: "tableOk t1" using evolved_tableOk [OF ev Cons.prems(1)] .
  have others: "\<exists>s\<in>set t1. workspaceId s = workspaceId c' \<and> active s" if c': "c' \<in> set cs" for c'
  proof -
    obtain s where "s \<in> set t" "workspaceId s = workspaceId c'" "active s" using Cons.prems(2) c' by (meson list.set_intros(2))
    moreover have "workspaceId c' \<noteq> ?w" using Cons.prems(3) c' by (auto intro: rev_image_eqI)
    ultimately show ?thesis unfolding t1_def by force
  qed
  have "distinct (map workspaceId cs)" using Cons.prems(3) by simp
  then obtain claims t' where rest: "leaseAll uuid i cs t1 = Inr (claims, t')" "evolved t1 t'"
      "map workspaceId claims = map workspaceId cs"
      "\<forall>c\<in>set claims. list_ex (holds (workspaceId c) (x_leaseToken c)) t'"
      "\<forall>r\<in>set t1. workspaceId r \<notin> workspaceId ` set cs \<longrightarrow> r \<in> set t'"
    using Cons.IH [OF t1 others] by blast
  have result: "leaseAll uuid i (c # cs) t = Inr (x # claims, t')"
    using date r(4) x(1) rest(1) by (simp add: token_def expiry_def Let_def)
  have here: "?lease r \<in> set t1" unfolding t1_def using r(1,2) by auto
  have "workspaceId (?lease r) \<notin> workspaceId ` set cs" using Cons.prems(3) r(2) by (auto simp: leased_def)
  then have held: "list_ex (holds ?w token) t'"
    using here rest(5) r(2,3) unfolding list_ex_iff by (intro bexI [of _ "?lease r"]) (auto simp: holds_def leased_def)
  have "r' \<in> set t1" if "r' \<in> set t" "workspaceId r' \<noteq> ?w" for r' unfolding t1_def using that by force
  then have "\<forall>r\<in>set t. workspaceId r \<notin> workspaceId ` set (c # cs) \<longrightarrow> r \<in> set t'" using rest(5) by auto
  then show ?case using result evolved_trans [OF ev rest(2)] x rest(3,4) held by auto
qed

lemma leaseAll_date: "leaseAll uuid i cs t = Inr y \<Longrightarrow> cs = [] \<or> dateOk (e_now i + int (leaseMs i))"
  by (cases cs) (auto simp: Let_def split: if_splits)

lemma candidates_rows:
  assumes "tableOk t"
  shows "set (candidates locked now n t) \<subseteq> {r \<in> set t. expired now r \<and> \<not> locked (workspaceId r)}"
    and "distinct (map workspaceId (candidates locked now n t))"
proof -
  show "set (candidates locked now n t) \<subseteq> {r \<in> set t. expired now r \<and> \<not> locked (workspaceId r)}"
    unfolding candidates_def using set_take_subset by fastforce
  have "distinct (map workspaceId (filter (\<lambda>r. expired now r \<and> \<not> locked (workspaceId r)) t))"
    using assms by (simp add: tableOk_def distinct_map_filter)
  then have "distinct (map workspaceId (sort_key dueKey (filter (\<lambda>r. expired now r \<and> \<not> locked (workspaceId r)) t)))"
    by (simp add: distinct_map)
  then show "distinct (map workspaceId (candidates locked now n t))"
    unfolding candidates_def by (simp add: take_map [symmetric] distinct_take)
qed

lemma candidate_active:
  assumes "tableOk t" and "c \<in> set (candidates locked now n t)"
  shows "\<exists>r\<in>set t. workspaceId r = workspaceId c \<and> active r"
  using subsetD [OF candidates_rows(1) [OF assms(1)] assms(2)] by (auto simp: expired_def)

lemma claimExpired_ok:
  assumes "tableOk t" and "ClaimExpiredInputSchema i" and "dateOk (e_now i + int (leaseMs i))"
  shows "\<exists>claims t'. claimExpired locked uuid i t = Inr (claims, t') \<and> evolved t t' \<and>
    map workspaceId claims = map workspaceId (candidates locked (e_now i) (limit i) t) \<and>
    (\<forall>c\<in>set claims. list_ex (holds (workspaceId c) (x_leaseToken c)) t') \<and>
    (\<forall>r\<in>set t. workspaceId r \<notin> workspaceId ` set (candidates locked (e_now i) (limit i) t) \<longrightarrow> r \<in> set t')"
proof -
  have "ownerId i \<noteq> []" using assms(2) by (simp add: ClaimExpiredInputSchema_def)
  from leaseAll_ok [OF assms(3) this assms(1), of "candidates locked (e_now i) (limit i) t" uuid]
  show ?thesis using candidate_active [OF assms(1)] candidates_rows(2) [OF assms(1)] assms(2)
    by (simp add: claimExpired_def)
qed

lemma claimExpired_Inr:
  assumes "claimExpired locked uuid i t = Inr (claims, t')"
  obtains (none) "claims = []" "t' = t" | (some) "ClaimExpiredInputSchema i" "dateOk (e_now i + int (leaseMs i))"
proof -
  have run: "leaseAll uuid i (candidates locked (e_now i) (limit i) t) t = Inr (claims, t')" "ClaimExpiredInputSchema i"
    using assms by (auto simp: claimExpired_def split: if_splits)
  show thesis using leaseAll_date [OF run(1)] run none some by auto
qed

lemma claimExpired_evolved:
  assumes "tableOk t" and "claimExpired locked uuid i t = Inr (claims, t')"
  shows "evolved t t'"
  using assms(2)
proof (cases rule: claimExpired_Inr)
  case some
  from claimExpired_ok [OF assms(1) this, of locked uuid] assms(2) show ?thesis by auto
qed (use evolved_refl [OF assms(1)] in simp)

lemma insertRow_Inr:
  "insertRow refs t x = Inr t' \<longleftrightarrow> workspaceId x \<notin> workspaceId ` set t \<and> operationKey x \<notin> operationKey ` set t \<and>
     refs (workspaceId x) (projectId x) (organizationId x) \<and> shapeCheck x \<and> leaseCheck x \<and> t' = t @ [x]"
  unfolding insertRow_def list_ex_iff by (auto intro: rev_image_eqI)

text \<open>A claim leaves the table as it is, or adds one row that no stored row conflicts with.\<close>

lemma claim_cases:
  assumes "claim refs i t = Inr (d, t')"
  obtains (stored) row where "row \<in> set t" "operationKey row = operationKey i" "sameIdentity row i"
      "storedDecision row = Inr d" "t' = t"
  | (queued) "d = Is_queued (activeIn (organizationId i) t + 1)" "t' = t @ [queuedRow i (activeIn (organizationId i) t + 1)]"
      "operationKey i \<notin> operationKey ` set t" "workspaceId i \<notin> workspaceId ` set t"
      "globalLimit i \<le> activeRows t \<or> organizationLimit i \<le> activeIn (organizationId i) t"
  | (admitted) deadline where "d = Is_admitted deadline" "t' = t @ [admittedRow i deadline]"
      "deadline = c_requestedAt i + int (budgetMs i)"
      "operationKey i \<notin> operationKey ` set t" "workspaceId i \<notin> workspaceId ` set t"
      "activeRows t < globalLimit i" "activeIn (organizationId i) t < organizationLimit i"
proof (cases "find (\<lambda>r. operationKey r = operationKey i) t")
  case (Some row)
  then have "row \<in> set t" "operationKey row = operationKey i" by (auto simp: find_Some_iff)
  moreover have "sameIdentity row i" "storedDecision row = Inr d" "t' = t"
    using Some assms by (auto simp: claim_def andThen_Inr_iff split: if_splits)
  ultimately show thesis by (rule stored)
next
  case None
  have schema: "GovernorClaimInputSchema i" using assms by (auto simp: claim_def split: if_splits)
  show thesis
  proof (cases "globalLimit i \<le> activeRows t \<or> organizationLimit i \<le> activeIn (organizationId i) t")
    case True
    from assms None schema True have "insertRow refs t (queuedRow i (activeIn (organizationId i) t + 1)) = Inr t'"
      and "d = Is_queued (activeIn (organizationId i) t + 1)" by (simp_all add: claim_def Let_def andThen_Inr_iff)
    with True show thesis by (intro queued) (simp_all add: insertRow_Inr queuedRow_def)
  next
    case False
    from assms None schema False have "insertRow refs t (admittedRow i (c_requestedAt i + int (budgetMs i))) = Inr t'"
      and "d = Is_admitted (c_requestedAt i + int (budgetMs i))"
      by (simp_all add: claim_def Let_def andThen_Inr_iff split: if_splits)
    with False show thesis by (intro admitted) (simp_all add: insertRow_Inr admittedRow_def not_le)
  qed
qed

lemma claim_schema: "claim refs i t = Inr y \<Longrightarrow> GovernorClaimInputSchema i"
  by (auto simp: claim_def split: if_splits)

lemma claim_tableOk:
  assumes "tableOk t" and "claim refs i t = Inr (d, t')"
  shows "tableOk t'"
proof -
  have "GovernorAdmissionInputSchema i" using claim_schema [OF assms(2)] by (simp add: GovernorClaimInputSchema_def)
  then have ok: "rowOk (queuedRow i (Suc n))" "rowOk (admittedRow i x)" for n x
    by (simp_all add: row_defs queuedRow_def admittedRow_def)
  from assms(2) show ?thesis
    by (cases rule: claim_cases) (use assms(1) ok in \<open>auto simp: tableOk_def queuedRow_def admittedRow_def\<close>)
qed

section \<open>Replicas sharing the table\<close>

text \<open>
  Replicas of the service run the operations concurrently.  Claims are serialised by the
  advisory lock; every other operation is one statement or one transaction that locks its
  rows.  A run is therefore a sequence of operations, of which those that throw in a
  transaction change nothing.  \<open>G\<close> and \<open>L\<close> bound the limits the replicas pass.
\<close>

inductive capacity_step :: "refs \<Rightarrow> nat \<Rightarrow> (string \<Rightarrow> nat) \<Rightarrow> table \<Rightarrow> table \<Rightarrow> bool" for refs G L where
  step_claim: "claim refs i t = Inr (d, t') \<Longrightarrow> globalLimit i \<le> G \<Longrightarrow> organizationLimit i \<le> L (organizationId i) \<Longrightarrow>
    capacity_step refs G L t t'"
| step_release: "release now ws org key t = Inr t' \<Longrightarrow> capacity_step refs G L t t'"
| step_claimExpired: "claimExpired locked uuid x t = Inr (claims, t') \<Longrightarrow> capacity_step refs G L t t'"
| step_renewExpired: "renewExpired now ws token ms t = Inr (b, t') \<Longrightarrow> capacity_step refs G L t t'"
| step_completeExpired: "completeExpired now ws token key t = (r, t') \<Longrightarrow> capacity_step refs G L t t'"
| step_releaseExpired: "releaseExpired ws token key t = (r, t') \<Longrightarrow> capacity_step refs G L t t'"

abbreviation capacity_steps :: "refs \<Rightarrow> nat \<Rightarrow> (string \<Rightarrow> nat) \<Rightarrow> table \<Rightarrow> table \<Rightarrow> bool" where
  "capacity_steps refs G L \<equiv> (capacity_step refs G L)\<^sup>*\<^sup>*"

lemma tableOk_Nil [simp]: "tableOk []"
  by (simp add: tableOk_def)

text \<open>A step is a claim of one more slot within the limits, a refused claim, or an evolution of the rows.\<close>

lemma step_evolves:
  assumes "capacity_step refs G L t t'" and "tableOk t"
  obtains (same) "evolved t t'"
  | (queue) x where "t' = t @ [x]" "\<not> active x"
  | (admit) x where "t' = t @ [x]" "activeRows t < G" "activeIn (organizationId x) t < L (organizationId x)"
  using assms(1)
proof cases
  case (step_claim i d)
  from this(1) show thesis
  proof (cases rule: claim_cases)
    case (stored row)
    then show thesis using same evolved_refl [OF assms(2)] by simp
  next
    case queued
    then show thesis using queue [of "queuedRow i (activeIn (organizationId i) t + 1)"] by (simp add: queuedRow_def)
  next
    case (admitted x)
    then show thesis using admit [of "admittedRow i x"] step_claim(2,3) by (simp add: admittedRow_def)
  qed
qed (blast intro: same release_evolved [OF assms(2)] claimExpired_evolved [OF assms(2)] renewExpired_evolved [OF assms(2)]
    completeExpired_evolved [OF assms(2)] releaseExpired_evolved [OF assms(2)])+

lemma step_tableOk: "capacity_step refs G L t t' \<Longrightarrow> tableOk t \<Longrightarrow> tableOk t'"
  by (erule capacity_step.cases)
    (blast intro: claim_tableOk evolved_tableOk release_evolved claimExpired_evolved renewExpired_evolved
      completeExpired_evolved releaseExpired_evolved)+

lemma steps_tableOk: "capacity_steps refs G L t t' \<Longrightarrow> tableOk t \<Longrightarrow> tableOk t'"
  by (induction rule: rtranclp_induct) (auto intro: step_tableOk)

text \<open>Stored rows stay where they are and evolve; new rows come after them.\<close>

lemma steps_extend:
  "capacity_steps refs G L t t' \<Longrightarrow> tableOk t \<Longrightarrow> \<exists>u xs. t' = u @ xs \<and> evolved t u"
proof (induction rule: rtranclp_induct)
  case base
  then show ?case using evolved_refl by (metis append_Nil2)
next
  case (step t1 t2)
  then obtain u xs where u: "t1 = u @ xs" "evolved t u" by blast
  have "tableOk t1" using step.hyps(1) step.prems by (rule steps_tableOk)
  with step.hyps(2) show ?case
  proof (cases rule: step_evolves)
    case same
    then obtain u' xs' where "t2 = u' @ xs'" "evolved u u'" using u(1) by (auto simp: list_all2_append1)
    then show ?thesis using evolved_trans [OF u(2)] by blast
  qed (use u in auto)
qed

lemma steps_within_limits:
  assumes "capacity_steps refs G L [] t"
  shows "activeRows t \<le> G \<and> activeIn org t \<le> L org"
proof -
  from assms have "tableOk t \<and> activeRows t \<le> G \<and> activeIn org t \<le> L org"
  proof (induction rule: rtranclp_induct)
    case (step t1 t2)
    have "tableOk t2" using step.hyps(2) step.IH step_tableOk by blast
    moreover have "activeRows t2 \<le> G \<and> activeIn org t2 \<le> L org" using step.hyps(2) conjunct1 [OF step.IH]
    proof (cases rule: step_evolves)
      case same
      then show ?thesis using evolved_active [of t1 t2] step.IH by (meson le_trans)
    qed (use step.IH in \<open>auto simp: activeRows_def activeIn_def\<close>)
    ultimately show ?case by simp
  qed (simp add: activeRows_def activeIn_def)
  then show ?thesis by simp
qed

section \<open>Properties\<close>

text \<open>
  Capacity is never overbooked.  However replicas interleave their operations, as long as
  every claim is made with a global limit of at most \<open>G\<close> and a limit of at most \<open>L org\<close> for its
  organization, no more than \<open>G\<close> slots are active in all and no more than \<open>L org\<close> in any organization.
\<close>

theorem capacity_within_limits:
  assumes "capacity_steps refs G L [] t"
  shows "activeRows t \<le> G \<and> activeIn org t \<le> L org"
  using steps_within_limits [OF assms] .

text \<open>How a decision reads when it is asked for again.\<close>

fun again :: "admission_decision \<Rightarrow> admission_decision" where
  "again (Is_admitted x) = Is_replay x"
| "again d = d"

lemma storedDecision_again: "storedDecision row = Inr d \<Longrightarrow> again d = d"
  by (auto simp: storedDecision_def split: capacity_decision.splits option.splits if_splits)

lemma claim_stores:
  assumes "claim refs i t = Inr (d, t')"
  shows "\<exists>row\<in>set t'. operationKey row = operationKey i \<and> sameIdentity row i \<and> storedDecision row = Inr (again d)"
  using assms
proof (cases rule: claim_cases)
  case (stored row)
  then show ?thesis using storedDecision_again by metis
qed (simp_all add: queuedRow_def admittedRow_def sameIdentity_def storedDecision_def)

lemma evolves_row: "evolved t u \<Longrightarrow> r \<in> set t \<Longrightarrow> \<exists>r'\<in>set u. evolves r r'"
  by (metis in_set_conv_nth list_all2_conv_all_nth)

lemma evolves_storedDecision: "evolves r r' \<Longrightarrow> storedDecision r' = storedDecision r"
  using fixedPart_fields(8-10) [of r' r] by (simp add: evolves_def storedDecision_def cong: capacity_decision.case_cong)

text \<open>
  Decisions are replayable.  Once a claim has been answered, then after any sequence of
  operations of any replicas a claim with the same operation key and the same identity gets the
  same decision (an admission as a replay with the same deadline, a refusal with the same
  position), also after the slot was released, and changes nothing.
\<close>

theorem decision_replays:
  assumes "tableOk t" and "claim refs i t = Inr (d, t1)" and "capacity_steps refs G L t1 t2"
    and "GovernorClaimInputSchema j" and "operationKey j = operationKey i"
    and "slot_identity.truncate j = slot_identity.truncate i"
  shows "claim refs j t2 = Inr (again d, t2)"
proof -
  obtain row where row: "row \<in> set t1" "operationKey row = operationKey i" "sameIdentity row i" "storedDecision row = Inr (again d)"
    using claim_stores [OF assms(2)] by blast
  have t1: "tableOk t1" using claim_tableOk [OF assms(1,2)] .
  obtain u xs where u: "t2 = u @ xs" "evolved t1 u" using steps_extend [OF assms(3) t1] by blast
  then obtain row' where row': "row' \<in> set t2" "evolves row row'" using evolves_row [OF u(2) row(1)] by auto
  then have fixed: "fixedPart row' = fixedPart row" by (simp add: evolves_def)
  have same: "operationKey row' = operationKey j" "sameIdentity row' j"
    using row(2,3) fixedPart_fields [OF fixed] assms(5,6) by (simp_all add: sameIdentity_def slot_identity.defs)
  have t2: "tableOk t2" using steps_tableOk [OF assms(3) t1] .
  then have "find (\<lambda>r. operationKey r = operationKey j) t2 = Some row'"
    using row'(1) same(1) tableOk_unique(2) [OF t2] by (intro find_unique) metis+
  then show ?thesis using assms(4) same(2) row(4) evolves_storedDecision [OF row'(2)] by (simp add: claim_def)
qed

text \<open>
  C19.  Expiry leases are fencing tokens.  When a sweep has leased the expired slots, every slot
  it was given is still active and carries the token it was given; completing or giving back
  with any other token is refused and changes nothing, and completing with the right token
  frees exactly that slot.
\<close>

theorem lease_fences:
  assumes "tableOk t" and "claimExpired locked uuid i t = Inr (claims, t')" and "c \<in> set claims"
    and "token \<noteq> []" and "opKeySchema key"
  shows "completeExpired now (workspaceId c) token key t' =
      (if token = x_leaseToken c
       then (Inr (), map (\<lambda>r. if workspaceId r = workspaceId c then released now r else r) t')
       else (Inl Lease_mismatch, t')) \<and>
    (token \<noteq> x_leaseToken c \<longrightarrow> releaseExpired (workspaceId c) token key t' = (Inl Lease_mismatch, t'))"
proof -
  have held: "list_ex (holds (workspaceId c) (x_leaseToken c)) t'" using assms(2)
  proof (cases rule: claimExpired_Inr)
    case some
    from claimExpired_ok [OF assms(1) this, of locked uuid] assms(2,3) show ?thesis by auto
  qed (use assms(3) in simp)
  then obtain r where r: "r \<in> set t'" "holds (workspaceId c) (x_leaseToken c) r" by (auto simp: list_ex_iff)
  have t': "tableOk t'" using evolved_tableOk [OF claimExpired_evolved [OF assms(1,2)] assms(1)] .
  have only: "holds (workspaceId c) token s \<longleftrightarrow> workspaceId s = workspaceId c \<and> token = x_leaseToken c" if "s \<in> set t'" for s
    using that r tableOk_unique(1) [OF t' that r(1)] by (auto simp: holds_def)
  have "fenceOk (workspaceId c) token"
    using tableOk_row [OF t' r(1)] r(2) assms(4) by (simp add: fenceOk_def holds_def row_defs)
  note fence = fenced_ok(2) [OF t' _ this assms(5)]
  have ex: "list_ex (holds (workspaceId c) token) t' \<longleftrightarrow> token = x_leaseToken c"
    using only r by (auto simp: list_ex_iff holds_def)
  have upd: "map (\<lambda>r. if holds (workspaceId c) token r then f r else r) t' =
      (if token = x_leaseToken c then map (\<lambda>r. if workspaceId r = workspaceId c then f r else r) t' else t')" for f
    using only by (auto intro!: map_idI)
  show ?thesis unfolding completeExpired_def releaseExpired_def
    using fence [of "released now"] fence [of unleased] by (simp add: evolves_updates(1,2) ex upd)
qed

text \<open>
  On a well-formed table a sweep hands out leases for exactly the slots that are due: those
  active, past their deadline, not under an unexpired lease and not locked by another
  transaction, in the order of their deadlines and at most as many as asked for; the sweep
  does not fail and no other slot changes.
\<close>

theorem sweep_leases_due_slots:
  assumes "tableOk t" and "ClaimExpiredInputSchema i" and "dateOk (e_now i + int (leaseMs i))"
  shows "\<exists>claims t'. claimExpired locked uuid i t = Inr (claims, t') \<and>
    map workspaceId claims = map workspaceId (take (limit i) (sort_key dueKey
      (filter (\<lambda>r. expired (e_now i) r \<and> \<not> locked (workspaceId r)) t))) \<and>
    (\<forall>r\<in>set t. workspaceId r \<notin> workspaceId ` set claims \<longrightarrow> r \<in> set t')"
proof -
  let ?cs = "candidates locked (e_now i) (limit i) t"
  from claimExpired_ok [OF assms, of locked uuid]
  obtain claims t' where run: "claimExpired locked uuid i t = Inr (claims, t')" and ids: "map workspaceId claims = map workspaceId ?cs"
    and rest: "\<forall>r\<in>set t. workspaceId r \<notin> workspaceId ` set ?cs \<longrightarrow> r \<in> set t'" by blast
  from ids have "workspaceId ` set claims = workspaceId ` set ?cs" by (metis set_map)
  with run ids rest show ?thesis by (auto simp: candidates_def)
qed

section \<open>A sample run\<close>

definition sample_claim :: "claim_input" where
  "sample_claim = \<lparr>workspaceId = ''ws_01J8ME7YQZJ2V9Q0X3T5B6K7N9'', organizationId = ''org_01J8ME7YQZJ2V9Q0X3T5B6K7N9'',
     projectId = ''proj_01J8ME7YQZJ2V9Q0X3T5B6K7N9'', runId = ''run_01J8ME7YQZJ2V9Q0X3T5B6K7N9'',
     taskId = ''task_01J8ME7YQZJ2V9Q0X3T5B6K7N9'', purpose = Purpose_builder,
     operationKey = ''op_'' @ replicate 64 CHR ''a'', c_requestedAt = 1000, budgetMs = 500, globalLimit = 1, organizationLimit = 1\<rparr>"

definition sample_key :: string where
  "sample_key = ''op_'' @ replicate 64 CHR ''b''"

definition sample_sweep :: claim_expired_input where
  "sample_sweep = \<lparr>e_now = 2000, ownerId = ''gov'', leaseMs = 60, limit = 1\<rparr>"

lemma sample_claim_valid: "GovernorClaimInputSchema sample_claim"
  by (simp add: GovernorClaimInputSchema_def GovernorAdmissionInputSchema_def identityOk_def sample_claim_def idSchema_def
      is_ulid_char_def is_digit_def opKeySchema_def is_hex_def dateOk_def list_all_iff)

lemma sample_claim_admitted: "claim (\<lambda>_ _ _. True) sample_claim [] = Inr (Is_admitted 1500, [admittedRow sample_claim 1500])"
proof -
  have "activeRows [] < globalLimit sample_claim" "activeIn (organizationId sample_claim) [] < organizationLimit sample_claim"
    by (simp_all add: activeRows_def activeIn_def sample_claim_def)
  moreover have "c_requestedAt sample_claim + int (budgetMs sample_claim) = 1500" by (simp add: sample_claim_def)
  ultimately show ?thesis using sample_claim_valid
    by (simp add: claim_def Let_def insertRow_def dateOk_def shapeCheck_def leaseCheck_def admittedRow_def not_le)
qed

lemma sample_tableOk: "tableOk [admittedRow sample_claim 1500]"
  using claim_tableOk [OF _ sample_claim_admitted] by simp

lemma sample_leased:
  "claimExpired (\<lambda>_. False) (\<lambda>_. ''u1'') sample_sweep [admittedRow sample_claim 1500] =
     Inr ([\<lparr>workspaceId = workspaceId sample_claim, organizationId = organizationId sample_claim,
        projectId = projectId sample_claim, runId = runId sample_claim, taskId = taskId sample_claim,
        purpose = Purpose_builder, t_deadlineAt = 1500, x_leaseToken = ''gov:u1''\<rparr>],
      [leased ''gov'' ''gov:u1'' 2060 (admittedRow sample_claim 1500)])"
proof -
  have "identityOk (leased ''gov'' ''gov:u1'' 2060 (admittedRow sample_claim 1500))"
    using sample_claim_valid by (simp add: GovernorClaimInputSchema_def row_defs admittedRow_def)
  moreover have "purpose sample_claim = Purpose_builder" by (simp add: sample_claim_def)
  ultimately show ?thesis
    by (simp add: claimExpired_def ClaimExpiredInputSchema_def sample_sweep_def candidates_def expired_def dateOk_def
        updateRows_def expiredClaim_def shapeCheck_def leaseCheck_def leased_def admittedRow_def Let_def)
qed

theorem capacity_within_limits_witness:
  "\<exists>t. capacity_steps (\<lambda>_ _ _. True) 1 (\<lambda>_. 1) [] t \<and> activeRows t = 1 \<and> activeRows t \<le> 1"
proof -
  have "capacity_step (\<lambda>_ _ _. True) 1 (\<lambda>_. 1) [] [admittedRow sample_claim 1500]"
    by (rule step_claim [OF sample_claim_admitted]) (simp_all add: sample_claim_def)
  then have run: "capacity_steps (\<lambda>_ _ _. True) 1 (\<lambda>_. 1) [] [admittedRow sample_claim 1500]" by blast
  from capacity_within_limits [OF this] show ?thesis
    by (intro exI [of _ "[admittedRow sample_claim 1500]"]) (use run in \<open>simp add: activeRows_def admittedRow_def\<close>)
qed

theorem decision_replays_witness:
  "claim (\<lambda>_ _ _. True) sample_claim [admittedRow sample_claim 1500] = Inr (Is_replay 1500, [admittedRow sample_claim 1500])"
  using decision_replays [OF tableOk_Nil sample_claim_admitted rtranclp.rtrancl_refl sample_claim_valid refl refl] by simp

theorem lease_fences_witness:
  "completeExpired 2001 (workspaceId sample_claim) ''stale'' sample_key
     [leased ''gov'' ''gov:u1'' 2060 (admittedRow sample_claim 1500)] =
   (Inl Lease_mismatch, [leased ''gov'' ''gov:u1'' 2060 (admittedRow sample_claim 1500)])"
proof -
  have "opKeySchema sample_key" by (simp add: opKeySchema_def sample_key_def is_hex_def is_digit_def list_all_iff)
  from lease_fences [OF sample_tableOk sample_leased list.set_intros(1) _ this, of "''stale''" 2001]
  show ?thesis by simp
qed

theorem sweep_leases_due_slots_witness:
  "\<exists>claims t'. claimExpired (\<lambda>_. False) (\<lambda>_. ''u1'') sample_sweep [admittedRow sample_claim 1500] = Inr (claims, t') \<and>
     map workspaceId claims = [workspaceId sample_claim]"
proof -
  have "ClaimExpiredInputSchema sample_sweep" "dateOk (e_now sample_sweep + int (leaseMs sample_sweep))"
    by (simp_all add: sample_sweep_def ClaimExpiredInputSchema_def dateOk_def)
  note claims = sweep_leases_due_slots [OF sample_tableOk this, of "\<lambda>_. False" "\<lambda>_. ''u1''"]
  have "map workspaceId (take (limit sample_sweep) (sort_key dueKey
      (filter (\<lambda>r. expired (e_now sample_sweep) r \<and> \<not> False) [admittedRow sample_claim 1500]))) = [workspaceId sample_claim]"
    by (simp add: sample_sweep_def expired_def admittedRow_def)
  with claims show ?thesis by metis
qed

end
