(* ===== verification/Governor.thy ===== *)
theory Governor
  imports Capacity Js_Value "HOL-Library.Multiset"
begin

text \<open>
  The runaway compute governor of the sandbox service
  (\<open>services/sandbox-service/src/lifecycle/governor.ts\<close>) on the capacity repository.  Its other
  dependencies are parameters: the limits service, the audit log, the sandbox actions, the
  clocks, SHA-256 (\<open>sha\<close>, in hexadecimal) and the ISO rendering of a date (\<open>toIso\<close>).

  A sweep runs beside other replicas.  It makes numbered calls on the repository; before call
  \<open>k\<close> the others may have changed the table (\<open>others k\<close>), \<open>new Date()\<close> is \<open>clock k\<close>, and so on:
  these are the fields of \<open>sweep_env\<close>.  The renewal timer ticks some number of times while the
  sandbox action runs; its calls come before those that follow the action.
\<close>

section \<open>Budgets, keys and inputs\<close>

definition HOUR_MS :: nat where "HOUR_MS = 60 * 60000"

definition INTERACTIVE_RUN_BUDGET_MS :: nat where "INTERACTIVE_RUN_BUDGET_MS = 4 * HOUR_MS"

definition AUTONOMOUS_RUN_BUDGET_MS :: nat where "AUTONOMOUS_RUN_BUDGET_MS = 8 * HOUR_MS"

definition budgetForPurpose :: "workspace_purpose \<Rightarrow> nat" where
  "budgetForPurpose p =
     (if p = Purpose_builder \<or> p = Purpose_preview then INTERACTIVE_RUN_BUDGET_MS else AUTONOMOUS_RUN_BUDGET_MS)"

definition childOperationKey :: "(string \<Rightarrow> string) \<Rightarrow> string \<Rightarrow> string \<Rightarrow> string" where
  "childOperationKey sha parent action = ''op_'' @ sha (parent @ '':'' @ action)"

datatype governor_error =
    Bad_request
  | Limits_rejected
  | Invalid_limits
  | Repository capacity_error
  | Quota_exceeded nat
  | Audit_rejected
  | Action_rejected
  | Too_many_claims
  | Cross_tenant

definition OrganizationLimitsSchema :: "js_value \<Rightarrow> nat option" where
  "OrganizationLimitsSchema v =
     (case strictObject [''concurrentSandboxes''] v of
        None \<Rightarrow> None
      | Some f \<Rightarrow> (case asInt (f ''concurrentSandboxes'') of
            Some n \<Rightarrow> if 0 < n then Some (nat n) else None
          | None \<Rightarrow> None))"

section \<open>Admission and release\<close>

definition claimFor :: "admission_input \<Rightarrow> int \<Rightarrow> nat \<Rightarrow> nat \<Rightarrow> claim_input" where
  "claimFor i now global org = \<lparr>workspaceId = workspaceId i, organizationId = organizationId i, projectId = projectId i,
     runId = runId i, taskId = taskId i, purpose = purpose i, operationKey = operationKey i,
     c_requestedAt = now, budgetMs = budgetForPurpose (purpose i), globalLimit = global, organizationLimit = org\<rparr>"

definition admit ::
    "refs \<Rightarrow> nat \<Rightarrow> (string \<Rightarrow> js_value option) \<Rightarrow> int \<Rightarrow> admission_input \<Rightarrow> table \<Rightarrow> (governor_error + admission_decision) \<times> table" where
  "admit refs global limits now i t =
     (if \<not> GovernorAdmissionInputSchema i then (Inl Bad_request, t)
      else case limits (organizationId i) of
        None \<Rightarrow> (Inl Limits_rejected, t)
      | Some v \<Rightarrow> (case OrganizationLimitsSchema v of
          None \<Rightarrow> (Inl Invalid_limits, t)
        | Some n \<Rightarrow> (case claim refs (claimFor i now global n) t of
            Inl e \<Rightarrow> (Inl (Repository e), t)
          | Inr (Is_queued p, t') \<Rightarrow> (Inl (Quota_exceeded p), t')
          | Inr (d, t') \<Rightarrow> (Inr d, t'))))"

definition governorRelease :: "int \<Rightarrow> string \<Rightarrow> string \<Rightarrow> string \<Rightarrow> table \<Rightarrow> (governor_error + unit) \<times> table" where
  "governorRelease now ws org key t =
     (case release now ws org key t of Inl e \<Rightarrow> (Inl (Repository e), t) | Inr t' \<Rightarrow> (Inr (), t'))"

section \<open>Terminating an organization\<close>

record terminate_all_input =
  ta_organizationId :: string
  actorUserId :: string
  ta_reason :: string
  ta_operationKey :: string

definition GovernorTerminateAllInputSchema :: "terminate_all_input \<Rightarrow> terminate_all_input option" where
  "GovernorTerminateAllInputSchema i =
     (let r = trim (ta_reason i)
      in if idSchema ''org'' (ta_organizationId i) \<and> idSchema ''user'' (actorUserId i) \<and> 10 \<le> length r \<and> length r \<le> 500 \<and>
            opKeySchema (ta_operationKey i)
         then Some (i\<lparr>ta_reason := r\<rparr>) else None)"

text \<open>What the governor asks of the outside while terminating, in order.\<close>

datatype governor_call = Record_terminate_all terminate_all_input | Terminate termination_candidate string

fun terminateEach ::
    "(string \<Rightarrow> string) \<Rightarrow> (string \<Rightarrow> int) \<Rightarrow> (termination_candidate \<Rightarrow> bool) \<Rightarrow> terminate_all_input \<Rightarrow>
     termination_candidate list \<Rightarrow> nat \<Rightarrow> table \<Rightarrow> governor_call list \<Rightarrow> (governor_error + nat) \<times> table \<times> governor_call list" where
  "terminateEach sha clock terminate i [] n t h = (Inr n, t, h)"
| "terminateEach sha clock terminate i (c # cs) n t h =
     (if organizationId c \<noteq> ta_organizationId i then (Inl Cross_tenant, t, h)
      else
        let key = childOperationKey sha (ta_operationKey i) (''terminate-all:'' @ workspaceId c);
            h' = h @ [Terminate c key]
        in if \<not> terminate c then (Inl Action_rejected, t, h')
           else case release (clock (workspaceId c)) (workspaceId c) (ta_organizationId i) key t of
               Inl e \<Rightarrow> (Inl (Repository e), t, h')
             | Inr t' \<Rightarrow> terminateEach sha clock terminate i cs (n + 1) t' h')"

definition terminateAll ::
    "(string \<Rightarrow> string) \<Rightarrow> (string \<Rightarrow> int) \<Rightarrow> (terminate_all_input \<Rightarrow> bool) \<Rightarrow> (termination_candidate \<Rightarrow> bool) \<Rightarrow>
     terminate_all_input \<Rightarrow> table \<Rightarrow> (governor_error + nat) \<times> table \<times> governor_call list" where
  "terminateAll sha clock audit terminate inputValue t =
     (case GovernorTerminateAllInputSchema inputValue of
        None \<Rightarrow> (Inl Bad_request, t, [])
      | Some i \<Rightarrow>
          if \<not> audit i then (Inl Audit_rejected, t, [Record_terminate_all i])
          else case listOrganization (ta_organizationId i) (ta_operationKey i) t of
              Inl e \<Rightarrow> (Inl (Repository e), t, [Record_terminate_all i])
            | Inr cs \<Rightarrow> terminateEach sha clock terminate i cs 0 t [Record_terminate_all i])"

section \<open>The sweep\<close>

record sweep_env =
  others :: "nat \<Rightarrow> table \<Rightarrow> table"
  nows :: "nat \<Rightarrow> int"
  clock :: "nat \<Rightarrow> int"
  uuids :: "nat \<Rightarrow> string \<Rightarrow> string"
  locks :: "nat \<Rightarrow> string \<Rightarrow> bool"
  stopping :: "nat \<Rightarrow> bool"
  tickCount :: "nat \<Rightarrow> nat"
  actionOk :: "nat \<Rightarrow> expired_claim \<Rightarrow> bool"

type_synonym sweep_state = "nat \<times> table"

text \<open>One renewal: the answer of the repository, \<open>None\<close> when it throws.\<close>

definition renew :: "sweep_env \<Rightarrow> nat \<Rightarrow> expired_claim \<Rightarrow> sweep_state \<Rightarrow> bool option \<times> sweep_state" where
  "renew env ms c s =
     (let (k, t) = s; t' = others env k t in
      case renewExpired (clock env k) (workspaceId c) (x_leaseToken c) ms t' of
          Inl e \<Rightarrow> (None, (k + 1, t'))
        | Inr (b, t'') \<Rightarrow> (Some b, (k + 1, t'')))"

text \<open>The ticks of the renewal timer; the result says whether the lease was lost.\<close>

fun ticks :: "sweep_env \<Rightarrow> nat \<Rightarrow> expired_claim \<Rightarrow> nat \<Rightarrow> sweep_state \<Rightarrow> bool \<times> sweep_state" where
  "ticks env ms c 0 s = (False, s)"
| "ticks env ms c (Suc n) s =
     (case renew env ms c s of
        (Some True, s') \<Rightarrow> ticks env ms c n s'
      | (_, s') \<Rightarrow> (True, s'))"

definition giveBack :: "sweep_env \<Rightarrow> expired_claim \<Rightarrow> string \<Rightarrow> sweep_state \<Rightarrow> (governor_error + unit) \<times> sweep_state" where
  "giveBack env c key s =
     (let (k, t) = s; (r, t') = releaseExpired (workspaceId c) (x_leaseToken c) key (others env k t)
      in (case r of Inl e \<Rightarrow> Inl (Repository e) | Inr u \<Rightarrow> Inr u, (k + 1, t')))"

definition abandon :: "sweep_env \<Rightarrow> expired_claim \<Rightarrow> string \<Rightarrow> bool \<Rightarrow> sweep_state \<Rightarrow> (governor_error + unit) \<times> sweep_state" where
  "abandon env c key lost s = (if lost then (Inr (), s) else giveBack env c key s)"

definition complete :: "sweep_env \<Rightarrow> expired_claim \<Rightarrow> string \<Rightarrow> sweep_state \<Rightarrow> (governor_error + unit) \<times> sweep_state" where
  "complete env c key s =
     (let (k, t) = s in
      case completeExpired (clock env k) (workspaceId c) (x_leaseToken c) key (others env k t) of
        (Inr u, t') \<Rightarrow> (Inr (), (k + 1, t'))
      | (Inl e, t') \<Rightarrow> abandon env c key False (k + 1, t'))"

definition processClaim ::
    "sweep_env \<Rightarrow> nat \<Rightarrow> expired_claim \<Rightarrow> string \<Rightarrow> sweep_state \<Rightarrow> (governor_error + unit) \<times> sweep_state" where
  "processClaim env ms c key s =
     (let k = fst s; (lost, s') = ticks env ms c (tickCount env k) s in
      if \<not> actionOk env k c then abandon env c key lost s'
      else if lost then (Inr (), s')
      else case renew env ms c s' of
          (Some True, s'') \<Rightarrow> complete env c key s''
        | (Some False, s'') \<Rightarrow> abandon env c key True s''
        | (None, s'') \<Rightarrow> abandon env c key False s'')"

fun sweepLoop ::
    "(string \<Rightarrow> string) \<Rightarrow> (int \<Rightarrow> string) \<Rightarrow> sweep_env \<Rightarrow> string \<Rightarrow> nat \<Rightarrow> nat \<Rightarrow> sweep_state \<Rightarrow> (governor_error + unit) \<times> sweep_state" where
  "sweepLoop sha toIso env owner ms 0 s = (Inr (), s)"
| "sweepLoop sha toIso env owner ms (Suc left) s =
     (let (k, t) = s in
      if stopping env k then (Inr (), s)
      else case claimExpired (locks env k) (uuids env k) \<lparr>e_now = nows env k, ownerId = owner, leaseMs = ms, limit = 1\<rparr> (others env k t) of
          Inl e \<Rightarrow> (Inl (Repository e), (k + 1, others env k t))
        | Inr ([], t') \<Rightarrow> (Inr (), (k + 1, t'))
        | Inr ([c], t') \<Rightarrow>
            (let key = childOperationKey sha (''op_'' @ sha (runId c @ '':'' @ toIso (t_deadlineAt c))) (''wall-clock:'' @ workspaceId c) in
             if stopping env (k + 1) then giveBack env c key (k + 1, t')
             else case processClaim env ms c key (k + 1, t') of
                 (Inl e, s') \<Rightarrow> (Inl e, s')
               | (Inr u, s') \<Rightarrow> sweepLoop sha toIso env owner ms left s')
        | Inr (_, t') \<Rightarrow> (Inl Too_many_claims, (k + 1, t')))"

definition sweepExpired ::
    "(string \<Rightarrow> string) \<Rightarrow> (int \<Rightarrow> string) \<Rightarrow> sweep_env \<Rightarrow> string \<Rightarrow> nat \<Rightarrow> nat \<Rightarrow> table \<Rightarrow> (governor_error + unit) \<times> table" where
  "sweepExpired sha toIso env owner ms sweepLimit t =
     (case sweepLoop sha toIso env owner ms sweepLimit (0, t) of (r, (_, t')) \<Rightarrow> (r, t'))"

section \<open>The interface the governor relies on\<close>

text \<open>
  What draining an organization needs of the store: its slots per organization, and that
  freeing one slot of one organization removes that slot and touches no other organization.
\<close>

locale tenant_slots =
  fixes ok :: "'s \<Rightarrow> bool"
    and free :: "'n \<Rightarrow> 'w \<Rightarrow> 'o \<Rightarrow> 's \<Rightarrow> 's"
    and slots :: "'o \<Rightarrow> 's \<Rightarrow> 'w list"
  assumes free_ok: "ok s \<Longrightarrow> ok (free n w org s)"
    and slots_free: "ok s \<Longrightarrow> slots org' (free n w org s) = (if org' = org then filter (\<lambda>x. x \<noteq> w) (slots org s) else slots org' s)"
begin

lemma freeAll_ok: "ok s \<Longrightarrow> ok (fold (\<lambda>w. free (n w) w org) ws s)"
  by (induction ws arbitrary: s) (auto simp: free_ok)

lemma slots_freeAll:
  "ok s \<Longrightarrow> slots org' (fold (\<lambda>w. free (n w) w org) ws s) =
     (if org' = org then filter (\<lambda>x. x \<notin> set ws) (slots org s) else slots org' s)"
  by (induction ws arbitrary: s) (auto simp: free_ok slots_free intro: filter_cong)

lemma drained:
  "ok s \<Longrightarrow> set (slots org s) \<subseteq> set ws \<Longrightarrow> slots org (fold (\<lambda>w. free (n w) w org) ws s) = []"
  by (auto simp: slots_freeAll filter_empty_conv)

end

definition freed :: "int \<Rightarrow> string \<Rightarrow> string \<Rightarrow> table \<Rightarrow> table" where
  "freed now ws org t = map (\<lambda>r. if workspaceId r = ws \<and> organizationId r = org \<and> active r then released now r else r) t"

definition slotsOf :: "string \<Rightarrow> table \<Rightarrow> string list" where
  "slotsOf org t = map workspaceId (filter (\<lambda>r. organizationId r = org \<and> active r) t)"

lemma released_keys [simp]: "workspaceId (released now r) = workspaceId r" "organizationId (released now r) = organizationId r"
  by (simp_all add: released_def unleased_def)

lemma freed_evolved: "tableOk t \<Longrightarrow> evolved t (freed now ws org t)"
  unfolding freed_def by (rule updateRows_ok(2)) (auto intro: evolves_updates(1) tableOk_row)

lemma slotsOf_Cons: "slotsOf org (r # t) = (if organizationId r = org \<and> active r then workspaceId r # slotsOf org t else slotsOf org t)"
  by (simp add: slotsOf_def)

lemma freed_Cons: "freed now ws org (r # t) =
    (if workspaceId r = ws \<and> organizationId r = org \<and> active r then released now r else r) # freed now ws org t"
  by (simp add: freed_def)

lemma slotsOf_freed:
  "slotsOf org' (freed now ws org t) = (if org' = org then filter (\<lambda>x. x \<noteq> ws) (slotsOf org t) else slotsOf org' t)"
proof (induction t)
  case Nil
  then show ?case by (simp add: slotsOf_def freed_def)
next
  case (Cons r t)
  then show ?case by (cases "org' = org") (simp_all add: slotsOf_Cons freed_Cons)
qed

interpretation repository: tenant_slots tableOk freed slotsOf
  by unfold_locales (auto intro: evolved_tableOk [OF freed_evolved] simp: slotsOf_freed)

section \<open>Terminating an organization drains it\<close>

lemma childOperationKey_valid:
  "(\<And>s. length (sha s) = 64 \<and> list_all is_hex (sha s)) \<Longrightarrow> opKeySchema (childOperationKey sha p a)"
  by (simp add: childOperationKey_def opKeySchema_def)

lemma release_freed:
  "tableOk t \<Longrightarrow> idSchema ''ws'' ws \<Longrightarrow> idSchema ''org'' org \<Longrightarrow> opKeySchema key \<Longrightarrow> release now ws org key t = Inr (freed now ws org t)"
  by (simp add: release_ok freed_def)

lemma terminateEach_ok:
  assumes sha: "\<And>s. length (sha s) = 64 \<and> list_all is_hex (sha s)" and org: "idSchema ''org'' (ta_organizationId i)"
  shows "tableOk t \<Longrightarrow> (\<And>c. c \<in> set cs \<Longrightarrow> organizationId c = ta_organizationId i \<and> idSchema ''ws'' (workspaceId c) \<and> terminate c) \<Longrightarrow>
    terminateEach sha tm terminate i cs n t h =
      (Inr (n + length cs), fold (\<lambda>w. freed (tm w) w (ta_organizationId i)) (map workspaceId cs) t,
       h @ map (\<lambda>c. Terminate c (childOperationKey sha (ta_operationKey i) (''terminate-all:'' @ workspaceId c))) cs)"
proof (induction cs arbitrary: n t h)
  case (Cons c cs)
  let ?t = "freed (tm (workspaceId c)) (workspaceId c) (ta_organizationId i) t"
  have "release (tm (workspaceId c)) (workspaceId c) (ta_organizationId i)
      (childOperationKey sha (ta_operationKey i) (''terminate-all:'' @ workspaceId c)) t = Inr ?t"
    using Cons.prems org by (intro release_freed childOperationKey_valid sha) auto
  moreover have "tableOk ?t" using repository.free_ok [OF Cons.prems(1)] .
  ultimately show ?case using Cons.IH [of ?t] Cons.prems(2) by (simp add: Let_def)
qed simp

lemma listOrganization_ok:
  assumes "tableOk t" and "idSchema ''org'' org" "opKeySchema key"
  obtains cs where "listOrganization org key t = Inr cs"
    "\<And>c. c \<in> set cs \<Longrightarrow> organizationId c = org \<and> idSchema ''ws'' (workspaceId c)"
    "mset (map workspaceId cs) = mset (slotsOf org t)"
proof -
  define rows where "rows = sort_key (\<lambda>r. (requestedAt r, workspaceId r)) (filter (\<lambda>r. organizationId r = org \<and> active r) t)"
  define g :: "admission \<Rightarrow> termination_candidate" where
    "g row = \<lparr>workspaceId = workspaceId row, organizationId = organizationId row, projectId = projectId row,
       runId = runId row, taskId = taskId row, purpose = purpose row, t_deadlineAt = the (deadlineAt row)\<rparr>" for row
  have row: "rowOk r \<and> active r \<and> organizationId r = org" if "r \<in> set rows" for r
    using that tableOk_row [OF assms(1)] by (auto simp: rows_def)
  have "terminationCandidate r = Inr (g r)" if "r \<in> set rows" for r
    using row [OF that] unfolding terminationCandidate_def g_def
    by (auto simp: rowOk_def shapeCheck_def GovernorAdmissionInputSchema_def split: capacity_decision.splits)
  then have "mapThrow terminationCandidate rows = Inr (map g rows)" by (rule mapThrow_all)
  then have list: "listOrganization org key t = Inr (map g rows)"
    using assms(2,3) unfolding listOrganization_def rows_def [symmetric] by simp
  have "organizationId c = org \<and> idSchema ''ws'' (workspaceId c)" if "c \<in> set (map g rows)" for c
    using that row by (auto simp: g_def rowOk_def GovernorAdmissionInputSchema_def identityOk_def)
  moreover have "map workspaceId (map g rows) = map workspaceId rows" by (simp add: g_def)
  then have "mset (map workspaceId (map g rows)) = mset (map workspaceId rows)" by (simp only:)
  then have "mset (map workspaceId (map g rows)) = mset (slotsOf org t)" unfolding rows_def slotsOf_def by (simp del: map_map)
  ultimately show thesis using that [OF list] by blast
qed

section \<open>Every governor operation is a run of repository operations\<close>

definition neighbourly :: "refs \<Rightarrow> nat \<Rightarrow> (string \<Rightarrow> nat) \<Rightarrow> sweep_env \<Rightarrow> bool" where
  "neighbourly refs G L env \<longleftrightarrow> (\<forall>k t. capacity_steps refs G L t (others env k t))"

lemma steps_other: "neighbourly refs G L env \<Longrightarrow> capacity_step refs G L (others env k t) t' \<Longrightarrow> capacity_steps refs G L t t'"
  unfolding neighbourly_def by (meson rtranclp.rtrancl_into_rtrancl)

lemma renew_steps:
  assumes "neighbourly refs G L env" and "renew env ms c s = (b, s')"
  shows "capacity_steps refs G L (snd s) (snd s')"
proof (cases "renewExpired (clock env (fst s)) (workspaceId c) (x_leaseToken c) ms (others env (fst s) (snd s))")
  case (Inl e)
  then show ?thesis using assms by (auto simp: renew_def neighbourly_def split: prod.splits)
next
  case (Inr x)
  then obtain b' t'' where "renewExpired (clock env (fst s)) (workspaceId c) (x_leaseToken c) ms (others env (fst s) (snd s)) = Inr (b', t'')"
    by (cases x) auto
  with assms(2) steps_other [OF assms(1) step_renewExpired] show ?thesis by (auto simp: renew_def split: prod.splits)
qed

lemma ticks_steps:
  "neighbourly refs G L env \<Longrightarrow> ticks env ms c n s = (b, s') \<Longrightarrow> capacity_steps refs G L (snd s) (snd s')"
proof (induction n arbitrary: s)
  case (Suc n)
  obtain a s1 where r: "renew env ms c s = (a, s1)" by (cases "renew env ms c s") auto
  note first = renew_steps [OF Suc.prems(1) r]
  show ?case
  proof (cases "a = Some True")
    case True
    with Suc.prems r have "ticks env ms c n s1 = (b, s')" by simp
    from rtranclp_trans [OF first Suc.IH [OF Suc.prems(1) this]] show ?thesis .
  next
    case False
    with Suc.prems r have "s' = s1" by (auto split: option.splits bool.splits)
    with first show ?thesis by simp
  qed
qed simp

lemma giveBack_steps:
  assumes "neighbourly refs G L env" and "giveBack env c key s = (r, s')"
  shows "capacity_steps refs G L (snd s) (snd s')"
proof -
  obtain a t' where "releaseExpired (workspaceId c) (x_leaseToken c) key (others env (fst s) (snd s)) = (a, t')" by fastforce
  with assms(2) steps_other [OF assms(1) step_releaseExpired] show ?thesis
    by (auto simp: giveBack_def split: prod.splits)
qed

lemma abandon_steps:
  "neighbourly refs G L env \<Longrightarrow> abandon env c key lost s = (r, s') \<Longrightarrow> capacity_steps refs G L (snd s) (snd s')"
  by (auto simp: abandon_def intro: giveBack_steps split: if_splits)

lemma complete_steps:
  assumes "neighbourly refs G L env" and "complete env c key s = (r, s')"
  shows "capacity_steps refs G L (snd s) (snd s')"
proof -
  obtain a t' where x: "completeExpired (clock env (fst s)) (workspaceId c) (x_leaseToken c) key (others env (fst s) (snd s)) = (a, t')"
    by fastforce
  have first: "capacity_steps refs G L (snd s) t'" using steps_other [OF assms(1) step_completeExpired [OF x]] .
  show ?thesis
  proof (cases a)
    case (Inl e)
    with assms(2) x have "abandon env c key False (fst s + 1, t') = (r, s')" by (simp add: complete_def split: prod.splits)
    from rtranclp_trans [OF first] abandon_steps [OF assms(1) this] show ?thesis by simp
  next
    case (Inr u)
    with assms(2) x first show ?thesis by (auto simp: complete_def split: prod.splits)
  qed
qed

lemma processClaim_steps:
  assumes env: "neighbourly refs G L env" and "processClaim env ms c key s = (r, s')"
  shows "capacity_steps refs G L (snd s) (snd s')"
proof -
  obtain lost s1 where t: "ticks env ms c (tickCount env (fst s)) s = (lost, s1)"
    by (cases "ticks env ms c (tickCount env (fst s)) s")
  note first = ticks_steps [OF env t]
  obtain a s2 where n: "renew env ms c s1 = (a, s2)" by (cases "renew env ms c s1")
  note second = rtranclp_trans [OF first renew_steps [OF env n]]
  consider "abandon env c key lost s1 = (r, s')" | "s' = s1" | lost' where "abandon env c key lost' s2 = (r, s')" | "complete env c key s2 = (r, s')"
    using assms(2) t n by (auto simp: processClaim_def Let_def split: if_splits option.splits bool.splits)
  then show ?thesis
    using first rtranclp_trans [OF first] rtranclp_trans [OF second] abandon_steps [OF env] complete_steps [OF env]
    by cases (metis, simp, metis, metis)
qed

lemma sweepLoop_steps:
  assumes env: "neighbourly refs G L env"
  shows "sweepLoop sha toIso env owner ms left s = (r, s') \<Longrightarrow> capacity_steps refs G L (snd s) (snd s')"
proof (induction left arbitrary: s)
  case (Suc left)
  obtain k t where s: "s = (k, t)" by fastforce
  let ?i = "\<lparr>e_now = nows env k, ownerId = owner, leaseMs = ms, limit = 1\<rparr>"
  have other: "capacity_steps refs G L t (others env k t)" using env by (simp add: neighbourly_def)
  show ?case
  proof (cases "stopping env k")
    case False
    show ?thesis
    proof (cases "claimExpired (locks env k) (uuids env k) ?i (others env k t)")
      case (Inl e)
      with False Suc.prems s other show ?thesis by auto
    next
      case (Inr x)
      obtain claims t1 where x: "x = (claims, t1)" by fastforce
      have first: "capacity_steps refs G L t t1" using steps_other [OF env step_claimExpired] Inr x by blast
      consider "s' = (k + 1, t1)" | c key where "giveBack env c key (k + 1, t1) = (r, s')"
        | c key where "processClaim env ms c key (k + 1, t1) = (r, s')"
        | c key u s1 where "processClaim env ms c key (k + 1, t1) = (Inr u, s1)" "sweepLoop sha toIso env owner ms left s1 = (r, s')"
        using Suc.prems s False Inr x by (auto simp: Let_def split: list.splits if_splits prod.splits sum.splits)
      then show ?thesis
      proof cases
        case 1
        with first s show ?thesis by simp
      next
        case (2 c key)
        from rtranclp_trans [OF first] giveBack_steps [OF env 2] s show ?thesis by simp
      next
        case (3 c key)
        from rtranclp_trans [OF first] processClaim_steps [OF env 3] s show ?thesis by simp
      next
        case (4 c key u s1)
        from rtranclp_trans [OF first] rtranclp_trans [OF processClaim_steps [OF env 4(1)] Suc.IH [OF 4(2)]] s
        show ?thesis by simp
      qed
    qed
  qed (use Suc.prems s in auto)
qed simp

text \<open>
  Replicas of the service running the governor's operations.  A replica's global limit is at
  most \<open>G\<close> and the limits service answers at most \<open>L org\<close>; while a replica sweeps, the others go on.
\<close>

inductive governor_step :: "refs \<Rightarrow> nat \<Rightarrow> (string \<Rightarrow> nat) \<Rightarrow> table \<Rightarrow> table \<Rightarrow> bool" for refs G L where
  governor_admit: "admit refs g limits now i t = (r, t') \<Longrightarrow> g \<le> G \<Longrightarrow>
    (\<And>v n. limits (organizationId i) = Some v \<Longrightarrow> OrganizationLimitsSchema v = Some n \<Longrightarrow> n \<le> L (organizationId i)) \<Longrightarrow>
    governor_step refs G L t t'"
| governor_release: "governorRelease now ws org key t = (r, t') \<Longrightarrow> governor_step refs G L t t'"
| governor_terminateAll: "terminateAll sha tm audit terminate i t = (r, t', h) \<Longrightarrow> governor_step refs G L t t'"
| governor_sweep: "neighbourly refs G L env \<Longrightarrow> sweepExpired sha toIso env owner ms n t = (r, t') \<Longrightarrow> governor_step refs G L t t'"

lemma admit_steps:
  assumes "admit refs g limits now i t = (r, t')" and "g \<le> G"
    and "\<And>v n. limits (organizationId i) = Some v \<Longrightarrow> OrganizationLimitsSchema v = Some n \<Longrightarrow> n \<le> L (organizationId i)"
  shows "capacity_steps refs G L t t'"
proof -
  consider "t' = t" | v n d where "limits (organizationId i) = Some v" "OrganizationLimitsSchema v = Some n"
      "claim refs (claimFor i now g n) t = Inr (d, t')"
    using assms(1) by (auto simp: admit_def split: if_splits option.splits sum.splits admission_decision.splits)
  then show ?thesis
  proof cases
    case (2 v n d)
    then have "capacity_step refs G L t t'" using assms(2,3) by (intro step_claim [OF 2(3)]) (auto simp: claimFor_def)
    then show ?thesis by blast
  qed simp
qed

lemma terminateEach_steps:
  "terminateEach sha tm terminate i cs n t h = (r, t', h') \<Longrightarrow> capacity_steps refs G L t t'"
proof (induction cs arbitrary: n t h)
  case (Cons c cs)
  let ?key = "childOperationKey sha (ta_operationKey i) (''terminate-all:'' @ workspaceId c)"
  show ?case
  proof (cases "release (tm (workspaceId c)) (workspaceId c) (ta_organizationId i) ?key t")
    case (Inl e)
    with Cons.prems show ?thesis by (auto simp: Let_def split: if_splits)
  next
    case (Inr t1)
    with Cons.prems consider "t' = t" | "terminateEach sha tm terminate i cs (n + 1) t1 (h @ [Terminate c ?key]) = (r, t', h')"
      by (auto simp: Let_def split: if_splits)
    then show ?thesis
    proof cases
      case 2
      from converse_rtranclp_into_rtranclp [OF step_release [OF Inr] Cons.IH [OF 2]] show ?thesis .
    qed simp
  qed
qed simp

lemma governor_step_steps: "governor_step refs G L t t' \<Longrightarrow> capacity_steps refs G L t t'"
proof (induction rule: governor_step.induct)
  case (governor_admit g limits now i t r t')
  then show ?case by (rule admit_steps)
next
  case (governor_release now ws org key t r t')
  then show ?case by (auto simp: governorRelease_def intro: step_release split: sum.splits)
next
  case (governor_terminateAll sha tm audit terminate i t r t' h)
  then show ?case
    by (auto simp: terminateAll_def intro: terminateEach_steps split: option.splits if_splits sum.splits)
next
  case (governor_sweep env sha toIso owner ms n t r t')
  then show ?case using sweepLoop_steps [OF governor_sweep(1), of sha toIso owner ms n "(0, t)"]
    by (auto simp: sweepExpired_def split: prod.splits)
qed

section \<open>An undisturbed sweep\<close>

text \<open>No other replica acts, nothing stops the sweep, the sandboxes terminate, and dates stay in range.\<close>

definition quiet :: "sweep_env \<Rightarrow> int \<Rightarrow> nat \<Rightarrow> bool" where
  "quiet env now ms \<longleftrightarrow>
     (\<forall>k. others env k = id \<and> nows env k = now \<and> dateOk (clock env k + int ms) \<and> locks env k = (\<lambda>_. False) \<and>
       \<not> stopping env k \<and> (\<forall>c. actionOk env k c))"

definition onlyAt :: "string \<Rightarrow> table \<Rightarrow> table \<Rightarrow> bool" where
  "onlyAt w = list_all2 (\<lambda>r r'. workspaceId r' = workspaceId r \<and> (workspaceId r \<noteq> w \<longrightarrow> r' = r))"

lemma onlyAt_refl: "onlyAt w t t"
  by (simp add: onlyAt_def list.rel_refl)

lemma onlyAt_trans: "onlyAt w t u \<Longrightarrow> onlyAt w u v \<Longrightarrow> onlyAt w t v"
  unfolding onlyAt_def by (erule list_all2_trans [rotated], assumption) auto

lemma onlyAt_update: "(\<And>r. p r \<Longrightarrow> workspaceId r = w) \<Longrightarrow> (\<And>r. workspaceId (f r) = workspaceId r) \<Longrightarrow>
    onlyAt w t (map (\<lambda>r. if p r then f r else r) t)"
  by (auto simp: onlyAt_def list_all2_conv_all_nth)

lemma onlyAt_freed:
  assumes "onlyAt w t t'" and "\<And>r. r \<in> set t' \<Longrightarrow> workspaceId r = w \<Longrightarrow> \<not> active r"
  shows "filter (expired now) t' = filter (\<lambda>r. workspaceId r \<noteq> w) (filter (expired now) t)"
  using assms unfolding onlyAt_def
proof (induction rule: list_all2_induct)
  case (Cons r t r' t')
  then show ?case by (cases "workspaceId r = w") (auto simp: expired_def)
qed simp

lemma list_ex_update: "p r \<Longrightarrow> q (f r) \<Longrightarrow> r \<in> set t \<Longrightarrow> list_ex q (map (\<lambda>r. if p r then f r else r) t)"
  by (auto simp: list_ex_iff)

lemma mem_update: "r \<in> set (map (\<lambda>r. if p r then f r else r) t) \<Longrightarrow> \<exists>s\<in>set t. r = (if p s then f s else s)"
  by auto

lemma renew_quiet:
  assumes "quiet env now ms" and "tableOk t" and "fenceOk w token" "0 < ms" and held: "list_ex (holds w token) t"
    and "workspaceId c = w" "x_leaseToken c = token"
  obtains t' where "renew env ms c (k, t) = (Some True, (k + 1, t'))" "tableOk t'" "list_ex (holds w token) t'" "onlyAt w t t'"
proof -
  let ?f = "\<lambda>r :: admission. r\<lparr>leaseExpiresAt := Some (clock env k + int ms)\<rparr>"
  let ?t = "map (\<lambda>r. if holds w token r then ?f r else r) t"
  obtain r where r: "r \<in> set t" "holds w token r" using held by (auto simp: list_ex_iff)
  have "distinct t" using assms(2) by (simp add: tableOk_def distinct_map)
  then have "filter (holds w token) t = [r]"
    using r tableOk_unique(1) [OF assms(2)] unfolding holds_def
    by (intro distinct_filter_singleton [OF _ r(1)]) metis+
  moreover have ev: "\<And>s. s \<in> set t \<Longrightarrow> holds w token s \<Longrightarrow> evolves s (?f s)"
    using tableOk_row [OF assms(2)] by (auto simp: holds_def intro: evolves_updates(4))
  ultimately have "renewExpired (clock env k) w token ms t = Inr (True, ?t)"
    using updateRows_ok(1) [OF assms(2) ev] assms(1,3,4) by (simp add: renewExpired_def quiet_def)
  then have "renew env ms c (k, t) = (Some True, (k + 1, ?t))" using assms(1,6,7) by (simp add: renew_def quiet_def)
  moreover have "tableOk ?t" using evolved_tableOk [OF updateRows_ok(2) [OF assms(2) ev] assms(2)] .
  moreover have "list_ex (holds w token) ?t" 
    using r list_ex_update [of "holds w token" r "holds w token" ?f t] by (simp add: holds_def)
  moreover have "onlyAt w t ?t" by (rule onlyAt_update) (auto simp: holds_def)
  ultimately show thesis by (rule that)
qed

lemma ticks_quiet:
  assumes "quiet env now ms" and "fenceOk w token" "0 < ms" and "workspaceId c = w" "x_leaseToken c = token"
  shows "tableOk t \<Longrightarrow> list_ex (holds w token) t \<Longrightarrow>
    \<exists>k' t'. ticks env ms c n (k, t) = (False, (k', t')) \<and> tableOk t' \<and> list_ex (holds w token) t' \<and> onlyAt w t t'"
proof (induction n arbitrary: k t)
  case 0
  then show ?case by (simp add: onlyAt_refl)
next
  case (Suc n)
  obtain t1 where t1: "renew env ms c (k, t) = (Some True, (k + 1, t1))" "tableOk t1" "list_ex (holds w token) t1" "onlyAt w t t1"
    using renew_quiet [OF assms(1) Suc.prems(1) assms(2,3) Suc.prems(2) assms(4,5)] by blast
  from Suc.IH [OF t1(2,3), of "k + 1"] t1(1,4) show ?case by (auto intro: onlyAt_trans)
qed

lemma processClaim_quiet:
  assumes "quiet env now ms" and "tableOk t" "0 < ms" and held: "list_ex (holds w token) t" and "fenceOk w token"
    and key: "opKeySchema key" and c: "workspaceId c = w" "x_leaseToken c = token"
  shows "\<exists>k' t'. processClaim env ms c key (k, t) = (Inr (), (k', t')) \<and> tableOk t' \<and> onlyAt w t t' \<and>
    (\<forall>r\<in>set t'. workspaceId r = w \<longrightarrow> \<not> active r)"
proof -
  obtain k1 t1 where t1: "ticks env ms c (tickCount env k) (k, t) = (False, (k1, t1))" "tableOk t1" "list_ex (holds w token) t1" "onlyAt w t t1"
    using ticks_quiet [OF assms(1,5,3) c assms(2) held] by blast
  obtain t2 where t2: "renew env ms c (k1, t1) = (Some True, (k1 + 1, t2))" "tableOk t2" "list_ex (holds w token) t2" "onlyAt w t1 t2"
    using renew_quiet [OF assms(1) t1(2) assms(5,3) t1(3) c] by blast
  let ?now = "clock env (k1 + 1)"
  define t3 where "t3 = map (\<lambda>r. if holds w token r then released ?now r else r) t2"
  have "completeExpired ?now w token key t2 = (Inr (), t3)"
    using fenced_ok(2) [OF t2(2) evolves_updates(1) assms(5) key] t2(3) by (simp add: completeExpired_def t3_def)
  then have run: "processClaim env ms c key (k, t) = (Inr (), (k1 + 2, t3))"
    using t1(1) t2(1) c assms(1) by (simp add: processClaim_def complete_def quiet_def)
  have "tableOk t3" unfolding t3_def
    by (rule evolved_tableOk [OF updateRows_ok(2) [OF t2(2)] t2(2)]) (auto intro: evolves_updates(1) tableOk_row [OF t2(2)])
  moreover have "onlyAt w t t3"
    unfolding t3_def by (rule onlyAt_trans [OF onlyAt_trans [OF t1(4) t2(4)] onlyAt_update]) (auto simp: holds_def)
  moreover have "\<not> active r" if mem: "r \<in> set t3" and ws: "workspaceId r = w" for r
  proof -
    obtain s where s: "s \<in> set t2" "r = (if holds w token s then released ?now s else s)" 
      using mem_update [OF mem [unfolded t3_def]] by blast
    obtain h where h: "h \<in> set t2" "holds w token h" using t2(3) by (auto simp: list_ex_iff)
    have "workspaceId s = w" using ws s(2) by (auto split: if_splits)
    with h tableOk_unique(1) [OF t2(2) s(1) h(1)] have "holds w token s" by (simp add: holds_def)
    with s(2) show ?thesis by simp
  qed
  ultimately show ?thesis using run by blast
qed

text \<open>One round of the loop on a table with a slot that is due.\<close>

lemma claimOne:
  assumes "tableOk t" and "dateOk now" "owner \<noteq> []" "0 < ms" "dateOk (now + int ms)"
    and due: "filter (expired now) t \<noteq> []"
  obtains c t' where "claimExpired (\<lambda>_. False) uuid \<lparr>e_now = now, ownerId = owner, leaseMs = ms, limit = 1\<rparr> t = Inr ([c], t')"
    "tableOk t'" "list_ex (holds (workspaceId c) (x_leaseToken c)) t'" "fenceOk (workspaceId c) (x_leaseToken c)"
    "\<exists>r\<in>set t. expired now r \<and> workspaceId r = workspaceId c" "onlyAt (workspaceId c) t t'"
proof -
  let ?i = "\<lparr>e_now = now, ownerId = owner, leaseMs = ms, limit = 1\<rparr>"
  have "candidates (\<lambda>_. False) now 1 t \<noteq> []" using due by (simp add: candidates_def) (metis length_sort length_0_conv)
  moreover have "length (candidates (\<lambda>_. False) now 1 t) \<le> 1" by (simp add: candidates_def)
  ultimately obtain d where d: "candidates (\<lambda>_. False) now 1 t = [d]"
    by (cases "candidates (\<lambda>_. False) now 1 t") auto
  have row: "d \<in> set t" "expired now d" using candidates_rows(1) [OF assms(1), of "\<lambda>_. False" now 1] d by auto
  let ?tok = "owner @ '':'' @ uuid (workspaceId d)" and ?e = "now + int ms"
  let ?t = "map (\<lambda>r. if workspaceId r = workspaceId d then leased owner ?tok ?e r else r) t"
  have active: "active d" using row(2) by (simp add: expired_def)
  obtain r where r: "r \<in> set t" "workspaceId r = workspaceId d"
      "updateRows (\<lambda>r. workspaceId r = workspaceId d) (leased owner ?tok ?e) t = Inr ([leased owner ?tok ?e r], ?t)"
      and ev: "evolved t ?t"
    using lease_row [OF assms(1), where w = "workspaceId d" and owner = owner and token = ?tok and expiry = ?e] row(1) active by blast
  have "r = d" using tableOk_unique(1) [OF assms(1) r(1) row(1) r(2)] .
  obtain c where c: "expiredClaim (leased owner ?tok ?e d) = Inr c" "workspaceId c = workspaceId d" "x_leaseToken c = ?tok"
    using expiredClaim_leased [OF tableOk_row [OF assms(1) row(1)] active, where token = ?tok and owner = owner and expiry = ?e] by auto
  have run: "claimExpired (\<lambda>_. False) uuid ?i t = Inr ([c], ?t)"
    using d r(3) c(1) assms(2-5) by (simp add: claimExpired_def ClaimExpiredInputSchema_def Let_def \<open>r = d\<close>)
  have "list_ex (holds (workspaceId c) (x_leaseToken c)) ?t"
    using list_ex_update [of "\<lambda>r. workspaceId r = workspaceId d" d "holds (workspaceId c) (x_leaseToken c)" "leased owner ?tok ?e" t] row(1) active c
    by (simp add: holds_def leased_def)
  moreover have "fenceOk (workspaceId c) (x_leaseToken c)"
    using tableOk_row [OF assms(1) row(1)] c by (simp add: fenceOk_def row_defs)
  moreover have "onlyAt (workspaceId c) t ?t" unfolding c(2) by (rule onlyAt_update) (simp_all add: leased_def)
  ultimately show thesis using that [OF run evolved_tableOk [OF ev assms(1)]] row c(2) by auto
qed

lemma onlyAt_settles:
  assumes at: "onlyAt w t t'" and "tableOk t" and r: "r \<in> set t" "expired now r" "workspaceId r = w"
    and freed: "\<And>r. r \<in> set t' \<Longrightarrow> workspaceId r = w \<Longrightarrow> \<not> active r"
  shows "list_all2 (\<lambda>r r'. workspaceId r' = workspaceId r \<and> (\<not> expired now r \<longrightarrow> r' = r) \<and>
    (expired now r \<longrightarrow> r' = r \<or> \<not> active r')) t t'"
  unfolding list_all2_conv_all_nth
proof (intro conjI allI impI)
  show len: "length t = length t'" using at by (simp add: onlyAt_def list_all2_lengthD)
  fix j assume j: "j < length t"
  have step: "workspaceId (t' ! j) = workspaceId (t ! j)" "workspaceId (t ! j) \<noteq> w \<Longrightarrow> t' ! j = t ! j"
    using list_all2_nthD [OF at [unfolded onlyAt_def] j] by auto
  then show "workspaceId (t' ! j) = workspaceId (t ! j)" by simp
  show "t' ! j = t ! j" if "\<not> expired now (t ! j)"
    using step(2) that r tableOk_unique(1) [OF assms(2) nth_mem [OF j] r(1)] by metis
  show "t' ! j = t ! j \<or> \<not> active (t' ! j)"
    using step freed [of "t' ! j"] j len by (metis nth_mem)
qed

lemma sweepLoop_quiet:
  assumes sha: "\<And>s. length (sha s) = 64 \<and> list_all is_hex (sha s)" and quiet: "quiet env now ms"
    and times: "dateOk now" "dateOk (now + int ms)" and "owner \<noteq> []" "0 < ms"
  shows "tableOk t \<Longrightarrow> length (filter (expired now) t) \<le> left \<Longrightarrow>
    \<exists>k' t'. sweepLoop sha toIso env owner ms left (k, t) = (Inr (), (k', t')) \<and> filter (expired now) t' = [] \<and>
      list_all2 (\<lambda>r r'. workspaceId r' = workspaceId r \<and> (\<not> expired now r \<longrightarrow> r' = r) \<and> (expired now r \<longrightarrow> \<not> active r')) t t'"
proof (induction left arbitrary: k t)
  case 0
  then show ?case by (auto simp: list_all2_same filter_empty_conv)
next
  case (Suc left)
  have env: "\<not> stopping env k" "others env k t = t" "nows env k = now" "locks env k = (\<lambda>_. False)" for k t
    using quiet by (simp_all add: quiet_def)
  let ?i = "\<lparr>e_now = now, ownerId = owner, leaseMs = ms, limit = 1\<rparr>"
  show ?case
  proof (cases "filter (expired now) t = []")
    case True
    then have "claimExpired (\<lambda>_. False) (uuids env k) ?i t = Inr ([], t)"
      using times assms(5,6) by (simp add: claimExpired_def ClaimExpiredInputSchema_def candidates_def)
    with True env show ?thesis by (auto simp: list_all2_same filter_empty_conv)
  next
    case False
    then obtain c t1 where c: "claimExpired (\<lambda>_. False) (uuids env k) ?i t = Inr ([c], t1)" "tableOk t1"
        "list_ex (holds (workspaceId c) (x_leaseToken c)) t1" "fenceOk (workspaceId c) (x_leaseToken c)"
        "\<exists>r\<in>set t. expired now r \<and> workspaceId r = workspaceId c" "onlyAt (workspaceId c) t t1"
      using claimOne [OF Suc.prems(1) times(1) assms(5,6) times(2)] by blast
    define key where "key = childOperationKey sha (''op_'' @ sha (runId c @ '':'' @ toIso (t_deadlineAt c))) (''wall-clock:'' @ workspaceId c)"
    have "opKeySchema key" unfolding key_def by (rule childOperationKey_valid [OF sha])
    from processClaim_quiet [OF quiet c(2) assms(6) c(3,4) this refl refl, of "k + 1"]
    obtain k2 t2 where t2: "processClaim env ms c key (k + 1, t1) = (Inr (), (k2, t2))" "tableOk t2" "onlyAt (workspaceId c) t1 t2"
        "\<And>r. r \<in> set t2 \<Longrightarrow> workspaceId r = workspaceId c \<Longrightarrow> \<not> active r" by blast
    have at: "onlyAt (workspaceId c) t t2" using onlyAt_trans [OF c(6) t2(3)] .
    have due: "filter (expired now) t2 = filter (\<lambda>r. workspaceId r \<noteq> workspaceId c) (filter (expired now) t)"
      by (rule onlyAt_freed [OF at t2(4)])
    obtain r where r: "r \<in> set t" "expired now r" "workspaceId r = workspaceId c" using c(5) by blast
    then have "length (filter (expired now) t2) < length (filter (expired now) t)"
      unfolding due by (intro length_filter_less [of r]) auto
    then have "length (filter (expired now) t2) \<le> left" using Suc.prems(2) by simp
    from Suc.IH [OF t2(2) this, of k2] obtain k' t' where t':
        "sweepLoop sha toIso env owner ms left (k2, t2) = (Inr (), (k', t'))" "filter (expired now) t' = []"
        "list_all2 (\<lambda>r r'. workspaceId r' = workspaceId r \<and> (\<not> expired now r \<longrightarrow> r' = r) \<and> (expired now r \<longrightarrow> \<not> active r')) t2 t'"
      by blast
    have "list_all2 (\<lambda>r r'. workspaceId r' = workspaceId r \<and> (\<not> expired now r \<longrightarrow> r' = r) \<and> (expired now r \<longrightarrow> \<not> active r')) t t'"
      by (rule list_all2_trans [OF _ onlyAt_settles [OF at Suc.prems(1) r t2(4)] t'(3)]) (auto simp: expired_def)
    moreover have "sweepLoop sha toIso env owner ms (Suc left) (k, t) = (Inr (), (k', t'))"
      using c(1) t2(1) [unfolded key_def] t'(1) by (simp add: env Let_def)
    ultimately show ?thesis using t'(2) by blast
  qed
qed

section \<open>Properties\<close>

text \<open>
  Terminating an organization drains exactly that organization.  When the request is
  valid, the audit record is accepted and the sandboxes terminate, the governor answers with the
  number of active slots the organization had, asks for the termination of each of them once and
  only after the audit record was made, leaves the organization with no active slot, and leaves
  the slots of every other organization as they were.
\<close>

theorem terminateAll_drains:
  assumes sha: "\<And>s. length (sha s) = 64 \<and> list_all is_hex (sha s)" and "tableOk t"
    and "GovernorTerminateAllInputSchema v = Some i" and "audit i" and "\<And>c. terminate c"
  shows "\<exists>t' cs. terminateAll sha tm audit terminate v t =
      (Inr (activeIn (ta_organizationId i) t), t', Record_terminate_all i #
        map (\<lambda>c. Terminate c (childOperationKey sha (ta_operationKey i) (''terminate-all:'' @ workspaceId c))) cs) \<and>
    mset (map workspaceId cs) = mset (slotsOf (ta_organizationId i) t) \<and> tableOk t' \<and>
    (\<forall>org. slotsOf org t' = (if org = ta_organizationId i then [] else slotsOf org t))"
proof -
  let ?org = "ta_organizationId i"
  have valid: "idSchema ''org'' ?org" "opKeySchema (ta_operationKey i)"
    using assms(3) by (auto simp: GovernorTerminateAllInputSchema_def Let_def split: if_splits)
  obtain cs where cs: "listOrganization ?org (ta_operationKey i) t = Inr cs"
      "\<And>c. c \<in> set cs \<Longrightarrow> organizationId c = ?org \<and> idSchema ''ws'' (workspaceId c)"
      "mset (map workspaceId cs) = mset (slotsOf ?org t)"
    using listOrganization_ok [OF assms(2) valid] by blast
  define t' where "t' = fold (\<lambda>w. freed (tm w) w ?org) (map workspaceId cs) t"
  have "length cs = activeIn ?org t" using mset_eq_length [OF cs(3)] by (simp add: slotsOf_def activeIn_def)
  then have run: "terminateAll sha tm audit terminate v t =
      (Inr (activeIn ?org t), t', Record_terminate_all i #
        map (\<lambda>c. Terminate c (childOperationKey sha (ta_operationKey i) (''terminate-all:'' @ workspaceId c))) cs)"
    using terminateEach_ok [OF sha valid(1) assms(2), where cs = cs and terminate = terminate and tm = tm and n = 0] cs(2) assms(3-5)
    by (simp add: terminateAll_def cs(1) t'_def)
  have "set (slotsOf ?org t) \<subseteq> set (map workspaceId cs)" using cs(3) by (metis set_mset_mset order_refl)
  then have "slotsOf ?org t' = []" unfolding t'_def by (rule repository.drained [OF assms(2)])
  moreover have "slotsOf org t' = slotsOf org t" if "org \<noteq> ?org" for org
    using that unfolding t'_def by (simp add: repository.slots_freeAll [OF assms(2)] del: fold_simps)
  moreover have "tableOk t'" unfolding t'_def by (rule repository.freeAll_ok [OF assms(2)])
  ultimately show ?thesis using run cs(3) by auto
qed

text \<open>
  C18.  The governor never overbooks.  However replicas interleave admissions, releases,
  terminations of whole organizations and expiry sweeps, no more slots are active than the
  largest global limit any of them was given, and no more in an organization than the limits
  service ever answered for it.
\<close>

theorem governor_within_limits:
  assumes "(governor_step refs G L)\<^sup>*\<^sup>* [] t"
  shows "activeRows t \<le> G \<and> activeIn org t \<le> L org"
proof -
  from assms have "capacity_steps refs G L [] t"
    by (induction rule: rtranclp_induct) (auto intro: rtranclp_trans governor_step_steps)
  then show ?thesis by (rule steps_within_limits)
qed

text \<open>
  A sweep that nothing disturbs frees every slot that is past its deadline.  If no other
  replica acts, nothing stops it, the sandboxes terminate and there are no more due slots than
  the sweep limit, then however often the renewal timer ticks the sweep ends without an error,
  every slot that was due is free, no slot is due any more, and the other slots are as before.
\<close>

theorem sweep_frees_due_slots:
  assumes sha: "\<And>s. length (sha s) = 64 \<and> list_all is_hex (sha s)" and "quiet env now ms"
    and "dateOk now" "dateOk (now + int ms)" and "owner \<noteq> []" "0 < ms"
    and "tableOk t" and "length (filter (expired now) t) \<le> sweepLimit"
  shows "\<exists>t'. sweepExpired sha toIso env owner ms sweepLimit t = (Inr (), t') \<and> filter (expired now) t' = [] \<and>
    list_all2 (\<lambda>r r'. workspaceId r' = workspaceId r \<and> (\<not> expired now r \<longrightarrow> r' = r) \<and> (expired now r \<longrightarrow> \<not> active r')) t t'"
  using sweepLoop_quiet [where sha = sha, OF assms, where toIso = toIso and k = 0] by (auto simp: sweepExpired_def)

section \<open>A sample run\<close>

definition sample_env :: sweep_env where
  "sample_env = \<lparr>others = (\<lambda>_. id), nows = (\<lambda>_. 2000), clock = (\<lambda>_. 2001), uuids = (\<lambda>_ _. ''u1''), locks = (\<lambda>_ _. False),
     stopping = (\<lambda>_. False), tickCount = (\<lambda>_. 2), actionOk = (\<lambda>_ _. True)\<rparr>"

definition sample_digest :: "string \<Rightarrow> string" where
  "sample_digest s = replicate 64 CHR ''a''"

definition sample_terminate :: terminate_all_input where
  "sample_terminate = \<lparr>ta_organizationId = organizationId sample_claim, actorUserId = ''user_01J8ME7YQZJ2V9Q0X3T5B6K7N9'',
     ta_reason = ''runaway compute'', ta_operationKey = sample_key\<rparr>"

lemma sample_digest_valid: "length (sample_digest s) = 64 \<and> list_all is_hex (sample_digest s)"
  by (simp add: sample_digest_def is_hex_def is_digit_def list_all_iff)

lemma sample_terminate_valid: "GovernorTerminateAllInputSchema sample_terminate = Some sample_terminate"
  by (simp add: GovernorTerminateAllInputSchema_def sample_terminate_def sample_claim_def sample_key_def Let_def idSchema_def
      is_ulid_char_def is_digit_def is_hex_def trim_def is_space_def opKeySchema_def list_all_iff)

theorem terminateAll_drains_witness:
  "\<exists>t' h. terminateAll sample_digest (\<lambda>_. 2001) (\<lambda>_. True) (\<lambda>_. True) sample_terminate [admittedRow sample_claim 1500] = (Inr 1, t', h) \<and>
     slotsOf (organizationId sample_claim) t' = []"
proof -
  have "activeIn (ta_organizationId sample_terminate) [admittedRow sample_claim 1500] = 1"
    "ta_organizationId sample_terminate = organizationId sample_claim"
    by (simp_all add: sample_terminate_def activeIn_def admittedRow_def)
  then show ?thesis
    using terminateAll_drains [OF sample_digest_valid sample_tableOk sample_terminate_valid,
        where audit = "\<lambda>_. True" and terminate = "\<lambda>_. True" and tm = "\<lambda>_. 2001"]
    by fastforce
qed

definition sample_admission :: admission_input where
  "sample_admission = admission_input.truncate sample_claim"

lemma sample_admit:
  "\<exists>t. admit (\<lambda>_ _ _. True) 1 (\<lambda>_. Some (JObject [(''concurrentSandboxes'', JNum 1)])) 1000 sample_admission [] =
     (Inr (Is_admitted 14401000), t) \<and> activeRows t = 1"
proof -
  let ?i = "claimFor sample_admission 1000 1 1"
  have schema: "GovernorAdmissionInputSchema sample_admission"
    using sample_claim_valid by (simp add: GovernorClaimInputSchema_def row_defs sample_admission_def admission_input.defs)
  then have "GovernorClaimInputSchema ?i"
    by (simp add: GovernorClaimInputSchema_def row_defs claimFor_def dateOk_def budgetForPurpose_def
        INTERACTIVE_RUN_BUDGET_MS_def AUTONOMOUS_RUN_BUDGET_MS_def HOUR_MS_def)
  moreover have "c_requestedAt ?i + int (budgetMs ?i) = 14401000" "globalLimit ?i = 1" "organizationLimit ?i = 1"
    by (simp_all add: claimFor_def budgetForPurpose_def INTERACTIVE_RUN_BUDGET_MS_def HOUR_MS_def sample_admission_def
        sample_claim_def admission_input.defs)
  ultimately have claim: "claim (\<lambda>_ _ _. True) ?i [] = Inr (Is_admitted 14401000, [admittedRow ?i 14401000])"
    by (simp add: claim_def Let_def insertRow_def dateOk_def shapeCheck_def leaseCheck_def admittedRow_def activeRows_def activeIn_def)
  have "OrganizationLimitsSchema (JObject [(''concurrentSandboxes'', JNum 1)]) = Some 1"
    by (simp add: OrganizationLimitsSchema_def strictObject_def property_def getOr_def)
  then show ?thesis using schema claim by (simp add: admit_def activeRows_def admittedRow_def)
qed

theorem governor_within_limits_witness:
  "\<exists>t. (governor_step (\<lambda>_ _ _. True) 1 (\<lambda>_. 1))\<^sup>*\<^sup>* [] t \<and> activeRows t = 1 \<and> activeRows t \<le> 1"
proof -
  obtain t where t: "admit (\<lambda>_ _ _. True) 1 (\<lambda>_. Some (JObject [(''concurrentSandboxes'', JNum 1)])) 1000 sample_admission [] =
      (Inr (Is_admitted 14401000), t)" "activeRows t = 1" using sample_admit by blast
  have "governor_step (\<lambda>_ _ _. True) 1 (\<lambda>_. 1) [] t"
    by (rule governor_admit [OF t(1)]) (auto simp: OrganizationLimitsSchema_def strictObject_def property_def getOr_def)
  then have run: "(governor_step (\<lambda>_ _ _. True) 1 (\<lambda>_. 1))\<^sup>*\<^sup>* [] t" by blast
  from governor_within_limits [OF run] run t(2) show ?thesis by blast
qed

theorem sweep_frees_due_slots_witness:
  "\<exists>t'. sweepExpired sample_digest (\<lambda>_. ''d'') sample_env ''gov'' 60 1 [admittedRow sample_claim 1500] = (Inr (), t') \<and>
     filter (expired 2000) t' = []"
proof -
  have "quiet sample_env 2000 60" "dateOk 2000" "dateOk (2000 + int 60)" by (simp_all add: quiet_def sample_env_def dateOk_def)
  from sweep_frees_due_slots [where sha = sample_digest, OF sample_digest_valid this _ _ sample_tableOk,
      where owner = "''gov''" and sweepLimit = 1 and toIso = "\<lambda>_. ''d''"]
  have "length (filter (expired 2000) [admittedRow sample_claim 1500]) \<le> 1 \<Longrightarrow> ?thesis" by auto
  then show ?thesis using length_filter_le [of "expired 2000" "[admittedRow sample_claim 1500]"] by simp
qed

end
