(* ===== verification/Preview_Tokens.thy ===== *)
theory Preview_Tokens
  imports Identifiers "HOL-Library.Word"
begin

unbundle bit_operations_syntax

text \<open>
  Preview share credentials of the sandbox service
  (\<open>services/sandbox-service/src/preview/tokens.ts\<close>).  HMAC-SHA256 is the parameter \<open>mac\<close> (a key
  and a message give a digest) and Argon2 the parameters \<open>argonHash\<close> and \<open>argonVerify\<close>; where a
  call may reject they return an option.  The bit buffer of the Crockford encoder is the 32-bit
  integer JavaScript's shift operators work on.
\<close>

type_synonym byte = "8 word"

section \<open>Schemas\<close>

datatype token_error = Bad_input | Bad_output | Hash_rejected

definition CROCKFORD :: string where
  "CROCKFORD = ''0123456789abcdefghjkmnpqrstvwxyz''"

definition PreviewShareLocatorSchema :: "string \<Rightarrow> bool" where
  "PreviewShareLocatorSchema s \<longleftrightarrow> length s = 26 \<and> list_all (\<lambda>c. c \<in> set CROCKFORD) s"

definition SigningKeySchema :: "byte list \<Rightarrow> bool" where
  "SigningKeySchema key \<longleftrightarrow> 32 \<le> length key"

definition is_base64url :: "char \<Rightarrow> bool" where
  "is_base64url c \<longleftrightarrow> is_digit c \<or> (65 \<le> (of_char c :: nat) \<and> (of_char c :: nat) \<le> 90) \<or>
     (97 \<le> (of_char c :: nat) \<and> (of_char c :: nat) \<le> 122) \<or> c = CHR ''_'' \<or> c = CHR ''-''"

definition secretOf :: "string \<Rightarrow> string \<Rightarrow> bool" where
  "secretOf kind s \<longleftrightarrow> take 4 s = kind @ ''_'' \<and> length s = 47 \<and> list_all is_base64url (drop 4 s)"

definition BearerSchema :: "string \<Rightarrow> bool" where
  "BearerSchema s \<longleftrightarrow> secretOf ''psb'' s"

definition SecretSchema :: "string \<Rightarrow> bool" where
  "SecretSchema s \<longleftrightarrow> secretOf ''psb'' s \<or> secretOf ''pbg'' s \<or> secretOf ''pss'' s"

section \<open>Encoders\<close>

definition hmacMessage :: "string \<Rightarrow> string list \<Rightarrow> string" where
  "hmacMessage domain fields = domain @ [CHR 0x00] @ join [CHR 0x00] fields"

text \<open>The inner loop: whole groups of five bits leave the buffer.\<close>

fun emitDigits :: "32 word \<Rightarrow> nat \<Rightarrow> string \<Rightarrow> nat \<times> string" where
  "emitDigits buf bits out =
     (if 5 \<le> bits \<and> length out < 26 then
        let i = unat (drop_bit (bits - 5) buf AND 31) in
        emitDigits buf (bits - 5) (out @ (if i < length CROCKFORD then [CROCKFORD ! i] else []))
      else (bits, out))"

declare emitDigits.simps [simp del]

fun crockfordLoop :: "byte list \<Rightarrow> 32 word \<Rightarrow> nat \<Rightarrow> string \<Rightarrow> string" where
  "crockfordLoop [] buf bits out = out"
| "crockfordLoop (b # bs) buf bits out =
     (let buf' = push_bit 8 buf OR ucast b;
          (bits', out') = emitDigits buf' (bits + 8) out
      in if length out' = 26 then out' else crockfordLoop bs buf' bits' out')"

definition lowerCrockford :: "byte list \<Rightarrow> token_error + string" where
  "lowerCrockford bytes =
     (let output = crockfordLoop bytes 0 0 []
      in if PreviewShareLocatorSchema output then Inr output else Inl Bad_output)"

definition BASE64URL :: string where
  "BASE64URL = ''ABCDEFGHIJKLMNOPQRSTUVWXYZabcdefghijklmnopqrstuvwxyz0123456789-_''"

definition sextet :: "nat \<Rightarrow> char" where
  "sextet n = BASE64URL ! (n mod 64)"

text \<open>\<open>Buffer.toString('base64url')\<close>: four characters for three bytes, no padding.\<close>

fun base64url :: "byte list \<Rightarrow> string" where
  "base64url [] = []"
| "base64url [a] = [sextet (unat a div 4), sextet (unat a * 16)]"
| "base64url [a, b] = (let n = unat a * 256 + unat b in [sextet (n div 1024), sextet (n div 16), sextet (n * 4)])"
| "base64url (a # b # c # bs) =
     (let n = unat a * 65536 + unat b * 256 + unat c
      in sextet (n div 262144) # sextet (n div 4096) # sextet (n div 64) # sextet n # base64url bs)"

section \<open>Derivations\<close>

type_synonym mac = "byte list \<Rightarrow> string \<Rightarrow> byte list"

definition previewShareLocator :: "mac \<Rightarrow> string \<Rightarrow> string \<Rightarrow> string \<Rightarrow> byte list \<Rightarrow> token_error + string" where
  "previewShareLocator mac org ws key signingKey =
     (if \<not> (idSchema ''org'' org \<and> idSchema ''ws'' ws \<and> opKeySchema key \<and> SigningKeySchema signingKey) then Inl Bad_input
      else lowerCrockford (mac signingKey (hmacMessage ''zapp-preview-share-locator-v1'' [org, ws, key])))"

definition previewBearer :: "mac \<Rightarrow> string \<Rightarrow> string \<Rightarrow> nat \<Rightarrow> byte list \<Rightarrow> token_error + string" where
  "previewBearer mac org locator keyVersion signingKey =
     (if \<not> (idSchema ''org'' org \<and> PreviewShareLocatorSchema locator \<and> 0 < keyVersion \<and> SigningKeySchema signingKey) then Inl Bad_input
      else
        let s = ''psb_'' @ base64url (mac signingKey (hmacMessage ''zapp-preview-share-bearer-v1'' [org, locator, decimal keyVersion]))
        in if BearerSchema s then Inr s else Inl Bad_output)"

record preview_secret =
  bearer :: string
  secretHash :: string
  keyVersionOf :: nat

definition hashPreviewSecret :: "(string \<Rightarrow> string option) \<Rightarrow> string \<Rightarrow> token_error + string" where
  "hashPreviewSecret argonHash secret =
     (if \<not> SecretSchema secret then Inl Bad_input
      else case argonHash secret of None \<Rightarrow> Inl Hash_rejected | Some h \<Rightarrow> Inr h)"

definition createPreviewSecret ::
    "mac \<Rightarrow> (string \<Rightarrow> string option) \<Rightarrow> string \<Rightarrow> string \<Rightarrow> nat \<Rightarrow> byte list \<Rightarrow> token_error + preview_secret" where
  "createPreviewSecret mac argonHash org locator keyVersion signingKey =
     andThen (previewBearer mac org locator keyVersion signingKey) (\<lambda>b.
     andThen (hashPreviewSecret argonHash b) (\<lambda>h.
     if 0 < keyVersion then Inr \<lparr>bearer = b, secretHash = h, keyVersionOf = keyVersion\<rparr> else Inl Bad_input))"

definition verifyPreviewSecret :: "(string \<Rightarrow> string \<Rightarrow> bool option) \<Rightarrow> string \<Rightarrow> string \<Rightarrow> bool" where
  "verifyPreviewSecret argonVerify b tokenHash =
     (if \<not> SecretSchema b \<or> \<not> prefix ''$argon2id$'' tokenHash then False
      else case argonVerify tokenHash b of Some r \<Rightarrow> r | None \<Rightarrow> False)"

definition recoverPreviewBearer :: "mac \<Rightarrow> string \<Rightarrow> string \<Rightarrow> nat \<Rightarrow> byte list \<Rightarrow> token_error + string" where
  "recoverPreviewBearer = previewBearer"

definition derivePreviewGrant :: "mac \<Rightarrow> string \<Rightarrow> string \<Rightarrow> string \<Rightarrow> byte list \<Rightarrow> token_error + string" where
  "derivePreviewGrant mac org locator key signingKey =
     (if \<not> (idSchema ''org'' org \<and> PreviewShareLocatorSchema locator \<and> opKeySchema key \<and> SigningKeySchema signingKey) then Inl Bad_input
      else
        let s = ''pbg_'' @ base64url (mac signingKey (hmacMessage ''zapp-preview-bootstrap-grant-v1'' [org, locator, key]))
        in if SecretSchema s then Inr s else Inl Bad_output)"

definition derivePreviewSessionCredential ::
    "mac \<Rightarrow> string \<Rightarrow> string \<Rightarrow> string \<Rightarrow> byte list \<Rightarrow> token_error + (string \<times> string)" where
  "derivePreviewSessionCredential mac org locator grant signingKey =
     (if \<not> (idSchema ''org'' org \<and> PreviewShareLocatorSchema locator \<and> SecretSchema grant \<and> SigningKeySchema signingKey) then Inl Bad_input
      else
        let digest = mac signingKey (hmacMessage ''zapp-preview-session-v1'' [org, locator, grant]);
            s = ''pss_'' @ base64url digest
        in if SecretSchema s then Inr (base64url (take 16 digest), s) else Inl Bad_output)"

section \<open>The Crockford encoder\<close>

text \<open>The number a string of digits stands for, and the number the bytes stand for.\<close>

definition digitValue :: "char \<Rightarrow> nat" where
  "digitValue c = length (takeWhile (\<lambda>d. d \<noteq> c) CROCKFORD)"

definition readDigits :: "string \<Rightarrow> nat" where
  "readDigits s = foldl (\<lambda>n c. n * 32 + digitValue c) 0 s"

definition readBytes :: "byte list \<Rightarrow> nat" where
  "readBytes bs = foldl (\<lambda>n b. n * 256 + unat b) 0 bs"

lemma unat_shift_in:
  fixes v :: "32 word" and b :: "8 word"
  shows "unat (push_bit 8 v OR ucast b) = (unat v * 256 + unat b) mod 2 ^ 32"
proof -
  have "push_bit 8 v AND ucast b = 0" by (rule bit_eqI) (auto simp: bit_simps dest: bit_imp_le_length)
  then have "push_bit 8 v OR ucast b = push_bit 8 v + (ucast b :: 32 word)" by (simp add: disjunctive_add_eq_or)
  also have "\<dots> = of_nat (unat v * 256 + unat b)" by (simp add: push_bit_eq_mult)
  finally have eq: "push_bit 8 v OR ucast b = of_nat (unat v * 256 + unat b)" .
  show ?thesis unfolding eq by (simp add: unat_of_nat del: of_nat_add of_nat_mult)
qed

text \<open>The buffer holds the last 32 bits of what was read, enough for every digit.\<close>

lemma digit_at:
  fixes v :: "32 word"
  assumes "unat v = n mod 2 ^ 32" and "k + 5 \<le> 32"
  shows "unat (drop_bit k v AND 31) = n div 2 ^ k mod 32"
proof -
  have "drop_bit k v AND 31 = take_bit 5 (drop_bit k v)" by (simp add: take_bit_eq_mask mask_eq_exp_minus_1)
  then have "unat (drop_bit k v AND 31) = take_bit 5 (drop_bit k (unat v))"
    by (simp add: unsigned_take_bit_eq unat_drop_bit_eq)
  also have "\<dots> = take_bit 5 (drop_bit k (take_bit 32 n))" by (simp add: assms(1) take_bit_eq_mod)
  also have "\<dots> = take_bit 5 (drop_bit k n)" using assms(2) by (auto simp: bit_eq_iff bit_simps)
  finally show ?thesis by (simp add: take_bit_eq_mod drop_bit_eq_div)
qed

lemma crockford_digit:
  assumes "i < 32"
  shows "i < length CROCKFORD" "CROCKFORD ! i \<in> set CROCKFORD" "digitValue (CROCKFORD ! i) = i"
proof -
  show len: "i < length CROCKFORD" using assms by (simp add: CROCKFORD_def)
  then show "CROCKFORD ! i \<in> set CROCKFORD" by (rule nth_mem)
  have "distinct CROCKFORD" by (simp add: CROCKFORD_def)
  with len show "digitValue (CROCKFORD ! i) = i" unfolding digitValue_def
    by (metis first_index_def nth_first_index nth_eq_iff_index_eq nth_mem)
qed

lemma readDigits_snoc: "readDigits (s @ [c]) = readDigits s * 32 + digitValue c"
  by (simp add: readDigits_def)

lemma emitDigits_spec:
  "unat buf = n mod 2 ^ 32 \<Longrightarrow> emitDigits buf bits out = (bits', out') \<Longrightarrow> bits \<le> 32 \<Longrightarrow> readDigits out = n div 2 ^ bits \<Longrightarrow>
    set out \<subseteq> set CROCKFORD \<Longrightarrow> length out \<le> 26 \<Longrightarrow>
    readDigits out' = n div 2 ^ bits' \<and> set out' \<subseteq> set CROCKFORD \<and> length out' \<le> 26 \<and>
    5 * length out' + bits' = 5 * length out + bits \<and> (bits' < 5 \<or> length out' = 26)"
proof (induction buf bits out rule: emitDigits.induct)
  case (1 buf bits out)
  show ?case
  proof (cases "5 \<le> bits \<and> length out < 26")
    case False
    with 1 show ?thesis by (auto simp: emitDigits.simps [of buf bits out])
  next
    case True
    define i where "i = unat (drop_bit (bits - 5) buf AND 31)"
    have i: "i = n div 2 ^ (bits - 5) mod 32"
      unfolding i_def using True "1.prems"(1,3) by (intro digit_at) auto
    then have "i < 32" by simp
    note digit = crockford_digit [OF this]
    have "bits = (bits - 5) + 5" using True by simp
    then have "n div 2 ^ bits = n div (2 ^ (bits - 5) * 2 ^ 5)" by (metis power_add)
    then have "n div 2 ^ bits = n div 2 ^ (bits - 5) div 32" by (simp add: div_mult2_eq)
    then have "readDigits (out @ [CROCKFORD ! i]) = n div 2 ^ (bits - 5)"
      using "1.prems"(4) digit(3) i by (simp add: readDigits_snoc)
    moreover have "emitDigits buf (bits - 5) (out @ [CROCKFORD ! i]) = (bits', out')"
      using "1.prems"(2) True digit(1) by (simp add: emitDigits.simps [of buf bits out] i_def Let_def)
    ultimately show ?thesis
      using "1.IH" [OF True i_def "1.prems"(1)] digit(1,2) "1.prems"(3,5,6) True by (auto simp: i_def [symmetric])
  qed
qed

lemma readBytes_Cons: "foldl (\<lambda>n b. n * 256 + unat b) n bs = n * 2 ^ (8 * length bs) + readBytes (bs :: byte list)"
proof -
  have "foldl (\<lambda>n b. n * 256 + unat b) n bs = n * 256 ^ length bs + foldl (\<lambda>n b. n * 256 + unat b) 0 bs" for n and bs :: "byte list"
  proof (induction bs arbitrary: n)
    case (Cons b bs)
    show ?case using Cons [of "n * 256 + unat b"] Cons [of "unat b"] by (simp add: algebra_simps)
  qed simp
  moreover have "(256 :: nat) ^ length bs = 2 ^ (8 * length bs)" by (simp add: power_mult)
  ultimately show ?thesis unfolding readBytes_def by metis
qed

lemma readBytes_less: "readBytes bs < 2 ^ (8 * length bs)"
proof (induction bs)
  case (Cons b bs)
  have "unat b * 2 ^ (8 * length bs) + readBytes bs < (unat b + 1) * 2 ^ (8 * length bs)" using Cons by simp
  also have "\<dots> \<le> 2 ^ 8 * 2 ^ (8 * length bs)" using unsigned_less [of b, where 'a = nat] by (intro mult_right_mono) simp_all
  finally have "unat b * 2 ^ (8 * length bs) + readBytes bs < 2 ^ (8 * length (b # bs))" by (simp add: power_add)
  then show ?case using readBytes_Cons [of "unat b" bs] by (simp add: readBytes_def)
qed (simp add: readBytes_def)

lemma crockfordLoop_spec:
  "unat buf = n mod 2 ^ 32 \<Longrightarrow> readDigits out = n div 2 ^ bits \<Longrightarrow> set out \<subseteq> set CROCKFORD \<Longrightarrow> length out < 26 \<Longrightarrow> bits < 5 \<Longrightarrow>
   130 \<le> 5 * length out + bits + 8 * length bs \<Longrightarrow> crockfordLoop bs buf bits out = s \<Longrightarrow>
   length s = 26 \<and> set s \<subseteq> set CROCKFORD \<and>
   readDigits s = (n * 2 ^ (8 * length bs) + readBytes bs) div 2 ^ (5 * length out + bits + 8 * length bs - 130)"
proof (induction bs arbitrary: buf n bits out)
  case Nil
  then show ?case by simp
next
  case (Cons b bs)
  let ?v = "push_bit 8 buf OR ucast b" and ?n = "n * 256 + unat b"
  obtain bits' out' where e: "emitDigits ?v (bits + 8) out = (bits', out')" by fastforce
  have v: "unat ?v = ?n mod 2 ^ 32"
    unfolding unat_shift_in Cons.prems(1) by (metis mod_add_left_eq mod_mult_left_eq)
  have "?n div 2 ^ (bits + 8) = n div 2 ^ bits"
  proof -
    have "?n div 256 = n" using unsigned_less [of b, where 'a = nat] by simp
    moreover have "?n div 2 ^ (bits + 8) = ?n div (256 * 2 ^ bits)" by (simp add: power_add mult.commute)
    ultimately show ?thesis by (simp add: div_mult2_eq)
  qed
  then have out: "readDigits out' = ?n div 2 ^ bits'" "set out' \<subseteq> set CROCKFORD" "length out' \<le> 26"
      "5 * length out' + bits' = 5 * length out + (bits + 8)" "bits' < 5 \<or> length out' = 26"
    using emitDigits_spec [OF v e] Cons.prems(2-5) by simp_all
  have total: "n * 2 ^ (8 * length (b # bs)) + readBytes (b # bs) = ?n * 2 ^ (8 * length bs) + readBytes bs"
    using readBytes_Cons [of "unat b" bs] by (simp add: readBytes_def algebra_simps power_add)
  show ?case
  proof (cases "length out' = 26")
    case True
    then have s: "s = out'" using Cons.prems(7) e by (simp add: Let_def)
    have "(?n * 2 ^ (8 * length bs) + readBytes bs) div 2 ^ (8 * length bs) = ?n" using readBytes_less [of bs] by simp
    then have "(?n * 2 ^ (8 * length bs) + readBytes bs) div 2 ^ (8 * length bs + bits') = ?n div 2 ^ bits'"
      by (simp only: power_add div_mult2_eq)
    moreover have "5 * length out + bits + 8 * length (b # bs) - 130 = 8 * length bs + bits'" using out(4) True by simp
    ultimately show ?thesis using True out(1,2) unfolding s total by simp
  next
    case False
    with out have "length out' < 26" "bits' < 5" by auto
    moreover have "crockfordLoop bs ?v bits' out' = s" using Cons.prems(7) e False by (simp add: Let_def)
    ultimately show ?thesis using Cons.IH [OF v out(1,2)] out(4) Cons.prems(6) unfolding total by simp
  qed
qed

section \<open>Credentials have the shape their schemas ask for\<close>

lemma sextet_ok: "is_base64url (sextet n)"
proof -
  have "n mod 64 < length BASE64URL" by (simp add: BASE64URL_def)
  then have "sextet n \<in> set BASE64URL" unfolding sextet_def by (rule nth_mem)
  moreover have "list_all is_base64url BASE64URL" by (simp add: BASE64URL_def is_base64url_def is_digit_def)
  ultimately show ?thesis by (simp add: list_all_iff)
qed

lemma base64url_ok: "list_all is_base64url (base64url bs)"
  by (induction bs rule: base64url.induct) (simp_all add: sextet_ok Let_def)

lemma length_base64url: "length (base64url bs) = (4 * length bs + 2) div 3"
  by (induction bs rule: base64url.induct) (simp_all add: Let_def)

lemma secretOf_encoded: "length kind = 3 \<Longrightarrow> length bs = 32 \<Longrightarrow> secretOf kind (kind @ ''_'' @ base64url bs)"
  by (simp add: secretOf_def length_base64url base64url_ok)

lemmas secret_shapes = secretOf_encoded [of "''psb''", simplified] secretOf_encoded [of "''pbg''", simplified]
  secretOf_encoded [of "''pss''", simplified]

lemma lowerCrockford_ok:
  assumes "length bs = 32"
  obtains s where "lowerCrockford bs = Inr s" "PreviewShareLocatorSchema s" "readDigits s = readBytes bs div 2 ^ 126"
proof -
  define s where "s = crockfordLoop bs 0 0 []"
  have "length s = 26 \<and> set s \<subseteq> set CROCKFORD \<and> readDigits s = (0 * 2 ^ (8 * length bs) + readBytes bs) div 2 ^ (5 * length ([] :: string) + 0 + 8 * length bs - 130)"
    using assms s_def by (intro crockfordLoop_spec [of 0]) (auto simp: readDigits_def)
  then have shape: "PreviewShareLocatorSchema s" and "readDigits s = readBytes bs div 2 ^ 126"
    using assms by (auto simp: PreviewShareLocatorSchema_def list_all_iff)
  moreover have "lowerCrockford bs = Inr s" using shape by (simp add: lowerCrockford_def s_def [symmetric] Let_def)
  ultimately show thesis using that by blast
qed

section \<open>Messages are unambiguous\<close>

lemma separated:
  assumes "c \<notin> set s" "c \<notin> set t" and "s @ c # xs = t @ c # ys"
  shows "s = t \<and> xs = ys"
proof -
  have "takeWhile (\<lambda>x. x \<noteq> c) (s @ c # xs) = s" "takeWhile (\<lambda>x. x \<noteq> c) (t @ c # ys) = t"
    using assms(1,2) by (auto simp: takeWhile_append)
  then have "s = t" using assms(3) by simp
  with assms(3) show ?thesis by simp
qed

lemma join_inject:
  "list_all (\<lambda>s. c \<notin> set s) xs \<Longrightarrow> list_all (\<lambda>s. c \<notin> set s) ys \<Longrightarrow> xs \<noteq> [] \<Longrightarrow> ys \<noteq> [] \<Longrightarrow>
   join [c] xs = join [c] ys \<Longrightarrow> xs = ys"
proof (induction "[c]" xs arbitrary: ys rule: join.induct)
  case (2 s)
  then obtain t ys' where ys: "ys = t # ys'" by (cases ys) auto
  then show ?case using 2 by (cases ys') auto
next
  case (3 s s' ss)
  then obtain t ys' where ys: "ys = t # ys'" by (cases ys) auto
  with 3 have "ys' \<noteq> []" by (cases ys') auto
  with ys have "join [c] ys = t @ c # join [c] ys'" by (cases ys') auto
  then have "s @ c # join [c] (s' # ss) = t @ c # join [c] ys'" using 3(6) by simp
  from separated [OF _ _ this] 3(2,3) ys have "s = t" "join [c] (s' # ss) = join [c] ys'" by simp_all
  moreover have "s' # ss = ys'" using 3(2,3) ys \<open>ys' \<noteq> []\<close> calculation(2) by (intro 3(1)) simp_all
  ultimately show ?case using ys by simp
qed simp

lemma hmacMessage_inject:
  assumes "CHR 0x00 \<notin> set d" "CHR 0x00 \<notin> set d'" "list_all (\<lambda>s. CHR 0x00 \<notin> set s) fs" "list_all (\<lambda>s. CHR 0x00 \<notin> set s) fs'"
    "fs \<noteq> []" "fs' \<noteq> []" "hmacMessage d fs = hmacMessage d' fs'"
  shows "d = d' \<and> fs = fs'"
  using separated [OF assms(1,2)] join_inject [OF assms(3-6)] assms(7) by (auto simp: hmacMessage_def)

lemma decimal_digits: "list_all is_digit (decimal n)"
proof (induction n rule: decimal.induct)
  case (1 n)
  then show ?case by (cases "n < 10") (auto simp: decimal.simps [of n] is_digit_def)
qed

text \<open>The four kinds of message the service signs, and when their inputs are valid.\<close>

datatype signed_request =
    Locator_for string string string
  | Bearer_for string string nat
  | Grant_for string string string
  | Session_for string string string

fun requestOk :: "signed_request \<Rightarrow> bool" where
  "requestOk (Locator_for org ws key) \<longleftrightarrow> idSchema ''org'' org \<and> idSchema ''ws'' ws \<and> opKeySchema key"
| "requestOk (Bearer_for org locator n) \<longleftrightarrow> idSchema ''org'' org \<and> PreviewShareLocatorSchema locator \<and> 0 < n"
| "requestOk (Grant_for org locator key) \<longleftrightarrow> idSchema ''org'' org \<and> PreviewShareLocatorSchema locator \<and> opKeySchema key"
| "requestOk (Session_for org locator grant) \<longleftrightarrow> idSchema ''org'' org \<and> PreviewShareLocatorSchema locator \<and> SecretSchema grant"

fun derived :: "mac \<Rightarrow> byte list \<Rightarrow> signed_request \<Rightarrow> token_error + string" where
  "derived mac key (Locator_for org ws op) = previewShareLocator mac org ws op key"
| "derived mac key (Bearer_for org locator n) = previewBearer mac org locator n key"
| "derived mac key (Grant_for org locator op) = derivePreviewGrant mac org locator op key"
| "derived mac key (Session_for org locator grant) = andThen (derivePreviewSessionCredential mac org locator grant key) (\<lambda>(_, s). Inr s)"

fun domainOf :: "signed_request \<Rightarrow> string" where
  "domainOf (Locator_for org ws op) = ''zapp-preview-share-locator-v1''"
| "domainOf (Bearer_for org locator n) = ''zapp-preview-share-bearer-v1''"
| "domainOf (Grant_for org locator op) = ''zapp-preview-bootstrap-grant-v1''"
| "domainOf (Session_for org locator grant) = ''zapp-preview-session-v1''"

fun fieldsOf :: "signed_request \<Rightarrow> string list" where
  "fieldsOf (Locator_for org ws op) = [org, ws, op]"
| "fieldsOf (Bearer_for org locator n) = [org, locator, decimal n]"
| "fieldsOf (Grant_for org locator op) = [org, locator, op]"
| "fieldsOf (Session_for org locator grant) = [org, locator, grant]"

definition visible :: "char \<Rightarrow> bool" where
  "visible c \<longleftrightarrow> c \<noteq> CHR 0x00"

lemma prefixed_visible:
  assumes "take n s = p" "list_all visible p" "list_all q (drop n s)" "\<And>c. q c \<Longrightarrow> visible c"
  shows "list_all visible s"
proof -
  have "list_all visible (drop n s)" using assms(3,4) by (auto simp: list_all_iff)
  then show ?thesis using assms(1,2) by (metis append_take_drop_id list_all_append)
qed

lemma classes_visible:
  "is_ulid_char c \<Longrightarrow> visible c" "is_hex c \<Longrightarrow> visible c" "is_base64url c \<Longrightarrow> visible c" "is_digit c \<Longrightarrow> visible c"
  by (auto simp: is_ulid_char_def is_hex_def is_base64url_def is_digit_def visible_def)

lemma strings_visible:
  "idSchema ''org'' s \<Longrightarrow> list_all visible s" "idSchema ''ws'' s \<Longrightarrow> list_all visible s" "opKeySchema s \<Longrightarrow> list_all visible s"
  "SecretSchema s \<Longrightarrow> list_all visible s" "PreviewShareLocatorSchema s \<Longrightarrow> list_all visible s" "list_all visible (decimal n)"
proof -
  have "list_all visible s" if "idSchema pre s" "list_all visible pre" for pre
    using that classes_visible(1) by (intro prefixed_visible [of "length pre + 1" s "pre @ ''_''" is_ulid_char])
      (auto simp: idSchema_def visible_def)
  from this [of "''org''"] this [of "''ws''"]
  show "idSchema ''org'' s \<Longrightarrow> list_all visible s" "idSchema ''ws'' s \<Longrightarrow> list_all visible s" by (simp_all add: visible_def)
  show "opKeySchema s \<Longrightarrow> list_all visible s"
    using classes_visible(2) by (intro prefixed_visible [of 3 s "''op_''" is_hex]) (auto simp: opKeySchema_def visible_def)
  have secret: "list_all visible s" if "secretOf kind s" "list_all visible kind" for kind
    using that classes_visible(3) by (intro prefixed_visible [of 4 s "kind @ ''_''" is_base64url])
      (auto simp: secretOf_def visible_def)
  have kinds: "list_all visible ''psb''" "list_all visible ''pbg''" "list_all visible ''pss''" by (simp_all add: visible_def)
  show "SecretSchema s \<Longrightarrow> list_all visible s"
    unfolding SecretSchema_def by (elim disjE) (erule secret, rule kinds)+
  have digits: "list_all visible CROCKFORD" by (simp add: CROCKFORD_def visible_def)
  show "PreviewShareLocatorSchema s \<Longrightarrow> list_all visible s"
    unfolding PreviewShareLocatorSchema_def list_all_iff using digits [unfolded list_all_iff] by blast
  show "list_all visible (decimal n)"
    using decimal_digits [of n] by (auto simp: list_all_iff dest: classes_visible(4))
qed

lemma request_fields: "requestOk r \<Longrightarrow> list_all (\<lambda>s. CHR 0x00 \<notin> set s) (fieldsOf r) \<and> fieldsOf r \<noteq> [] \<and> CHR 0x00 \<notin> set (domainOf r)"
proof -
  have "CHR 0x00 \<notin> set s" if "list_all visible s" for s using that by (auto simp: list_all_iff visible_def)
  then show "requestOk r \<Longrightarrow> ?thesis" using strings_visible by (cases r) auto
qed

section \<open>Properties\<close>

text \<open>
  C20.  A share locator reads back.  The encoder turns every digest of 32 bytes into 26
  lower-case Crockford digits without failing, and read as a base-32 number they are exactly the
  first 130 bits of the digest: the 32-bit buffer loses nothing although it overflows while it
  is shifted.
\<close>

theorem locator_reads_back:
  assumes "length digest = 32"
  shows "\<exists>s. lowerCrockford digest = Inr s \<and> PreviewShareLocatorSchema s \<and> readDigits s = readBytes digest div 2 ^ (256 - 130)"
proof -
  obtain s where "lowerCrockford digest = Inr s" "PreviewShareLocatorSchema s" "readDigits s = readBytes digest div 2 ^ 126"
    using lowerCrockford_ok [OF assms] .
  then show ?thesis by (intro exI [of _ s]) simp
qed

text \<open>
  C21.  Every derivation is total on valid inputs and its result has the type its consumers
  parse: locators are locators, bearers are bearers, and bearers, grants and session secrets
  are secrets, so that none of the output checks in the code can fail.
\<close>

theorem credentials_typed:
  assumes "\<And>key message. length (mac key message) = 32" and "SigningKeySchema key" and "requestOk r"
  shows "\<exists>s. derived mac key r = Inr s \<and>
    (case r of Locator_for org ws op \<Rightarrow> PreviewShareLocatorSchema s | Bearer_for org locator n \<Rightarrow> BearerSchema s \<and> SecretSchema s | _ \<Rightarrow> SecretSchema s)"
proof (cases r)
  case (Locator_for org ws op)
  then show ?thesis using assms(2,3) lowerCrockford_ok [OF assms(1)] by (simp add: previewShareLocator_def) metis
qed (use assms(2,3) secret_shapes assms(1) in
    \<open>auto simp: previewBearer_def derivePreviewGrant_def derivePreviewSessionCredential_def BearerSchema_def SecretSchema_def Let_def\<close>)

text \<open>
  A preview secret that was created verifies: when Argon2 accepts what it has hashed, the
  bearer handed to the browser passes the check against the hash that was stored, and the same
  bearer is recovered from the same inputs.
\<close>

theorem preview_secret_round_trip:
  assumes "\<And>s h. argonHash s = Some h \<Longrightarrow> prefix ''$argon2id$'' h \<and> argonVerify h s = Some True"
    and "createPreviewSecret mac argonHash org locator n key = Inr secret"
  shows "verifyPreviewSecret argonVerify (bearer secret) (secretHash secret) \<and>
    recoverPreviewBearer mac org locator n key = Inr (bearer secret)"
proof -
  have b: "previewBearer mac org locator n key = Inr (bearer secret)"
    and h: "hashPreviewSecret argonHash (bearer secret) = Inr (secretHash secret)"
    using assms(2) by (auto simp: createPreviewSecret_def andThen_Inr_iff split: if_splits)
  then have "SecretSchema (bearer secret)" "argonHash (bearer secret) = Some (secretHash secret)"
    by (auto simp: hashPreviewSecret_def split: if_splits option.splits)
  with assms(1) b show ?thesis by (auto simp: verifyPreviewSecret_def recoverPreviewBearer_def)
qed

text \<open>
  The messages under the signing key are unambiguous: two valid requests for a locator, a
  bearer, a grant or a session that sign the same message are the same request, so that no
  credential of one tenant, share or purpose can stand for another.
\<close>

theorem signed_messages_unambiguous:
  assumes "requestOk r" and "requestOk r'" and "hmacMessage (domainOf r) (fieldsOf r) = hmacMessage (domainOf r') (fieldsOf r')"
  shows "r = r'"
proof -
  have "domainOf r = domainOf r' \<and> fieldsOf r = fieldsOf r'"
    using hmacMessage_inject [OF _ _ _ _ _ _ assms(3)] request_fields [OF assms(1)] request_fields [OF assms(2)] by blast
  then show ?thesis by (cases r; cases r') (auto dest: arg_cong [of _ _ readDecimal] simp: readDecimal_decimal)
qed

section \<open>Witnesses\<close>

definition sample_mac :: mac where
  "sample_mac key message = replicate 32 7"

definition sample_bearer :: signed_request where
  "sample_bearer = Bearer_for ''org_01J8ME7YQZJ2V9Q0X3T5B6K7N9'' (replicate 26 CHR ''a'') 1"

lemma sample_bearer_ok: "requestOk sample_bearer"
  by (simp add: sample_bearer_def idSchema_def is_ulid_char_def is_digit_def PreviewShareLocatorSchema_def CROCKFORD_def list_all_iff)

lemma sample_key_ok: "SigningKeySchema (replicate 32 0)"
  by (simp add: SigningKeySchema_def)

theorem locator_reads_back_witness:
  "\<exists>s. lowerCrockford (replicate 32 7) = Inr s \<and> length s = 26"
  using locator_reads_back [of "replicate 32 7"] by (auto simp: PreviewShareLocatorSchema_def)

theorem credentials_typed_witness:
  "\<exists>s. derived sample_mac (replicate 32 0) sample_bearer = Inr s \<and> SecretSchema s"
  using credentials_typed [where mac = sample_mac, OF _ sample_key_ok sample_bearer_ok] by (auto simp: sample_mac_def sample_bearer_def)

theorem preview_secret_round_trip_witness:
  "\<exists>secret. createPreviewSecret sample_mac (\<lambda>s. Some (''$argon2id$'' @ s)) ''org_01J8ME7YQZJ2V9Q0X3T5B6K7N9'' (replicate 26 CHR ''a'') 1
      (replicate 32 0) = Inr secret \<and>
    verifyPreviewSecret (\<lambda>h s. Some (h = ''$argon2id$'' @ s)) (bearer secret) (secretHash secret)"
proof -
  obtain b where "previewBearer sample_mac ''org_01J8ME7YQZJ2V9Q0X3T5B6K7N9'' (replicate 26 CHR ''a'') 1 (replicate 32 0) = Inr b" "SecretSchema b"
    using sample_bearer_ok sample_key_ok secret_shapes(1) [of "sample_mac key m" for key m]
    by (auto simp: previewBearer_def BearerSchema_def SecretSchema_def sample_bearer_def sample_mac_def Let_def)
  then obtain secret where "createPreviewSecret sample_mac (\<lambda>s. Some (''$argon2id$'' @ s)) ''org_01J8ME7YQZJ2V9Q0X3T5B6K7N9''
      (replicate 26 CHR ''a'') 1 (replicate 32 0) = Inr secret"
    by (simp add: createPreviewSecret_def hashPreviewSecret_def)
  with preview_secret_round_trip [OF _ this, of "\<lambda>h s. Some (h = ''$argon2id$'' @ s)"] show ?thesis by auto
qed

theorem signed_messages_unambiguous_witness:
  "hmacMessage (domainOf sample_bearer) (fieldsOf sample_bearer) \<noteq>
   hmacMessage (domainOf (Bearer_for ''org_01J8ME7YQZJ2V9Q0X3T5B6K7N9'' (replicate 26 CHR ''a'') 2))
     (fieldsOf (Bearer_for ''org_01J8ME7YQZJ2V9Q0X3T5B6K7N9'' (replicate 26 CHR ''a'') 2))"
  using signed_messages_unambiguous [OF sample_bearer_ok, of "Bearer_for ''org_01J8ME7YQZJ2V9Q0X3T5B6K7N9'' (replicate 26 CHR ''a'') 2"]
    sample_bearer_ok
  by (auto simp: sample_bearer_def)

end
