(* ===== verification/Routing.thy ===== *)
theory Routing
  imports Js_Value
begin

text \<open>
  Completion routing of the model gateway (\<open>services/model-gateway/src/routing.ts\<close>): the
  per-organization stream semaphore, and the loop that tries the models of a route.  A call of
  \<open>acquire\<close> is named by a ticket; the release closures not yet called are the field \<open>held\<close>.  What
  the outside does during a stream (the providers, the abort signal, the observer) is the record
  \<open>stream_env\<close>, indexed by the number of attempts made before.  Sleeping and telemetry are
  taken not to throw.
\<close>

section \<open>Model references\<close>

datatype model_provider = Anthropic | Openai | Google | Compatible

definition ProviderIdSchema :: "string \<Rightarrow> model_provider option" where
  "ProviderIdSchema s =
     (if s = ''anthropic'' then Some Anthropic
      else if s = ''openai'' then Some Openai
      else if s = ''google'' then Some Google
      else if s = ''compatible'' then Some Compatible
      else None)"

text \<open>
  \<open>reference.slice(0, reference.indexOf('/'))\<close> and the rest.  Without a slash the index is -1: the
  first part leaves out the last character, and the rest is the whole reference.
\<close>

definition transportOf :: "string \<Rightarrow> string" where
  "transportOf reference = (if CHR ''/'' \<in> set reference then takeWhile (\<lambda>c. c \<noteq> CHR ''/'') reference else butlast reference)"

definition modelOf :: "string \<Rightarrow> string" where
  "modelOf reference = (if CHR ''/'' \<in> set reference then drop (length (transportOf reference) + 1) reference else reference)"

definition ModelReferenceSchema :: "string \<Rightarrow> bool" where
  "ModelReferenceSchema s \<longleftrightarrow>
     CHR ''/'' \<in> set s \<and> 0 < length (transportOf s) \<and> length (transportOf s) < length s - 1 \<and>
     ProviderIdSchema (transportOf s) \<noteq> None"

record model_route =
  primary :: string
  fallbacks :: "string list"

definition references :: "model_route \<Rightarrow> string list" where
  "references r = primary r # fallbacks r"

definition RoleModelSchema :: "model_route \<Rightarrow> bool" where
  "RoleModelSchema r \<longleftrightarrow>
     list_all ModelReferenceSchema (references r) \<and> 2 \<le> length (uniq (map transportOf (references r)))"

datatype agent_role = Planner | Builder | Verifier | Summarizer

text \<open>The route of a role: the organization's policy where it has one for the role, else the configuration.\<close>

definition routeFor ::
    "(agent_role \<Rightarrow> model_route) \<Rightarrow> (agent_role \<Rightarrow> model_route option) option \<Rightarrow> agent_role \<Rightarrow> model_route option" where
  "routeFor models policy role =
     (case policy of
        None \<Rightarrow> Some (models role)
      | Some p \<Rightarrow>
          if list_all (\<lambda>x. case p x of None \<Rightarrow> True | Some r \<Rightarrow> RoleModelSchema r) [Planner, Builder, Verifier, Summarizer]
          then Some (case p role of Some r \<Rightarrow> r | None \<Rightarrow> models role)
          else None)"

section \<open>The stream semaphore\<close>

type_synonym ticket = nat

record org_streams =
  inUse :: nat
  waiters :: "ticket list"

record semaphore =
  states :: "string \<Rightarrow> org_streams option"
  held :: "string \<Rightarrow> ticket list"

definition emptySemaphore :: semaphore where
  "emptySemaphore = \<lparr>states = (\<lambda>_. None), held = (\<lambda>_. [])\<rparr>"

definition removeIfUnused :: "string \<Rightarrow> org_streams \<Rightarrow> semaphore \<Rightarrow> semaphore" where
  "removeIfUnused org st s =
     s\<lparr>states := (states s)(org := if inUse st = 0 \<and> waiters st = [] then None else Some st)\<rparr>"

definition acquire :: "nat \<Rightarrow> string \<Rightarrow> ticket \<Rightarrow> bool \<Rightarrow> semaphore \<Rightarrow> semaphore" where
  "acquire limit org t aborted s =
     (if aborted then s
      else
        let st = (case states s org of Some st \<Rightarrow> st | None \<Rightarrow> \<lparr>inUse = 0, waiters = []\<rparr>) in
        if inUse st < limit
        then s\<lparr>states := (states s)(org \<mapsto> st\<lparr>inUse := inUse st + 1\<rparr>), held := (held s)(org := held s org @ [t])\<rparr>
        else s\<lparr>states := (states s)(org \<mapsto> st\<lparr>waiters := waiters st @ [t]\<rparr>)\<rparr>)"

text \<open>The abort listener of a waiting call; a granted call has taken its listener off.\<close>

definition onAbort :: "string \<Rightarrow> ticket \<Rightarrow> semaphore \<Rightarrow> semaphore" where
  "onAbort org t s =
     (case states s org of
        None \<Rightarrow> s
      | Some st \<Rightarrow>
          if t \<in> set (waiters st) then removeIfUnused org (st\<lparr>waiters := remove1 t (waiters st)\<rparr>) s else s)"

text \<open>A release closure; calling it again does nothing.\<close>

definition releaseStream :: "string \<Rightarrow> ticket \<Rightarrow> semaphore \<Rightarrow> semaphore" where
  "releaseStream org t s =
     (if t \<notin> set (held s org) then s
      else case states s org of
          None \<Rightarrow> s
        | Some st \<Rightarrow>
            (case waiters st of
               next # rest \<Rightarrow>
                 s\<lparr>states := (states s)(org \<mapsto> st\<lparr>waiters := rest\<rparr>), held := (held s)(org := remove1 t (held s org) @ [next])\<rparr>
             | [] \<Rightarrow>
                 removeIfUnused org (st\<lparr>inUse := inUse st - 1\<rparr>)
                   (s\<lparr>held := (held s)(org := remove1 t (held s org))\<rparr>)))"

datatype stream_event = Acquire string ticket bool | Abort_signal string ticket | Release string ticket

fun semaphoreStep :: "nat \<Rightarrow> stream_event \<Rightarrow> semaphore \<Rightarrow> semaphore" where
  "semaphoreStep limit (Acquire org t aborted) = acquire limit org t aborted"
| "semaphoreStep limit (Abort_signal org t) = onAbort org t"
| "semaphoreStep limit (Release org t) = releaseStream org t"

section \<open>The specification of the semaphore\<close>

text \<open>
  One queue per organization in the order of arrival: the first \<open>limit\<close> calls of the queue
  stream, the others wait.
\<close>

type_synonym arrivals = "string \<Rightarrow> ticket list"

fun queueStep :: "nat \<Rightarrow> stream_event \<Rightarrow> arrivals \<Rightarrow> arrivals" where
  "queueStep limit (Acquire org t aborted) q = (if aborted then q else q(org := q org @ [t]))"
| "queueStep limit (Abort_signal org t) q = (if t \<in> set (drop limit (q org)) then q(org := remove1 t (q org)) else q)"
| "queueStep limit (Release org t) q = (if t \<in> set (take limit (q org)) then q(org := remove1 t (q org)) else q)"

text \<open>Tickets are fresh: no event acquires a ticket that is already queued.\<close>

fun freshEvent :: "stream_event \<Rightarrow> arrivals \<Rightarrow> bool" where
  "freshEvent (Acquire org t aborted) q \<longleftrightarrow> t \<notin> set (q org)"
| "freshEvent _ q \<longleftrightarrow> True"

definition streamsOf :: "semaphore \<Rightarrow> string \<Rightarrow> org_streams" where
  "streamsOf s org = (case states s org of Some st \<Rightarrow> st | None \<Rightarrow> \<lparr>inUse = 0, waiters = []\<rparr>)"

definition simulates :: "nat \<Rightarrow> semaphore \<Rightarrow> arrivals \<Rightarrow> bool" where
  "simulates limit s q \<longleftrightarrow>
     (\<forall>org. held s org = take limit (q org) \<and> waiters (streamsOf s org) = drop limit (q org) \<and>
        inUse (streamsOf s org) = length (held s org) \<and> (states s org = None \<longleftrightarrow> q org = []) \<and> distinct (q org))"

lemma simulatesI:
  assumes "simulates limit s q" and "\<And>o'. o' \<noteq> org \<Longrightarrow> states s' o' = states s o' \<and> held s' o' = held s o' \<and> q' o' = q o'"
    and "held s' org = take limit (q' org)" "waiters (streamsOf s' org) = drop limit (q' org)"
    "inUse (streamsOf s' org) = length (held s' org)" "states s' org = None \<longleftrightarrow> q' org = []" "distinct (q' org)"
  shows "simulates limit s' q'"
  unfolding simulates_def
proof
  fix o'
  show "held s' o' = take limit (q' o') \<and> waiters (streamsOf s' o') = drop limit (q' o') \<and>
      inUse (streamsOf s' o') = length (held s' o') \<and> (states s' o' = None \<longleftrightarrow> q' o' = []) \<and> distinct (q' o')"
    using assms by (cases "o' = org") (auto simp: simulates_def streamsOf_def)
qed

lemma simulates_at:
  assumes "simulates limit s q"
  shows "held s org = take limit (q org)" "waiters (streamsOf s org) = drop limit (q org)"
    "inUse (streamsOf s org) = length (take limit (q org))" "states s org = None \<longleftrightarrow> q org = []" "distinct (q org)"
  using assms by (auto simp: simulates_def)

lemma acquire_simulates:
  assumes "0 < limit" and "simulates limit s q" and "t \<notin> set (q org)"
  shows "simulates limit (acquire limit org t False s) (q(org := q org @ [t]))"
proof -
  note at = simulates_at [OF assms(2), of org]
  have eq: "acquire limit org t False s = (if length (q org) < limit
      then s\<lparr>states := (states s)(org \<mapsto> (streamsOf s org)\<lparr>inUse := inUse (streamsOf s org) + 1\<rparr>), held := (held s)(org := held s org @ [t])\<rparr>
      else s\<lparr>states := (states s)(org \<mapsto> (streamsOf s org)\<lparr>waiters := waiters (streamsOf s org) @ [t]\<rparr>)\<rparr>)"
    using at(3) by (simp add: acquire_def Let_def streamsOf_def [symmetric])
  show ?thesis
    by (rule simulatesI [OF assms(2), of org])
      (use at assms(3) in \<open>auto simp: eq streamsOf_def split: if_splits\<close>)
qed

lemma onAbort_simulates:
  assumes "0 < limit" and "simulates limit s q" and "t \<in> set (drop limit (q org))"
  shows "simulates limit (onAbort org t s) (q(org := remove1 t (q org)))"
proof -
  note at = simulates_at [OF assms(2), of org]
  have long: "limit < length (q org)" using assms(3) by (cases "limit < length (q org)") auto
  then obtain st where st: "states s org = Some st" "streamsOf s org = st" using at(4) by (auto simp: streamsOf_def)
  have out: "t \<notin> set (take limit (q org))" using at(5) assms(3) by (metis append_take_drop_id distinct_append disjoint_iff)
  have rem: "remove1 t (q org) = take limit (q org) @ remove1 t (drop limit (q org))"
    using out remove1_append [of t "take limit (q org)" "drop limit (q org)"] by simp
  have parts: "take limit (remove1 t (q org)) = take limit (q org)" "drop limit (remove1 t (q org)) = remove1 t (drop limit (q org))"
    using long unfolding rem by simp_all
  have some: "remove1 t (q org) \<noteq> []" using long assms(1) unfolding rem by auto
  have "inUse st = limit" "waiters st = drop limit (q org)" using at(2,3) st(2) long by simp_all
  then have eq: "onAbort org t s = s\<lparr>states := (states s)(org \<mapsto> st\<lparr>waiters := remove1 t (drop limit (q org))\<rparr>)\<rparr>"
    using st(1) assms(1,3) by (simp add: onAbort_def removeIfUnused_def)
  show ?thesis unfolding eq
    by (rule simulatesI [OF assms(2), of org])
      (simp_all add: streamsOf_def parts some at(1) at(5) distinct_remove1 \<open>inUse st = limit\<close>, use long in simp)
qed

lemma releaseStream_simulates:
  assumes "0 < limit" and "simulates limit s q" and "t \<in> set (take limit (q org))"
  shows "simulates limit (releaseStream org t s) (q(org := remove1 t (q org)))"
proof -
  note at = simulates_at [OF assms(2), of org]
  have "q org \<noteq> []" using assms(3) by auto
  then obtain st where st: "states s org = Some st" "streamsOf s org = st" using at(4) by (auto simp: streamsOf_def)
  have use: "inUse st = length (take limit (q org))" "waiters st = drop limit (q org)" using at(2,3) st(2) by simp_all
  have rem: "remove1 t (q org) = remove1 t (take limit (q org)) @ drop limit (q org)"
    using assms(3) remove1_append [of t "take limit (q org)" "drop limit (q org)"] by simp
  have len: "length (remove1 t (take limit (q org))) = length (take limit (q org)) - 1" using assms(3) by (simp add: length_remove1)
  show ?thesis
  proof (cases "drop limit (q org)")
    case Nil
    then have short: "length (q org) \<le> limit" "take limit (q org) = q org" by simp_all
    have t: "t \<in> set (q org)" using assms(3) by (rule in_set_takeD)
    let ?st = "st\<lparr>inUse := inUse st - 1\<rparr>"
    have used: "inUse st - 1 = length (remove1 t (q org))" using use(1) short(2) t by (simp add: length_remove1)
    have eq: "releaseStream org t s = s\<lparr>states := (states s)(org := if remove1 t (q org) = [] then None else Some ?st),
        held := (held s)(org := remove1 t (q org))\<rparr>"
      using st(1) use(2) Nil at(1) short(2) t used by (simp add: releaseStream_def removeIfUnused_def)
    have small: "length (remove1 t (q org)) \<le> limit" using short(1) t by (simp add: length_remove1)
    show ?thesis unfolding eq
      by (rule simulatesI [OF assms(2), of org])
        (use small use(2) Nil used in \<open>simp_all add: streamsOf_def at(5) distinct_remove1\<close>)
  next
    case (Cons n rest)
    then have "limit < length (q org)" by (metis drop_all list.distinct(1) not_le)
    then have full: "length (take limit (q org)) = limit" by simp
    have parts: "take limit (remove1 t (q org)) = remove1 t (take limit (q org)) @ [n]" "drop limit (remove1 t (q org)) = rest"
      using assms(1) len full Cons unfolding rem by simp_all
    have some: "remove1 t (q org) \<noteq> []" using Cons unfolding rem by simp
    have eq: "releaseStream org t s = s\<lparr>states := (states s)(org \<mapsto> st\<lparr>waiters := rest\<rparr>),
        held := (held s)(org := remove1 t (take limit (q org)) @ [n])\<rparr>"
      using st(1) use(2) Cons at(1) assms(3) by (simp add: releaseStream_def)
    show ?thesis unfolding eq
      by (rule simulatesI [OF assms(2), of org])
        (use assms(1) \<open>limit < length (q org)\<close> in \<open>simp_all add: streamsOf_def parts some at(5) distinct_remove1 use(1) len\<close>)
  qed
qed

lemma step_simulates:
  assumes "0 < limit" and "simulates limit s q" and "freshEvent e q"
  shows "simulates limit (semaphoreStep limit e s) (queueStep limit e q)"
proof (cases e)
  case (Acquire org t aborted)
  then show ?thesis using acquire_simulates [OF assms(1,2)] assms(2,3) by (cases aborted) (auto simp: acquire_def)
next
  case (Abort_signal org t)
  note at = simulates_at [OF assms(2), of org]
  show ?thesis
  proof (cases "t \<in> set (drop limit (q org))")
    case False
    with at(2) have "onAbort org t s = s" by (auto simp: onAbort_def streamsOf_def split: option.splits)
    with False Abort_signal assms(2) show ?thesis by simp
  qed (use Abort_signal onAbort_simulates [OF assms(1,2)] in simp)
next
  case (Release org t)
  note at = simulates_at [OF assms(2), of org]
  show ?thesis
  proof (cases "t \<in> set (take limit (q org))")
    case False
    with at(1) Release assms(2) show ?thesis by (simp add: releaseStream_def)
  qed (use Release releaseStream_simulates [OF assms(1,2)] in simp)
qed

text \<open>The runs of both machines over the same events.\<close>

definition runSemaphore :: "nat \<Rightarrow> stream_event list \<Rightarrow> semaphore" where
  "runSemaphore limit es = fold (semaphoreStep limit) es emptySemaphore"

definition runQueue :: "nat \<Rightarrow> stream_event list \<Rightarrow> arrivals" where
  "runQueue limit es = fold (queueStep limit) es (\<lambda>_. [])"

definition acquired :: "stream_event list \<Rightarrow> ticket list" where
  "acquired es = concat (map (\<lambda>e. case e of Acquire org t aborted \<Rightarrow> [t] | _ \<Rightarrow> []) es)"

lemma runs_snoc:
  "runSemaphore limit (es @ [e]) = semaphoreStep limit e (runSemaphore limit es)"
  "runQueue limit (es @ [e]) = queueStep limit e (runQueue limit es)"
  by (simp_all add: runSemaphore_def runQueue_def)

lemma acquired_snoc: "acquired (es @ [e]) = acquired es @ (case e of Acquire org t aborted \<Rightarrow> [t] | _ \<Rightarrow> [])"
  by (simp add: acquired_def)

lemma queue_acquired: "set (runQueue limit es org) \<subseteq> set (acquired es)"
proof (induction es rule: rev_induct)
  case (snoc e es)
  then show ?case by (cases e) (auto simp: runs_snoc acquired_def dest: in_set_takeD in_set_dropD notin_set_remove1 split: if_splits)
qed (simp add: runQueue_def)

lemma run_simulates: "0 < limit \<Longrightarrow> distinct (acquired es) \<Longrightarrow> simulates limit (runSemaphore limit es) (runQueue limit es)"
proof (induction es rule: rev_induct)
  case Nil
  then show ?case by (simp add: simulates_def runSemaphore_def runQueue_def emptySemaphore_def streamsOf_def)
next
  case (snoc e es)
  then have "distinct (acquired es)" by (simp add: acquired_def)
  moreover have "freshEvent e (runQueue limit es)"
    using snoc.prems(2) subsetD [OF queue_acquired] by (cases e) (auto simp: acquired_snoc)
  ultimately show ?case using snoc step_simulates [OF snoc.prems(1)] by (simp add: runs_snoc)
qed

section \<open>Errors of an attempt\<close>

record thrown =
  isObject :: bool
  props :: "(string \<times> js_value) list"
  isTerminal :: bool
  attribution :: "(string \<times> string) option"

definition statusOf :: "thrown \<Rightarrow> js_value" where
  "statusOf e = (case property (props e) ''status'' of JNum n \<Rightarrow> JNum n | _ \<Rightarrow> property (props e) ''statusCode'')"

definition retryable :: "thrown \<Rightarrow> bool" where
  "retryable e \<longleftrightarrow>
     isObject e \<and>
     (case statusOf e of
        JNum n \<Rightarrow> n = 408 \<or> n = 429 \<or> (500 \<le> n \<and> n < 600)
      | _ \<Rightarrow>
          property (props e) ''isRetryable'' = JBool True \<or> property (props e) ''name'' = JString ''TimeoutError'' \<or>
          property (props e) ''code'' \<in> {JString ''ETIMEDOUT'', JString ''ESOCKETTIMEDOUT'', JString ''ECONNABORTED''})"

datatype routing_error = Aborted | Observer_rejected | Terminal_error thrown | Attributed string string thrown

definition attributed :: "string \<Rightarrow> thrown \<Rightarrow> routing_error" where
  "attributed reference e =
     (case attribution e of
        Some (p, m) \<Rightarrow> Attributed p m e
      | None \<Rightarrow> Attributed (transportOf reference) (modelOf reference) e)"

definition disabledError :: thrown where
  "disabledError = \<lparr>isObject = True, props = [(''name'', JString ''Error'')], isTerminal = False, attribution = None\<rparr>"

section \<open>The loop over a route\<close>

definition MAX_ATTEMPTS :: nat where "MAX_ATTEMPTS = 3"

definition RETRY_BASE_DELAY_MS :: nat where "RETRY_BASE_DELAY_MS = 250"

record 'e stream_env =
  enabled :: "string \<Rightarrow> bool"
  provide :: "nat \<Rightarrow> string \<Rightarrow> 'e list \<times> thrown option"
  signalled :: "nat \<Rightarrow> bool"
  attemptSeen :: "nat \<Rightarrow> bool"
  fallbackSeen :: "nat \<Rightarrow> bool"

datatype 'e stream_action =
    Observed_attempt string nat
  | Called string
  | Yielded 'e
  | Slept nat
  | Observed_fallback string string

definition tryProvider :: "'e stream_env \<Rightarrow> nat \<Rightarrow> string \<Rightarrow> 'e list \<times> thrown option" where
  "tryProvider env k reference =
     (if enabled env (transportOf reference) then provide env k reference else ([], Some disabledError))"

datatype attempt_outcome = Streamed | Thrown_out routing_error | Exhausted routing_error

text \<open>The attempts on one model; \<open>left\<close> more may follow this one.\<close>

fun attemptLoop ::
    "'e stream_env \<Rightarrow> string \<Rightarrow> nat \<Rightarrow> nat \<Rightarrow> nat \<Rightarrow> 'e stream_action list \<Rightarrow> attempt_outcome \<times> nat \<times> 'e stream_action list" where
  "attemptLoop env r left n k h =
     (if signalled env k then (Thrown_out Aborted, k, h)
      else if \<not> attemptSeen env k then (Thrown_out Observer_rejected, k, h @ [Observed_attempt r n])
      else
        let (events, failure) = tryProvider env k r;
            h' = h @ [Observed_attempt r n, Called r] @ map Yielded events
        in case failure of
             None \<Rightarrow> (Streamed, k + 1, h')
           | Some e \<Rightarrow>
               if isTerminal e then (Thrown_out (Terminal_error e), k + 1, h')
               else if events \<noteq> [] \<or> \<not> retryable e then (Thrown_out (attributed r e), k + 1, h')
               else (case left of
                   Suc left' \<Rightarrow> attemptLoop env r left' (n + 1) (k + 1) (h' @ [Slept (RETRY_BASE_DELAY_MS * 2 ^ (n - 1))])
                 | 0 \<Rightarrow> (Exhausted (attributed r e), k + 1, h')))"

declare attemptLoop.simps [simp del]

fun routeLoop ::
    "'e stream_env \<Rightarrow> string list \<Rightarrow> nat \<Rightarrow> 'e stream_action list \<Rightarrow> (routing_error + unit) \<times> 'e stream_action list" where
  "routeLoop env [] k h = (Inr (), h)"
| "routeLoop env (r # rs) k h =
     (case attemptLoop env r (MAX_ATTEMPTS - 1) 1 k h of
        (Streamed, k', h') \<Rightarrow> (Inr (), h')
      | (Thrown_out e, k', h') \<Rightarrow> (Inl e, h')
      | (Exhausted e, k', h') \<Rightarrow>
          (case rs of
             [] \<Rightarrow> (Inl e, h')
           | fallback # _ \<Rightarrow>
               if \<not> fallbackSeen env k' then (Inl Observer_rejected, h' @ [Observed_fallback r fallback])
               else routeLoop env rs k' (h' @ [Observed_fallback r fallback])))"

definition streamPinned :: "'e stream_env \<Rightarrow> model_route \<Rightarrow> (routing_error + unit) \<times> 'e stream_action list" where
  "streamPinned env route = routeLoop env (references route) 0 []"

record route_attempt =
  a_provider :: string
  a_model :: string
  maxInputTokens :: nat
  maxOutputTokens :: nat

definition routeAttempt :: "nat \<Rightarrow> nat \<Rightarrow> string \<Rightarrow> route_attempt" where
  "routeAttempt i out reference =
     \<lparr>a_provider = transportOf reference, a_model = modelOf reference, maxInputTokens = i, maxOutputTokens = out\<rparr>"

text \<open>The route that \<open>prepare\<close> reserves budget for.\<close>

definition reservedRoute :: "nat \<Rightarrow> nat \<Rightarrow> model_route \<Rightarrow> route_attempt list" where
  "reservedRoute i out route = concat (map (\<lambda>r. replicate MAX_ATTEMPTS (routeAttempt i out r)) (references route))"

section \<open>What a stream does\<close>

fun callOf :: "'e stream_action \<Rightarrow> string list" where
  "callOf (Called r) = [r]"
| "callOf _ = []"

fun eventOf :: "'e stream_action \<Rightarrow> 'e list" where
  "eventOf (Yielded e) = [e]"
| "eventOf _ = []"

definition callsOf :: "'e stream_action list \<Rightarrow> string list" where
  "callsOf h = concat (map callOf h)"

definition eventsOf :: "'e stream_action list \<Rightarrow> 'e list" where
  "eventsOf h = concat (map eventOf h)"

lemma callsOf_simps [simp]:
  "callsOf [] = []" "callsOf (x # h) = callOf x @ callsOf h" "callsOf (h @ h') = callsOf h @ callsOf h'"
  by (simp_all add: callsOf_def)

lemma callsOf_yields [simp]: "callsOf (map Yielded es) = []"
  by (induction es) simp_all

lemma eventsOf_simps [simp]:
  "eventsOf [] = []" "eventsOf (x # h) = eventOf x @ eventsOf h" "eventsOf (h @ h') = eventsOf h @ eventsOf h'"
  by (simp_all add: eventsOf_def)

lemma eventsOf_yields [simp]: "eventsOf (map Yielded es) = es"
  by (induction es) simp_all

text \<open>A history in which nothing follows the first event handed out.\<close>

definition settled :: "'e stream_action list \<Rightarrow> bool" where
  "settled h \<longleftrightarrow> (\<exists>h' es. h = h' @ map Yielded es \<and> eventsOf h' = [])"

lemma settledI: "eventsOf h' = [] \<Longrightarrow> settled (h' @ map Yielded es)"
  by (auto simp: settled_def)

lemma settled_silent: "eventsOf h = [] \<Longrightarrow> settled h"
  using settledI [of h "[]"] by simp

lemma attemptLoop_history:
  "attemptLoop env r left n k h = (out, k', h') \<Longrightarrow> eventsOf h = [] \<Longrightarrow>
   settled h' \<and> (\<exists>j. callsOf h' = callsOf h @ replicate j r \<and> j \<le> left + 1 \<and> ((\<exists>e. out = Exhausted e) \<longrightarrow> j = left + 1 \<and> eventsOf h' = []))"
proof (induction env r left n k h rule: attemptLoop.induct)
  case (1 env r left n k h)
  obtain events failure where p: "tryProvider env k r = (events, failure)" by fastforce
  let ?h = "h @ [Observed_attempt r n, Called r] @ map Yielded events"
  have tried: "settled ?h" "callsOf ?h = callsOf h @ [r]"
    using "1.prems"(2) settledI [of "h @ [Observed_attempt r n, Called r]" events] by simp_all
  show ?case
  proof (cases "signalled env k \<or> \<not> attemptSeen env k")
    case True
    then have "h' = h \<or> h' = h @ [Observed_attempt r n]" "\<nexists>e. out = Exhausted e"
      using "1.prems"(1) by (auto simp: attemptLoop.simps [of env r left n k h] split: if_splits)
    then show ?thesis using "1.prems"(2) by (auto intro!: settled_silent exI [of _ 0])
  next
    case False
    show ?thesis
    proof (cases "\<exists>e left'. failure = Some e \<and> \<not> isTerminal e \<and> events = [] \<and> retryable e \<and> left = Suc left'")
      case True
      then obtain e left' where again: "failure = Some e" "\<not> isTerminal e" "events = []" "retryable e" "left = Suc left'" by blast
      let ?h' = "?h @ [Slept (RETRY_BASE_DELAY_MS * 2 ^ (n - 1))]"
      have "attemptLoop env r left' (n + 1) (k + 1) ?h' = (out, k', h')"
        using "1.prems"(1) False again p by (simp add: attemptLoop.simps [of env r "Suc left'" n k h])
      moreover have "eventsOf ?h' = []" "callsOf ?h' = callsOf h @ [r]" using "1.prems"(2) again by simp_all
      ultimately have "settled h' \<and> (\<exists>j. callsOf h' = (callsOf h @ [r]) @ replicate j r \<and> j \<le> left' + 1 \<and>
          ((\<exists>e. out = Exhausted e) \<longrightarrow> j = left' + 1 \<and> eventsOf h' = []))"
        using "1.IH" False p again by auto
      then obtain j where "settled h'" "callsOf h' = callsOf h @ replicate (Suc j) r" "j \<le> left' + 1"
          "(\<exists>e. out = Exhausted e) \<longrightarrow> j = left' + 1 \<and> eventsOf h' = []" by auto
      then show ?thesis using again(5) by (intro conjI exI [of _ "Suc j"]) auto
    next
      case no: False
      have h': "h' = ?h" and out: "(\<exists>e. out = Exhausted e) \<longrightarrow> left = 0 \<and> events = []"
        using "1.prems"(1) False p no
        by (auto simp: attemptLoop.simps [of env r left n k h] Let_def split: option.splits if_splits nat.splits)
      show ?thesis using tried out "1.prems"(2) unfolding h' by (intro conjI exI [of _ 1]) auto
    qed
  qed
qed

lemma routeLoop_history:
  "routeLoop env rs k h = (res, h') \<Longrightarrow> eventsOf h = [] \<Longrightarrow>
   settled h' \<and> (\<exists>cs. callsOf h' = callsOf h @ cs \<and> prefix cs (concat (map (replicate MAX_ATTEMPTS) rs)))"
proof (induction rs arbitrary: k h)
  case (Cons r rs)
  obtain out k1 h1 where a: "attemptLoop env r (MAX_ATTEMPTS - 1) 1 k h = (out, k1, h1)" by (metis prod_cases3)
  obtain j where j: "settled h1" "callsOf h1 = callsOf h @ replicate j r" "j \<le> MAX_ATTEMPTS"
      "(\<exists>e. out = Exhausted e) \<longrightarrow> j = MAX_ATTEMPTS \<and> eventsOf h1 = []"
    using attemptLoop_history [OF a Cons.prems(2)] by (auto simp: MAX_ATTEMPTS_def)
  have pre: "prefix (replicate j r) (concat (map (replicate MAX_ATTEMPTS) (r # rs)))"
    using j(3) by (auto simp: prefix_def intro!: exI [of _ "replicate (MAX_ATTEMPTS - j) r @ concat (map (replicate MAX_ATTEMPTS) rs)"]
        simp flip: replicate_add)
  show ?case
  proof (cases "\<exists>e f rs'. out = Exhausted e \<and> rs = f # rs'")
    case True
    then obtain e f rs' where x: "out = Exhausted e" "rs = f # rs'" by blast
    let ?h = "h1 @ [Observed_fallback r f]"
    have quiet: "eventsOf ?h = []" and all: "j = MAX_ATTEMPTS" using j(4) x by auto
    show ?thesis
    proof (cases "fallbackSeen env k1")
      case False
      then have "h' = ?h" using Cons.prems(1) a x by simp
      then show ?thesis using settled_silent [OF quiet] j(2) pre by auto
    next
      case seen: True
      then have "routeLoop env rs k1 ?h = (res, h')" using Cons.prems(1) a x by simp
      from Cons.IH [OF this quiet] j(2) all show ?thesis by (auto simp: prefix_def)
    qed
  next
    case False
    then have "h' = h1" using Cons.prems(1) a by (auto split: attempt_outcome.splits list.splits)
    with j pre show ?thesis by auto
  qed
qed (auto intro: settled_silent)

section \<open>A reference definition\<close>

text \<open>
  Trying a list of models one after the other: the first attempt that ends well, that hands out
  an event, or that fails in a way not to be retried decides; the last failure is reported when
  all attempts are used up.
\<close>

fun tryInOrder :: "'e stream_env \<Rightarrow> string list \<Rightarrow> nat \<Rightarrow> routing_error \<Rightarrow> (routing_error + unit) \<times> 'e list" where
  "tryInOrder env [] k failure = (Inl failure, [])"
| "tryInOrder env (r # rs) k failure =
     (if signalled env k then (Inl Aborted, [])
      else case tryProvider env k r of
          (events, None) \<Rightarrow> (Inr (), events)
        | (events, Some e) \<Rightarrow>
            if isTerminal e then (Inl (Terminal_error e), events)
            else if events \<noteq> [] \<or> \<not> retryable e then (Inl (attributed r e), events)
            else tryInOrder env rs (k + 1) (attributed r e))"

definition watched :: "'e stream_env \<Rightarrow> bool" where
  "watched env \<longleftrightarrow> (\<forall>k. attemptSeen env k \<and> fallbackSeen env k)"

lemma attemptLoop_tryInOrder:
  "attemptLoop env r left n k h = (out, k', h') \<Longrightarrow> watched env \<Longrightarrow> eventsOf h = [] \<Longrightarrow>
   (case out of
      Streamed \<Rightarrow> tryInOrder env (replicate (left + 1) r @ rs) k failure = (Inr (), eventsOf h')
    | Thrown_out e \<Rightarrow> tryInOrder env (replicate (left + 1) r @ rs) k failure = (Inl e, eventsOf h')
    | Exhausted e \<Rightarrow> tryInOrder env (replicate (left + 1) r @ rs) k failure = tryInOrder env rs k' e)"
proof (induction env r left n k h arbitrary: failure rule: attemptLoop.induct)
  case (1 env r left n k h)
  obtain events result where p: "tryProvider env k r = (events, result)" by fastforce
  have seen: "attemptSeen env k" using "1.prems"(2) by (simp add: watched_def)
  show ?case
  proof (cases "\<not> signalled env k \<and> (\<exists>e left'. result = Some e \<and> \<not> isTerminal e \<and> events = [] \<and> retryable e \<and> left = Suc left')")
    case True
    then obtain e left' where again: "result = Some e" "\<not> isTerminal e" "events = []" "retryable e" "left = Suc left'" "\<not> signalled env k" by blast
    let ?h' = "(h @ [Observed_attempt r n, Called r] @ map Yielded events) @ [Slept (RETRY_BASE_DELAY_MS * 2 ^ (n - 1))]"
    have run: "attemptLoop env r left' (n + 1) (k + 1) ?h' = (out, k', h')"
      using "1.prems"(1) seen again p by (simp add: attemptLoop.simps [of env r "Suc left'" n k h])
    moreover have "eventsOf ?h' = []" using "1.prems"(3) again by simp
    ultimately have "case out of
        Streamed \<Rightarrow> tryInOrder env (replicate (left' + 1) r @ rs) (k + 1) (attributed r e) = (Inr (), eventsOf h')
      | Thrown_out x \<Rightarrow> tryInOrder env (replicate (left' + 1) r @ rs) (k + 1) (attributed r e) = (Inl x, eventsOf h')
      | Exhausted x \<Rightarrow> tryInOrder env (replicate (left' + 1) r @ rs) (k + 1) (attributed r e) = tryInOrder env rs k' x"
      using "1.IH" [where failure = "attributed r e"] "1.prems"(2) seen p again by auto
    then show ?thesis using again p by (auto split: attempt_outcome.splits)
  next
    case no: False
    then show ?thesis using "1.prems"(1,3) seen p
      by (auto simp: attemptLoop.simps [of env r left n k h] Let_def split: option.splits if_splits nat.splits)
  qed
qed

lemma routeLoop_tryInOrder:
  "watched env \<Longrightarrow> eventsOf h = [] \<Longrightarrow> rs \<noteq> [] \<Longrightarrow>
   map_prod id eventsOf (routeLoop env rs k h) = tryInOrder env (concat (map (replicate MAX_ATTEMPTS) rs)) k failure"
proof (induction rs arbitrary: k h failure)
  case (Cons r rs)
  obtain out k1 h1 where a: "attemptLoop env r (MAX_ATTEMPTS - 1) 1 k h = (out, k1, h1)" by (metis prod_cases3)
  have three: "MAX_ATTEMPTS - 1 + 1 = MAX_ATTEMPTS" by (simp add: MAX_ATTEMPTS_def)
  note spec = attemptLoop_tryInOrder [OF a Cons.prems(1,2), where rs = "concat (map (replicate MAX_ATTEMPTS) rs)" and failure = failure,
      unfolded three]
  show ?case
  proof (cases out)
    case (Exhausted e)
    have quiet: "eventsOf h1 = []" using attemptLoop_history [OF a Cons.prems(2)] Exhausted by auto
    show ?thesis
    proof (cases rs)
      case Nil
      with spec a Exhausted quiet show ?thesis by simp
    next
      case rs: (Cons f rs')
      have "fallbackSeen env k1" using Cons.prems(1) by (simp add: watched_def)
      then have "map_prod id eventsOf (routeLoop env (r # rs) k h) =
          map_prod id eventsOf (routeLoop env rs k1 (h1 @ [Observed_fallback r f]))"
        using a Exhausted rs by simp
      also have "\<dots> = tryInOrder env (concat (map (replicate MAX_ATTEMPTS) rs)) k1 e"
        by (rule Cons.IH) (use quiet Cons.prems(1) rs in simp_all)
      also have "\<dots> = tryInOrder env (concat (map (replicate MAX_ATTEMPTS) (r # rs))) k failure" using spec Exhausted by simp
      finally show ?thesis .
    qed
  qed (use spec a in simp_all)
qed simp

section \<open>Properties\<close>

text \<open>
  C22.  The stream semaphore is a fair queue.  Over any sequence of acquisitions, aborts and
  releases, also repeated ones, the calls of an organization that stream are exactly the first
  \<open>limit\<close> of those that arrived and neither finished nor gave up, the others wait in the order
  of their arrival, and an organization with no calls leaves nothing behind.
\<close>

theorem semaphore_refines_queue:
  assumes "0 < limit" and "distinct (acquired es)"
  shows "held (runSemaphore limit es) org = take limit (runQueue limit es org) \<and>
    waiters (streamsOf (runSemaphore limit es) org) = drop limit (runQueue limit es org) \<and>
    inUse (streamsOf (runSemaphore limit es) org) = min limit (length (runQueue limit es org)) \<and>
    (states (runSemaphore limit es) org = None \<longleftrightarrow> runQueue limit es org = [])"
  using simulates_at [OF run_simulates [OF assms], of org] by simp

text \<open>
  C23.  The nested loops over models and attempts are the plain loop over the route: as long as
  the observer does not reject, a stream ends and hands out exactly as trying the models of the
  route, each of them three times, one after the other would.
\<close>

theorem stream_tries_in_order:
  assumes "watched env"
  shows "map_prod id eventsOf (streamPinned env route) =
    tryInOrder env (concat (map (replicate MAX_ATTEMPTS) (references route))) 0 failure"
  unfolding streamPinned_def by (rule routeLoop_tryInOrder) (use assms in \<open>simp_all add: references_def\<close>)

text \<open>
  A stream stays within what was reserved for it and never mixes attempts: the attempts it
  makes, in order, are an initial part of the route that \<open>prepare\<close> reserved, and no attempt and no
  other action follows once an event was handed out, so that all events of a stream come from
  its last attempt.
\<close>

theorem stream_within_reservation:
  "case streamPinned env route of (result, h) \<Rightarrow>
     prefix (map (routeAttempt i out) (callsOf h)) (reservedRoute i out route) \<and>
     (\<exists>h' events. h = h' @ map Yielded events \<and> eventsOf h' = [])"
proof -
  obtain res h where run: "routeLoop env (references route) 0 [] = (res, h)" by fastforce
  then have "settled h" and "\<exists>cs. callsOf h = cs \<and> prefix cs (concat (map (replicate MAX_ATTEMPTS) (references route)))"
    using routeLoop_history [OF run] by auto
  moreover have "reservedRoute i out route = map (routeAttempt i out) (concat (map (replicate MAX_ATTEMPTS) (references route)))"
    by (simp add: reservedRoute_def map_concat o_def)
  ultimately show ?thesis using run by (auto simp: streamPinned_def settled_def intro: map_mono_prefix)
qed

theorem semaphore_refines_queue_witness:
  "held (runSemaphore 1 [Acquire ''org'' 1 False, Acquire ''org'' 2 False, Release ''org'' 1]) ''org'' = [2]"
  using semaphore_refines_queue [of 1 "[Acquire ''org'' 1 False, Acquire ''org'' 2 False, Release ''org'' 1]" "''org''"]
  by (simp add: acquired_def runQueue_def)

definition sample_stream :: "nat stream_env" where
  "sample_stream = \<lparr>enabled = (\<lambda>_. True), provide = (\<lambda>k _. if k < 3 then ([], Some \<lparr>isObject = True, props = [(''status'', JNum 503)],
     isTerminal = False, attribution = None\<rparr>) else ([7], None)), signalled = (\<lambda>_. False), attemptSeen = (\<lambda>_. True),
     fallbackSeen = (\<lambda>_. True)\<rparr>"

theorem stream_tries_in_order_witness:
  "map_prod id eventsOf (streamPinned sample_stream \<lparr>primary = ''openai/a'', fallbacks = [''google/b'']\<rparr>) = (Inr (), [7])"
proof -
  have "watched sample_stream" by (simp add: watched_def sample_stream_def)
  from stream_tries_in_order [OF this, of "\<lparr>primary = ''openai/a'', fallbacks = [''google/b'']\<rparr>" Aborted]
  show ?thesis
    by (simp add: references_def MAX_ATTEMPTS_def numeral_3_eq_3 tryProvider_def sample_stream_def retryable_def statusOf_def
        property_def getOr_def)
qed

end
