(* ===== verification/Workspace_Manager.thy ===== *)
theory Workspace_Manager
  imports Identifiers Js_Value Ports
begin

text \<open>
  The workspace lifecycle manager of the sandbox service
  (\<open>services/sandbox-service/src/lifecycle/manager.ts\<close>): the status machine of a workspace, what
  is done about each kind of failure, provisioning with three attempts, and the reconciliation of
  the database with the provider under a leader lease.  The dependencies are ports; what
  \<open>jitterDelayMs\<close> returns is the parameter \<open>jitter\<close> and SHA-256 in hexadecimal is \<open>sha\<close>.
\<close>

section \<open>The status machine\<close>

datatype workspace_status =
    Requested | Provisioning | Started | Ready | Active | Checkpointing | Idle_ws | Terminated

fun asWorkspaceStatus :: "js_value \<Rightarrow> workspace_status option" where
  "asWorkspaceStatus (JString s) =
     map_of [(''requested'', Requested), (''provisioning'', Provisioning), (''started'', Started), (''ready'', Ready),
       (''active'', Active), (''checkpointing'', Checkpointing), (''idle'', Idle_ws), (''terminated'', Terminated)] s"
| "asWorkspaceStatus _ = None"

fun NEXT_STATUS :: "workspace_status \<Rightarrow> workspace_status option" where
  "NEXT_STATUS Requested = Some Provisioning"
| "NEXT_STATUS Provisioning = Some Started"
| "NEXT_STATUS Started = Some Ready"
| "NEXT_STATUS Ready = Some Active"
| "NEXT_STATUS Active = Some Checkpointing"
| "NEXT_STATUS Checkpointing = Some Idle_ws"
| "NEXT_STATUS Idle_ws = Some Terminated"
| "NEXT_STATUS Terminated = None"

datatype lifecycle_error =
    Invalid_status
  | Invalid_transition workspace_status workspace_status
  | Invalid_failure
  | Invalid_scope
  | Invalid_delay
  | Invalid_mutation
  | Dependency_rejected
  | Unreachable_state

definition transitionLifecycle :: "js_value \<Rightarrow> js_value \<Rightarrow> lifecycle_error + workspace_status" where
  "transitionLifecycle fromInput toInput =
     (case (asWorkspaceStatus fromInput, asWorkspaceStatus toInput) of
        (Some from, Some to) \<Rightarrow> if NEXT_STATUS from \<noteq> Some to then Inl (Invalid_transition from to) else Inr to
      | _ \<Rightarrow> Inl Invalid_status)"

section \<open>Failures\<close>

record lifecycle_scope =
  w_workspaceId :: string
  w_organizationId :: string
  w_projectId :: string
  w_operationKey :: string

definition LifecycleScopeSchema :: "lifecycle_scope \<Rightarrow> bool" where
  "LifecycleScopeSchema s \<longleftrightarrow>
     idSchema ''ws'' (w_workspaceId s) \<and> idSchema ''org'' (w_organizationId s) \<and> idSchema ''proj'' (w_projectId s) \<and>
     opKeySchema (w_operationKey s)"

datatype failure_kind =
    Provider_creation_failure | Scheduling_delay | Readiness_failure | Oom | Command_timeout | Network_failure
  | Unexpected_termination | Expired_sandbox_id | Expired_snapshot | Volume_sync_failure

datatype failure_disposition =
    Retry_creation nat
  | Retry_status
  | Capture_boot_logs_then_terminate
  | Terminate_then_restore_checkpoint
  | Fail_command
  | Retry_network_operation
  | Restore_workspace
  | Restore_from_git_and_artifacts

fun asFailureKind :: "js_value \<Rightarrow> failure_kind option" where
  "asFailureKind (JString s) =
     map_of [(''provider_creation_failure'', Provider_creation_failure), (''scheduling_delay'', Scheduling_delay),
       (''readiness_failure'', Readiness_failure), (''oom'', Oom), (''command_timeout'', Command_timeout),
       (''network_failure'', Network_failure), (''unexpected_termination'', Unexpected_termination),
       (''expired_sandbox_id'', Expired_sandbox_id), (''expired_snapshot'', Expired_snapshot),
       (''volume_sync_failure'', Volume_sync_failure)] s"
| "asFailureKind _ = None"

fun dispositionOf :: "failure_kind \<Rightarrow> failure_disposition" where
  "dispositionOf Provider_creation_failure = Retry_creation 3"
| "dispositionOf Scheduling_delay = Retry_status"
| "dispositionOf Readiness_failure = Capture_boot_logs_then_terminate"
| "dispositionOf Oom = Terminate_then_restore_checkpoint"
| "dispositionOf Unexpected_termination = Terminate_then_restore_checkpoint"
| "dispositionOf Command_timeout = Fail_command"
| "dispositionOf Network_failure = Retry_network_operation"
| "dispositionOf Expired_sandbox_id = Restore_workspace"
| "dispositionOf Expired_snapshot = Restore_from_git_and_artifacts"
| "dispositionOf Volume_sync_failure = Restore_from_git_and_artifacts"

definition lifecycleFailureDisposition :: "js_value \<Rightarrow> lifecycle_error + failure_disposition" where
  "lifecycleFailureDisposition input =
     (case asFailureKind input of None \<Rightarrow> Inl Invalid_failure | Some kind \<Rightarrow> Inr (dispositionOf kind))"

text \<open>The calls the manager makes on its dependencies, of all its operations.\<close>

record reconciliation_row =
  v_workspaceId :: string
  v_organizationId :: string
  v_projectId :: string
  v_providerWorkspaceId :: string
  v_status :: workspace_status

record provider_sandbox =
  p_providerWorkspaceId :: string
  p_organizationId :: string
  p_projectId :: string

datatype reconciliation_alert = Orphan_provider provider_sandbox | Stale_database_row string string string

datatype manager_call =
    Retry_creation_of lifecycle_scope nat
  | Retry_status_of lifecycle_scope
  | Capture_boot_logs lifecycle_scope
  | Mark_abnormal lifecycle_scope
  | Recover_from_checkpoint lifecycle_scope
  | Fail_command_of lifecycle_scope
  | Retry_network_of lifecycle_scope
  | Restore lifecycle_scope
  | Restore_from_git lifecycle_scope
  | Create nat string
  | Sleep int
  | Force_terminal lifecycle_scope
  | Emit_creation_failed lifecycle_scope nat
  | Acquire_lease string
  | Release_lease string
  | Terminate_provider provider_sandbox string string
  | Mark_terminated string string string string string
  | Alert reconciliation_alert string string

type_synonym manager_entry = "(manager_call, js_value) entry"
type_synonym manager_ports = "(manager_call, js_value) ports"
type_synonym 'a managed = "(lifecycle_error, manager_entry list, 'a) effect"

abbreviation call :: "manager_ports \<Rightarrow> manager_call \<Rightarrow> js_value managed" where
  "call \<equiv> awaitR Dependency_rejected"

text \<open>The calls a failure leads to, one after the other.\<close>

fun recovery :: "failure_kind \<Rightarrow> lifecycle_scope \<Rightarrow> manager_call list" where
  "recovery Provider_creation_failure s = [Retry_creation_of s 3]"
| "recovery Scheduling_delay s = [Retry_status_of s]"
| "recovery Readiness_failure s = [Capture_boot_logs s, Mark_abnormal s]"
| "recovery Oom s = [Mark_abnormal s, Recover_from_checkpoint s]"
| "recovery Unexpected_termination s = [Mark_abnormal s, Recover_from_checkpoint s]"
| "recovery Command_timeout s = [Fail_command_of s]"
| "recovery Network_failure s = [Retry_network_of s]"
| "recovery Expired_sandbox_id s = [Restore s]"
| "recovery Expired_snapshot s = [Restore_from_git s]"
| "recovery Volume_sync_failure s = [Restore_from_git s]"

definition handleLifecycleFailure ::
    "manager_ports \<Rightarrow> js_value \<Rightarrow> lifecycle_scope \<Rightarrow> failure_disposition managed" where
  "handleLifecycleFailure env input s =
     (case asFailureKind input of
        None \<Rightarrow> throwR Invalid_failure
      | Some kind \<Rightarrow>
          if \<not> LifecycleScopeSchema s then throwR Invalid_scope
          else bindR (awaitAll (call env) (recovery kind s)) (\<lambda>_. pureR (dispositionOf kind)))"

section \<open>Provisioning\<close>

datatype provision_result = Provisioned nat string | Provision_failed nat

definition ProvisionSuccessSchema :: "js_value \<Rightarrow> string option" where
  "ProvisionSuccessSchema v =
     (case strictObject [''providerWorkspaceId''] v of None \<Rightarrow> None | Some f \<Rightarrow> asText (f ''providerWorkspaceId''))"

definition asDelay :: "js_value \<Rightarrow> int option" where
  "asDelay v = (case asInt v of Some n \<Rightarrow> if 0 \<le> n then Some n else None | None \<Rightarrow> None)"

text \<open>
  The loop over the attempts.  A rejected creation counts as one that answered \<open>undefined\<close>.
\<close>

function provisionLoop :: "(nat \<Rightarrow> js_value) \<Rightarrow> manager_ports \<Rightarrow> lifecycle_scope \<Rightarrow> nat \<Rightarrow> provision_result managed" where
  "provisionLoop jitter env s attempt =
     (if 3 < attempt then throwR Unreachable_state
      else bindR (catchR (call env (Create attempt (w_operationKey s))) (\<lambda>_. pureR JUndefined))
        (\<lambda>created. case ProvisionSuccessSchema created of
            Some provider \<Rightarrow> pureR (Provisioned attempt provider)
          | None \<Rightarrow>
              if attempt = 3 then
                bindR (call env (Force_terminal s)) (\<lambda>_.
                bindR (call env (Emit_creation_failed s 3)) (\<lambda>_.
                pureR (Provision_failed 3)))
              else
                bindR (expectR Invalid_delay (asDelay (jitter attempt))) (\<lambda>delay.
                bindR (call env (Sleep delay)) (\<lambda>_.
                provisionLoop jitter env s (attempt + 1)))))"
  by pat_completeness auto
termination by (relation "measure (\<lambda>(jitter, env, s, attempt). 4 - attempt)") auto

definition provision :: "(nat \<Rightarrow> js_value) \<Rightarrow> manager_ports \<Rightarrow> lifecycle_scope \<Rightarrow> provision_result managed" where
  "provision jitter env s = (if LifecycleScopeSchema s then provisionLoop jitter env s 1 else throwR Invalid_scope)"

section \<open>Reconciliation\<close>

text \<open>A lease token that is no string is the \<open>undefined\<close> of a lease that another replica holds.\<close>

definition ReconciliationRowSchema :: "reconciliation_row \<Rightarrow> bool" where
  "ReconciliationRowSchema r \<longleftrightarrow>
     idSchema ''ws'' (v_workspaceId r) \<and> idSchema ''org'' (v_organizationId r) \<and> idSchema ''proj'' (v_projectId r) \<and>
     v_providerWorkspaceId r \<noteq> ''''"

definition ProviderSandboxSchema :: "provider_sandbox \<Rightarrow> bool" where
  "ProviderSandboxSchema p \<longleftrightarrow>
     p_providerWorkspaceId p \<noteq> '''' \<and> idSchema ''org'' (p_organizationId p) \<and> idSchema ''proj'' (p_projectId p)"

record reconciliation_input =
  n_operationKey :: string
  n_rows :: "reconciliation_row list"
  n_providerSandboxes :: "provider_sandbox list"

definition ReconciliationInputSchema :: "reconciliation_input \<Rightarrow> bool" where
  "ReconciliationInputSchema i \<longleftrightarrow>
     opKeySchema (n_operationKey i) \<and> list_all ReconciliationRowSchema (n_rows i) \<and>
     list_all ProviderSandboxSchema (n_providerSandboxes i)"

fun mutationOk :: "manager_call \<Rightarrow> bool" where
  "mutationOk (Terminate_provider p key lease) \<longleftrightarrow>
     idSchema ''org'' (p_organizationId p) \<and> idSchema ''proj'' (p_projectId p) \<and> opKeySchema key \<and> lease \<noteq> '''' \<and>
     p_providerWorkspaceId p \<noteq> ''''"
| "mutationOk (Mark_terminated ws org proj key lease) \<longleftrightarrow>
     idSchema ''org'' org \<and> idSchema ''proj'' proj \<and> opKeySchema key \<and> lease \<noteq> '''' \<and> idSchema ''ws'' ws"
| "mutationOk (Alert (Orphan_provider p) key lease) \<longleftrightarrow> ProviderSandboxSchema p"
| "mutationOk (Alert (Stale_database_row ws org proj) key lease) \<longleftrightarrow>
     idSchema ''ws'' ws \<and> idSchema ''org'' org \<and> idSchema ''proj'' proj"
| "mutationOk _ \<longleftrightarrow> True"

abbreviation mutate :: "manager_ports \<Rightarrow> manager_call \<Rightarrow> js_value managed" where
  "mutate \<equiv> parsedCallR mutationOk Invalid_mutation Dependency_rejected"

definition managerChildKey :: "(string \<Rightarrow> string) \<Rightarrow> string \<Rightarrow> string \<Rightarrow> string \<Rightarrow> string" where
  "managerChildKey sha parent action target = ''op_'' @ sha (parent @ '':'' @ action @ '':'' @ target)"

definition sameProviderIdentity :: "reconciliation_row \<Rightarrow> provider_sandbox \<Rightarrow> bool" where
  "sameProviderIdentity l r \<longleftrightarrow>
     v_providerWorkspaceId l = p_providerWorkspaceId r \<and> v_organizationId l = p_organizationId r \<and>
     v_projectId l = p_projectId r"

record reconciliation_summary =
  leaseAcquired :: bool
  orphanProvidersTerminated :: nat
  staleRowsTerminated :: nat

fun terminateOrphans ::
    "(string \<Rightarrow> string) \<Rightarrow> manager_ports \<Rightarrow> reconciliation_input \<Rightarrow> string \<Rightarrow> provider_sandbox list \<Rightarrow> nat \<Rightarrow> nat managed" where
  "terminateOrphans sha env i lease [] n = pureR n"
| "terminateOrphans sha env i lease (p # ps) n =
     (if \<not> list_ex (\<lambda>row. sameProviderIdentity row p) (n_rows i) then
        bindR (mutate env (Terminate_provider p
          (managerChildKey sha (n_operationKey i) ''terminate-orphan'' (p_providerWorkspaceId p)) lease)) (\<lambda>_.
        bindR (mutate env (Alert (Orphan_provider p)
          (managerChildKey sha (n_operationKey i) ''alert-orphan'' (p_providerWorkspaceId p)) lease)) (\<lambda>_.
        terminateOrphans sha env i lease ps (n + 1)))
      else terminateOrphans sha env i lease ps n)"

fun terminateStale ::
    "(string \<Rightarrow> string) \<Rightarrow> manager_ports \<Rightarrow> reconciliation_input \<Rightarrow> string \<Rightarrow> reconciliation_row list \<Rightarrow> nat \<Rightarrow> nat managed" where
  "terminateStale sha env i lease [] n = pureR n"
| "terminateStale sha env i lease (r # rs) n =
     (if v_status r = Active \<and> \<not> list_ex (sameProviderIdentity r) (n_providerSandboxes i) then
        bindR (mutate env (Mark_terminated (v_workspaceId r) (v_organizationId r) (v_projectId r)
          (managerChildKey sha (n_operationKey i) ''terminate-stale'' (v_workspaceId r)) lease)) (\<lambda>_.
        bindR (mutate env (Alert (Stale_database_row (v_workspaceId r) (v_organizationId r) (v_projectId r))
          (managerChildKey sha (n_operationKey i) ''alert-stale'' (v_workspaceId r)) lease)) (\<lambda>_.
        terminateStale sha env i lease rs (n + 1)))
      else terminateStale sha env i lease rs n)"

definition reconcileWorkspaces ::
    "(string \<Rightarrow> string) \<Rightarrow> manager_ports \<Rightarrow> reconciliation_input \<Rightarrow> reconciliation_summary managed" where
  "reconcileWorkspaces sha env i =
     (if \<not> ReconciliationInputSchema i then throwR Invalid_scope
      else bindR (call env (Acquire_lease (n_operationKey i))) (\<lambda>token.
        case asString token of
          None \<Rightarrow> pureR \<lparr>leaseAcquired = False, orphanProvidersTerminated = 0, staleRowsTerminated = 0\<rparr>
        | Some lease \<Rightarrow>
            finallyR
              (bindR (terminateOrphans sha env i lease (n_providerSandboxes i) 0) (\<lambda>orphans.
               bindR (terminateStale sha env i lease (n_rows i) 0) (\<lambda>stale.
               pureR \<lparr>leaseAcquired = True, orphanProvidersTerminated = orphans, staleRowsTerminated = stale\<rparr>)))
              (bindR (call env (Release_lease lease)) (\<lambda>_. pureR ()))))"

section \<open>What reconciliation has to do\<close>

definition orphaned :: "reconciliation_input \<Rightarrow> provider_sandbox \<Rightarrow> bool" where
  "orphaned i p \<longleftrightarrow> (\<forall>row \<in> set (n_rows i). \<not> sameProviderIdentity row p)"

definition stale :: "reconciliation_input \<Rightarrow> reconciliation_row \<Rightarrow> bool" where
  "stale i r \<longleftrightarrow> v_status r = Active \<and> (\<forall>p \<in> set (n_providerSandboxes i). \<not> sameProviderIdentity r p)"

definition orphanCalls :: "(string \<Rightarrow> string) \<Rightarrow> reconciliation_input \<Rightarrow> string \<Rightarrow> provider_sandbox \<Rightarrow> manager_call list" where
  "orphanCalls sha i lease p =
     [Terminate_provider p (managerChildKey sha (n_operationKey i) ''terminate-orphan'' (p_providerWorkspaceId p)) lease,
      Alert (Orphan_provider p) (managerChildKey sha (n_operationKey i) ''alert-orphan'' (p_providerWorkspaceId p)) lease]"

definition staleCalls :: "(string \<Rightarrow> string) \<Rightarrow> reconciliation_input \<Rightarrow> string \<Rightarrow> reconciliation_row \<Rightarrow> manager_call list" where
  "staleCalls sha i lease r =
     [Mark_terminated (v_workspaceId r) (v_organizationId r) (v_projectId r)
        (managerChildKey sha (n_operationKey i) ''terminate-stale'' (v_workspaceId r)) lease,
      Alert (Stale_database_row (v_workspaceId r) (v_organizationId r) (v_projectId r))
        (managerChildKey sha (n_operationKey i) ''alert-stale'' (v_workspaceId r)) lease]"

definition repairs :: "(string \<Rightarrow> string) \<Rightarrow> reconciliation_input \<Rightarrow> string \<Rightarrow> manager_call list" where
  "repairs sha i lease =
     concat (map (orphanCalls sha i lease) (filter (orphaned i) (n_providerSandboxes i))) @
     concat (map (staleCalls sha i lease) (filter (stale i) (n_rows i)))"

abbreviation digest :: "(string \<Rightarrow> string) \<Rightarrow> bool" where
  "digest sha \<equiv> \<forall>s. length (sha s) = 64 \<and> list_all is_hex (sha s)"

lemma managerChildKey_valid: "digest sha \<Longrightarrow> opKeySchema (managerChildKey sha parent action target)"
  by (simp add: managerChildKey_def opKeySchema_def)

lemma mutate_ok: "mutationOk c \<Longrightarrow> mutate env c = call env c"
  by (simp add: parsedCallR_def)

lemma orphaned_iff: "\<not> list_ex (\<lambda>row. sameProviderIdentity row p) (n_rows i) \<longleftrightarrow> orphaned i p"
  by (auto simp: list_ex_iff orphaned_def)

lemma stale_iff: "v_status r = Active \<and> \<not> list_ex (sameProviderIdentity r) (n_providerSandboxes i) \<longleftrightarrow> stale i r"
  by (auto simp: list_ex_iff stale_def)

lemma terminateOrphans_scripted:
  assumes sha: "digest sha" and lease: "lease \<noteq> ''''" and ps: "list_all ProviderSandboxSchema ps"
  shows "scripted Dependency_rejected (concat (map (orphanCalls sha i lease) (filter (orphaned i) ps)))
    (n + length (filter (orphaned i) ps)) (terminateOrphans sha env i lease ps n)"
  using ps
proof (induction ps arbitrary: n)
  case (Cons p ps)
  then have ok: "\<forall>c \<in> set (orphanCalls sha i lease p). mutationOk c"
    using lease managerChildKey_valid [OF sha] by (simp add: orphanCalls_def ProviderSandboxSchema_def)
  from Cons.IH [of "n + 1"] Cons.prems have "scripted Dependency_rejected (concat (map (orphanCalls sha i lease) (filter (orphaned i) ps)))
      (Suc (n + length (filter (orphaned i) ps))) (terminateOrphans sha env i lease ps (Suc n))" by simp
  with ok Cons show ?case
    by (simp add: orphanCalls_def [of sha i lease p] mutate_ok orphaned_iff scripted_await)
qed (simp add: scripted_pure)

lemma terminateStale_scripted:
  assumes sha: "digest sha" and lease: "lease \<noteq> ''''" and rs: "list_all ReconciliationRowSchema rs"
  shows "scripted Dependency_rejected (concat (map (staleCalls sha i lease) (filter (stale i) rs)))
    (n + length (filter (stale i) rs)) (terminateStale sha env i lease rs n)"
  using rs
proof (induction rs arbitrary: n)
  case (Cons r rs)
  then have ok: "\<forall>c \<in> set (staleCalls sha i lease r). mutationOk c"
    using lease managerChildKey_valid [OF sha] by (simp add: staleCalls_def ReconciliationRowSchema_def)
  from Cons.IH [of "n + 1"] Cons.prems have "scripted Dependency_rejected (concat (map (staleCalls sha i lease) (filter (stale i) rs)))
      (Suc (n + length (filter (stale i) rs))) (terminateStale sha env i lease rs (Suc n))" by simp
  with ok Cons show ?case
    by (simp add: staleCalls_def [of sha i lease r] mutate_ok stale_iff scripted_await)
qed (simp add: scripted_pure)

text \<open>With an empty lease token nothing can be repaired: the first argument does not parse.\<close>

lemma terminateOrphans_leaseless:
  "terminateOrphans sha env i '''' ps n h = (if filter (orphaned i) ps = [] then (Inr n, h) else (Inl Invalid_mutation, h))"
proof (induction ps)
  case (Cons p ps)
  then show ?case by (simp add: orphaned_iff parsedCallR_def throwR_def bindR_def)
qed (simp add: pureR_def)

lemma terminateStale_leaseless:
  "terminateStale sha env i '''' rs n h = (if filter (stale i) rs = [] then (Inr n, h) else (Inl Invalid_mutation, h))"
proof (induction rs)
  case (Cons r rs)
  then show ?case by (simp add: stale_iff parsedCallR_def throwR_def bindR_def)
qed (simp add: pureR_def)

definition outcome :: "reconciliation_input \<Rightarrow> reconciliation_summary" where
  "outcome i = \<lparr>leaseAcquired = True, orphanProvidersTerminated = length (filter (orphaned i) (n_providerSandboxes i)),
     staleRowsTerminated = length (filter (stale i) (n_rows i))\<rparr>"

definition reconcileBody ::
    "(string \<Rightarrow> string) \<Rightarrow> manager_ports \<Rightarrow> reconciliation_input \<Rightarrow> string \<Rightarrow> reconciliation_summary managed" where
  "reconcileBody sha env i lease =
     bindR (terminateOrphans sha env i lease (n_providerSandboxes i) 0) (\<lambda>orphans.
     bindR (terminateStale sha env i lease (n_rows i) 0) (\<lambda>stale.
     pureR \<lparr>leaseAcquired = True, orphanProvidersTerminated = orphans, staleRowsTerminated = stale\<rparr>))"

lemma reconcileBody_scripted:
  assumes "digest sha" "lease \<noteq> ''''" "ReconciliationInputSchema i"
  shows "scripted Dependency_rejected (repairs sha i lease) (outcome i) (reconcileBody sha env i lease)"
proof -
  have ok: "list_all ProviderSandboxSchema (n_providerSandboxes i)" "list_all ReconciliationRowSchema (n_rows i)"
    using assms(3) by (auto simp: ReconciliationInputSchema_def)
  from scripted_result [OF terminateStale_scripted [OF assms(1,2) ok(2), of i 0 env]]
  have "scripted Dependency_rejected (concat (map (staleCalls sha i lease) (filter (stale i) (n_rows i)))) (outcome i)
    (bindR (terminateStale sha env i lease (n_rows i) 0) (\<lambda>stale. pureR \<lparr>leaseAcquired = True,
       orphanProvidersTerminated = 0 + length (filter (orphaned i) (n_providerSandboxes i)), staleRowsTerminated = stale\<rparr>))"
    by (simp add: outcome_def)
  then show ?thesis unfolding reconcileBody_def repairs_def
    by (rule scripted_bind [OF terminateOrphans_scripted [OF assms(1,2) ok(1)]])
qed

lemma reconcileBody_leaseless:
  "reconcileBody sha env i '''' h = (if repairs sha i '''' = [] then (Inr (outcome i), h) else (Inl Invalid_mutation, h))"
  unfolding reconcileBody_def bindR_def terminateOrphans_leaseless terminateStale_leaseless
  by (simp add: repairs_def outcome_def pureR_def orphanCalls_def staleCalls_def concat_eq_Nil_conv filter_empty_conv)

lemma reconcileBody_cases:
  assumes "digest sha" and "ReconciliationInputSchema i"
  obtains r h' where "reconcileBody sha env i lease h = (r, h @ h')"
    and "if lease = [] \<and> repairs sha i lease \<noteq> [] then h' = [] \<and> r = Inl Invalid_mutation
      else accepted (repairs sha i lease) h' \<and> r = Inr (outcome i) \<or>
        cutOff (repairs sha i lease) h' \<and> r = Inl Dependency_rejected"
proof (cases "lease = []")
  case True
  then show ?thesis
    using that [of "if repairs sha i [] = [] then Inr (outcome i) else Inl Invalid_mutation" "[]"]
    by (simp add: reconcileBody_leaseless split: if_splits)
next
  case False
  from reconcileBody_scripted [OF assms(1) False assms(2)] that False show ?thesis
    unfolding scripted_def by metis
qed

lemma reconcile_leased:
  assumes "ReconciliationInputSchema i" and "c = Acquire_lease (n_operationKey i)" and "env [] c = Some (JString lease)"
    and "reconcileBody sha env i lease [(c, Some (JString lease))] = (r, h)"
  shows "reconcileWorkspaces sha env i [] =
    (if env h (Release_lease lease) = None then Inl Dependency_rejected else r, h @ [(Release_lease lease, env h (Release_lease lease))])"
  using assms
  by (cases "env h (Release_lease lease)")
    (simp_all add: reconcileWorkspaces_def reconcileBody_def finallyR_def bindR_def [of "call env _"] awaitR_def pureR_def)

section \<open>Provisioning ends\<close>

definition creates :: "manager_entry list \<Rightarrow> (nat \<times> string) list" where
  "creates h = concat (map (\<lambda>(c, _). case c of Create k key \<Rightarrow> [(k, key)] | _ \<Rightarrow> []) h)"

lemma creates_simps [simp]:
  "creates [] = []"
  "creates (h @ h') = creates h @ creates h'"
  "creates ((c, v) # h) = (case c of Create k key \<Rightarrow> [(k, key)] | _ \<Rightarrow> []) @ creates h"
  by (simp_all add: creates_def)

text \<open>How a run that made \<open>n\<close> attempts ends, by its result.\<close>

fun endsAfter :: "(nat \<Rightarrow> js_value) \<Rightarrow> lifecycle_scope \<Rightarrow> nat \<Rightarrow> lifecycle_error + provision_result \<Rightarrow> manager_entry list \<Rightarrow> bool" where
  "endsAfter jitter s n (Inr (Provisioned k provider)) h \<longleftrightarrow>
     k = n \<and> (\<exists>v. suffix [(Create n (w_operationKey s), Some v)] h \<and> ProvisionSuccessSchema v = Some provider)"
| "endsAfter jitter s n (Inr (Provision_failed k)) h \<longleftrightarrow>
     k = 3 \<and> n = 3 \<and> (\<exists>u v. suffix [(Force_terminal s, Some u), (Emit_creation_failed s 3, Some v)] h)"
| "endsAfter jitter s n (Inl e) h \<longleftrightarrow>
     e = Invalid_delay \<and> n < 3 \<and> asDelay (jitter n) = None \<or>
     e = Dependency_rejected \<and>
       (\<exists>c. suffix [(c, None)] h \<and> c \<in> range Sleep \<union> {Force_terminal s, Emit_creation_failed s 3})"

definition attempts :: "(nat \<Rightarrow> js_value) \<Rightarrow> lifecycle_scope \<Rightarrow> nat \<Rightarrow> lifecycle_error + provision_result \<Rightarrow> manager_entry list \<Rightarrow> bool" where
  "attempts jitter s attempt r h \<longleftrightarrow>
     (\<exists>n. attempt \<le> n \<and> n \<le> 3 \<and> creates h = map (\<lambda>k. (k, w_operationKey s)) [attempt..<n + 1] \<and> endsAfter jitter s n r h)"

lemma endsAfter_later: "endsAfter jitter s n r h \<Longrightarrow> endsAfter jitter s n r (h0 @ h)"
  by (cases "(jitter, s, n, r, h)" rule: endsAfter.cases) (auto intro: suffix_appendI)

lemma attempts_now: "attempt \<le> 3 \<Longrightarrow> creates h = [(attempt, w_operationKey s)] \<Longrightarrow> endsAfter jitter s attempt r h \<Longrightarrow> attempts jitter s attempt r h"
  unfolding attempts_def by (rule exI [of _ attempt]) simp

lemma attempts_later:
  assumes "attempts jitter s (attempt + 1) r h" and "creates h0 = [(attempt, w_operationKey s)]"
  shows "attempts jitter s attempt r (h0 @ h)"
proof -
  from assms(1) obtain n where n: "attempt + 1 \<le> n" "n \<le> 3"
      "creates h = map (\<lambda>k. (k, w_operationKey s)) [attempt + 1..<n + 1]" "endsAfter jitter s n r h"
    unfolding attempts_def by blast
  have "[attempt..<n + 1] = attempt # [attempt + 1..<n + 1]" using n(1) by (simp add: upt_conv_Cons)
  then have "creates (h0 @ h) = map (\<lambda>k. (k, w_operationKey s)) [attempt..<n + 1]" using n(3) assms(2) by simp
  then show ?thesis unfolding attempts_def using n endsAfter_later by (meson add_leD1)
qed

lemma provisionLoop_attempts:
  "attempt \<le> 3 \<Longrightarrow> \<exists>r h'. provisionLoop jitter env s attempt h = (r, h @ h') \<and> attempts jitter s attempt r h'"
proof (induction jitter env s attempt arbitrary: h rule: provisionLoop.induct)
  case (1 jitter env s attempt)
  let ?c = "Create attempt (w_operationKey s)"
  define v where "v = env h ?c"
  define created where "created = (case v of None \<Rightarrow> JUndefined | Some x \<Rightarrow> x)"
  have v: "catchR (call env ?c) (\<lambda>_. pureR JUndefined) h = (Inr created, h @ [(?c, v)])"
    by (cases v) (simp_all add: v_def created_def catchR_def awaitR_def pureR_def)
  have undefined: "ProvisionSuccessSchema JUndefined = None" by (simp add: ProvisionSuccessSchema_def strictObject_def)
  note step = provisionLoop.simps [of jitter env s attempt] v bindR_def awaitR_def expectR_def throwR_def pureR_def
  consider (started) provider where "ProvisionSuccessSchema created = Some provider"
    | (failed) "ProvisionSuccessSchema created = None" "attempt = 3"
    | (again) "ProvisionSuccessSchema created = None" "attempt \<noteq> 3" by fastforce
  then show ?case
  proof cases
    case started
    with undefined created_def obtain x where "v = Some x" "created = x" by (auto split: option.splits)
    with started 1(2) show ?thesis by (auto simp: step intro!: attempts_now)
  next
    case failed
    with v show ?thesis
      by (auto simp: step suffix_def intro!: attempts_now split: option.splits)
  next
    case again
    note IH = 1(1) [OF _ again]
    show ?thesis
    proof (cases "asDelay (jitter attempt)")
      case None
      with again 1(2) show ?thesis by (auto simp: step intro!: attempts_now)
    next
      case (Some delay)
      show ?thesis
      proof (cases "env (h @ [(?c, v)]) (Sleep delay)")
        case None
        with Some again 1(2) show ?thesis by (auto simp: step suffix_def intro!: attempts_now)
      next
        case w: (Some u)
        let ?h = "[(?c, v), (Sleep delay, Some u)]"
        have "provisionLoop jitter env s attempt h = provisionLoop jitter env s (attempt + 1) (h @ ?h)"
          using Some w again 1(2) by (simp add: step)
        moreover from IH 1(2) again obtain r h' where
            "provisionLoop jitter env s (attempt + 1) (h @ ?h) = (r, (h @ ?h) @ h')" "attempts jitter s (attempt + 1) r h'"
          by (metis le_neq_implies_less less_eq_Suc_le Suc_eq_plus1 not_less)
        ultimately show ?thesis using attempts_later [of jitter s attempt r h' ?h] by auto
      qed
    qed
  qed
qed

section \<open>Properties\<close>

text \<open>
  C24.  Provisioning terminates: whatever the provider and the other dependencies answer, it makes
  at most three creation attempts, numbered from one and under the same operation key.  It ends
  with the provider's handle of the last attempt, or after the third with the workspace forced
  terminal and then the failure notice, or it throws, and then only because a delay is no
  natural number or because one of the calls that are not creation attempts was rejected.
\<close>

theorem provision_terminates:
  assumes "LifecycleScopeSchema s"
  shows "\<exists>r h n. provision jitter env s [] = (r, h) \<and> 1 \<le> n \<and> n \<le> 3 \<and>
    creates h = map (\<lambda>k. (k, w_operationKey s)) [1..<n + 1] \<and> endsAfter jitter s n r h"
  using assms provisionLoop_attempts [of 1 jitter env s "[]"] by (auto simp: provision_def attempts_def)

text \<open>
  C25.  Reconciliation with a valid input works under the leader lease only: without it no other
  call is made.  With it, it terminates exactly the provider sandboxes that no row names and
  marks exactly the active rows that no sandbox backs, each with its alert, in order; it stops
  at the first rejection; it releases the lease once, as the last call, also when it throws; and
  when it returns, the counts are those of the orphans and the stale rows.  An empty lease
  token makes every repair fail before it is asked for.
\<close>

theorem reconcile_exact:
  assumes "digest sha" and "ReconciliationInputSchema i" and "reconcileWorkspaces sha env i [] = (r, h)"
  shows "(\<exists>v. h = [(Acquire_lease (n_operationKey i), v)] \<and>
        (v = None \<and> r = Inl Dependency_rejected \<or>
         (\<exists>t. v = Some t \<and> asString t = None \<and> r = Inr \<lparr>leaseAcquired = False, orphanProvidersTerminated = 0, staleRowsTerminated = 0\<rparr>))) \<or>
    (\<exists>lease h' v. h = (Acquire_lease (n_operationKey i), Some (JString lease)) # h' @ [(Release_lease lease, v)] \<and>
        (if lease = '''' \<and> repairs sha i lease \<noteq> [] then h' = [] \<and> (\<exists>e. r = Inl e)
         else if v \<noteq> None \<and> accepted (repairs sha i lease) h' then r = Inr (outcome i)
         else (accepted (repairs sha i lease) h' \<or> cutOff (repairs sha i lease) h') \<and> r = Inl Dependency_rejected))"
proof -
  define c where "c = Acquire_lease (n_operationKey i)"
  show ?thesis
  proof (cases "env [] c")
    case None
    with assms(2,3) show ?thesis by (auto simp: reconcileWorkspaces_def bindR_def awaitR_def c_def)
  next
    case (Some t)
    show ?thesis
    proof (cases "asString t")
      case None
      with Some assms(2,3) show ?thesis
        by (auto simp: reconcileWorkspaces_def bindR_def awaitR_def c_def pureR_def)
    next
      case lease: (Some lease)
      then have t: "t = JString lease" by (cases t) auto
      obtain r0 h1 where body: "reconcileBody sha env i lease [(c, Some t)] = (r0, [(c, Some t)] @ h1)"
        and r0: "if lease = [] \<and> repairs sha i lease \<noteq> [] then h1 = [] \<and> r0 = Inl Invalid_mutation
          else accepted (repairs sha i lease) h1 \<and> r0 = Inr (outcome i) \<or>
            cutOff (repairs sha i lease) h1 \<and> r0 = Inl Dependency_rejected"
        by (rule reconcileBody_cases [OF assms(1,2)])
      from reconcile_leased [OF assms(2) c_def Some [unfolded t] body [unfolded t]] assms(3) r0 cutOff_not_accepted
      show ?thesis unfolding c_def [symmetric] t by (fastforce split: if_splits)
    qed
  qed
qed

definition manager_scope :: lifecycle_scope where
  "manager_scope = \<lparr>w_workspaceId = ''ws_01J8ME7YQZJ2V9Q0X3T5B6K7NA'', w_organizationId = ''org_01J8ME7YQZJ2V9Q0X3T5B6K7NA'',
     w_projectId = ''proj_01J8ME7YQZJ2V9Q0X3T5B6K7NA'', w_operationKey = ''op_'' @ replicate 64 CHR ''a''\<rparr>"

definition sample_hash :: "string \<Rightarrow> string" where
  "sample_hash s = replicate 64 CHR ''b''"

definition sample_sandbox :: provider_sandbox where
  "sample_sandbox = \<lparr>p_providerWorkspaceId = ''sb-1'', p_organizationId = w_organizationId manager_scope,
     p_projectId = w_projectId manager_scope\<rparr>"

definition sample_reconciliation :: reconciliation_input where
  "sample_reconciliation = \<lparr>n_operationKey = w_operationKey manager_scope,
     n_rows = [\<lparr>v_workspaceId = w_workspaceId manager_scope, v_organizationId = w_organizationId manager_scope,
       v_projectId = w_projectId manager_scope, v_providerWorkspaceId = ''sb-2'', v_status = Active\<rparr>],
     n_providerSandboxes = [sample_sandbox]\<rparr>"

definition sample_manager :: manager_ports where
  "sample_manager h c = (case c of Acquire_lease key \<Rightarrow> Some (JString ''lease'') | Create k key \<Rightarrow> None | _ \<Rightarrow> Some JUndefined)"

lemmas sample_id_simps = idSchema_def opKeySchema_def is_ulid_char_def is_hex_def is_digit_def

lemma manager_scope_valid: "LifecycleScopeSchema manager_scope"
  by (simp add: LifecycleScopeSchema_def manager_scope_def sample_id_simps list_all_iff)

lemma sample_hash_valid: "digest sample_hash"
  by (simp add: sample_hash_def sample_id_simps list_all_iff)

lemma sample_reconciliation_valid: "ReconciliationInputSchema sample_reconciliation"
  by (simp add: ReconciliationInputSchema_def sample_reconciliation_def ReconciliationRowSchema_def ProviderSandboxSchema_def
      sample_sandbox_def manager_scope_def sample_id_simps list_all_iff)

theorem provision_terminates_witness:
  "\<exists>r h n. provision (\<lambda>k. JNum 5) sample_manager manager_scope [] = (r, h) \<and> n \<le> 3 \<and> endsAfter (\<lambda>k. JNum 5) manager_scope n r h"
  using provision_terminates [OF manager_scope_valid, of "\<lambda>k. JNum 5" sample_manager] by blast

theorem reconcile_exact_witness:
  "\<exists>r h v. reconcileWorkspaces sample_hash sample_manager sample_reconciliation [] = (r, h) \<and>
     (r = Inl Dependency_rejected \<or> length h = 1 \<or> last h = (Release_lease (fst v), snd v))"
proof -
  obtain r h where run: "reconcileWorkspaces sample_hash sample_manager sample_reconciliation [] = (r, h)"
    by (rule prod.exhaust)
  from reconcile_exact [OF sample_hash_valid sample_reconciliation_valid run] run show ?thesis by fastforce
qed

end
