(* ===== verification/Workspace_Reaper.thy ===== *)
theory Workspace_Reaper
  imports Workspace_Manager Capacity
begin

text \<open>
  The workspace reaper of the sandbox service
  (\<open>services/sandbox-service/src/lifecycle/reaper.ts\<close>): a sweep over candidate workspaces that
  claims those past their idle or hard limit, checkpoints and terminates them.  The store and the
  sandbox actions are ports that answer with a truth value, which only the claim looks at.
\<close>

section \<open>Limits and inputs\<close>

definition MINUTE_MS :: int where "MINUTE_MS = 60000"

definition INTERACTIVE_IDLE_MS :: int where "INTERACTIVE_IDLE_MS = 15 * MINUTE_MS"

definition AUTONOMOUS_IDLE_MS :: int where "AUTONOMOUS_IDLE_MS = 30 * MINUTE_MS"

definition HARD_REPLACE_MS :: int where "HARD_REPLACE_MS = 23 * 60 * MINUTE_MS"

fun idleTimeoutMs :: "workspace_purpose \<Rightarrow> int" where
  "idleTimeoutMs Purpose_builder = INTERACTIVE_IDLE_MS"
| "idleTimeoutMs Purpose_preview = INTERACTIVE_IDLE_MS"
| "idleTimeoutMs Purpose_verifier = AUTONOMOUS_IDLE_MS"
| "idleTimeoutMs Purpose_scan = AUTONOMOUS_IDLE_MS"

text \<open>Dates are milliseconds since the epoch.\<close>

record reaper_candidate =
  k_workspaceId :: string
  k_purpose :: workspace_purpose
  k_status :: workspace_status
  k_createdAt :: int
  k_lastActiveAt :: "int option"
  k_operationKey :: string

definition ReaperCandidateSchema :: "reaper_candidate \<Rightarrow> bool" where
  "ReaperCandidateSchema c \<longleftrightarrow>
     idSchema ''ws'' (k_workspaceId c) \<and> k_status c \<in> {Active, Checkpointing, Idle_ws} \<and> opKeySchema (k_operationKey c)"

record reaper_summary =
  s_reaped :: nat
  s_idle :: nat
  s_hardReplaced :: nat

datatype reaper_call =
    Reap_claim string string "int option"
  | Reap_checkpoint string string
  | Reap_terminate string string
  | Reap_transition string string workspace_status workspace_status

fun actionOk :: "reaper_call \<Rightarrow> bool" where
  "actionOk (Reap_claim ws key seen) \<longleftrightarrow> idSchema ''ws'' ws \<and> opKeySchema key"
| "actionOk (Reap_checkpoint ws key) \<longleftrightarrow> idSchema ''ws'' ws \<and> opKeySchema key"
| "actionOk (Reap_terminate ws key) \<longleftrightarrow> idSchema ''ws'' ws \<and> opKeySchema key"
| "actionOk (Reap_transition ws key from to) \<longleftrightarrow>
     idSchema ''ws'' ws \<and> opKeySchema key \<and> from \<in> {Checkpointing, Idle_ws} \<and> to \<in> {Idle_ws, Terminated}"

datatype reaper_error = Invalid_candidates | Invalid_clock | Invalid_action | Action_rejected

type_synonym reaper_entry = "(reaper_call, bool) entry"
type_synonym reaper_ports = "(reaper_call, bool) ports"
type_synonym 'a reaping = "(reaper_error, reaper_entry list, 'a) effect"

abbreviation act :: "reaper_ports \<Rightarrow> reaper_call \<Rightarrow> bool reaping" where
  "act \<equiv> parsedCallR actionOk Invalid_action Action_rejected"

definition reaperChildKey :: "(string \<Rightarrow> string) \<Rightarrow> string \<Rightarrow> string \<Rightarrow> string" where
  "reaperChildKey sha parent action = ''op_'' @ sha (parent @ '':'' @ action)"

section \<open>The sweep\<close>

definition hardReplacementDue :: "int \<Rightarrow> reaper_candidate \<Rightarrow> bool" where
  "hardReplacementDue now c \<longleftrightarrow> now - k_createdAt c \<ge> HARD_REPLACE_MS"

definition idleDue :: "int \<Rightarrow> reaper_candidate \<Rightarrow> bool" where
  "idleDue now c \<longleftrightarrow>
     now - (case k_lastActiveAt c of Some t \<Rightarrow> t | None \<Rightarrow> k_createdAt c) \<ge> idleTimeoutMs (k_purpose c)"

text \<open>One candidate; the result says whether it was reaped.\<close>

definition reapOne :: "(string \<Rightarrow> string) \<Rightarrow> reaper_ports \<Rightarrow> int \<Rightarrow> reaper_candidate \<Rightarrow> bool reaping" where
  "reapOne sha env now c =
     (let ws = k_workspaceId c; key = reaperChildKey sha (k_operationKey c) in
      if k_status c = Active \<and> \<not> hardReplacementDue now c \<and> \<not> idleDue now c then pureR False
      else bindR (if k_status c = Active then act env (Reap_claim ws (key ''claim'') (k_lastActiveAt c)) else pureR True) (\<lambda>claimed.
        if \<not> claimed then pureR False
        else
          let status = (if k_status c = Active then Checkpointing else k_status c) in
          bindR (if status = Checkpointing
                 then awaitAll (act env) [Reap_checkpoint ws (key ''checkpoint''),
                   Reap_transition ws (key ''mark-idle'') Checkpointing Idle_ws]
                 else pureR ()) (\<lambda>_.
          bindR (awaitAll (act env) [Reap_terminate ws (key ''terminate''),
                   Reap_transition ws (key ''mark-terminated'') Idle_ws Terminated]) (\<lambda>_.
          pureR True))))"

fun sweepCandidates ::
    "(string \<Rightarrow> string) \<Rightarrow> reaper_ports \<Rightarrow> int \<Rightarrow> reaper_candidate list \<Rightarrow> nat \<Rightarrow> nat \<Rightarrow> reaper_summary reaping" where
  "sweepCandidates sha env now [] idle hard = pureR \<lparr>s_reaped = idle + hard, s_idle = idle, s_hardReplaced = hard\<rparr>"
| "sweepCandidates sha env now (c # cs) idle hard =
     bindR (reapOne sha env now c) (\<lambda>reaped.
       if \<not> reaped then sweepCandidates sha env now cs idle hard
       else if hardReplacementDue now c then sweepCandidates sha env now cs idle (hard + 1)
       else sweepCandidates sha env now cs (idle + 1) hard)"

definition reaperSweep ::
    "(string \<Rightarrow> string) \<Rightarrow> reaper_ports \<Rightarrow> int option \<Rightarrow> reaper_candidate list \<Rightarrow> reaper_summary reaping" where
  "reaperSweep sha env clock cs =
     (if \<not> list_all ReaperCandidateSchema cs then throwR Invalid_candidates
      else case clock of None \<Rightarrow> throwR Invalid_clock | Some now \<Rightarrow> sweepCandidates sha env now cs 0 0)"

section \<open>What the calls do to the fleet\<close>

text \<open>
  The documented effect of the store: a claim that answers true moves an active workspace to
  checkpointing, an accepted transition moves it from one status to the other.
\<close>

type_synonym fleet = "string \<Rightarrow> workspace_status"

fun moved :: "reaper_entry \<Rightarrow> fleet \<Rightarrow> fleet" where
  "moved (Reap_claim ws key seen, Some True) f = (if f ws = Active then f(ws := Checkpointing) else f)"
| "moved (Reap_transition ws key from to, Some _) f = (if f ws = from then f(ws := to) else f)"
| "moved _ f = f"

text \<open>
  Every call is made in the status it is meant for: only an active workspace is claimed, only a
  checkpointing one checkpointed, only an idle one terminated, and every transition is the next
  step of the lifecycle.
\<close>

fun inPlace :: "reaper_call \<Rightarrow> fleet \<Rightarrow> bool" where
  "inPlace (Reap_claim ws key seen) f \<longleftrightarrow> f ws = Active"
| "inPlace (Reap_checkpoint ws key) f \<longleftrightarrow> f ws = Checkpointing"
| "inPlace (Reap_terminate ws key) f \<longleftrightarrow> f ws = Idle_ws"
| "inPlace (Reap_transition ws key from to) f \<longleftrightarrow> f ws = from \<and> NEXT_STATUS from = Some to"

fun lawful :: "fleet \<Rightarrow> reaper_entry list \<Rightarrow> bool" where
  "lawful f [] \<longleftrightarrow> True"
| "lawful f (e # h) \<longleftrightarrow> inPlace (fst e) f \<and> lawful (moved e f) h"

definition due :: "int \<Rightarrow> reaper_candidate \<Rightarrow> bool" where
  "due now c \<longleftrightarrow> k_status c \<noteq> Active \<or> hardReplacementDue now c \<or> idleDue now c"

lemma lawful_append: "lawful f (h @ h') \<longleftrightarrow> lawful f h \<and> lawful (fold moved h f) h'"
  by (induction h arbitrary: f) auto

lemma reaperChildKey_valid: "digest sha \<Longrightarrow> opKeySchema (reaperChildKey sha parent action)"
  by (simp add: reaperChildKey_def opKeySchema_def)

lemma act_ok: "actionOk c \<Longrightarrow> act env c = awaitR Action_rejected env c"
  by (simp add: parsedCallR_def)

text \<open>What one candidate's calls add, from a fleet that agrees with its status.\<close>

definition atRest :: "int \<Rightarrow> reaper_candidate \<Rightarrow> workspace_status \<Rightarrow> bool" where
  "atRest now c st \<longleftrightarrow>
     st \<in> {Active, Checkpointing, Idle_ws, Terminated} \<and> (k_status c \<noteq> Active \<longrightarrow> st \<noteq> Active) \<and> (\<not> due now c \<longrightarrow> st = k_status c)"

definition reapedTo :: "int \<Rightarrow> reaper_candidate \<Rightarrow> fleet \<Rightarrow> reaper_error + bool \<Rightarrow> reaper_entry list \<Rightarrow> bool" where
  "reapedTo now c f r h \<longleftrightarrow>
     lawful f h \<and> (\<forall>w. w \<noteq> k_workspaceId c \<longrightarrow> fold moved h f w = f w) \<and> atRest now c (fold moved h f (k_workspaceId c)) \<and>
     (case r of Inr b \<Rightarrow> b \<longrightarrow> fold moved h f (k_workspaceId c) = Terminated | Inl e \<Rightarrow> e = Action_rejected)"

lemma reapOne_run:
  assumes sha: "digest sha" and c: "ReaperCandidateSchema c" and f: "f (k_workspaceId c) = k_status c"
  shows "\<exists>r h'. reapOne sha env now c h = (r, h @ h') \<and> reapedTo now c f r h'"
proof -
  have ok: "idSchema ''ws'' (k_workspaceId c)" using c by (simp add: ReaperCandidateSchema_def)
  note run = reapOne_def Let_def act_ok ok reaperChildKey_valid [OF sha] bindR_def awaitR_def pureR_def due_def reapedTo_def atRest_def
  consider "k_status c = Active" "\<not> due now c" | "k_status c = Active" "due now c" | "k_status c = Checkpointing" | "k_status c = Idle_ws"
    using c unfolding ReaperCandidateSchema_def by blast
  then show ?thesis
  proof cases
    case 1
    then show ?thesis by (auto simp: run f)
  next
    case 2
    then show ?thesis by (auto simp: run f fun_eq_iff split: option.splits)
  next
    case 3
    then show ?thesis by (auto simp: run f split: option.splits)
  next
    case 4
    then show ?thesis by (auto simp: run f split: option.splits)
  qed
qed

definition agrees :: "fleet \<Rightarrow> reaper_candidate list \<Rightarrow> bool" where
  "agrees f cs \<longleftrightarrow> list_all ReaperCandidateSchema cs \<and> distinct (map k_workspaceId cs) \<and> (\<forall>c \<in> set cs. f (k_workspaceId c) = k_status c)"

definition sweptTo :: "int \<Rightarrow> reaper_candidate list \<Rightarrow> fleet \<Rightarrow> reaper_error + reaper_summary \<Rightarrow> reaper_entry list \<Rightarrow> bool" where
  "sweptTo now cs f r h \<longleftrightarrow>
     lawful f h \<and> (\<forall>w. w \<notin> k_workspaceId ` set cs \<longrightarrow> fold moved h f w = f w) \<and>
     (\<forall>c \<in> set cs. atRest now c (fold moved h f (k_workspaceId c))) \<and> (\<forall>e. r = Inl e \<longrightarrow> e = Action_rejected)"

lemma agrees_Cons:
  "agrees f (c # cs) \<longleftrightarrow> ReaperCandidateSchema c \<and> f (k_workspaceId c) = k_status c \<and> k_workspaceId c \<notin> k_workspaceId ` set cs \<and> agrees f cs"
  by (auto simp: agrees_def)

lemma agrees_cong: "(\<And>c. c \<in> set cs \<Longrightarrow> f' (k_workspaceId c) = f (k_workspaceId c)) \<Longrightarrow> agrees f cs \<Longrightarrow> agrees f' cs"
  by (auto simp: agrees_def)

lemma agrees_settled: "agrees f cs \<Longrightarrow> c \<in> set cs \<Longrightarrow> atRest now c (f (k_workspaceId c))"
  by (auto simp: agrees_def list_all_iff ReaperCandidateSchema_def atRest_def)

lemma reapedTo_others: "reapedTo now c f r h \<Longrightarrow> w \<noteq> k_workspaceId c \<Longrightarrow> fold moved h f w = f w"
  by (simp add: reapedTo_def)

lemma agrees_after:
  assumes "agrees f (c # cs)" and "reapedTo now c f r h"
  shows "agrees (fold moved h f) cs"
proof (rule agrees_cong [where f = f])
  show "fold moved h f (k_workspaceId d) = f (k_workspaceId d)" if "d \<in> set cs" for d
    using assms that by (intro reapedTo_others) (auto simp: agrees_Cons image_iff)
qed (use assms(1) in \<open>simp add: agrees_Cons\<close>)

lemma sweptTo_Nil: "agrees f cs \<Longrightarrow> \<forall>e. r = Inl e \<longrightarrow> e = Action_rejected \<Longrightarrow> sweptTo now cs f r []"
  by (simp add: sweptTo_def agrees_settled)

lemma sweptTo_kept:
  "agrees f (c # cs) \<Longrightarrow> sweptTo now cs g r h \<Longrightarrow> fold moved h g (k_workspaceId c) = g (k_workspaceId c)"
  by (simp add: sweptTo_def agrees_Cons)

lemma sweptTo_next:
  assumes "agrees f (c # cs)" "reapedTo now c f r0 h" "sweptTo now cs (fold moved h f) r h'"
  shows "sweptTo now (c # cs) f r (h @ h')"
  using assms sweptTo_kept [OF assms(1,3)] by (simp add: sweptTo_def reapedTo_def lawful_append)

lemma sweep_run:
  assumes sha: "digest sha" and "agrees f cs"
  shows "\<exists>r h'. sweepCandidates sha env now cs idle hard h = (r, h @ h') \<and> sweptTo now cs f r h'"
  using assms(2)
proof (induction cs arbitrary: f idle hard h)
  case Nil
  then show ?case by (simp add: pureR_def sweptTo_def)
next
  case (Cons c cs)
  then have c: "ReaperCandidateSchema c" "f (k_workspaceId c) = k_status c" "agrees f cs" by (simp_all add: agrees_Cons)
  from reapOne_run [where f = f, OF sha c(1,2), of env now h] obtain r h1 where
    one: "reapOne sha env now c h = (r, h @ h1)" "reapedTo now c f r h1" by blast
  show ?case
  proof (cases r)
    case (Inl e)
    with one(2) have "sweptTo now cs (fold moved h1 f) (Inl e) []"
      by (intro sweptTo_Nil agrees_after [OF Cons.prems one(2)]) (simp add: reapedTo_def)
    from sweptTo_next [OF Cons.prems one(2) this] one(1) Inl show ?thesis by (auto simp: bindR_def)
  next
    case (Inr b)
    from Cons.IH [OF agrees_after [OF Cons.prems one(2)]] have rest: "\<exists>r h'. sweepCandidates sha env now cs idle' hard' (h @ h1) = (r, (h @ h1) @ h') \<and>
        sweptTo now cs (fold moved h1 f) r h'" for idle' hard' by blast
    define step where "step = (\<lambda>reaped. if \<not> reaped then sweepCandidates sha env now cs idle hard
       else if hardReplacementDue now c then sweepCandidates sha env now cs idle (hard + 1)
       else sweepCandidates sha env now cs (idle + 1) hard)"
    have "\<exists>r h'. step b (h @ h1) = (r, (h @ h1) @ h') \<and> sweptTo now cs (fold moved h1 f) r h'"
      unfolding step_def by (cases b; cases "hardReplacementDue now c") (simp_all only: rest simp_thms if_True if_False)
    then obtain r' h' where rest': "step b (h @ h1) = (r', (h @ h1) @ h')" "sweptTo now cs (fold moved h1 f) r' h'" by blast
    have "sweepCandidates sha env now (c # cs) idle hard h = (r', h @ h1 @ h')"
      using one(1) Inr rest'(1) by (simp add: bindR_def step_def)
    with sweptTo_next [OF Cons.prems one(2) rest'(2)] show ?thesis by blast
  qed
qed

section \<open>A sweep nothing interferes with\<close>

lemma reapOne_courteous:
  assumes "digest sha" "ReaperCandidateSchema c" "\<And>h a. env h a = Some True"
  shows "\<exists>h'. reapOne sha env now c h = (Inr (due now c), h @ h')"
proof -
  have ok: "idSchema ''ws'' (k_workspaceId c)" using assms(2) by (simp add: ReaperCandidateSchema_def)
  show ?thesis
    by (auto simp: reapOne_def Let_def act_ok ok reaperChildKey_valid [OF assms(1)] bindR_def awaitR_def pureR_def due_def assms(3))
qed

lemma sweep_courteous:
  assumes sha: "digest sha" and "agrees f cs" and env: "\<And>h a. env h a = Some True"
  shows "\<exists>h'. sweepCandidates sha env now cs idle hard h =
      (Inr \<lparr>s_reaped = idle + hard + length (filter (due now) cs),
            s_idle = idle + length (filter (\<lambda>c. due now c \<and> \<not> hardReplacementDue now c) cs),
            s_hardReplaced = hard + length (filter (\<lambda>c. due now c \<and> hardReplacementDue now c) cs)\<rparr>, h @ h') \<and>
    (\<forall>c \<in> set cs. due now c \<longrightarrow> fold moved h' f (k_workspaceId c) = Terminated)"
  using assms(2)
proof (induction cs arbitrary: f idle hard h)
  case (Cons c cs)
  then have c: "ReaperCandidateSchema c" "f (k_workspaceId c) = k_status c" "agrees f cs" by (simp_all add: agrees_Cons)
  from reapOne_courteous [where env = env, OF sha c(1) env, of now h] obtain h1 where
    one: "reapOne sha env now c h = (Inr (due now c), h @ h1)" by blast
  with reapOne_run [where f = f, OF sha c(1,2), of env now h] have to: "reapedTo now c f (Inr (due now c)) h1" by auto
  note rest = Cons.IH [OF agrees_after [OF Cons.prems to], of _ _ "h @ h1"]
  have kept: "fold moved h2 (fold moved h1 f) (k_workspaceId c) = fold moved h1 f (k_workspaceId c)"
    if "sweepCandidates sha env now cs idle' hard' (h @ h1) = (r, (h @ h1) @ h2)" for idle' hard' r h2
    using sweep_run [OF sha agrees_after [OF Cons.prems to], of env now idle' hard' "h @ h1"] that
    by (auto intro: sweptTo_kept [OF Cons.prems])
  show ?case
  proof (cases "due now c")
    case False
    from rest [of idle hard] obtain h2 where "sweepCandidates sha env now cs idle hard (h @ h1) =
      (Inr \<lparr>s_reaped = idle + hard + length (filter (due now) cs),
            s_idle = idle + length (filter (\<lambda>c. due now c \<and> \<not> hardReplacementDue now c) cs),
            s_hardReplaced = hard + length (filter (\<lambda>c. due now c \<and> hardReplacementDue now c) cs)\<rparr>, (h @ h1) @ h2)"
      "\<forall>c \<in> set cs. due now c \<longrightarrow> fold moved h2 (fold moved h1 f) (k_workspaceId c) = Terminated" by blast
    with one False show ?thesis by (auto simp: bindR_def)
  next
    case True
    then have dead: "fold moved h1 f (k_workspaceId c) = Terminated" using to by (simp add: reapedTo_def)
    show ?thesis
    proof (cases "hardReplacementDue now c")
      case hard: True
      from rest [of idle "hard + 1"] kept [of idle "hard + 1"] one True hard dead show ?thesis
        by (fastforce simp: bindR_def)
    next
      case soft: False
      from rest [of "idle + 1" hard] kept [of "idle + 1" hard] one True soft dead show ?thesis
        by (fastforce simp: bindR_def)
    qed
  qed
qed (simp add: pureR_def)

section \<open>Sweeping again\<close>

text \<open>The candidates a later sweep reads: the same workspaces with their status of then.\<close>

definition refreshed :: "fleet \<Rightarrow> reaper_candidate list \<Rightarrow> reaper_candidate list" where
  "refreshed f cs = map (\<lambda>c. c\<lparr>k_status := f (k_workspaceId c)\<rparr>) (filter (\<lambda>c. f (k_workspaceId c) \<noteq> Terminated) cs)"

lemma due_mono: "hardReplacementDue now c \<or> idleDue now c \<Longrightarrow> now \<le> now' \<Longrightarrow> hardReplacementDue now' c \<or> idleDue now' c"
  by (auto simp: hardReplacementDue_def idleDue_def split: option.splits)

lemma due_refreshed:
  assumes "due now c" "atRest now c st" "now \<le> now'"
  shows "due now' (c\<lparr>k_status := st\<rparr>)"
  using assms due_mono [OF _ assms(3), of c] by (auto simp: due_def atRest_def hardReplacementDue_def idleDue_def split: option.splits)

lemma agrees_refreshed:
  assumes "agrees f cs" and "\<forall>c \<in> set cs. atRest now c (g (k_workspaceId c))"
  shows "agrees g (refreshed g cs)"
proof -
  have "map k_workspaceId (refreshed g cs) = map k_workspaceId (filter (\<lambda>c. g (k_workspaceId c) \<noteq> Terminated) cs)"
    by (simp add: refreshed_def)
  then have "distinct (map k_workspaceId (refreshed g cs))"
    using assms(1) by (simp add: agrees_def distinct_map_filter)
  moreover have "list_all ReaperCandidateSchema (refreshed g cs)"
    using assms by (auto simp: list_all_iff refreshed_def agrees_def ReaperCandidateSchema_def atRest_def)
  moreover have "\<forall>c \<in> set (refreshed g cs). g (k_workspaceId c) = k_status c" by (auto simp: refreshed_def)
  ultimately show ?thesis unfolding agrees_def by blast
qed

lemma reaperSweep_runs: "agrees f cs \<Longrightarrow> reaperSweep sha env (Some now) cs = sweepCandidates sha env now cs 0 0"
  by (simp add: reaperSweep_def agrees_def)

section \<open>Properties\<close>

text \<open>
  C26.  A sweep keeps the workspace lifecycle, whatever its dependencies answer and wherever it is
  cut short.  From a fleet whose statuses are those of the candidates, it only claims active
  workspaces, checkpoints only claimed ones, terminates only idle ones, and every transition it
  asks for is the next step of the lifecycle from the status the workspace has; it changes no
  workspace that is not a candidate and none that is active and within its limits; and it throws
  only when a dependency rejects.
\<close>

theorem sweep_keeps_lifecycle:
  assumes "digest sha" and "agrees f cs" and "reaperSweep sha env (Some now) cs [] = (r, h)"
  shows "lawful f h \<and> (\<forall>w. w \<notin> k_workspaceId ` set cs \<longrightarrow> fold moved h f w = f w) \<and>
    (\<forall>c \<in> set cs. \<not> due now c \<longrightarrow> fold moved h f (k_workspaceId c) = k_status c) \<and> (\<forall>e. r = Inl e \<longrightarrow> e = Action_rejected)"
  using sweep_run [OF assms(1,2), of env now 0 0 "[]"] assms(3)
  by (auto simp: reaperSweep_runs [OF assms(2)] sweptTo_def atRest_def)

text \<open>
  C27.  An interrupted sweep recovers.  However a sweep went, a later sweep over the same
  workspaces with their statuses of then, whose dependencies accept every call, returns; it has
  terminated every workspace that was due at the first sweep, and its summary counts the
  candidates that were due, split by the hard limit.
\<close>

theorem interrupted_sweep_recovers:
  assumes "digest sha" and "agrees f cs" and "reaperSweep sha env (Some now) cs [] = (r, h)"
    and "now \<le> now'" and "\<forall>h a. env' h a = Some True" and "g = fold moved h f"
  shows "\<exists>s h'. reaperSweep sha env' (Some now') (refreshed g cs) [] = (Inr s, h') \<and>
    (\<forall>c \<in> set cs. due now c \<longrightarrow> fold moved h' g (k_workspaceId c) = Terminated) \<and>
    s_reaped s = length (filter (due now') (refreshed g cs)) \<and> s_idle s + s_hardReplaced s = s_reaped s"
proof -
  have swept: "\<forall>c \<in> set cs. atRest now c (g (k_workspaceId c))"
    using sweep_run [OF assms(1,2), of env now 0 0 "[]"] assms(3,6)
    by (auto simp: reaperSweep_runs [OF assms(2)] sweptTo_def)
  note ag = agrees_refreshed [OF assms(2) swept]
  from sweep_courteous [where env = env', OF assms(1) ag, of now' 0 0 "[]"] assms(5) obtain h' where
    run: "sweepCandidates sha env' now' (refreshed g cs) 0 0 [] =
      (Inr \<lparr>s_reaped = length (filter (due now') (refreshed g cs)),
            s_idle = length (filter (\<lambda>c. due now' c \<and> \<not> hardReplacementDue now' c) (refreshed g cs)),
            s_hardReplaced = length (filter (\<lambda>c. due now' c \<and> hardReplacementDue now' c) (refreshed g cs))\<rparr>, h')"
    and dead: "\<forall>c \<in> set (refreshed g cs). due now' c \<longrightarrow> fold moved h' g (k_workspaceId c) = Terminated" by auto
  have "fold moved h' g (k_workspaceId c) = Terminated" if c: "c \<in> set cs" "due now c" for c
  proof (cases "g (k_workspaceId c) = Terminated")
    case True
    with c(1) assms(2) have "k_workspaceId c \<notin> k_workspaceId ` set (refreshed g cs)" by (auto simp: refreshed_def)
    with sweep_run [OF assms(1) ag, of env' now' 0 0 "[]"] run True show ?thesis by (auto simp: sweptTo_def)
  next
    case False
    with c(1) have "c\<lparr>k_status := g (k_workspaceId c)\<rparr> \<in> set (refreshed g cs)" by (auto simp: refreshed_def)
    moreover have "due now' (c\<lparr>k_status := g (k_workspaceId c)\<rparr>)" using due_refreshed c swept assms(4) by blast
    ultimately show ?thesis using dead by fastforce
  qed
  moreover have "length (filter (\<lambda>c. due now' c \<and> \<not> hardReplacementDue now' c) xs) +
      length (filter (\<lambda>c. due now' c \<and> hardReplacementDue now' c) xs) = length (filter (due now') xs)" for xs
    by (induction xs) auto
  ultimately show ?thesis using run by (auto simp: reaperSweep_runs [OF ag])
qed

definition sample_candidate :: reaper_candidate where
  "sample_candidate = \<lparr>k_workspaceId = w_workspaceId manager_scope, k_purpose = Purpose_builder, k_status = Active,
     k_createdAt = 0, k_lastActiveAt = Some 1000, k_operationKey = w_operationKey manager_scope\<rparr>"

lemma sample_agrees: "agrees (\<lambda>w. Active) [sample_candidate]"
  using manager_scope_valid
  by (simp add: agrees_def sample_candidate_def ReaperCandidateSchema_def LifecycleScopeSchema_def)

theorem sweep_keeps_lifecycle_witness:
  "lawful (\<lambda>w. Active) (snd (reaperSweep sample_hash (\<lambda>h a. if h = [] then Some True else None) (Some 1000000) [sample_candidate] []))"
  using sweep_keeps_lifecycle [OF sample_hash_valid sample_agrees prod.collapse [symmetric]] by blast

theorem interrupted_sweep_recovers_witness:
  "\<exists>f g h s h'. g = fold moved h f \<and> f (k_workspaceId sample_candidate) = Active \<and>
     reaperSweep sample_hash (\<lambda>h a. Some True) (Some 1000001) (refreshed g [sample_candidate]) [] = (Inr s, h') \<and>
     fold moved h' g (k_workspaceId sample_candidate) = Terminated"
proof -
  have "due 1000000 sample_candidate"
    by (simp add: due_def idleDue_def sample_candidate_def INTERACTIVE_IDLE_MS_def MINUTE_MS_def)
  with interrupted_sweep_recovers [where env = "\<lambda>h a. if h = [] then Some True else None" and now = 1000000 and now' = 1000001
      and env' = "\<lambda>h a. Some True", OF sample_hash_valid sample_agrees prod.collapse [symmetric] _ _ refl]
  show ?thesis by fastforce
qed

end
