(* ===== verification/Deploy_Workflow.thy ===== *)
theory Deploy_Workflow
  imports Identifiers Js_Value Ports
begin

text \<open>
  The body of the deployment workflow (\<open>services/release-service/src/workflows/deploy.ts\<close>): eight
  stages, each announced, executed and reported, with the migration plan confirmed again right
  before migrations are applied.  The activities are ports.  \<open>clock\<close> is what \<open>nowMs\<close> reads after a
  given history.
\<close>

section \<open>Data\<close>

datatype deployment_stage =
    Readiness_check | Build_artifact | Configure_secrets | Apply_migrations | Provision_runtime | Start_services
  | Production_health_check | Go_live

definition DEPLOYMENT_STAGES :: "deployment_stage list" where
  "DEPLOYMENT_STAGES = [Readiness_check, Build_artifact, Configure_secrets, Apply_migrations, Provision_runtime,
     Start_services, Production_health_check, Go_live]"

fun stage_name :: "deployment_stage \<Rightarrow> string" where
  "stage_name Readiness_check = ''readiness_check''"
| "stage_name Build_artifact = ''build_artifact''"
| "stage_name Configure_secrets = ''configure_secrets''"
| "stage_name Apply_migrations = ''apply_migrations''"
| "stage_name Provision_runtime = ''provision_runtime''"
| "stage_name Start_services = ''start_services''"
| "stage_name Production_health_check = ''production_health_check''"
| "stage_name Go_live = ''go_live''"

fun STAGE_TITLES :: "deployment_stage \<Rightarrow> string" where
  "STAGE_TITLES Readiness_check = ''Readiness check''"
| "STAGE_TITLES Build_artifact = ''Build artifact''"
| "STAGE_TITLES Configure_secrets = ''Configure secrets''"
| "STAGE_TITLES Apply_migrations = ''Apply migrations''"
| "STAGE_TITLES Provision_runtime = ''Provision runtime''"
| "STAGE_TITLES Start_services = ''Start services''"
| "STAGE_TITLES Production_health_check = ''Production health check''"
| "STAGE_TITLES Go_live = ''Go live''"

datatype stage_status = Stage_running | Stage_passed | Stage_failed

fun stage_status_name :: "stage_status \<Rightarrow> string" where
  "stage_status_name Stage_running = ''running''"
| "stage_status_name Stage_passed = ''passed''"
| "stage_status_name Stage_failed = ''failed''"

datatype deployment_status = Deployment_queued | Deployment_deploying | Deployment_healthy | Deployment_failed

record migration_plan =
  m_planId :: string
  m_evidence :: string
  m_destructive :: bool
  m_approvalRecordId :: "string option"

record activity_context =
  x_organizationId :: string
  x_projectId :: string
  x_environmentId :: string
  x_releaseId :: string
  x_deploymentId :: string

record deploy_input =
  y_context :: activity_context
  y_operationKey :: string
  y_migrationPlan :: "migration_plan option"

record update_payload =
  u_stage :: deployment_stage
  u_status :: stage_status
  u_elapsedMs :: int
  u_summary :: string
  u_evidence :: "string option"

datatype deploy_call =
    Transition_status activity_context string deployment_status deployment_status
  | Emit_updated activity_context string update_payload
  | Verify_plan activity_context string migration_plan
  | Execute_stage activity_context string deployment_stage "migration_plan option"

datatype deploy_error =
    Invalid_deploy_input
  | Invalid_activity_key
  | Invalid_payload
  | Activity_rejected
  | Invalid_verification
  | Plan_approval_mismatch
  | Plan_not_preapproved
  | Plan_classification_changed
  | Plan_record_mismatch
  | Plan_approval_not_verified
  | Invalid_stage_result

type_synonym deploy_entry = "(deploy_call, js_value) entry"
type_synonym deploy_ports = "(deploy_call, js_value) ports"
type_synonym 'a deploying = "(deploy_error, deploy_entry list, 'a) effect"

section \<open>Schemas\<close>

definition DeployMigrationPlanSchema :: "migration_plan \<Rightarrow> bool" where
  "DeployMigrationPlanSchema p \<longleftrightarrow>
     textOf 1 255 (m_planId p) \<and> idSchema ''art'' (m_evidence p) \<and>
     (case m_approvalRecordId p of None \<Rightarrow> \<not> m_destructive p | Some r \<Rightarrow> textOf 1 255 r)"

definition DeploymentActivityContextSchema :: "activity_context \<Rightarrow> bool" where
  "DeploymentActivityContextSchema x \<longleftrightarrow>
     idSchema ''org'' (x_organizationId x) \<and> idSchema ''proj'' (x_projectId x) \<and> idSchema ''env'' (x_environmentId x) \<and>
     idSchema ''rel'' (x_releaseId x) \<and> idSchema ''dep'' (x_deploymentId x)"

definition DeployWorkflowInputSchema :: "deploy_input \<Rightarrow> bool" where
  "DeployWorkflowInputSchema i \<longleftrightarrow>
     DeploymentActivityContextSchema (y_context i) \<and> textOf 8 400 (y_operationKey i) \<and>
     (case y_migrationPlan i of None \<Rightarrow> True | Some p \<Rightarrow> DeployMigrationPlanSchema p)"

definition trimPlan :: "migration_plan \<Rightarrow> migration_plan" where
  "trimPlan p = p\<lparr>m_planId := trim (m_planId p), m_approvalRecordId := map_option trim (m_approvalRecordId p)\<rparr>"

definition trimDeploy :: "deploy_input \<Rightarrow> deploy_input" where
  "trimDeploy i = i\<lparr>y_operationKey := trim (y_operationKey i), y_migrationPlan := map_option trimPlan (y_migrationPlan i)\<rparr>"

definition DeploymentUpdatedPayloadSchema :: "update_payload \<Rightarrow> bool" where
  "DeploymentUpdatedPayloadSchema u \<longleftrightarrow>
     0 \<le> u_elapsedMs u \<and> textOf 1 500 (u_summary u) \<and>
     (case u_evidence u of None \<Rightarrow> True | Some a \<Rightarrow> idSchema ''art'' a)"

record migration_verification =
  n_planId :: string
  n_preApproved :: bool
  n_destructive :: bool
  n_approvalRecordId :: "string option"
  n_destructiveApprovalVerified :: bool

definition MigrationPlanVerificationSchema :: "js_value \<Rightarrow> migration_verification option" where
  "MigrationPlanVerificationSchema v =
     (case strictObject [''planId'', ''preApproved'', ''destructive'', ''approvalRecordId'', ''destructiveApprovalVerified''] v of
        None \<Rightarrow> None
      | Some f \<Rightarrow>
          (case (asTrimmed 1 255 (f ''planId''), asBool (f ''preApproved''), asBool (f ''destructive''),
              asNullable (asTrimmed 1 255) (f ''approvalRecordId''), asBool (f ''destructiveApprovalVerified'')) of
             (Some plan, Some pre, Some destructive, Some record, Some verified) \<Rightarrow>
               Some \<lparr>n_planId = plan, n_preApproved = pre, n_destructive = destructive, n_approvalRecordId = record,
                 n_destructiveApprovalVerified = verified\<rparr>
           | _ \<Rightarrow> None))"

definition asArtifact :: "js_value \<Rightarrow> string option" where
  "asArtifact v = (case asString v of Some s \<Rightarrow> if idSchema ''art'' s then Some s else None | None \<Rightarrow> None)"

text \<open>The summary and the evidence of a stage.\<close>

definition DeploymentStageResultSchema :: "js_value \<Rightarrow> (string \<times> string option) option" where
  "DeploymentStageResultSchema v =
     (case strictObject [''summary'', ''evidenceArtifactId''] v of
        None \<Rightarrow> None
      | Some f \<Rightarrow>
          (case (asTrimmed 1 500 (f ''summary''), asOptional asArtifact (f ''evidenceArtifactId'')) of
             (Some s, Some a) \<Rightarrow> Some (s, a)
           | _ \<Rightarrow> None))"

section \<open>The workflow\<close>

definition activityKey :: "deploy_input \<Rightarrow> string \<Rightarrow> string deploying" where
  "activityKey i part =
     (let k = y_operationKey i @ '':'' @ part in if textOf 8 512 k then pureR (trim k) else throwR Invalid_activity_key)"

abbreviation activity :: "deploy_ports \<Rightarrow> deploy_call \<Rightarrow> js_value deploying" where
  "activity \<equiv> awaitR Activity_rejected"

definition assertMigrationPlanStillApproved :: "deploy_ports \<Rightarrow> deploy_input \<Rightarrow> unit deploying" where
  "assertMigrationPlanStillApproved env i =
     (case y_migrationPlan i of
        None \<Rightarrow> pureR ()
      | Some plan \<Rightarrow>
          bindR (activityKey i ''apply_migrations:approval'') (\<lambda>k.
          bindR (activity env (Verify_plan (y_context i) k plan)) (\<lambda>reply.
          bindR (expectR Invalid_verification (MigrationPlanVerificationSchema reply)) (\<lambda>v.
            if n_planId v \<noteq> m_planId plan then throwR Plan_approval_mismatch
            else if \<not> n_preApproved v then throwR Plan_not_preapproved
            else if n_destructive v \<noteq> m_destructive plan then throwR Plan_classification_changed
            else if m_destructive plan \<and> n_approvalRecordId v \<noteq> m_approvalRecordId plan then throwR Plan_record_mismatch
            else if m_destructive plan \<and> \<not> n_destructiveApprovalVerified v then throwR Plan_approval_not_verified
            else pureR ()))))"

definition emit :: "deploy_ports \<Rightarrow> deploy_input \<Rightarrow> update_payload \<Rightarrow> unit deploying" where
  "emit env i payload =
     bindR (activityKey i (stage_name (u_stage payload) @ '':event:'' @ stage_status_name (u_status payload))) (\<lambda>k.
       if \<not> DeploymentUpdatedPayloadSchema payload then throwR Invalid_payload
       else bindR (activity env (Emit_updated (y_context i) k (payload\<lparr>u_summary := trim (u_summary payload)\<rparr>))) (\<lambda>_. pureR ()))"

definition transitionStatus ::
    "deploy_ports \<Rightarrow> deploy_input \<Rightarrow> string \<Rightarrow> deployment_status \<Rightarrow> deployment_status \<Rightarrow> unit deploying" where
  "transitionStatus env i part from to =
     bindR (activityKey i part) (\<lambda>k.
     bindR (activity env (Transition_status (y_context i) k from to)) (\<lambda>_. pureR ()))"

definition readClock :: "(deploy_entry list \<Rightarrow> int) \<Rightarrow> int deploying" where
  "readClock clock h = (Inr (clock h), h)"

text \<open>The part of a stage inside \<open>try\<close>.\<close>

definition performStage :: "deploy_ports \<Rightarrow> deploy_input \<Rightarrow> deployment_stage \<Rightarrow> (string \<times> string option) deploying" where
  "performStage env i stage =
     bindR (if stage = Apply_migrations then assertMigrationPlanStillApproved env i else pureR ()) (\<lambda>_.
     bindR (activityKey i (stage_name stage @ '':execute'')) (\<lambda>k.
     bindR (activity env (Execute_stage (y_context i) k stage (y_migrationPlan i))) (\<lambda>reply.
     expectR Invalid_stage_result (DeploymentStageResultSchema reply))))"

definition failStage ::
    "(deploy_entry list \<Rightarrow> int) \<Rightarrow> deploy_ports \<Rightarrow> deploy_input \<Rightarrow> deployment_stage \<Rightarrow> int \<Rightarrow> deploy_error \<Rightarrow> 'a deploying" where
  "failStage clock env i stage startedAt e =
     bindR (readClock clock) (\<lambda>now.
     bindR (transitionStatus env i ''deployment:failed'' Deployment_deploying Deployment_failed) (\<lambda>_.
     bindR (emit env i \<lparr>u_stage = stage, u_status = Stage_failed, u_elapsedMs = max 0 (now - startedAt),
       u_summary = STAGE_TITLES stage @ '' failed.'', u_evidence = None\<rparr>) (\<lambda>_.
     throwR e)))"

definition runStage :: "(deploy_entry list \<Rightarrow> int) \<Rightarrow> deploy_ports \<Rightarrow> deploy_input \<Rightarrow> deployment_stage \<Rightarrow> unit deploying" where
  "runStage clock env i stage =
     bindR (readClock clock) (\<lambda>startedAt.
     bindR (emit env i \<lparr>u_stage = stage, u_status = Stage_running, u_elapsedMs = 0,
       u_summary = STAGE_TITLES stage @ '' started.'', u_evidence = None\<rparr>) (\<lambda>_.
     bindR (catchR (performStage env i stage) (failStage clock env i stage startedAt)) (\<lambda>(summary, evidence).
     bindR (readClock clock) (\<lambda>now.
     emit env i \<lparr>u_stage = stage, u_status = Stage_passed, u_elapsedMs = max 0 (now - startedAt),
       u_summary = summary, u_evidence = evidence\<rparr>))))"

definition executeDeployWorkflow ::
    "(deploy_entry list \<Rightarrow> int) \<Rightarrow> deploy_ports \<Rightarrow> deploy_input \<Rightarrow> (string \<times> deployment_status) deploying" where
  "executeDeployWorkflow clock env rawInput =
     (if \<not> DeployWorkflowInputSchema rawInput then throwR Invalid_deploy_input
      else
        let i = trimDeploy rawInput in
        bindR (transitionStatus env i ''deployment:deploying'' Deployment_queued Deployment_deploying) (\<lambda>_.
        bindR (awaitAll (runStage clock env i) DEPLOYMENT_STAGES) (\<lambda>_.
        bindR (transitionStatus env i ''deployment:healthy'' Deployment_deploying Deployment_healthy) (\<lambda>_.
        pureR (x_deploymentId (y_context i), Deployment_healthy)))))"

section \<open>What a history shows\<close>

text \<open>The status changes and events that were accepted, and the stages asked for.\<close>

definition moves :: "deploy_entry list \<Rightarrow> (deployment_status \<times> deployment_status) list" where
  "moves h = concat (map (\<lambda>(c, r). case c of Transition_status x k a b \<Rightarrow> if r = None then [] else [(a, b)] | _ \<Rightarrow> []) h)"

definition events :: "deploy_entry list \<Rightarrow> (deployment_stage \<times> stage_status) list" where
  "events h = concat (map (\<lambda>(c, r). case c of Emit_updated x k u \<Rightarrow> if r = None then [] else [(u_stage u, u_status u)] | _ \<Rightarrow> []) h)"

definition stagesRun :: "deploy_entry list \<Rightarrow> deployment_stage list" where
  "stagesRun h = concat (map (\<lambda>(c, r). case c of Execute_stage x k s p \<Rightarrow> [s] | _ \<Rightarrow> []) h)"

text \<open>A reply that confirms a migration plan.\<close>

definition confirms :: "migration_plan \<Rightarrow> js_value \<Rightarrow> bool" where
  "confirms plan reply \<longleftrightarrow>
     (\<exists>v. MigrationPlanVerificationSchema reply = Some v \<and> n_planId v = m_planId plan \<and> n_preApproved v \<and>
        n_destructive v = m_destructive plan \<and>
        (m_destructive plan \<longrightarrow> n_approvalRecordId v = m_approvalRecordId plan \<and> n_destructiveApprovalVerified v))"

text \<open>Whenever migrations are applied, the call right before has confirmed the plan.\<close>

fun confirmedBy :: "deploy_entry list \<Rightarrow> deploy_entry \<Rightarrow> bool" where
  "confirmedBy h (Execute_stage x k Apply_migrations (Some plan), r) \<longleftrightarrow>
     (\<exists>k' reply. suffix [(Verify_plan x k' plan, Some reply)] h \<and> confirms plan reply)"
| "confirmedBy h e \<longleftrightarrow> True"

definition guarded :: "deploy_entry list \<Rightarrow> bool" where
  "guarded h \<longleftrightarrow> (\<forall>n < length h. confirmedBy (take n h) (h ! n))"

lemma history_simps [simp]:
  "moves [] = []" "events [] = []" "stagesRun [] = []"
  "moves (h @ [(Transition_status x k a b, r)]) = moves h @ (if r = None then [] else [(a, b)])"
  "moves (h @ [(Emit_updated x k u, r)]) = moves h"
  "moves (h @ [(Verify_plan x k p, r)]) = moves h"
  "moves (h @ [(Execute_stage x k s q, r)]) = moves h"
  "events (h @ [(Emit_updated x k u, r)]) = events h @ (if r = None then [] else [(u_stage u, u_status u)])"
  "events (h @ [(Transition_status x k a b, r)]) = events h"
  "events (h @ [(Verify_plan x k p, r)]) = events h"
  "events (h @ [(Execute_stage x k s q, r)]) = events h"
  "stagesRun (h @ [(Execute_stage x k s q, r)]) = stagesRun h @ [s]"
  "stagesRun (h @ [(Transition_status x k a b, r)]) = stagesRun h"
  "stagesRun (h @ [(Emit_updated x k u, r)]) = stagesRun h"
  "stagesRun (h @ [(Verify_plan x k p, r)]) = stagesRun h"
  by (simp_all add: moves_def events_def stagesRun_def)

lemma guarded_Nil [simp]: "guarded []"
  by (simp add: guarded_def)

lemma guarded_snoc [simp]: "guarded (h @ [e]) \<longleftrightarrow> guarded h \<and> confirmedBy h e"
  by (auto simp: guarded_def nth_append less_Suc_eq)

section \<open>The calls of a valid input\<close>

definition planReady :: "deploy_input \<Rightarrow> bool" where
  "planReady i \<longleftrightarrow> 8 \<le> length (y_operationKey i) \<and> length (y_operationKey i) \<le> 400 \<and> \<not> is_space (hd (y_operationKey i))"

lemma planReady_trim: "DeployWorkflowInputSchema i \<Longrightarrow> planReady (trimDeploy i)"
proof -
  assume "DeployWorkflowInputSchema i"
  then have "8 \<le> length (trim (y_operationKey i))" "length (trim (y_operationKey i)) \<le> 400"
    by (simp_all add: DeployWorkflowInputSchema_def textOf_def sized_def)
  moreover from this(1) have "trim (y_operationKey i) \<noteq> []" by auto
  ultimately show ?thesis by (simp add: planReady_def trimDeploy_def hd_trim)
qed

definition plainPart :: "string \<Rightarrow> bool" where
  "plainPart part \<longleftrightarrow> part \<noteq> [] \<and> \<not> is_space (last part) \<and> length part \<le> 100"

lemma activityKey_ok:
  assumes "planReady i" and "plainPart part"
  shows "activityKey i part = pureR (y_operationKey i @ '':'' @ part)"
proof -
  have "y_operationKey i \<noteq> []" using assms(1) by (auto simp: planReady_def)
  then have "trim (y_operationKey i @ '':'' @ part) = y_operationKey i @ '':'' @ part"
    using assms by (intro trim_ends) (auto simp: planReady_def plainPart_def)
  with assms show ?thesis by (simp add: activityKey_def Let_def textOf_def sized_def planReady_def plainPart_def)
qed

lemma plainPart_literals [simp]:
  "plainPart ''apply_migrations:approval''" "plainPart ''deployment:failed''" "plainPart ''deployment:deploying''"
  "plainPart ''deployment:healthy''"
  by (simp_all add: plainPart_def is_space_def)

lemma plainPart_execute [simp]: "plainPart (stage_name s @ '':execute'')"
  by (cases s) (simp_all add: plainPart_def is_space_def)

lemma plainPart_event [simp]: "plainPart (stage_name s @ '':event:'' @ stage_status_name st)"
proof -
  have "length (stage_name s) \<le> 23" by (cases s) simp_all
  moreover have "stage_status_name st \<noteq> []" "\<not> is_space (last (stage_status_name st))" "length (stage_status_name st) \<le> 7"
    by (cases st; simp add: is_space_def)+
  ultimately show ?thesis by (simp add: plainPart_def)
qed

lemma title_ok: "textOf (Suc 0) 500 (STAGE_TITLES s @ '' started.'')" "textOf (Suc 0) 500 (STAGE_TITLES s @ '' failed.'')"
  by (cases s; simp add: textOf_word is_space_def)+

text \<open>The steps of a valid input without their key and payload checks.\<close>

lemma emit_eq:
  assumes "planReady i" and "DeploymentUpdatedPayloadSchema u"
  shows "\<exists>k. emit env i u = bindR (activity env (Emit_updated (y_context i) k (u\<lparr>u_summary := trim (u_summary u)\<rparr>))) (\<lambda>_. pureR ())"
  unfolding emit_def activityKey_ok [OF assms(1) plainPart_event] bindR_pure using assms(2) by auto

lemma transition_eq:
  assumes "planReady i" and "plainPart part"
  shows "\<exists>k. transitionStatus env i part a b = bindR (activity env (Transition_status (y_context i) k a b)) (\<lambda>_. pureR ())"
  using assms by (auto simp: transitionStatus_def activityKey_ok)

lemma triple_emit:
  assumes "planReady i" and "DeploymentUpdatedPayloadSchema u"
    and "\<And>h k v u'. P h \<Longrightarrow> u_stage u' = u_stage u \<Longrightarrow> u_status u' = u_status u \<Longrightarrow>
        Q (h @ [(Emit_updated (y_context i) k u', Some v)]) \<and> E Activity_rejected (h @ [(Emit_updated (y_context i) k u', None)])"
  shows "triple P (emit env i u) (\<lambda>_. Q) E"
proof -
  from emit_eq [OF assms(1,2), of env] obtain k where
    e: "emit env i u = bindR (activity env (Emit_updated (y_context i) k (u\<lparr>u_summary := trim (u_summary u)\<rparr>))) (\<lambda>_. pureR ())" by blast
  show ?thesis unfolding e by (rule triple_bind, rule triple_await [where Q = "\<lambda>_. Q"]) (auto intro: assms(3) [THEN conjunct1] assms(3) [THEN conjunct2] triple_pure)
qed

lemma triple_transition:
  assumes "planReady i" and "plainPart part"
    and "\<And>h k v. P h \<Longrightarrow>
        Q (h @ [(Transition_status (y_context i) k a b, Some v)]) \<and> E Activity_rejected (h @ [(Transition_status (y_context i) k a b, None)])"
  shows "triple P (transitionStatus env i part a b) (\<lambda>_. Q) E"
proof -
  from transition_eq [OF assms(1,2), of env a b] obtain k where
    e: "transitionStatus env i part a b = bindR (activity env (Transition_status (y_context i) k a b)) (\<lambda>_. pureR ())" by blast
  show ?thesis unfolding e by (rule triple_bind, rule triple_await [where Q = "\<lambda>_. Q"]) (auto intro: assms(3) [THEN conjunct1] assms(3) [THEN conjunct2] triple_pure)
qed

lemma triple_clock: "(\<And>x. triple P (f x) Q E) \<Longrightarrow> triple P (bindR (readClock clock) f) Q E"
  by (auto simp: triple_def bindR_def readClock_def)

section \<open>Progress\<close>

definition announced :: "deployment_stage list \<Rightarrow> (deployment_stage \<times> stage_status) list" where
  "announced ss = concat (map (\<lambda>s. [(s, Stage_running), (s, Stage_passed)]) ss)"

text \<open>The stages \<open>ss\<close> are behind, and the events \<open>es\<close> of the current one are out.\<close>

definition atStage ::
    "deployment_stage list \<Rightarrow> (deployment_stage \<times> stage_status) list \<Rightarrow> deployment_stage list \<Rightarrow> deploy_entry list \<Rightarrow> bool" where
  "atStage ss es rs h \<longleftrightarrow>
     moves h = [(Deployment_queued, Deployment_deploying)] \<and> stagesRun h = rs \<and> events h = announced ss @ es \<and> guarded h"

definition isNotice :: "deploy_call \<Rightarrow> bool" where
  "isNotice c \<longleftrightarrow> (case c of Transition_status x k a b \<Rightarrow> True | Emit_updated x k u \<Rightarrow> True | _ \<Rightarrow> False)"

definition failedWith :: "deployment_stage list \<Rightarrow> deploy_error \<Rightarrow> deploy_entry list \<Rightarrow> bool" where
  "failedWith rs e h \<longleftrightarrow>
     e \<notin> {Invalid_deploy_input, Invalid_activity_key, Invalid_payload} \<and> guarded h \<and> prefix (stagesRun h) rs \<and>
     (moves h = [(Deployment_queued, Deployment_deploying), (Deployment_deploying, Deployment_failed)] \<or>
      moves h \<in> {[], [(Deployment_queued, Deployment_deploying)]} \<and> (\<exists>c. isNotice c \<and> suffix [(c, None)] h))"

definition stageBroke :: "deployment_stage list \<Rightarrow> deploy_error \<Rightarrow> deploy_entry list \<Rightarrow> bool" where
  "stageBroke rs e h \<longleftrightarrow>
     e \<notin> {Invalid_deploy_input, Invalid_activity_key, Invalid_payload} \<and> guarded h \<and> prefix (stagesRun h) rs \<and>
     moves h = [(Deployment_queued, Deployment_deploying)]"

text \<open>The migration plan is confirmed before it is applied.\<close>

lemma confirmed_triple:
  assumes "planReady i"
  shows "triple (atStage ss es rs) (assertMigrationPlanStillApproved env i)
    (\<lambda>_ h. atStage ss es rs h \<and> (\<forall>plan. y_migrationPlan i = Some plan \<longrightarrow>
       (\<exists>k reply. suffix [(Verify_plan (y_context i) k plan, Some reply)] h \<and> confirms plan reply)))
    (stageBroke (rs @ qs))"
proof (cases "y_migrationPlan i")
  case None
  then show ?thesis by (simp add: assertMigrationPlanStillApproved_def triple_pure)
next
  case (Some plan)
  show ?thesis
    unfolding triple_def assertMigrationPlanStillApproved_def Some
    by (auto simp: activityKey_ok [OF assms] bindR_def awaitR_def expectR_def throwR_def pureR_def atStage_def stageBroke_def
        suffix_def confirms_def split: option.splits if_splits)
qed

lemma stage_result_ok:
  "DeploymentStageResultSchema reply = Some (summary, evidence) \<Longrightarrow>
   textOf (Suc 0) 500 summary \<and> (case evidence of None \<Rightarrow> True | Some a \<Rightarrow> idSchema ''art'' a)"
  by (auto simp: DeploymentStageResultSchema_def asTrimmed_def asOptional_def asArtifact_def split: option.splits if_splits)

lemma perform_triple:
  assumes "planReady i"
  shows "triple (atStage ss [(s, Stage_running)] ss) (performStage env i s)
    (\<lambda>(summary, evidence) h. atStage ss [(s, Stage_running)] (ss @ [s]) h \<and> textOf (Suc 0) 500 summary \<and>
       (case evidence of None \<Rightarrow> True | Some a \<Rightarrow> idSchema ''art'' a))
    (stageBroke (ss @ [s]))"
  unfolding performStage_def
proof (rule triple_bind)
  let ?ready = "\<lambda>h. atStage ss [(s, Stage_running)] ss h \<and> (s = Apply_migrations \<longrightarrow> (\<forall>plan. y_migrationPlan i = Some plan \<longrightarrow>
       (\<exists>k reply. suffix [(Verify_plan (y_context i) k plan, Some reply)] h \<and> confirms plan reply)))"
  show "triple (atStage ss [(s, Stage_running)] ss)
      (if s = Apply_migrations then assertMigrationPlanStillApproved env i else pureR ()) (\<lambda>_. ?ready) (stageBroke (ss @ [s]))"
  proof (rule triple_if)
    assume "s = Apply_migrations"
    then show "triple (atStage ss [(s, Stage_running)] ss) (assertMigrationPlanStillApproved env i) (\<lambda>_. ?ready) (stageBroke (ss @ [s]))"
      by (intro triple_weaken [OF confirmed_triple [OF assms]]) auto
  qed (auto intro: triple_pure)
  have guard: "confirmedBy h (Execute_stage (y_context i) k s (y_migrationPlan i), r)" if "?ready h" for h k r
    using that by (cases "y_migrationPlan i"; cases s) auto
  show "triple ?ready (bindR (activityKey i (stage_name s @ '':execute'')) (\<lambda>k.
      bindR (activity env (Execute_stage (y_context i) k s (y_migrationPlan i))) (\<lambda>reply.
      expectR Invalid_stage_result (DeploymentStageResultSchema reply))))
    (\<lambda>(summary, evidence) h. atStage ss [(s, Stage_running)] (ss @ [s]) h \<and> textOf (Suc 0) 500 summary \<and>
       (case evidence of None \<Rightarrow> True | Some a \<Rightarrow> idSchema ''art'' a)) (stageBroke (ss @ [s]))"
    unfolding activityKey_ok [OF assms plainPart_execute] bindR_pure
  proof (rule triple_bind, rule triple_await [where Q = "\<lambda>reply. atStage ss [(s, Stage_running)] (ss @ [s])"])
    show "atStage ss [(s, Stage_running)] (ss @ [s]) (h @ [(Execute_stage (y_context i) k s (y_migrationPlan i), Some v)])"
      if "?ready h" for h k v
      using that guard [OF that] by (simp add: atStage_def)
    show "stageBroke (ss @ [s]) Activity_rejected (h @ [(Execute_stage (y_context i) k s (y_migrationPlan i), None)])"
      if "?ready h" for h k
      using that guard [OF that] by (simp add: atStage_def stageBroke_def)
    show "triple (atStage ss [(s, Stage_running)] (ss @ [s])) (expectR Invalid_stage_result (DeploymentStageResultSchema reply))
      (\<lambda>(summary, evidence) h. atStage ss [(s, Stage_running)] (ss @ [s]) h \<and> textOf (Suc 0) 500 summary \<and>
       (case evidence of None \<Rightarrow> True | Some a \<Rightarrow> idSchema ''art'' a)) (stageBroke (ss @ [s]))" for reply
      using stage_result_ok [of reply]
      by (auto simp: triple_def expectR_def throwR_def pureR_def atStage_def stageBroke_def split: option.splits)
  qed
qed

lemma payload_ok:
  "0 \<le> t \<Longrightarrow> textOf (Suc 0) 500 summary \<Longrightarrow> (case evidence of None \<Rightarrow> True | Some a \<Rightarrow> idSchema ''art'' a) \<Longrightarrow>
   DeploymentUpdatedPayloadSchema \<lparr>u_stage = s, u_status = st, u_elapsedMs = t, u_summary = summary, u_evidence = evidence\<rparr>"
  by (simp add: DeploymentUpdatedPayloadSchema_def)

lemma fail_triple:
  assumes "planReady i"
  shows "triple (stageBroke rs e) (failStage clock env i s t e) (\<lambda>_ _. False) (failedWith rs)"
  unfolding failStage_def
proof (rule triple_clock, rule triple_bind [OF triple_transition [OF assms]])
  let ?failed = "\<lambda>h. e \<notin> {Invalid_deploy_input, Invalid_activity_key, Invalid_payload} \<and> guarded h \<and> prefix (stagesRun h) rs \<and>
    moves h = [(Deployment_queued, Deployment_deploying), (Deployment_deploying, Deployment_failed)]"
  fix now
  show "?failed (h @ [(Transition_status (y_context i) k Deployment_deploying Deployment_failed, Some v)]) \<and>
      failedWith rs Activity_rejected (h @ [(Transition_status (y_context i) k Deployment_deploying Deployment_failed, None)])"
    if "stageBroke rs e h" for h k v
    using that by (auto simp: stageBroke_def failedWith_def isNotice_def suffix_def)
  show "triple ?failed (bindR (emit env i \<lparr>u_stage = s, u_status = Stage_failed, u_elapsedMs = max 0 (now - t),
       u_summary = STAGE_TITLES s @ '' failed.'', u_evidence = None\<rparr>) (\<lambda>_. throwR e)) (\<lambda>_ _. False) (failedWith rs)"
  proof (rule triple_bind [OF triple_emit [OF assms payload_ok]])
    show "?failed (h @ [(Emit_updated (y_context i) k u', Some v)]) \<and>
        failedWith rs Activity_rejected (h @ [(Emit_updated (y_context i) k u', None)])" if "?failed h" for h k v u'
      using that by (auto simp: failedWith_def)
    show "triple ?failed (throwR e) (\<lambda>_ _. False) (failedWith rs)"
      by (rule triple_throw) (auto simp: failedWith_def)
  qed (simp_all add: title_ok)
qed simp

lemma failedWith_later: "failedWith rs e h \<Longrightarrow> failedWith (rs @ qs) e h"
  by (auto simp: failedWith_def)

abbreviation performed :: "deployment_stage list \<Rightarrow> deployment_stage \<Rightarrow> string \<times> string option \<Rightarrow> deploy_entry list \<Rightarrow> bool" where
  "performed ss s \<equiv> \<lambda>(summary, evidence) h. atStage ss [(s, Stage_running)] (ss @ [s]) h \<and> textOf (Suc 0) 500 summary \<and>
     (case evidence of None \<Rightarrow> True | Some a \<Rightarrow> idSchema ''art'' a)"

lemma pass_triple:
  assumes "planReady i"
  shows "triple (performed ss s res) (case res of (summary, evidence) \<Rightarrow> bindR (readClock clock) (\<lambda>now. emit env i \<lparr>u_stage = s,
      u_status = Stage_passed, u_elapsedMs = max 0 (now - t), u_summary = summary, u_evidence = evidence\<rparr>))
    (\<lambda>_. atStage (ss @ [s]) [] (ss @ [s])) (failedWith (ss @ [s]))"
proof -
  obtain summary evidence where res: "res = (summary, evidence)" by (rule prod.exhaust)
  show ?thesis
  proof (cases "textOf (Suc 0) 500 summary \<and> (case evidence of None \<Rightarrow> True | Some a \<Rightarrow> idSchema ''art'' a)")
    case False
    then show ?thesis by (auto simp: res triple_def)
  next
    case True
    show ?thesis unfolding res prod.case
      by (rule triple_clock, rule triple_emit [OF assms payload_ok])
        (use True in \<open>auto simp: atStage_def failedWith_def isNotice_def suffix_def announced_def\<close>)
  qed
qed

lemma stage_triple:
  assumes "planReady i"
  shows "triple (atStage ss [] ss) (runStage clock env i s) (\<lambda>_. atStage (ss @ [s]) [] (ss @ [s])) (failedWith (ss @ [s]))"
  unfolding runStage_def
proof (rule triple_clock)
  fix t
  have start: "triple (atStage ss [] ss) (emit env i \<lparr>u_stage = s, u_status = Stage_running, u_elapsedMs = 0,
       u_summary = STAGE_TITLES s @ '' started.'', u_evidence = None\<rparr>) (\<lambda>_. atStage ss [(s, Stage_running)] ss) (failedWith (ss @ [s]))"
    by (rule triple_emit [OF assms payload_ok])
      (auto simp: title_ok atStage_def failedWith_def isNotice_def suffix_def)
  have attempt: "triple (atStage ss [(s, Stage_running)] ss) (catchR (performStage env i s) (failStage clock env i s t))
      (performed ss s) (failedWith (ss @ [s]))"
    by (rule triple_catch [OF perform_triple [OF assms]]) (rule triple_weaken [OF fail_triple [OF assms]], auto)
  show "triple (atStage ss [] ss) (bindR (emit env i \<lparr>u_stage = s, u_status = Stage_running, u_elapsedMs = 0,
       u_summary = STAGE_TITLES s @ '' started.'', u_evidence = None\<rparr>) (\<lambda>_.
     bindR (catchR (performStage env i s) (failStage clock env i s t)) (\<lambda>(summary, evidence).
     bindR (readClock clock) (\<lambda>now. emit env i \<lparr>u_stage = s, u_status = Stage_passed, u_elapsedMs = max 0 (now - t),
       u_summary = summary, u_evidence = evidence\<rparr>))))
     (\<lambda>_. atStage (ss @ [s]) [] (ss @ [s])) (failedWith (ss @ [s]))"
    by (rule triple_bind [OF start triple_bind [OF attempt pass_triple [OF assms]]])
qed

lemma stages_triple:
  assumes "planReady i"
  shows "triple (atStage ss [] ss) (awaitAll (runStage clock env i) qs) (\<lambda>_. atStage (ss @ qs) [] (ss @ qs)) (failedWith (ss @ qs))"
proof (induction qs arbitrary: ss)
  case Nil
  then show ?case by (simp add: triple_pure)
next
  case (Cons q qs)
  have "triple (atStage ss [] ss) (runStage clock env i q) (\<lambda>_. atStage (ss @ [q]) [] (ss @ [q])) (failedWith (ss @ q # qs))"
    by (rule triple_weaken [OF stage_triple [OF assms]]) (auto dest: failedWith_later [of _ _ _ qs])
  with Cons.IH [of "ss @ [q]"] show ?case by (auto intro: triple_bind)
qed

section \<open>Properties\<close>

abbreviation deployed :: "(deployment_status \<times> deployment_status) list" where
  "deployed \<equiv> [(Deployment_queued, Deployment_deploying), (Deployment_deploying, Deployment_healthy)]"

abbreviation abandoned :: "(deployment_status \<times> deployment_status) list" where
  "abandoned \<equiv> [(Deployment_queued, Deployment_deploying), (Deployment_deploying, Deployment_failed)]"

text \<open>
  C34.  The deployment workflow, on a valid input and whatever its activities answer, executes the
  stages in order without repeating or skipping one, and applies migrations only directly after
  the plan was confirmed: same plan, pre-approved, same classification, and for a destructive
  one the same approval record, verified.  It returns only after all eight stages were executed
  and reported as passed and the deployment moved from queued over deploying to healthy.  When
  it throws, the deployment was moved from deploying to failed, unless the call that was rejected
  is itself a status change or an event; and it never throws because of its own keys or payloads.
\<close>

theorem deploy_workflow_correct:
  assumes "DeployWorkflowInputSchema i" and "executeDeployWorkflow clock env i [] = (r, h)"
  shows "guarded h \<and> prefix (stagesRun h) DEPLOYMENT_STAGES \<and>
    (case r of
       Inr result \<Rightarrow> result = (x_deploymentId (y_context i), Deployment_healthy) \<and> moves h = deployed \<and>
         stagesRun h = DEPLOYMENT_STAGES \<and> events h = announced DEPLOYMENT_STAGES
     | Inl e \<Rightarrow> e \<notin> {Invalid_deploy_input, Invalid_activity_key, Invalid_payload} \<and>
         (moves h = abandoned \<or>
          moves h \<in> {[], [(Deployment_queued, Deployment_deploying)]} \<and> (\<exists>c. isNotice c \<and> suffix [(c, None)] h)))"
proof -
  note ok = planReady_trim [OF assms(1)]
  let ?i = "trimDeploy i"
  have first: "triple (\<lambda>h. h = []) (transitionStatus env ?i ''deployment:deploying'' Deployment_queued Deployment_deploying)
      (\<lambda>_. atStage [] [] []) (failedWith ([] @ DEPLOYMENT_STAGES))"
    by (rule triple_transition [OF ok])
      (simp_all add: atStage_def failedWith_def announced_def isNotice_def suffix_def moves_def events_def stagesRun_def guarded_def)
  have final: "triple (atStage ([] @ DEPLOYMENT_STAGES) [] ([] @ DEPLOYMENT_STAGES))
      (transitionStatus env ?i ''deployment:healthy'' Deployment_deploying Deployment_healthy)
      (\<lambda>_ h. guarded h \<and> moves h = deployed \<and> stagesRun h = DEPLOYMENT_STAGES \<and> events h = announced DEPLOYMENT_STAGES)
      (failedWith ([] @ DEPLOYMENT_STAGES))"
    by (rule triple_transition [OF ok]) (auto simp: atStage_def failedWith_def isNotice_def suffix_def)
  have "triple (\<lambda>h. h = []) (executeDeployWorkflow clock env i)
      (\<lambda>result h. result = (x_deploymentId (y_context ?i), Deployment_healthy) \<and> guarded h \<and> moves h = deployed \<and>
         stagesRun h = DEPLOYMENT_STAGES \<and> events h = announced DEPLOYMENT_STAGES)
      (failedWith ([] @ DEPLOYMENT_STAGES))"
    using assms(1) unfolding executeDeployWorkflow_def Let_def
    by (simp, intro triple_bind [OF first [simplified]] triple_bind [OF stages_triple [OF ok, of "[]", simplified]]
        triple_bind [OF final [simplified]] triple_pure) auto
  from tripleD [OF this _ assms(2)] show ?thesis
    by (auto simp: failedWith_def trimDeploy_def split: sum.splits)
qed

definition sample_migration_plan :: migration_plan where
  "sample_migration_plan = \<lparr>m_planId = ''plan-1'', m_evidence = ''art_01J8ME7YQZJ2V9Q0X3T5B6K7N9'', m_destructive = True,
     m_approvalRecordId = Some ''approval-1''\<rparr>"

definition sample_deploy :: deploy_input where
  "sample_deploy = \<lparr>y_context = \<lparr>x_organizationId = ''org_01J8ME7YQZJ2V9Q0X3T5B6K7N9'', x_projectId = ''proj_01J8ME7YQZJ2V9Q0X3T5B6K7N9'',
       x_environmentId = ''env_01J8ME7YQZJ2V9Q0X3T5B6K7N9'', x_releaseId = ''rel_01J8ME7YQZJ2V9Q0X3T5B6K7N9'',
       x_deploymentId = ''dep_01J8ME7YQZJ2V9Q0X3T5B6K7N9''\<rparr>,
     y_operationKey = ''deploy-1'', y_migrationPlan = Some sample_migration_plan\<rparr>"

definition sample_activities :: deploy_ports where
  "sample_activities h c = (case c of
       Verify_plan x k p \<Rightarrow> Some (JObject [(''planId'', JString ''plan-1''), (''preApproved'', JBool True), (''destructive'', JBool True),
         (''approvalRecordId'', JString ''approval-1''), (''destructiveApprovalVerified'', JBool False)])
     | _ \<Rightarrow> Some (JObject [(''summary'', JString ''done'')]))"

lemma sample_deploy_valid: "DeployWorkflowInputSchema sample_deploy"
  by (simp add: DeployWorkflowInputSchema_def sample_deploy_def sample_migration_plan_def DeploymentActivityContextSchema_def
      DeployMigrationPlanSchema_def textOf_def sized_def trim_def is_space_def idSchema_def is_ulid_char_def is_digit_def list_all_iff)

theorem deploy_workflow_correct_witness:
  "guarded (snd (executeDeployWorkflow (\<lambda>h. 0) sample_activities sample_deploy [])) \<and>
   prefix (stagesRun (snd (executeDeployWorkflow (\<lambda>h. 0) sample_activities sample_deploy []))) DEPLOYMENT_STAGES"
  using deploy_workflow_correct [OF sample_deploy_valid prod.collapse [symmetric], of "\<lambda>h. 0" sample_activities] by blast

end
