(* ===== verification/Readiness.thy ===== *)
theory Readiness
  imports Verifier Js_Value Ports
begin

text \<open>
  Pre-deployment readiness of a release
  (\<open>services/release-service/src/release/readiness.ts\<close>): the findings over the results of the
  build, the checks, the database, the provider, the critical flows and the verifier, and the
  report.  Of the execution contract only whether its optional sections are there matters.
\<close>

section \<open>Data\<close>

record commit_check =
  q_commitSha :: string
  q_passed :: bool
  q_detail :: string

record flow_result =
  fl_id :: string
  fl_passed :: bool
  fl_detail :: string

datatype db_check = Db_passed | Db_failed | Db_not_applicable

datatype migration_approval = Not_required | Migration_approved | Migration_missing

record database_readiness =
  d_required :: bool
  d_connectivity :: db_check
  d_migrationValidation :: db_check
  d_destructiveMigrationApproval :: migration_approval

record compatibility_result =
  cp_providerId :: string
  cp_compatible :: bool
  cp_reasons :: "string list"

record verification_summary =
  vs_commitSha :: string
  vs_decision :: verification_decision
  vs_blocking :: "string list"
  vs_warning :: "string list"

record readiness_input =
  ri_releaseId :: string
  ri_commitSha :: string
  ri_supportLevel :: support_level
  ri_hasBuild :: bool
  ri_hasStart :: bool
  ri_hasHealth :: bool
  ri_planProviderId :: string
  ri_requiredEnvVars :: "string list"
  ri_detectedReads :: "string list"
  ri_configuredNames :: "string list"
  ri_productionBuild :: commit_check
  ri_productionStart :: commit_check
  ri_lockfile :: commit_check
  ri_database :: database_readiness
  ri_provider :: compatibility_result
  ri_flowsCommit :: string
  ri_flows :: "flow_result list"
  ri_verification :: verification_summary

datatype finding_severity = Blocker | Warning_finding

datatype finding_action = Fix_and_recheck | Review | Waive

record readiness_finding =
  f_id :: string
  f_severity :: finding_severity
  f_title :: string
  f_detail :: string
  f_action :: finding_action

datatype readiness_state = State_ready | State_warnings | State_blocked

record readiness_report =
  rp_releaseId :: string
  rp_commitSha :: string
  rp_state :: readiness_state
  rp_findings :: "readiness_finding list"
  rp_blockers :: "string list"
  rp_fix :: bool

datatype readiness_error =
    Invalid_readiness_input
  | Invalid_finding
  | Invalid_report
  | Fix_not_available
  | Fix_run_rejected
  | Invalid_fix_run

section \<open>Schemas\<close>

definition EnvironmentNameSchema :: "string \<Rightarrow> bool" where
  "EnvironmentNameSchema s \<longleftrightarrow>
     sized 1 256 s \<and> (is_upper (hd s) \<or> hd s = CHR ''_'') \<and> list_all (\<lambda>c. is_upper c \<or> is_digit c \<or> c = CHR ''_'') s"

definition CheckResultSchema :: "commit_check \<Rightarrow> bool" where
  "CheckResultSchema q \<longleftrightarrow> CommitShaSchema (q_commitSha q) \<and> textOf 1 2000 (q_detail q)"

definition CriticalBrowserFlowSchema :: "flow_result \<Rightarrow> bool" where
  "CriticalBrowserFlowSchema r \<longleftrightarrow> textOf 1 256 (fl_id r) \<and> textOf 1 2000 (fl_detail r)"

definition ReadinessEvaluationInputSchema :: "readiness_input \<Rightarrow> bool" where
  "ReadinessEvaluationInputSchema i \<longleftrightarrow>
     idSchema ''rel'' (ri_releaseId i) \<and> CommitShaSchema (ri_commitSha i) \<and>
     ri_planProviderId i \<noteq> '''' \<and> list_all (\<lambda>s. s \<noteq> '''') (ri_requiredEnvVars i) \<and>
     list_all EnvironmentNameSchema (ri_detectedReads i) \<and> length (ri_detectedReads i) \<le> 1000 \<and>
     list_all EnvironmentNameSchema (ri_configuredNames i) \<and> length (ri_configuredNames i) \<le> 1000 \<and>
     CheckResultSchema (ri_productionBuild i) \<and> CheckResultSchema (ri_productionStart i) \<and> CheckResultSchema (ri_lockfile i) \<and>
     cp_providerId (ri_provider i) \<noteq> '''' \<and> list_all (\<lambda>s. s \<noteq> '''') (cp_reasons (ri_provider i)) \<and>
     CommitShaSchema (ri_flowsCommit i) \<and> list_all CriticalBrowserFlowSchema (ri_flows i) \<and>
     1 \<le> length (ri_flows i) \<and> length (ri_flows i) \<le> 1000 \<and>
     CommitShaSchema (vs_commitSha (ri_verification i)) \<and>
     list_all (textOf 1 2000) (vs_blocking (ri_verification i)) \<and> length (vs_blocking (ri_verification i)) \<le> 1000 \<and>
     list_all (textOf 1 2000) (vs_warning (ri_verification i)) \<and> length (vs_warning (ri_verification i)) \<le> 1000 \<and>
     distinct (map (\<lambda>r. trim (fl_id r)) (ri_flows i))"

text \<open>What the schema makes of an input it accepts.\<close>

definition trimCheck :: "commit_check \<Rightarrow> commit_check" where
  "trimCheck q = q\<lparr>q_detail := trim (q_detail q)\<rparr>"

definition trimFlow :: "flow_result \<Rightarrow> flow_result" where
  "trimFlow r = r\<lparr>fl_id := trim (fl_id r), fl_detail := trim (fl_detail r)\<rparr>"

definition trimSummary :: "verification_summary \<Rightarrow> verification_summary" where
  "trimSummary v = v\<lparr>vs_blocking := map trim (vs_blocking v), vs_warning := map trim (vs_warning v)\<rparr>"

definition trimReadiness :: "readiness_input \<Rightarrow> readiness_input" where
  "trimReadiness i = i\<lparr>ri_productionBuild := trimCheck (ri_productionBuild i), ri_productionStart := trimCheck (ri_productionStart i),
     ri_lockfile := trimCheck (ri_lockfile i), ri_flows := map trimFlow (ri_flows i), ri_verification := trimSummary (ri_verification i)\<rparr>"

definition trimFinding :: "readiness_finding \<Rightarrow> readiness_finding" where
  "trimFinding f = f\<lparr>f_id := trim (f_id f), f_title := trim (f_title f), f_detail := trim (f_detail f)\<rparr>"

definition findingFits :: "readiness_finding \<Rightarrow> bool" where
  "findingFits f \<longleftrightarrow> textOf 1 512 (f_id f) \<and> textOf 1 256 (f_title f) \<and> textOf 1 2000 (f_detail f)"

definition ReadinessFindingSchema_parse :: "readiness_finding \<Rightarrow> readiness_error + readiness_finding" where
  "ReadinessFindingSchema_parse f =
     (if findingFits f then Inr (trimFinding f) else Inl Invalid_finding)"

definition blockerIds :: "readiness_finding list \<Rightarrow> string list" where
  "blockerIds fs = map f_id (filter (\<lambda>f. f_severity f = Blocker) fs)"

definition stateOf :: "readiness_finding list \<Rightarrow> readiness_state" where
  "stateOf fs = (if blockerIds fs \<noteq> [] then State_blocked else if fs \<noteq> [] then State_warnings else State_ready)"

definition ReadinessReportSchema_parse :: "readiness_report \<Rightarrow> readiness_error + readiness_report" where
  "ReadinessReportSchema_parse rep =
     (let fs = map trimFinding (rp_findings rep); blockers = map trim (rp_blockers rep) in
      if idSchema ''rel'' (rp_releaseId rep) \<and> CommitShaSchema (rp_commitSha rep) \<and>
         list_all findingFits (rp_findings rep) \<and> length fs \<le> 2000 \<and>
         list_all (textOf 1 512) (rp_blockers rep) \<and> length blockers \<le> 2000 \<and>
         blockerIds fs = blockers \<and> rp_state rep = stateOf fs \<and> (rp_state rep = State_blocked \<longleftrightarrow> rp_fix rep)
      then Inr (rep\<lparr>rp_findings := fs, rp_blockers := blockers\<rparr>)
      else Inl Invalid_report)"

section \<open>Findings\<close>

definition blockedFinding :: "string \<Rightarrow> string \<Rightarrow> string \<Rightarrow> readiness_finding" where
  "blockedFinding i name text =
     \<lparr>f_id = i, f_severity = Blocker, f_title = name, f_detail = text, f_action = Fix_and_recheck\<rparr>"

definition riskDetail :: "string list \<Rightarrow> string \<Rightarrow> string" where
  "riskDetail summaries fallback = (if summaries = [] then fallback else join '' '' summaries)"

definition contractFindings :: "readiness_input \<Rightarrow> readiness_finding list" where
  "contractFindings i =
     (let c = ri_commitSha i; b = ri_productionBuild i; s = ri_productionStart i; l = ri_lockfile i in
      (if \<not> ri_hasBuild i \<or> \<not> q_passed b \<or> q_commitSha b \<noteq> c
       then [blockedFinding ''production_build'' ''Production build failed''
         (if \<not> ri_hasBuild i then ''The execution contract does not define a production build command.''
          else if q_commitSha b \<noteq> c then ''The production-build result does not belong to the release commit.''
          else q_detail b)] else []) @
      (if \<not> ri_hasStart i \<or> \<not> q_passed s \<or> q_commitSha s \<noteq> c
       then [blockedFinding ''production_start'' ''Production start failed''
         (if \<not> ri_hasStart i then ''The execution contract does not define the command the deployed service must run.''
          else if q_commitSha s \<noteq> c then ''The production-start result does not belong to the release commit.''
          else q_detail s)] else []) @
      (if \<not> q_passed l \<or> q_commitSha l \<noteq> c
       then [blockedFinding ''lockfile_consistency'' ''Lockfile is inconsistent''
         (if q_commitSha l \<noteq> c then ''The frozen-install result does not belong to the release commit.'' else q_detail l)] else []))"

definition missingEnvironment :: "readiness_input \<Rightarrow> string list" where
  "missingEnvironment i =
     filter (\<lambda>name. name \<notin> set (ri_configuredNames i))
       (foldr (insertBy codeUnitLe) (uniq (ri_requiredEnvVars i @ ri_detectedReads i)) [])"

definition environmentFinding :: "readiness_input \<Rightarrow> string \<Rightarrow> readiness_finding" where
  "environmentFinding i name =
     (let managed = (ri_supportLevel i = Managed) in
      \<lparr>f_id = ''missing_environment:'' @ name, f_severity = (if managed then Blocker else Warning_finding),
       f_title = ''Environment value missing'',
       f_detail = name @ '' is required by the contract or source but is not configured in the target environment.'',
       f_action = (if managed then Fix_and_recheck else Review)\<rparr>)"

definition databaseFindings :: "readiness_input \<Rightarrow> readiness_finding list" where
  "databaseFindings i =
     (let d = ri_database i in
      (if d_connectivity d = Db_failed \<or> d_required d \<and> d_connectivity d \<noteq> Db_passed
       then [blockedFinding ''database_connectivity'' ''Database connection failed''
         ''The target database did not pass its connectivity check.''] else []) @
      (if d_migrationValidation d = Db_failed \<or> d_required d \<and> d_migrationValidation d \<noteq> Db_passed
       then [blockedFinding ''migration_validation'' ''Migration validation failed''
         ''Pending migrations did not pass the isolated validation and smoke checks.''] else []) @
      (if d_destructiveMigrationApproval d = Migration_missing
       then [blockedFinding ''migration_approval'' ''Migration approval missing''
         ''A destructive migration is present without its required approval record.''] else []))"

definition providerFindings :: "readiness_input \<Rightarrow> readiness_finding list" where
  "providerFindings i =
     (let p = ri_provider i in
      (if cp_providerId p \<noteq> ri_planProviderId i \<or> \<not> cp_compatible p
       then [blockedFinding ''provider_compatibility'' ''Deployment provider is incompatible''
         (if cp_reasons p = [] then ''The selected deployment provider did not accept this project contract.''
          else join '' '' (cp_reasons p))] else []) @
      (if \<not> ri_hasHealth i
       then [blockedFinding ''health_endpoint'' ''Health endpoint missing''
         ''The execution contract does not define a production health endpoint.''] else []))"

definition flowFindings :: "readiness_input \<Rightarrow> readiness_finding list" where
  "flowFindings i =
     (if ri_flowsCommit i \<noteq> ri_commitSha i
      then [blockedFinding ''critical_browser_flow_commit'' ''Critical-flow evidence is stale''
        ''The latest critical browser-flow results do not belong to the release commit.'']
      else map (\<lambda>r. blockedFinding (''critical_browser_flow:'' @ fl_id r) ''Critical browser flow failed'' (fl_detail r))
        (filter (\<lambda>r. \<not> fl_passed r) (ri_flows i)))"

definition policyFindings :: "readiness_input \<Rightarrow> readiness_finding list" where
  "policyFindings i =
     (let v = ri_verification i in
      (if vs_commitSha v \<noteq> ri_commitSha i
       then [blockedFinding ''release_policy_commit'' ''Release-policy evidence is stale''
         ''The VF-10 verifier decision does not belong to the release commit.''] else []) @
      (case vs_decision v of
         Rejected \<Rightarrow> [blockedFinding ''release_policy'' ''Release policy rejected the commit''
           (riskDetail (vs_blocking v) ''The VF-10 verifier rejected this commit for release.'')]
       | Needs_human \<Rightarrow> [\<lparr>f_id = ''release_policy'', f_severity = Warning_finding, f_title = ''Release policy needs review'',
           f_detail = riskDetail (vs_warning v) ''The VF-10 verifier requires a human release review.'', f_action = Review\<rparr>]
       | Approved \<Rightarrow> []))"

definition readinessFindings :: "readiness_input \<Rightarrow> readiness_finding list" where
  "readinessFindings i =
     contractFindings i @ map (environmentFinding i) (missingEnvironment i) @ databaseFindings i @ providerFindings i @
     flowFindings i @ policyFindings i"

definition evaluateReadiness :: "readiness_input \<Rightarrow> readiness_error + readiness_report" where
  "evaluateReadiness inputValue =
     (if \<not> ReadinessEvaluationInputSchema inputValue then Inl Invalid_readiness_input
      else
        let i = trimReadiness inputValue in
        andThen (mapThrow ReadinessFindingSchema_parse (readinessFindings i)) (\<lambda>findings.
          ReadinessReportSchema_parse
            \<lparr>rp_releaseId = ri_releaseId i, rp_commitSha = ri_commitSha i, rp_state = stateOf findings,
             rp_findings = findings, rp_blockers = blockerIds findings, rp_fix = (blockerIds findings \<noteq> [])\<rparr>))"

section \<open>Fix and recheck\<close>

text \<open>The call of the fix run port: release, commit, findings and operation key.\<close>

type_synonym fix_call = "string \<times> string \<times> string list \<times> string"

definition asFixRun :: "js_value \<Rightarrow> string option" where
  "asFixRun v =
     (case strictObject [''runId''] v of
        None \<Rightarrow> None
      | Some f \<Rightarrow> (case asString (f ''runId'') of Some s \<Rightarrow> if idSchema ''run'' s then Some s else None | None \<Rightarrow> None))"

definition fixAndRecheck ::
    "(fix_call, js_value) ports \<Rightarrow> readiness_report \<Rightarrow> string \<Rightarrow> (readiness_error, (fix_call, js_value) entry list, string) effect" where
  "fixAndRecheck env rep key =
     (case ReadinessReportSchema_parse rep of
        Inl e \<Rightarrow> throwR e
      | Inr r \<Rightarrow>
          if \<not> opKeySchema key then throwR Invalid_report
          else if rp_state r \<noteq> State_blocked \<or> \<not> rp_fix r then throwR Fix_not_available
          else bindR (awaitR Fix_run_rejected env (rp_releaseId r, rp_commitSha r, rp_blockers r, key))
            (\<lambda>v. expectR Invalid_fix_run (asFixRun v)))"

section \<open>When a release is cleared\<close>

definition cleared :: "readiness_input \<Rightarrow> bool" where
  "cleared i \<longleftrightarrow>
     (ri_hasBuild i \<and> q_passed (ri_productionBuild i) \<and> q_commitSha (ri_productionBuild i) = ri_commitSha i) \<and>
     (ri_hasStart i \<and> q_passed (ri_productionStart i) \<and> q_commitSha (ri_productionStart i) = ri_commitSha i) \<and>
     (q_passed (ri_lockfile i) \<and> q_commitSha (ri_lockfile i) = ri_commitSha i) \<and>
     (ri_supportLevel i = Managed \<longrightarrow> set (ri_requiredEnvVars i) \<union> set (ri_detectedReads i) \<subseteq> set (ri_configuredNames i)) \<and>
     (d_connectivity (ri_database i) \<noteq> Db_failed \<and> (d_required (ri_database i) \<longrightarrow> d_connectivity (ri_database i) = Db_passed)) \<and>
     (d_migrationValidation (ri_database i) \<noteq> Db_failed \<and>
        (d_required (ri_database i) \<longrightarrow> d_migrationValidation (ri_database i) = Db_passed)) \<and>
     d_destructiveMigrationApproval (ri_database i) \<noteq> Migration_missing \<and>
     (cp_providerId (ri_provider i) = ri_planProviderId i \<and> cp_compatible (ri_provider i)) \<and> ri_hasHealth i \<and>
     (ri_flowsCommit i = ri_commitSha i \<and> (\<forall>r \<in> set (ri_flows i). fl_passed r)) \<and>
     vs_commitSha (ri_verification i) = ri_commitSha i \<and> vs_decision (ri_verification i) \<noteq> Rejected"

definition spotless :: "readiness_input \<Rightarrow> bool" where
  "spotless i \<longleftrightarrow>
     cleared i \<and> vs_decision (ri_verification i) = Approved \<and>
     set (ri_requiredEnvVars i) \<union> set (ri_detectedReads i) \<subseteq> set (ri_configuredNames i)"

lemma trimReadiness_simps [simp]:
  "cleared (trimReadiness i) \<longleftrightarrow> cleared i" "spotless (trimReadiness i) \<longleftrightarrow> spotless i"
  "ri_releaseId (trimReadiness i) = ri_releaseId i" "ri_commitSha (trimReadiness i) = ri_commitSha i"
proof -
  show "cleared (trimReadiness i) \<longleftrightarrow> cleared i"
    by (simp add: cleared_def trimReadiness_def trimCheck_def trimFlow_def trimSummary_def)
  then show "spotless (trimReadiness i) \<longleftrightarrow> spotless i"
    by (simp add: spotless_def trimReadiness_def trimSummary_def)
qed (simp_all add: trimReadiness_def)

lemma set_missingEnvironment:
  "set (missingEnvironment i) = set (ri_requiredEnvVars i) \<union> set (ri_detectedReads i) - set (ri_configuredNames i)"
  by (auto simp: missingEnvironment_def sorted_facts)

lemma blockedFinding_severity [simp]: "f_severity (blockedFinding a b c) = Blocker"
  by (simp add: blockedFinding_def)

lemma environmentFinding_severity [simp]:
  "f_severity (environmentFinding i name) = (if ri_supportLevel i = Managed then Blocker else Warning_finding)"
  by (simp add: environmentFinding_def Let_def)

text \<open>Which findings of each group block.\<close>

lemma contract_clear:
  "contractFindings i = [] \<longleftrightarrow>
     (ri_hasBuild i \<and> q_passed (ri_productionBuild i) \<and> q_commitSha (ri_productionBuild i) = ri_commitSha i) \<and>
     (ri_hasStart i \<and> q_passed (ri_productionStart i) \<and> q_commitSha (ri_productionStart i) = ri_commitSha i) \<and>
     (q_passed (ri_lockfile i) \<and> q_commitSha (ri_lockfile i) = ri_commitSha i)"
  "f \<in> set (contractFindings i) \<Longrightarrow> f_severity f = Blocker"
  by (auto simp: contractFindings_def Let_def split: if_splits)

lemma database_clear:
  "databaseFindings i = [] \<longleftrightarrow>
     (d_connectivity (ri_database i) \<noteq> Db_failed \<and> (d_required (ri_database i) \<longrightarrow> d_connectivity (ri_database i) = Db_passed)) \<and>
     (d_migrationValidation (ri_database i) \<noteq> Db_failed \<and>
        (d_required (ri_database i) \<longrightarrow> d_migrationValidation (ri_database i) = Db_passed)) \<and>
     d_destructiveMigrationApproval (ri_database i) \<noteq> Migration_missing"
  "f \<in> set (databaseFindings i) \<Longrightarrow> f_severity f = Blocker"
  by (auto simp: databaseFindings_def Let_def split: if_splits)

lemma provider_clear:
  "providerFindings i = [] \<longleftrightarrow>
     (cp_providerId (ri_provider i) = ri_planProviderId i \<and> cp_compatible (ri_provider i)) \<and> ri_hasHealth i"
  "f \<in> set (providerFindings i) \<Longrightarrow> f_severity f = Blocker"
  by (auto simp: providerFindings_def Let_def split: if_splits)

lemma flows_clear:
  "flowFindings i = [] \<longleftrightarrow> ri_flowsCommit i = ri_commitSha i \<and> (\<forall>r \<in> set (ri_flows i). fl_passed r)"
  "f \<in> set (flowFindings i) \<Longrightarrow> f_severity f = Blocker"
  by (auto simp: flowFindings_def filter_empty_conv split: if_splits)

lemma policy_clear:
  "(\<forall>f \<in> set (policyFindings i). f_severity f \<noteq> Blocker) \<longleftrightarrow>
     vs_commitSha (ri_verification i) = ri_commitSha i \<and> vs_decision (ri_verification i) \<noteq> Rejected"
  "policyFindings i = [] \<longleftrightarrow> vs_commitSha (ri_verification i) = ri_commitSha i \<and> vs_decision (ri_verification i) = Approved"
  by (auto simp: policyFindings_def Let_def split: verification_decision.splits if_splits)

lemma no_blocker_iff: "(\<forall>f \<in> set (readinessFindings i). f_severity f \<noteq> Blocker) \<longleftrightarrow> cleared i"
proof -
  have none: "(\<forall>f \<in> set fs. f_severity f \<noteq> Blocker) \<longleftrightarrow> fs = []" if "\<And>f. f \<in> set fs \<Longrightarrow> f_severity f = Blocker" for fs
    using that by (cases fs) auto
  have groups:
    "(\<forall>f \<in> set (contractFindings i). f_severity f \<noteq> Blocker) \<longleftrightarrow> contractFindings i = []"
    "(\<forall>f \<in> set (databaseFindings i). f_severity f \<noteq> Blocker) \<longleftrightarrow> databaseFindings i = []"
    "(\<forall>f \<in> set (providerFindings i). f_severity f \<noteq> Blocker) \<longleftrightarrow> providerFindings i = []"
    "(\<forall>f \<in> set (flowFindings i). f_severity f \<noteq> Blocker) \<longleftrightarrow> flowFindings i = []"
    by (rule none, erule contract_clear(2) database_clear(2) provider_clear(2) flows_clear(2))+
  have env: "(\<forall>f \<in> set (map (environmentFinding i) (missingEnvironment i)). f_severity f \<noteq> Blocker) \<longleftrightarrow>
      (ri_supportLevel i = Managed \<longrightarrow> set (ri_requiredEnvVars i) \<union> set (ri_detectedReads i) \<subseteq> set (ri_configuredNames i))"
    by (auto simp: set_missingEnvironment)
  show ?thesis
    unfolding readinessFindings_def set_append ball_Un env policy_clear(1) cleared_def groups
      contract_clear(1) database_clear(1) provider_clear(1) flows_clear(1)
    by blast
qed

lemma no_finding_iff: "readinessFindings i = [] \<longleftrightarrow> spotless i"
proof -
  have "map (environmentFinding i) (missingEnvironment i) = [] \<longleftrightarrow>
      set (ri_requiredEnvVars i) \<union> set (ri_detectedReads i) \<subseteq> set (ri_configuredNames i)"
    using set_missingEnvironment [of i] by (auto simp flip: set_empty)
  then show ?thesis
    unfolding readinessFindings_def append_is_Nil_conv policy_clear(2) spotless_def cleared_def
      contract_clear(1) database_clear(1) provider_clear(1) flows_clear(1)
    by auto
qed

lemma trimFinding_simps [simp]: "f_severity (trimFinding f) = f_severity f" "trimFinding (trimFinding f) = trimFinding f"
  "trimFinding \<circ> trimFinding = trimFinding"
  by (simp_all add: trimFinding_def fun_eq_iff)

lemma findings_parse: "mapThrow ReadinessFindingSchema_parse fs = Inr gs \<Longrightarrow> gs = map trimFinding fs"
  unfolding mapThrow_Inr_iff by (induction rule: list_all2_induct) (auto simp: ReadinessFindingSchema_parse_def split: if_splits)

lemma findings_throw: "f \<in> set fs \<Longrightarrow> \<not> findingFits f \<Longrightarrow> mapThrow ReadinessFindingSchema_parse fs = Inl Invalid_finding"
proof (induction fs)
  case (Cons g fs)
  then show ?case by (cases "findingFits g") (auto simp: ReadinessFindingSchema_parse_def)
qed simp

lemma stateOf_cases:
  "stateOf (map trimFinding fs) = State_blocked \<longleftrightarrow> \<not> (\<forall>f \<in> set fs. f_severity f \<noteq> Blocker)"
  "stateOf (map trimFinding fs) = State_ready \<longleftrightarrow> fs = []"
  by (auto simp: stateOf_def blockerIds_def filter_empty_conv)

section \<open>When the report fits\<close>

text \<open>
  The texts a finding is made of have limits of their own; what is joined or prefixed may exceed
  those of a finding.
\<close>

definition textsFit :: "readiness_input \<Rightarrow> bool" where
  "textsFit i \<longleftrightarrow>
     (cp_reasons (ri_provider i) \<noteq> [] \<longrightarrow> textOf 1 2000 (join '' '' (cp_reasons (ri_provider i)))) \<and>
     (vs_blocking (ri_verification i) \<noteq> [] \<longrightarrow> textOf 1 2000 (join '' '' (map trim (vs_blocking (ri_verification i))))) \<and>
     (vs_warning (ri_verification i) \<noteq> [] \<longrightarrow> textOf 1 2000 (join '' '' (map trim (vs_warning (ri_verification i))))) \<and>
     (\<forall>name \<in> set (ri_requiredEnvVars i) \<union> set (ri_detectedReads i). length name \<le> 492) \<and>
     length (ri_requiredEnvVars i @ ri_detectedReads i) \<le> 980"

lemma blockedFinding_fits [simp]:
  "findingFits (blockedFinding i t d) \<longleftrightarrow> textOf 1 512 i \<and> textOf 1 256 t \<and> textOf 1 2000 d"
  by (simp add: findingFits_def blockedFinding_def)

lemma riskDetail_fits:
  "textOf 1 2000 fallback \<Longrightarrow> (xs \<noteq> [] \<longrightarrow> textOf 1 2000 (join '' '' xs)) \<Longrightarrow> textOf 1 2000 (riskDetail xs fallback)"
  by (simp add: riskDetail_def)

lemma contract_fits:
  "CheckResultSchema (ri_productionBuild i) \<Longrightarrow> CheckResultSchema (ri_productionStart i) \<Longrightarrow> CheckResultSchema (ri_lockfile i) \<Longrightarrow>
   f \<in> set (contractFindings i) \<Longrightarrow> findingFits f"
  by (auto simp: contractFindings_def Let_def CheckResultSchema_def textOf_word is_space_def split: if_splits)

lemma environment_fits: "length name \<le> 492 \<Longrightarrow> findingFits (environmentFinding i name)"
  by (auto simp: environmentFinding_def Let_def findingFits_def textOf_word is_space_def
      intro: textOf_visible [where c = "CHR ''m''"])

lemma database_fits: "f \<in> set (databaseFindings i) \<Longrightarrow> findingFits f"
  by (auto simp: databaseFindings_def Let_def textOf_word is_space_def split: if_splits)

lemma provider_fits:
  "(cp_reasons (ri_provider i) \<noteq> [] \<longrightarrow> textOf 1 2000 (join '' '' (cp_reasons (ri_provider i)))) \<Longrightarrow>
   f \<in> set (providerFindings i) \<Longrightarrow> findingFits f"
  by (auto simp: providerFindings_def Let_def textOf_word is_space_def split: if_splits)

lemma flows_fit:
  assumes "list_all (\<lambda>r. sized 1 256 (fl_id r) \<and> textOf 1 2000 (fl_detail r)) (ri_flows i)"
  shows "f \<in> set (flowFindings i) \<Longrightarrow> findingFits f"
  using assms by (auto simp: flowFindings_def list_all_iff textOf_word is_space_def sized_def split: if_splits)

lemma policy_fits:
  assumes "vs_blocking (ri_verification i) \<noteq> [] \<longrightarrow> textOf 1 2000 (join '' '' (vs_blocking (ri_verification i)))"
    and "vs_warning (ri_verification i) \<noteq> [] \<longrightarrow> textOf 1 2000 (join '' '' (vs_warning (ri_verification i)))"
    and f: "f \<in> set (policyFindings i)"
  shows "findingFits f"
proof -
  have details:
    "textOf 1 2000 (riskDetail (vs_blocking (ri_verification i)) ''The VF-10 verifier rejected this commit for release.'')"
    "textOf 1 2000 (riskDetail (vs_warning (ri_verification i)) ''The VF-10 verifier requires a human release review.'')"
    by (rule riskDetail_fits [OF _ assms(1)] riskDetail_fits [OF _ assms(2)], simp add: textOf_word is_space_def)+
  from f show ?thesis
    by (cases "vs_decision (ri_verification i)")
      (auto simp: policyFindings_def Let_def findingFits_def blockedFinding_def textOf_word is_space_def details [unfolded One_nat_def] split: if_splits)
qed

lemma length_findings:
  "length (readinessFindings i) \<le> 11 + length (ri_requiredEnvVars i @ ri_detectedReads i) + length (ri_flows i)"
proof -
  have "length (contractFindings i) \<le> 3" "length (databaseFindings i) \<le> 3" "length (providerFindings i) \<le> 2"
    by (simp_all add: contractFindings_def databaseFindings_def providerFindings_def Let_def)
  moreover have "length (flowFindings i) \<le> 1 + length (ri_flows i)"
    by (simp add: flowFindings_def le_SucI)
  moreover have "length (policyFindings i) \<le> 2" by (simp add: policyFindings_def Let_def split: verification_decision.splits)
  moreover have "length (missingEnvironment i) \<le> length (ri_requiredEnvVars i @ ri_detectedReads i)"
    unfolding missingEnvironment_def
    by (rule order_trans [OF length_filter_le]) (simp only: sorted_facts length_uniq)
  ultimately show ?thesis by (simp add: readinessFindings_def)
qed

lemma findings_fit:
  assumes "ReadinessEvaluationInputSchema i" and "textsFit i" and f: "f \<in> set (readinessFindings (trimReadiness i))"
  shows "findingFits f"
proof -
  note i = assms(1) [unfolded ReadinessEvaluationInputSchema_def] and fit = assms(2) [unfolded textsFit_def]
  note trims = trimReadiness_def trimCheck_def trimFlow_def trimSummary_def
  consider "f \<in> set (contractFindings (trimReadiness i))"
    | name where "name \<in> set (missingEnvironment (trimReadiness i))" "f = environmentFinding (trimReadiness i) name"
    | "f \<in> set (databaseFindings (trimReadiness i))" | "f \<in> set (providerFindings (trimReadiness i))"
    | "f \<in> set (flowFindings (trimReadiness i))" | "f \<in> set (policyFindings (trimReadiness i))"
    using f unfolding readinessFindings_def by auto
  then show ?thesis
  proof cases
    case 1
    then show ?thesis using i by (elim contract_fits [rotated 3]) (simp_all add: trims CheckResultSchema_def)
  next
    case 2
    then have "length name \<le> 492" using fit by (auto simp: set_missingEnvironment trims)
    with 2(2) show ?thesis by (simp add: environment_fits)
  next
    case 3
    then show ?thesis by (rule database_fits)
  next
    case 4
    then show ?thesis using fit by (elim provider_fits [rotated]) (simp add: trims)
  next
    case 5
    then show ?thesis using i by (elim flows_fit [rotated])
      (simp add: trims list_all_iff CriticalBrowserFlowSchema_def textOf_def)
  next
    case 6
    then show ?thesis using fit by (elim policy_fits [rotated 2]) (simp_all add: trims)
  qed
qed

lemma trim_blockers: "map trim (blockerIds (map trimFinding fs)) = blockerIds (map trimFinding fs)"
  by (auto simp: blockerIds_def trimFinding_def)

lemma evaluate_Inr:
  assumes "evaluateReadiness i = Inr rep"
  shows "rp_releaseId rep = ri_releaseId i" "rp_commitSha rep = ri_commitSha i"
    "rp_findings rep = map trimFinding (readinessFindings (trimReadiness i))"
    "rp_state rep = stateOf (rp_findings rep)" "rp_blockers rep = blockerIds (rp_findings rep)"
    "rp_fix rep \<longleftrightarrow> rp_state rep = State_blocked"
proof -
  let ?fs = "map trimFinding (readinessFindings (trimReadiness i))"
  from assms obtain gs where parsed: "mapThrow ReadinessFindingSchema_parse (readinessFindings (trimReadiness i)) = Inr gs"
    and rep: "ReadinessReportSchema_parse \<lparr>rp_releaseId = ri_releaseId i, rp_commitSha = ri_commitSha i, rp_state = stateOf gs,
             rp_findings = gs, rp_blockers = blockerIds gs, rp_fix = (blockerIds gs \<noteq> [])\<rparr> = Inr rep"
    by (auto simp: evaluateReadiness_def Let_def andThen_Inr_iff split: if_splits)
  from findings_parse [OF parsed] have gs: "gs = ?fs" .
  have again: "map trimFinding ?fs = ?fs" by simp
  note trim_blockers [of "readinessFindings (trimReadiness i)"]
  with rep again show "rp_releaseId rep = ri_releaseId i" "rp_commitSha rep = ri_commitSha i" "rp_findings rep = ?fs"
      "rp_state rep = stateOf (rp_findings rep)" "rp_blockers rep = blockerIds (rp_findings rep)"
      "rp_fix rep \<longleftrightarrow> rp_state rep = State_blocked"
    unfolding gs ReadinessReportSchema_parse_def Let_def by (auto split: if_splits)
qed

lemma evaluate_returns:
  assumes i: "ReadinessEvaluationInputSchema i" and fit: "textsFit i"
  shows "\<exists>rep. evaluateReadiness i = Inr rep"
proof -
  let ?fs = "readinessFindings (trimReadiness i)"
  have parsed: "mapThrow ReadinessFindingSchema_parse ?fs = Inr (map trimFinding ?fs)"
    by (rule mapThrow_all) (simp add: ReadinessFindingSchema_parse_def findings_fit [OF i fit])
  have fits: "findingFits (trimFinding f) \<longleftrightarrow> findingFits f" for f by (simp add: findingFits_def trimFinding_def)
  have "list_all findingFits (map trimFinding ?fs)"
    unfolding list_all_iff using findings_fit [OF i fit] fits by auto
  moreover have "list_all (textOf 1 512) (blockerIds (map trimFinding ?fs))"
    using findings_fit [OF i fit] by (auto simp: list_all_iff blockerIds_def findingFits_def trimFinding_def)
  moreover have "length ?fs \<le> 2000"
    using length_findings [of "trimReadiness i"] i fit
    by (simp add: ReadinessEvaluationInputSchema_def textsFit_def trimReadiness_def)
  moreover from this have "length (blockerIds (map trimFinding ?fs)) \<le> 2000"
    unfolding blockerIds_def length_map
    by (metis length_filter_le length_map order_trans)
  moreover note trim_blockers [of ?fs]
  moreover have "idSchema ''rel'' (ri_releaseId i)" "CommitShaSchema (ri_commitSha i)"
    using i by (simp_all add: ReadinessEvaluationInputSchema_def)
  ultimately show ?thesis
    using i unfolding evaluateReadiness_def Let_def parsed
    by (simp add: ReadinessReportSchema_parse_def Let_def stateOf_def)
qed

section \<open>Properties\<close>

text \<open>A report that was parsed parses again, unchanged.\<close>

lemma findingFits_trim [simp]: "findingFits (trimFinding f) \<longleftrightarrow> findingFits f"
  by (simp add: findingFits_def trimFinding_def)

lemma report_stable: "ReadinessReportSchema_parse raw = Inr rep \<Longrightarrow> ReadinessReportSchema_parse rep = Inr rep"
  by (auto simp: ReadinessReportSchema_parse_def Let_def comp_def list_all_iff split: if_splits)

lemma evaluated:
  assumes "evaluateReadiness i = Inr rep"
  shows "rp_releaseId rep = ri_releaseId i" "rp_commitSha rep = ri_commitSha i" "rp_state rep \<noteq> State_blocked \<longleftrightarrow> cleared i"
    "rp_state rep = State_ready \<longleftrightarrow> spotless i" "rp_blockers rep = blockerIds (rp_findings rep)" "rp_fix rep \<longleftrightarrow> rp_state rep = State_blocked"
proof -
  note rep = evaluate_Inr [OF assms]
  show "rp_releaseId rep = ri_releaseId i" "rp_commitSha rep = ri_commitSha i"
      "rp_blockers rep = blockerIds (rp_findings rep)" "rp_fix rep \<longleftrightarrow> rp_state rep = State_blocked"
    by (fact rep)+
  show "rp_state rep \<noteq> State_blocked \<longleftrightarrow> cleared i"
    unfolding rep(3,4) stateOf_cases(1) not_not no_blocker_iff by simp
  show "rp_state rep = State_ready \<longleftrightarrow> spotless i"
    unfolding rep(3,4) stateOf_cases(2) no_finding_iff by simp
qed

text \<open>
  C33.  On a valid input whose joined texts fit into findings, the readiness evaluation returns.
  Whenever it returns, the report is about the release and commit of the input; it is blocked
  unless the release is cleared (build, start and lockfile passed on this very commit, database,
  migrations, provider and health endpoint are in order, the critical flows passed on this
  commit, the verifier judged this commit and did not reject it, and a managed project has all
  the environment values it reads); it is ready exactly when moreover the verifier approved and
  no environment value is missing; it names its blockers, and offers the fix exactly when blocked.
\<close>

theorem evaluateReadiness_correct:
  "(ReadinessEvaluationInputSchema i \<and> textsFit i \<longrightarrow> (\<exists>rep. evaluateReadiness i = Inr rep)) \<and>
   (\<forall>rep. evaluateReadiness i = Inr rep \<longrightarrow>
      rp_releaseId rep = ri_releaseId i \<and> rp_commitSha rep = ri_commitSha i \<and>
      (rp_state rep \<noteq> State_blocked \<longleftrightarrow> cleared i) \<and> (rp_state rep = State_ready \<longleftrightarrow> spotless i) \<and>
      rp_blockers rep = blockerIds (rp_findings rep) \<and> (rp_fix rep \<longleftrightarrow> rp_state rep = State_blocked))"
  using evaluated evaluate_returns by blast

text \<open>
  The limits of a finding are not those of what it is made of: a rejection whose risk summaries
  are each within the input limits but too long together makes the evaluation fail.
\<close>

lemma long_rejection_fails:
  assumes "ReadinessEvaluationInputSchema i" and "vs_decision (ri_verification i) = Rejected"
    and "vs_blocking (ri_verification i) \<noteq> []" and "2000 < length (trim (join '' '' (map trim (vs_blocking (ri_verification i)))))"
  shows "evaluateReadiness i = Inl Invalid_finding"
proof -
  let ?f = "blockedFinding ''release_policy'' ''Release policy rejected the commit''
    (riskDetail (vs_blocking (ri_verification (trimReadiness i))) ''The VF-10 verifier rejected this commit for release.'')"
  have "?f \<in> set (readinessFindings (trimReadiness i))"
    using assms(2) by (simp add: readinessFindings_def policyFindings_def Let_def trimReadiness_def trimSummary_def)
  moreover have "\<not> findingFits ?f"
    using assms(3,4) by (simp add: riskDetail_def trimReadiness_def trimSummary_def textOf_def sized_def)
  ultimately have "mapThrow ReadinessFindingSchema_parse (readinessFindings (trimReadiness i)) = Inl Invalid_finding"
    by (rule findings_throw)
  with assms(1) show ?thesis by (simp add: evaluateReadiness_def Let_def)
qed

definition sample_readiness :: readiness_input where
  "sample_readiness =
     (let commit = replicate 40 CHR ''c''; ok = \<lparr>q_commitSha = commit, q_passed = True, q_detail = ''passed''\<rparr> in
      \<lparr>ri_releaseId = ''rel_'' @ replicate 26 CHR ''0'', ri_commitSha = commit, ri_supportLevel = Compatible,
       ri_hasBuild = True, ri_hasStart = True, ri_hasHealth = True, ri_planProviderId = ''fly'',
       ri_requiredEnvVars = [''DATABASE_URL''], ri_detectedReads = [''DATABASE_URL''], ri_configuredNames = [],
       ri_productionBuild = ok, ri_productionStart = ok, ri_lockfile = ok,
       ri_database = \<lparr>d_required = True, d_connectivity = Db_passed, d_migrationValidation = Db_passed,
         d_destructiveMigrationApproval = Not_required\<rparr>,
       ri_provider = \<lparr>cp_providerId = ''fly'', cp_compatible = True, cp_reasons = []\<rparr>,
       ri_flowsCommit = commit, ri_flows = [\<lparr>fl_id = ''checkout'', fl_passed = True, fl_detail = ''passed''\<rparr>],
       ri_verification = \<lparr>vs_commitSha = commit, vs_decision = Approved, vs_blocking = [], vs_warning = []\<rparr>\<rparr>)"

lemma sample_readiness_valid: "ReadinessEvaluationInputSchema sample_readiness" "textsFit sample_readiness"
  by (simp_all add: sample_readiness_def Let_def ReadinessEvaluationInputSchema_def textsFit_def CheckResultSchema_def
      CriticalBrowserFlowSchema_def EnvironmentNameSchema_def textOf_word is_space_def sized_def is_upper_def is_digit_def
      CommitShaSchema_def idSchema_def is_ulid_char_def is_hex_def list_all_iff)

theorem evaluateReadiness_correct_witness:
  "\<exists>rep. evaluateReadiness sample_readiness = Inr rep \<and> rp_state rep = State_warnings"
proof -
  from evaluateReadiness_correct [of sample_readiness] sample_readiness_valid obtain rep where
    rep: "evaluateReadiness sample_readiness = Inr rep" "rp_state rep \<noteq> State_blocked \<longleftrightarrow> cleared sample_readiness"
      "rp_state rep = State_ready \<longleftrightarrow> spotless sample_readiness" by blast
  have "cleared sample_readiness" "\<not> spotless sample_readiness"
    by (simp_all add: cleared_def spotless_def sample_readiness_def Let_def)
  with rep show ?thesis by (cases "rp_state rep") auto
qed

end
