(* ===== verification/Release_Records.thy ===== *)
theory Release_Records
  imports Preview_Tokens Js_Value Ports
begin

text \<open>
  Release records (\<open>services/release-service/src/release/create.ts\<close>): the store on the tables of
  releases, operations and audit events, the directory it authorizes against, and the service.
  A store operation is one PostgreSQL transaction, which leaves the tables alone when it throws.
  Between the store operations of one call other replicas may have changed the tables: \<open>others n\<close>
  says what they did before the \<open>n\<close>-th.  Parameters are the hash of a value (\<open>hash\<close>), SHA-256 as
  bytes (\<open>sha256\<close>), foreign keys (\<open>refs\<close>), expired leases, random identifiers, clocks and Git.
\<close>

section \<open>Data\<close>

datatype release_status =
    Candidate | Verifying | Rel_ready | Rel_warnings | Rel_blocked | Rel_approved | Rel_deploying | Rel_healthy
  | Rel_failed | Superseded

record release_record =
  z_id :: string
  z_organizationId :: string
  z_projectId :: string
  z_environmentId :: string
  z_commitSha :: string
  z_specificationId :: "string option"
  z_status :: release_status
  z_evidenceManifestArtifactId :: "string option"
  z_createdBy :: string
  z_createdAt :: int

definition optionally :: "('a \<Rightarrow> bool) \<Rightarrow> 'a option \<Rightarrow> bool" where
  "optionally P v \<longleftrightarrow> (case v of None \<Rightarrow> True | Some x \<Rightarrow> P x)"

definition ReleaseSchema :: "release_record \<Rightarrow> bool" where
  "ReleaseSchema r \<longleftrightarrow>
     idSchema ''rel'' (z_id r) \<and> idSchema ''org'' (z_organizationId r) \<and> idSchema ''proj'' (z_projectId r) \<and>
     idSchema ''env'' (z_environmentId r) \<and> CommitShaSchema (z_commitSha r) \<and>
     optionally (idSchema ''spec'') (z_specificationId r) \<and> optionally (idSchema ''art'') (z_evidenceManifestArtifactId r) \<and>
     idSchema ''user'' (z_createdBy r)"

datatype audit_action =
    Act_release_created | Act_release_approved | Act_deploy_requested | Act_specification_waived
  | Act_incident_resolved | Act_fix_run_created | Act_other string

record audit_event =
  e_id :: string
  e_organizationId :: string
  e_actorType :: string
  e_actorId :: string
  e_action :: audit_action
  e_targetType :: string
  e_targetId :: "string option"
  e_metadata :: js_value
  e_occurredAt :: int

datatype operation_state = Op_running string | Op_completed release_record

record operation_row =
  o_key :: string
  o_type :: string
  o_inputHash :: string
  o_state :: operation_state

record release_db =
  releases :: "release_record list"
  operations :: "operation_row list"
  audits :: "audit_event list"

record specification_waiver =
  w_reason :: string
  w_approvedBy :: string

record candidate_input =
  j_organizationId :: string
  j_projectId :: string
  j_environmentId :: string
  j_commitSha :: string
  j_specificationId :: "string option"
  j_specificationWaiver :: "specification_waiver option"
  j_actorId :: string
  j_operationKey :: string
  j_resolvedFixRunIds :: "string list"

record transition_input =
  t_organizationId :: string
  t_releaseId :: string
  t_to :: release_status
  t_operationKey :: string

record release_audit =
  ra_actorId :: string
  ra_action :: audit_action
  ra_metadata :: js_value

datatype release_error =
    Invalid_input
  | Invalid_row
  | Invalid_link
  | Constraint_violated
  | Commit_not_found
  | Forbidden
  | Idempotency_conflict
  | Invalid_release_transition
  | Operation_in_progress
  | Prototype_not_deployable
  | Release_context_not_found
  | Release_not_found
  | Release_transition_conflict
  | Ownership_lost
  | Git_rejected

datatype fingerprinted = Fp_candidate candidate_input | Fp_transition transition_input "release_audit option"

type_synonym 'a recorded = "(release_error, release_db, 'a) effect"

fun ALLOWED_TRANSITIONS :: "release_status \<Rightarrow> release_status list" where
  "ALLOWED_TRANSITIONS Candidate = [Verifying]"
| "ALLOWED_TRANSITIONS Verifying = [Rel_ready, Rel_warnings, Rel_blocked]"
| "ALLOWED_TRANSITIONS Rel_ready = [Rel_approved]"
| "ALLOWED_TRANSITIONS Rel_warnings = [Rel_approved]"
| "ALLOWED_TRANSITIONS Rel_blocked = []"
| "ALLOWED_TRANSITIONS Rel_approved = [Rel_deploying]"
| "ALLOWED_TRANSITIONS Rel_deploying = [Rel_healthy, Rel_failed]"
| "ALLOWED_TRANSITIONS Rel_healthy = [Superseded]"
| "ALLOWED_TRANSITIONS Rel_failed = []"
| "ALLOWED_TRANSITIONS Superseded = []"

section \<open>The directory\<close>

datatype member_role = Owner | Builder | Viewer

datatype release_mode = Mode_prototype | Mode_build | Mode_other string

text \<open>
  The rows the context reads: projects and environments with their tenant, active memberships,
  specifications, the settings of an organization and the modes of the runs that made a commit.
\<close>

record directory =
  dir_projects :: "(string \<times> string) list"
  dir_environments :: "(string \<times> string \<times> string) list"
  dir_members :: "(string \<times> string \<times> member_role) list"
  dir_specifications :: "(string \<times> string \<times> string) list"
  dir_settings :: "string \<Rightarrow> js_value"
  dir_modes :: "string \<Rightarrow> string \<Rightarrow> string \<Rightarrow> release_mode list"

definition roleOf :: "directory \<Rightarrow> string \<Rightarrow> string \<Rightarrow> member_role option" where
  "roleOf d org user = map_of (map (\<lambda>(o', u, r). ((o', u), r)) (dir_members d)) (org, user)"

record candidate_context =
  cc_actorRole :: member_role
  cc_prototypeOnly :: bool
  cc_waiverApproved :: bool

definition resolveCandidate ::
    "directory \<Rightarrow> string \<Rightarrow> string \<Rightarrow> string \<Rightarrow> string option \<Rightarrow> string option \<Rightarrow> string \<Rightarrow> string \<Rightarrow> candidate_context option" where
  "resolveCandidate d org proj environment spec waiverBy actor commit =
     (let specificationExists = optionally (\<lambda>s. (s, org, proj) \<in> set (dir_specifications d)) spec;
          waiverApproved = optionally (\<lambda>u. roleOf d org u = Some Owner) waiverBy;
          modes = dir_modes d org proj commit
      in case roleOf d org actor of
           None \<Rightarrow> None
         | Some role \<Rightarrow>
             if (proj, org) \<notin> set (dir_projects d) \<or> (environment, org, proj) \<notin> set (dir_environments d) \<or> \<not> specificationExists then None
             else Some \<lparr>cc_actorRole = role,
               cc_prototypeOnly = (Mode_prototype \<in> set modes \<and> Mode_build \<notin> set modes), cc_waiverApproved = waiverApproved\<rparr>)"

text \<open>\<open>z.object({ builderCanDeploy: z.boolean().default(false) }).passthrough()\<close>\<close>

fun OrganizationDeploySettingsSchema :: "js_value \<Rightarrow> bool option" where
  "OrganizationDeploySettingsSchema (JObject ps) =
     (case property ps ''builderCanDeploy'' of JUndefined \<Rightarrow> Some False | JBool b \<Rightarrow> Some b | _ \<Rightarrow> None)"
| "OrganizationDeploySettingsSchema _ = None"

definition canApprove :: "directory \<Rightarrow> string \<Rightarrow> string \<Rightarrow> bool" where
  "canApprove d org actor =
     (case roleOf d org actor of
        Some Owner \<Rightarrow> True
      | Some Builder \<Rightarrow> OrganizationDeploySettingsSchema (dir_settings d org) = Some True
      | _ \<Rightarrow> False)"

section \<open>Operations\<close>

definition transaction :: "'a recorded \<Rightarrow> 'a recorded" where
  "transaction m db = (case m db of (Inl e, _) \<Rightarrow> (Inl e, db) | (Inr x, db') \<Rightarrow> (Inr x, db'))"

text \<open>\<open>None\<close> says that the operation is acquired, otherwise its stored result is replayed.\<close>

definition claimOperation :: "(operation_row \<Rightarrow> bool) \<Rightarrow> string \<Rightarrow> string \<Rightarrow> string \<Rightarrow> string \<Rightarrow> release_record option recorded" where
  "claimOperation expired key type fingerprint owner db =
     (case find (\<lambda>row. o_key row = key) (operations db) of
        None \<Rightarrow> (Inr None, db\<lparr>operations := operations db @
          [\<lparr>o_key = key, o_type = type, o_inputHash = fingerprint, o_state = Op_running owner\<rparr>]\<rparr>)
      | Some row \<Rightarrow>
          if o_type row \<noteq> type \<or> o_inputHash row \<noteq> fingerprint then (Inl Idempotency_conflict, db)
          else (case o_state row of
             Op_completed r \<Rightarrow> if ReleaseSchema r then (Inr (Some r), db) else (Inl Invalid_row, db)
           | Op_running _ \<Rightarrow>
               if \<not> expired row then (Inl Operation_in_progress, db)
               else (Inr None, db\<lparr>operations :=
                 map (\<lambda>r. if o_key r = key then r\<lparr>o_state := Op_running owner\<rparr> else r) (operations db)\<rparr>)))"

definition completeOperation :: "string \<Rightarrow> string \<Rightarrow> release_record \<Rightarrow> unit recorded" where
  "completeOperation key owner r db =
     (if list_ex (\<lambda>row. o_key row = key \<and> o_state row = Op_running owner) (operations db)
      then (Inr (), db\<lparr>operations := map (\<lambda>row. if o_key row = key \<and> o_state row = Op_running owner
             then row\<lparr>o_state := Op_completed r\<rparr> else row) (operations db)\<rparr>)
      else (Inl Ownership_lost, db))"

definition completedOperation :: "string \<Rightarrow> string \<Rightarrow> string \<Rightarrow> release_db \<Rightarrow> release_error + release_record option" where
  "completedOperation key type fingerprint db =
     (case find (\<lambda>row. o_key row = key) (operations db) of
        None \<Rightarrow> Inr None
      | Some row \<Rightarrow>
          if o_type row \<noteq> type \<or> o_inputHash row \<noteq> fingerprint then Inl Idempotency_conflict
          else (case o_state row of
             Op_completed r \<Rightarrow> if ReleaseSchema r then Inr (Some r) else Inl Invalid_row
           | Op_running _ \<Rightarrow> Inr None))"

section \<open>The store: creation\<close>

record create_store_input =
  s_operationKey :: string
  s_fingerprint :: string
  s_release :: release_record
  s_audit :: release_audit
  s_resolvedFixRunIds :: "string list"
  s_specificationWaiver :: "specification_waiver option"

definition upcase :: "char \<Rightarrow> char" where
  "upcase c = (if 97 \<le> (of_char c :: nat) \<and> (of_char c :: nat) \<le> 122 then char_of ((of_char c :: nat) - 32) else c)"

text \<open>The loop is that of the preview locators, over the alphabet in capitals.\<close>

definition releaseIncidentResolutionId :: "(string \<Rightarrow> byte list) \<Rightarrow> string \<Rightarrow> string \<Rightarrow> string" where
  "releaseIncidentResolutionId sha256 incident rel =
     ''aud_'' @ map upcase (crockfordLoop (sha256 (''incident-resolution:'' @ incident @ '':'' @ rel)) 0 0 [])"

definition asId :: "string \<Rightarrow> js_value \<Rightarrow> string option" where
  "asId pre v = (case asString v of Some s \<Rightarrow> if idSchema pre s then Some s else None | None \<Rightarrow> None)"

text \<open>The incident and the project of the metadata of a link; other keys pass.\<close>

fun linkMetadata :: "js_value \<Rightarrow> (string \<times> string) option" where
  "linkMetadata (JObject ps) =
     (case (asId ''aud'' (property ps ''incidentId''), asId ''proj'' (property ps ''projectId'')) of
        (Some i, Some p) \<Rightarrow> Some (i, p) | _ \<Rightarrow> None)"
| "linkMetadata _ = None"

fun metadataProject :: "js_value \<Rightarrow> js_value" where
  "metadataProject (JObject ps) = property ps ''projectId''"
| "metadataProject _ = JUndefined"

definition insertAudit :: "audit_event \<Rightarrow> unit recorded" where
  "insertAudit a db =
     (if list_ex (\<lambda>x. e_id x = e_id a) (audits db) then (Inl Constraint_violated, db)
      else (Inr (), db\<lparr>audits := audits db @ [a]\<rparr>))"

definition resolveLink ::
    "(string \<Rightarrow> byte list) \<Rightarrow> release_record \<Rightarrow> string \<Rightarrow> string \<Rightarrow> audit_event \<Rightarrow> unit recorded" where
  "resolveLink sha256 r actor fixRun link =
     (case linkMetadata (e_metadata link) of
        None \<Rightarrow> throwR Invalid_link
      | Some (incident, proj) \<Rightarrow>
          (let i = releaseIncidentResolutionId sha256 incident (z_id r) in
           if \<not> idSchema ''aud'' i then throwR Invalid_link
           else (\<lambda>db. if list_ex (\<lambda>a. e_id a = i) (audits db) then (Inr (), db)
             else insertAudit \<lparr>e_id = i, e_organizationId = z_organizationId r, e_actorType = ''user'', e_actorId = actor, e_action = Act_incident_resolved,
               e_targetType = ''release'', e_targetId = Some (z_id r),
               e_metadata = JObject [(''projectId'', JString proj), (''incidentId'', JString incident), (''fixRunId'', JString fixRun)],
               e_occurredAt = z_createdAt r\<rparr> db)))"

definition resolveFixRun :: "(string \<Rightarrow> byte list) \<Rightarrow> release_record \<Rightarrow> string \<Rightarrow> string \<Rightarrow> unit recorded" where
  "resolveFixRun sha256 r actor fixRun db =
     awaitAll (resolveLink sha256 r actor fixRun)
       (filter (\<lambda>a. e_organizationId a = z_organizationId r \<and> e_action a = Act_fix_run_created \<and> e_targetType a = ''run'' \<and>
          e_targetId a = Some fixRun \<and> metadataProject (e_metadata a) = JString (z_projectId r)) (audits db)) db"

definition insertRelease :: "(release_record \<Rightarrow> bool) \<Rightarrow> release_record \<Rightarrow> release_record recorded" where
  "insertRelease refs r db =
     (if \<not> refs r \<or> list_ex (\<lambda>x. z_id x = z_id r) (releases db) then (Inl Constraint_violated, db)
      else if \<not> ReleaseSchema r then (Inl Invalid_row, db)
      else (Inr r, db\<lparr>releases := releases db @ [r]\<rparr>))"

definition auditOf :: "string \<Rightarrow> release_record \<Rightarrow> release_audit \<Rightarrow> int \<Rightarrow> audit_event" where
  "auditOf newId r a t =
     \<lparr>e_id = newId, e_organizationId = z_organizationId r, e_actorType = ''user'', e_actorId = ra_actorId a, e_action = ra_action a,
      e_targetType = ''release'', e_targetId = Some (z_id r), e_metadata = ra_metadata a, e_occurredAt = t\<rparr>"

record store_env =
  v_expired :: "operation_row \<Rightarrow> bool"
  v_refs :: "release_record \<Rightarrow> bool"
  v_sha256 :: "string \<Rightarrow> byte list"
  v_ownerId :: string
  v_auditId :: string
  v_waiverAuditId :: string
  v_clock :: int

definition createCandidate :: "store_env \<Rightarrow> create_store_input \<Rightarrow> release_record recorded" where
  "createCandidate v i =
     (let key = ''release:create:'' @ s_operationKey i in
      transaction (bindR (claimOperation (v_expired v) key ''release.create'' (s_fingerprint i) (v_ownerId v)) (\<lambda>claim.
        case claim of
          Some r \<Rightarrow> pureR r
        | None \<Rightarrow>
            bindR (insertRelease (v_refs v) (s_release i)) (\<lambda>r.
            bindR (insertAudit (auditOf (v_auditId v) r (s_audit i) (z_createdAt r))) (\<lambda>_.
            bindR (case s_specificationWaiver i of
                None \<Rightarrow> pureR ()
              | Some w \<Rightarrow> insertAudit (auditOf (v_waiverAuditId v) r \<lparr>ra_actorId = w_approvedBy w, ra_action = Act_specification_waived,
                  ra_metadata = JObject [(''projectId'', JString (z_projectId r)), (''reason'', JString (w_reason w))]\<rparr> (z_createdAt r))) (\<lambda>_.
            bindR (awaitAll (resolveFixRun (v_sha256 v) r (ra_actorId (s_audit i))) (s_resolvedFixRunIds i)) (\<lambda>_.
            bindR (completeOperation key (v_ownerId v) r) (\<lambda>_.
            pureR r))))))))"

section \<open>The store: reading and moving\<close>

definition getStored :: "string \<Rightarrow> string \<Rightarrow> release_db \<Rightarrow> release_error + release_record option" where
  "getStored org rel db =
     (case find (\<lambda>r. z_organizationId r = org \<and> z_id r = rel) (releases db) of
        None \<Rightarrow> Inr None
      | Some r \<Rightarrow> if ReleaseSchema r then Inr (Some r) else Inl Invalid_row)"

definition getTransitionReplay :: "string \<Rightarrow> string \<Rightarrow> release_db \<Rightarrow> release_error + release_record option" where
  "getTransitionReplay opKey fingerprint = completedOperation (''release:transition:'' @ opKey) ''release.transition'' fingerprint"

record transition_store_input =
  ts_organizationId :: string
  ts_releaseId :: string
  ts_from :: release_status
  ts_to :: release_status
  ts_operationKey :: string
  ts_fingerprint :: string
  ts_audit :: "release_audit option"

definition relocate :: "transition_store_input \<Rightarrow> release_record \<Rightarrow> release_record" where
  "relocate i r =
     (if z_organizationId r = ts_organizationId i \<and> z_id r = ts_releaseId i \<and> z_status r = ts_from i then r\<lparr>z_status := ts_to i\<rparr> else r)"

definition moveRelease :: "transition_store_input \<Rightarrow> release_record recorded" where
  "moveRelease i db =
     (case find (\<lambda>r. z_organizationId r = ts_organizationId i \<and> z_id r = ts_releaseId i) (releases db) of
        None \<Rightarrow> (Inl Release_not_found, db)
      | Some r \<Rightarrow>
          if z_status r \<noteq> ts_from i then (Inl Release_transition_conflict, db)
          else if \<not> ReleaseSchema (relocate i r) then (Inl Invalid_row, db)
          else (Inr (relocate i r), db\<lparr>releases := map (relocate i) (releases db)\<rparr>))"

definition storeTransition :: "store_env \<Rightarrow> transition_store_input \<Rightarrow> release_record recorded" where
  "storeTransition v i =
     (let key = ''release:transition:'' @ ts_operationKey i in
      transaction (bindR (claimOperation (v_expired v) key ''release.transition'' (ts_fingerprint i) (v_ownerId v)) (\<lambda>claim.
        case claim of
          Some r \<Rightarrow> pureR r
        | None \<Rightarrow>
            if ts_from i = ts_to i then throwR Invalid_release_transition
            else
              bindR (moveRelease i) (\<lambda>r.
              bindR (case ts_audit i of None \<Rightarrow> pureR () | Some a \<Rightarrow> insertAudit (auditOf (v_auditId v) r a (v_clock v))) (\<lambda>_.
              bindR (completeOperation key (v_ownerId v) r) (\<lambda>_.
              pureR r))))))"

section \<open>The service\<close>

datatype git_call = Get_commit string string string | Create_tag string string string string

type_synonym git_entry = "(git_call, bool) entry"

text \<open>
  What a call of the service sees: the tables, a count of the store operations so far, and the
  calls of the Git service.  The count stands for the time, on which the other replicas, the
  directory and what the store draws at random depend.
\<close>

record session =
  tables :: release_db
  turn :: nat
  gitCalls :: "git_entry list"

record service_env =
  others :: "nat \<Rightarrow> release_db \<Rightarrow> release_db"
  storeAt :: "nat \<Rightarrow> store_env"
  directoryAt :: "nat \<Rightarrow> directory"
  hash :: "fingerprinted \<Rightarrow> string"
  git :: "(git_call, bool) ports"
  newReleaseId :: "nat \<Rightarrow> string"
  nowAt :: "nat \<Rightarrow> int"

type_synonym 'a served = "(release_error, session, 'a) effect"

definition inStore :: "service_env \<Rightarrow> (store_env \<Rightarrow> 'a recorded) \<Rightarrow> 'a served" where
  "inStore c op s =
     (case op (storeAt c (turn s)) (others c (turn s) (tables s)) of
        (r, db) \<Rightarrow> (r, s\<lparr>tables := db, turn := Suc (turn s)\<rparr>))"

definition reading :: "(release_db \<Rightarrow> release_error + 'a) \<Rightarrow> store_env \<Rightarrow> 'a recorded" where
  "reading f v db = (f db, db)"

definition directoryOf :: "service_env \<Rightarrow> directory served" where
  "directoryOf c s = (Inr (directoryAt c (turn s)), s)"

definition timed :: "(nat \<Rightarrow> 'a served) \<Rightarrow> 'a served" where
  "timed f s = f (turn s) s"

definition callGit :: "service_env \<Rightarrow> git_call \<Rightarrow> bool served" where
  "callGit c call s =
     (case awaitR Git_rejected (git c) call (gitCalls s) of (r, calls) \<Rightarrow> (r, s\<lparr>gitCalls := calls\<rparr>))"

definition require :: "bool \<Rightarrow> release_error \<Rightarrow> unit served" where
  "require b e = (if b then pureR () else throwR e)"

definition TransitionInputSchema :: "transition_input \<Rightarrow> bool" where
  "TransitionInputSchema i \<longleftrightarrow>
     idSchema ''org'' (t_organizationId i) \<and> idSchema ''rel'' (t_releaseId i) \<and> opKeySchema (t_operationKey i)"

definition transitionOf :: "(fingerprinted \<Rightarrow> string) \<Rightarrow> transition_input \<Rightarrow> release_audit option \<Rightarrow> release_status \<Rightarrow> transition_store_input" where
  "transitionOf h i audit from =
     \<lparr>ts_organizationId = t_organizationId i, ts_releaseId = t_releaseId i, ts_from = from, ts_to = t_to i,
      ts_operationKey = t_operationKey i, ts_fingerprint = h (Fp_transition i audit), ts_audit = audit\<rparr>"

definition transitionStatusWithAudit :: "service_env \<Rightarrow> transition_input \<Rightarrow> release_audit option \<Rightarrow> release_record served" where
  "transitionStatusWithAudit c i audit =
     bindR (require (TransitionInputSchema i) Invalid_input) (\<lambda>_.
     bindR (inStore c (reading (getTransitionReplay (t_operationKey i) (hash c (Fp_transition i audit))))) (\<lambda>replay.
     case replay of
       Some r \<Rightarrow> pureR r
     | None \<Rightarrow>
         bindR (inStore c (reading (getStored (t_organizationId i) (t_releaseId i)))) (\<lambda>found.
         bindR (expectR Release_not_found found) (\<lambda>current.
         bindR (require (list_ex (\<lambda>status. status = t_to i) (ALLOWED_TRANSITIONS (z_status current))) Invalid_release_transition) (\<lambda>_.
         inStore c (\<lambda>v. storeTransition v (transitionOf (hash c) i audit (z_status current))))))))"

definition transitionStatus :: "service_env \<Rightarrow> transition_input \<Rightarrow> release_record served" where
  "transitionStatus c i = transitionStatusWithAudit c i None"

definition getRelease :: "service_env \<Rightarrow> string \<Rightarrow> string \<Rightarrow> release_record option served" where
  "getRelease c org rel =
     bindR (require (idSchema ''org'' org \<and> idSchema ''rel'' rel) Invalid_input) (\<lambda>_. inStore c (reading (getStored org rel)))"

section \<open>The service: candidates\<close>

definition SpecificationWaiverSchema :: "specification_waiver \<Rightarrow> bool" where
  "SpecificationWaiverSchema w \<longleftrightarrow> textOf 1 2000 (w_reason w) \<and> idSchema ''user'' (w_approvedBy w)"

definition CreateReleaseCandidateInputSchema :: "candidate_input \<Rightarrow> bool" where
  "CreateReleaseCandidateInputSchema i \<longleftrightarrow>
     idSchema ''org'' (j_organizationId i) \<and> idSchema ''proj'' (j_projectId i) \<and> idSchema ''env'' (j_environmentId i) \<and>
     CommitShaSchema (j_commitSha i) \<and> optionally (idSchema ''spec'') (j_specificationId i) \<and>
     optionally SpecificationWaiverSchema (j_specificationWaiver i) \<and> idSchema ''user'' (j_actorId i) \<and>
     opKeySchema (j_operationKey i) \<and> list_all (idSchema ''run'') (j_resolvedFixRunIds i) \<and> length (j_resolvedFixRunIds i) \<le> 100 \<and>
     (j_specificationId i = None \<longleftrightarrow> j_specificationWaiver i \<noteq> None)"

definition trimCandidate :: "candidate_input \<Rightarrow> candidate_input" where
  "trimCandidate i = i\<lparr>j_specificationWaiver := map_option (\<lambda>w. w\<lparr>w_reason := trim (w_reason w)\<rparr>) (j_specificationWaiver i)\<rparr>"

definition releaseOf :: "candidate_input \<Rightarrow> string \<Rightarrow> int \<Rightarrow> release_record" where
  "releaseOf i newId t =
     \<lparr>z_id = newId, z_organizationId = j_organizationId i, z_projectId = j_projectId i, z_environmentId = j_environmentId i,
      z_commitSha = j_commitSha i, z_specificationId = j_specificationId i, z_status = Candidate,
      z_evidenceManifestArtifactId = None, z_createdBy = j_actorId i, z_createdAt = t\<rparr>"

definition candidateOf :: "(fingerprinted \<Rightarrow> string) \<Rightarrow> candidate_input \<Rightarrow> string \<Rightarrow> int \<Rightarrow> create_store_input" where
  "candidateOf h i newId t =
     \<lparr>s_operationKey = j_operationKey i, s_fingerprint = h (Fp_candidate i), s_release = releaseOf i newId t,
      s_audit = \<lparr>ra_actorId = j_actorId i, ra_action = Act_release_created,
        ra_metadata = JObject [(''projectId'', JString (j_projectId i)), (''environmentId'', JString (j_environmentId i)),
          (''operationKey'', JString (j_operationKey i))]\<rparr>,
      s_resolvedFixRunIds = j_resolvedFixRunIds i, s_specificationWaiver = j_specificationWaiver i\<rparr>"

definition createReleaseCandidate :: "service_env \<Rightarrow> candidate_input \<Rightarrow> release_record served" where
  "createReleaseCandidate c raw =
     (let i = trimCandidate raw in
      bindR (require (CreateReleaseCandidateInputSchema raw) Invalid_input) (\<lambda>_.
      bindR (directoryOf c) (\<lambda>d.
      bindR (expectR Release_context_not_found (resolveCandidate d (j_organizationId i) (j_projectId i) (j_environmentId i)
          (j_specificationId i) (map_option w_approvedBy (j_specificationWaiver i)) (j_actorId i) (j_commitSha i))) (\<lambda>context.
      bindR (require (cc_actorRole context \<noteq> Viewer) Forbidden) (\<lambda>_.
      bindR (require (j_specificationWaiver i = None \<or> cc_waiverApproved context) Forbidden) (\<lambda>_.
      bindR (require (\<not> cc_prototypeOnly context) Prototype_not_deployable) (\<lambda>_.
      bindR (callGit c (Get_commit (j_organizationId i) (j_projectId i) (j_commitSha i))) (\<lambda>exists.
      bindR (require exists Commit_not_found) (\<lambda>_. timed (\<lambda>t.
        let newId = newReleaseId c t in
        bindR (require (idSchema ''rel'' newId) Invalid_input) (\<lambda>_.
        bindR (inStore c (\<lambda>v. createCandidate v (candidateOf (hash c) i newId (nowAt c t)))) (\<lambda>created.
        bindR (callGit c (Create_tag (z_organizationId created) (z_projectId created) (z_id created) (z_commitSha created))) (\<lambda>_.
        pureR created)))))))))))))"

section \<open>The service: approval and deployment\<close>

record approve_input =
  p_releaseId :: string
  p_actorId :: string
  p_organizationId :: string
  p_operationKey :: string

definition ApproveInputSchema :: "approve_input \<Rightarrow> bool" where
  "ApproveInputSchema i \<longleftrightarrow>
     idSchema ''rel'' (p_releaseId i) \<and> idSchema ''user'' (p_actorId i) \<and> idSchema ''org'' (p_organizationId i) \<and>
     opKeySchema (p_operationKey i)"

definition approval :: "approve_input \<Rightarrow> transition_input" where
  "approval i = \<lparr>t_organizationId = p_organizationId i, t_releaseId = p_releaseId i, t_to = Rel_approved, t_operationKey = p_operationKey i\<rparr>"

definition approvalAudit :: "approve_input \<Rightarrow> release_audit" where
  "approvalAudit i = \<lparr>ra_actorId = p_actorId i, ra_action = Act_release_approved,
     ra_metadata = JObject [(''operationKey'', JString (p_operationKey i))]\<rparr>"

definition approve :: "service_env \<Rightarrow> approve_input \<Rightarrow> release_record served" where
  "approve c i =
     bindR (require (ApproveInputSchema i) Invalid_input) (\<lambda>_.
     bindR (inStore c (reading (getStored (p_organizationId i) (p_releaseId i)))) (\<lambda>found.
     bindR (expectR Release_not_found found) (\<lambda>_.
     bindR (directoryOf c) (\<lambda>d.
     bindR (require (canApprove d (p_organizationId i) (p_actorId i)) Forbidden) (\<lambda>_.
     transitionStatusWithAudit c (approval i) (Some (approvalAudit i)))))))"

datatype release_kind = First_deploy | Redeploy | Replace_deployment

datatype release_disposition = Preserve | Transfer | Reset

fun release_kind_name :: "release_kind \<Rightarrow> string" where
  "release_kind_name First_deploy = ''first_deploy''"
| "release_kind_name Redeploy = ''redeploy''"
| "release_kind_name Replace_deployment = ''replace_deployment''"

fun disposition_json :: "release_disposition option \<Rightarrow> js_value" where
  "disposition_json None = JNull"
| "disposition_json (Some Preserve) = JString ''preserve''"
| "disposition_json (Some Transfer) = JString ''transfer''"
| "disposition_json (Some Reset) = JString ''reset''"

record begin_input =
  b_organizationId :: string
  b_releaseId :: string
  b_actorId :: string
  b_operationKey :: string
  b_deploymentType :: release_kind
  b_dataDisposition :: "release_disposition option"

definition BeginDeploymentInputSchema :: "begin_input \<Rightarrow> bool" where
  "BeginDeploymentInputSchema i \<longleftrightarrow>
     idSchema ''org'' (b_organizationId i) \<and> idSchema ''rel'' (b_releaseId i) \<and> idSchema ''user'' (b_actorId i) \<and>
     opKeySchema (b_operationKey i)"

definition deploymentMove :: "begin_input \<Rightarrow> transition_input" where
  "deploymentMove i = \<lparr>t_organizationId = b_organizationId i, t_releaseId = b_releaseId i, t_to = Rel_deploying, t_operationKey = b_operationKey i\<rparr>"

definition deploymentAudit :: "begin_input \<Rightarrow> release_audit" where
  "deploymentAudit i = \<lparr>ra_actorId = b_actorId i, ra_action = Act_deploy_requested,
     ra_metadata = JObject [(''operationKey'', JString (b_operationKey i)),
       (''deploymentType'', JString (release_kind_name (b_deploymentType i))),
       (''dataDisposition'', disposition_json (b_dataDisposition i))]\<rparr>"

definition beginDeployment :: "service_env \<Rightarrow> begin_input \<Rightarrow> release_record served" where
  "beginDeployment c i =
     bindR (require (BeginDeploymentInputSchema i) Invalid_input) (\<lambda>_.
     transitionStatusWithAudit c (deploymentMove i) (Some (deploymentAudit i)))"

section \<open>The life of a release_record\<close>

definition status_moves :: "(release_status \<times> release_status) set" where
  "status_moves = {(x, y). y \<in> set (ALLOWED_TRANSITIONS x)}"

definition identity :: "release_record \<Rightarrow> release_record" where
  "identity r = r\<lparr>z_status := Candidate\<rparr>"

definition became :: "release_record \<Rightarrow> release_db \<Rightarrow> bool" where
  "became r db \<longleftrightarrow> (\<exists>r' \<in> set (releases db). identity r' = identity r \<and> (z_status r, z_status r') \<in> status_moves\<^sup>*)"

definition opAt :: "release_db \<Rightarrow> string \<Rightarrow> operation_row option" where
  "opAt db k = find (\<lambda>row. o_key row = k) (operations db)"

definition completedAs :: "release_db \<Rightarrow> string \<Rightarrow> operation_row \<Rightarrow> release_record \<Rightarrow> bool" where
  "completedAs db k row r \<longleftrightarrow> opAt db k = Some row \<and> o_state row = Op_completed r"

text \<open>Releases only move along the allowed transitions; audits and completed operations stay.\<close>

definition progresses :: "release_db \<Rightarrow> release_db \<Rightarrow> bool" where
  "progresses db db' \<longleftrightarrow>
     (\<forall>r \<in> set (releases db). became r db') \<and> set (audits db) \<subseteq> set (audits db') \<and>
     (\<forall>k row r. completedAs db k row r \<longrightarrow> completedAs db' k row r)"

definition noted :: "release_db \<Rightarrow> release_record \<Rightarrow> audit_action \<Rightarrow> string \<Rightarrow> bool" where
  "noted db r action actor \<longleftrightarrow>
     (\<exists>e \<in> set (audits db). e_organizationId e = z_organizationId r \<and> e_targetType e = ''release'' \<and> e_targetId e = Some (z_id r) \<and>
        e_action e = action \<and> e_actorId e = actor)"

definition pastApproval :: "release_status set" where
  "pastApproval = {Rel_approved, Rel_deploying, Rel_healthy, Rel_failed, Superseded}"

definition attested :: "(string \<Rightarrow> string \<Rightarrow> bool) \<Rightarrow> release_db \<Rightarrow> release_record \<Rightarrow> bool" where
  "attested may db r \<longleftrightarrow>
     (z_status r \<in> pastApproval \<longrightarrow> (\<exists>u. may (z_organizationId r) u \<and> noted db r Act_release_approved u)) \<and>
     (z_status r \<in> pastApproval - {Rel_approved} \<longrightarrow> (\<exists>u. noted db r Act_deploy_requested u))"

text \<open>The audit a transition has to carry.\<close>

definition vouched :: "(string \<Rightarrow> string \<Rightarrow> bool) \<Rightarrow> transition_input \<Rightarrow> release_audit option \<Rightarrow> bool" where
  "vouched may i audit \<longleftrightarrow>
     (t_to i = Rel_approved \<longrightarrow>
        (\<exists>a. audit = Some a \<and> ra_action a = Act_release_approved \<and> may (t_organizationId i) (ra_actorId a))) \<and>
     (t_to i = Rel_deploying \<longrightarrow> (\<exists>a. audit = Some a \<and> ra_action a = Act_deploy_requested))"

text \<open>What the replicas do to the tables, and the audits the other services add.\<close>

inductive release_step :: "(fingerprinted \<Rightarrow> string) \<Rightarrow> (string \<Rightarrow> string \<Rightarrow> bool) \<Rightarrow> release_db \<Rightarrow> release_db \<Rightarrow> bool" for h may where
  created: "createCandidate v (candidateOf h i newId t) db = (Inr r, db') \<Longrightarrow> release_step h may db db'"
| moved: "storeTransition v (transitionOf h i audit from) db = (Inr r, db') \<Longrightarrow> t_to i \<in> set (ALLOWED_TRANSITIONS from) \<Longrightarrow>
    vouched may i audit \<Longrightarrow> release_step h may db db'"
| audited: "release_step h may db (db\<lparr>audits := audits db @ es\<rparr>)"

inductive_cases release_stepE: "release_step h may db db'"

definition empty_db :: release_db where
  "empty_db = \<lparr>releases = [], operations = [], audits = []\<rparr>"

text \<open>What the record of a completed operation says happened.\<close>

definition genuine :: "(fingerprinted \<Rightarrow> string) \<Rightarrow> (string \<Rightarrow> string \<Rightarrow> bool) \<Rightarrow> release_db \<Rightarrow> operation_row \<Rightarrow> release_record \<Rightarrow> bool" where
  "genuine h may db row r \<longleftrightarrow>
     ReleaseSchema r \<and> became r db \<and> attested may db r \<and>
     (o_type row = ''release.create'' \<longrightarrow> (\<exists>i newId t. o_inputHash row = h (Fp_candidate i) \<and> r = releaseOf i newId t)) \<and>
     (o_type row = ''release.transition'' \<longrightarrow> (\<exists>i audit. o_inputHash row = h (Fp_transition i audit) \<and>
        z_organizationId r = t_organizationId i \<and> z_id r = t_releaseId i \<and> z_status r = t_to i \<and>
        (\<forall>a. audit = Some a \<longrightarrow> noted db r (ra_action a) (ra_actorId a))))"

definition sound :: "(fingerprinted \<Rightarrow> string) \<Rightarrow> (string \<Rightarrow> string \<Rightarrow> bool) \<Rightarrow> release_db \<Rightarrow> bool" where
  "sound h may db \<longleftrightarrow>
     distinct (map z_id (releases db)) \<and>
     (\<forall>r \<in> set (releases db). ReleaseSchema r \<and> attested may db r \<and> (Candidate, z_status r) \<in> status_moves\<^sup>*) \<and>
     (\<forall>k row r. completedAs db k row r \<longrightarrow> genuine h may db row r)"

section \<open>Operations run once\<close>

definition once :: "store_env \<Rightarrow> string \<Rightarrow> string \<Rightarrow> string \<Rightarrow> release_record recorded \<Rightarrow> release_record recorded" where
  "once v key type fingerprint body =
     transaction (bindR (claimOperation (v_expired v) key type fingerprint (v_ownerId v)) (\<lambda>claim.
       case claim of
         Some r \<Rightarrow> pureR r
       | None \<Rightarrow> bindR body (\<lambda>r. bindR (completeOperation key (v_ownerId v) r) (\<lambda>_. pureR r))))"

declare effect_results [simp]

lemma transaction_Inr [simp]: "transaction m db = (Inr x, db') \<longleftrightarrow> m db = (Inr x, db')"
  by (auto simp: transaction_def split: prod.splits sum.splits)

lemma transaction_Inl: "transaction m db = (Inl e, db') \<Longrightarrow> db' = db"
  by (auto simp: transaction_def split: prod.splits sum.splits)

lemma opAt_SomeD: "opAt db k = Some row \<Longrightarrow> o_key row = k"
  unfolding opAt_def by (blast dest: find_SomeD)

lemma opAt_snoc [simp]:
  "opAt (db\<lparr>operations := operations db @ [row]\<rparr>) k =
     (case opAt db k of None \<Rightarrow> if o_key row = k then Some row else None | Some x \<Rightarrow> Some x)"
  by (auto simp: opAt_def find_append split: option.split)

lemma opAt_map: "(\<And>x. o_key (f x) = o_key x) \<Longrightarrow> opAt (db\<lparr>operations := map f (operations db)\<rparr>) k = map_option f (opAt db k)"
  by (simp add: opAt_def find_map_same)

lemma opAt_frame [simp]:
  "opAt (db\<lparr>audits := as\<rparr>) k = opAt db k" "opAt (db\<lparr>releases := rs\<rparr>) k = opAt db k"
  "completedAs (db\<lparr>audits := as\<rparr>) k row r = completedAs db k row r" "completedAs (db\<lparr>releases := rs\<rparr>) k row r = completedAs db k row r"
  by (simp_all add: opAt_def completedAs_def)

lemma claim_acquired:
  assumes "claimOperation expired key type fp owner db = (Inr None, db')"
  shows "\<exists>ops. db' = db\<lparr>operations := ops\<rparr>" "\<And>row r. \<not> completedAs db key row r"
    "\<exists>row. opAt db' key = Some row \<and> o_type row = type \<and> o_inputHash row = fp \<and> o_state row = Op_running owner"
    "\<And>k. k \<noteq> key \<Longrightarrow> opAt db' k = opAt db k"
  using assms unfolding claimOperation_def opAt_def [symmetric] completedAs_def
  by (auto simp: opAt_map map_option_case split: option.splits if_splits operation_state.splits dest: opAt_SomeD)

lemma claim_replay:
  assumes "claimOperation expired key type fp owner db = (Inr (Some r), db')"
  shows "db' = db" "\<exists>row. completedAs db key row r \<and> o_type row = type \<and> o_inputHash row = fp" "ReleaseSchema r"
  using assms unfolding claimOperation_def opAt_def [symmetric] completedAs_def
  by (auto split: option.splits if_splits operation_state.splits)

lemma complete_opAt:
  assumes "completeOperation key owner r db = (Inr u, db')" "opAt db key = Some row" "o_state row = Op_running owner"
  shows "opAt db' key = Some (row\<lparr>o_state := Op_completed r\<rparr>)" "\<And>k. k \<noteq> key \<Longrightarrow> opAt db' k = opAt db k"
    "\<exists>ops. db' = db\<lparr>operations := ops\<rparr>"
  using assms unfolding completeOperation_def
  by (auto simp: opAt_map map_option_case split: if_splits option.splits dest: opAt_SomeD)

lemma complete_running:
  assumes "opAt db key = Some row" "o_state row = Op_running owner"
  shows "\<exists>db'. completeOperation key owner r db = (Inr (), db')"
  using assms find_SomeD [of "\<lambda>row. o_key row = key" "operations db" row]
  unfolding completeOperation_def opAt_def by (auto simp: list_ex_iff)

text \<open>An operation either replays its record or runs its body and leaves a record of the result.\<close>

lemma once_Inr:
  assumes "once v key type fp body db = (Inr r, db')"
    and frame: "\<And>x r y. body x = (Inr r, y) \<Longrightarrow> operations y = operations x"
  obtains (replay) row where "db' = db" "completedAs db key row r" "o_type row = type" "o_inputHash row = fp" "ReleaseSchema r"
  | (fresh) ops db2 ops' row where "body (db\<lparr>operations := ops\<rparr>) = (Inr r, db2)" "db' = db2\<lparr>operations := ops'\<rparr>"
      "\<And>row r. \<not> completedAs db key row r" "completedAs db' key row r" "o_type row = type" "o_inputHash row = fp"
      "\<And>k. k \<noteq> key \<Longrightarrow> opAt db' k = opAt db k"
proof -
  obtain claim db1 where c: "claimOperation (v_expired v) key type fp (v_ownerId v) db = (Inr claim, db1)"
    and rest: "(case claim of Some r \<Rightarrow> pureR r
       | None \<Rightarrow> bindR body (\<lambda>r. bindR (completeOperation key (v_ownerId v) r) (\<lambda>_. pureR r))) db1 = (Inr r, db')"
    using assms(1) unfolding once_def by (auto simp: bindR_Inr_iff)
  show thesis
  proof (cases claim)
    case (Some x)
    then show thesis using claim_replay [of "v_expired v" key type fp "v_ownerId v" db r db1] c rest that(1) by auto
  next
    case None
    note cl = claim_acquired [OF c [unfolded None]]
    obtain db2 u where b: "body db1 = (Inr r, db2)" and co: "completeOperation key (v_ownerId v) r db2 = (Inr u, db')"
      using rest None by (auto simp: bindR_Inr_iff)
    have same: "opAt db2 k = opAt db1 k" for k using frame [OF b] by (simp add: opAt_def)
    obtain row where row: "opAt db2 key = Some row" "o_type row = type" "o_inputHash row = fp" "o_state row = Op_running (v_ownerId v)"
      using cl(3) same by auto
    note co' = complete_opAt [OF co row(1,4)]
    obtain ops ops' where "db1 = db\<lparr>operations := ops\<rparr>" and db': "db' = db2\<lparr>operations := ops'\<rparr>" using cl(1) co'(3) by blast
    then show thesis
      using that(2) [of ops db2 ops' "row\<lparr>o_state := Op_completed r\<rparr>"] b cl(2,4) same row co'(1,2) by (simp add: completedAs_def)
  qed
qed

section \<open>What the store operations do\<close>

definition createBody :: "store_env \<Rightarrow> create_store_input \<Rightarrow> release_record recorded" where
  "createBody v i =
     bindR (insertRelease (v_refs v) (s_release i)) (\<lambda>r.
     bindR (insertAudit (auditOf (v_auditId v) r (s_audit i) (z_createdAt r))) (\<lambda>_.
     bindR (case s_specificationWaiver i of
         None \<Rightarrow> pureR ()
       | Some w \<Rightarrow> insertAudit (auditOf (v_waiverAuditId v) r \<lparr>ra_actorId = w_approvedBy w, ra_action = Act_specification_waived,
           ra_metadata = JObject [(''projectId'', JString (z_projectId r)), (''reason'', JString (w_reason w))]\<rparr> (z_createdAt r))) (\<lambda>_.
     bindR (awaitAll (resolveFixRun (v_sha256 v) r (ra_actorId (s_audit i))) (s_resolvedFixRunIds i)) (\<lambda>_.
     pureR r))))"

definition moveBody :: "store_env \<Rightarrow> transition_store_input \<Rightarrow> release_record recorded" where
  "moveBody v i =
     (if ts_from i = ts_to i then throwR Invalid_release_transition
      else
        bindR (moveRelease i) (\<lambda>r.
        bindR (case ts_audit i of None \<Rightarrow> pureR () | Some a \<Rightarrow> insertAudit (auditOf (v_auditId v) r a (v_clock v))) (\<lambda>_.
        pureR r)))"

lemma createCandidate_once:
  "createCandidate v i = once v (''release:create:'' @ s_operationKey i) ''release.create'' (s_fingerprint i) (createBody v i)"
  unfolding createCandidate_def once_def createBody_def bindR_assoc bindR_pure Let_def by (rule refl)

lemma storeTransition_once:
  "storeTransition v i = once v (''release:transition:'' @ ts_operationKey i) ''release.transition'' (ts_fingerprint i) (moveBody v i)"
  unfolding storeTransition_def once_def moveBody_def bindR_if bindR_assoc bindR_pure bindR_throw Let_def by (rule refl)

definition grows :: "release_db \<Rightarrow> release_db \<Rightarrow> bool" where
  "grows db db' \<longleftrightarrow> releases db' = releases db \<and> operations db' = operations db \<and> (\<exists>es. audits db' = audits db @ es)"

lemma grows_refl: "grows db db"
  by (simp add: grows_def)

lemma grows_audit: "insertAudit a x = (Inr u, y) \<Longrightarrow> grows db x \<Longrightarrow> grows db y \<and> a \<in> set (audits y)"
  by (auto simp: insertAudit_def grows_def split: if_splits)

abbreviation keepsGrowing :: "unit recorded \<Rightarrow> bool" where
  "keepsGrowing m \<equiv> (\<forall>db x u y. m x = (Inr u, y) \<longrightarrow> grows db x \<longrightarrow> grows db y)"

lemma growing_link: "keepsGrowing (resolveLink sha r actor fixRun link)"
  by (auto simp: resolveLink_def Let_def dest: grows_audit split: option.splits prod.splits if_splits)

lemma growing_all: "(\<And>c. keepsGrowing (f c)) \<Longrightarrow> keepsGrowing (awaitAll f cs)"
proof (induction cs)
  case Nil
  then show ?case by simp
next
  case (Cons c cs)
  then show ?case unfolding awaitAll.simps bindR_Inr_iff by blast
qed

lemma growing_fixRun: "keepsGrowing (resolveFixRun sha r actor fixRun)"
  unfolding resolveFixRun_def using growing_all [of "resolveLink sha r actor fixRun", OF growing_link] by blast

lemma noted_auditOf: "auditOf newId r a t \<in> set (audits y) \<Longrightarrow> noted y r (ra_action a) (ra_actorId a)"
  unfolding noted_def auditOf_def by (rule bexI [rotated], assumption) simp

lemma createBody_Inr:
  assumes "createBody v i x = (Inr r, y)"
  shows "r = s_release i" "ReleaseSchema r" "z_id r \<notin> z_id ` set (releases x)" "releases y = releases x @ [r]"
    "operations y = operations x" "\<exists>es. audits y = audits x @ es" "noted y r (ra_action (s_audit i)) (ra_actorId (s_audit i))"
proof -
  obtain x1 x2 x3 u1 u2 u3 where
    ins: "insertRelease (v_refs v) (s_release i) x = (Inr r, x1)" and
    au: "insertAudit (auditOf (v_auditId v) r (s_audit i) (z_createdAt r)) x1 = (Inr u1, x2)" and
    w: "(case s_specificationWaiver i of None \<Rightarrow> pureR ()
       | Some w \<Rightarrow> insertAudit (auditOf (v_waiverAuditId v) r \<lparr>ra_actorId = w_approvedBy w, ra_action = Act_specification_waived,
           ra_metadata = JObject [(''projectId'', JString (z_projectId r)), (''reason'', JString (w_reason w))]\<rparr> (z_createdAt r))) x2 = (Inr u2, x3)" and
    fx: "awaitAll (resolveFixRun (v_sha256 v) r (ra_actorId (s_audit i))) (s_resolvedFixRunIds i) x3 = (Inr u3, y)"
    using assms unfolding createBody_def bindR_Inr_iff by auto
  let ?a = "auditOf (v_auditId v) r (s_audit i) (z_createdAt r)"
  have x1: "r = s_release i" "ReleaseSchema r" "z_id r \<notin> z_id ` set (releases x)" "x1 = x\<lparr>releases := releases x @ [r]\<rparr>"
    using ins by (auto simp: insertRelease_def list_ex_iff split: if_splits)
  have x2: "grows x1 x2" "?a \<in> set (audits x2)" using grows_audit [OF au grows_refl] by (auto simp: insertAudit_def grows_def)
  have x3: "grows x2 x3" using w grows_audit [OF _ grows_refl] by (auto simp: grows_refl split: option.splits)
  have y: "grows x3 y" using growing_all [of "resolveFixRun (v_sha256 v) r (ra_actorId (s_audit i))", OF growing_fixRun] fx grows_refl by blast
  show "r = s_release i" "ReleaseSchema r" "z_id r \<notin> z_id ` set (releases x)" by (fact x1)+
  show "releases y = releases x @ [r]" "operations y = operations x" "\<exists>es. audits y = audits x @ es"
    using x1(4) x2(1) x3 y by (auto simp: grows_def)
  have "?a \<in> set (audits y)" using x2(2) x3 y by (auto simp: grows_def)
  then show "noted y r (ra_action (s_audit i)) (ra_actorId (s_audit i))" by (rule noted_auditOf)
qed

lemma moveBody_Inr:
  assumes "moveBody v i x = (Inr r, y)"
  obtains old where "old \<in> set (releases x)" "z_organizationId old = ts_organizationId i" "z_id old = ts_releaseId i" "z_status old = ts_from i"
    "r = old\<lparr>z_status := ts_to i\<rparr>" "ReleaseSchema r"
    "releases y = map (relocate i) (releases x)"
    "operations y = operations x" "\<exists>es. audits y = audits x @ es"
    "\<forall>a. ts_audit i = Some a \<longrightarrow> noted y r (ra_action a) (ra_actorId a)"
proof -
  obtain x1 u where mv: "moveRelease i x = (Inr r, x1)"
    and au: "(case ts_audit i of None \<Rightarrow> pureR () | Some a \<Rightarrow> insertAudit (auditOf (v_auditId v) r a (v_clock v))) x1 = (Inr u, y)"
    using assms by (auto simp: moveBody_def bindR_Inr_iff split: if_splits)
  have y: "grows x1 y" "\<forall>a. ts_audit i = Some a \<longrightarrow> auditOf (v_auditId v) r a (v_clock v) \<in> set (audits y)"
    using au grows_audit [OF _ grows_refl] by (auto simp: grows_refl split: option.splits)
  have n: "\<forall>a. ts_audit i = Some a \<longrightarrow> noted y r (ra_action a) (ra_actorId a)"
    using y(2) noted_auditOf by blast
  show thesis
    using mv y(1) that n
    by (auto simp: moveRelease_def relocate_def grows_def split: option.splits if_splits dest!: find_SomeD)
qed

section \<open>Every step keeps the tables sound\<close>

lemma identityD:
  assumes "identity r' = identity r"
  shows "z_id r' = z_id r" "z_organizationId r' = z_organizationId r" "z_commitSha r' = z_commitSha r"
  using arg_cong [OF assms, of z_id] arg_cong [OF assms, of z_organizationId] arg_cong [OF assms, of z_commitSha]
  by (simp_all add: identity_def)

lemma identity_status [simp]: "identity (r\<lparr>z_status := st\<rparr>) = identity r"
  by (simp add: identity_def)

lemma became_here: "r \<in> set (releases db) \<Longrightarrow> became r db"
  by (auto simp: became_def)

lemma became_later: "became r db \<Longrightarrow> progresses db db' \<Longrightarrow> became r db'"
proof -
  assume "became r db" "progresses db db'"
  then obtain x y where "identity x = identity r" "(z_status r, z_status x) \<in> status_moves\<^sup>*" "y \<in> set (releases db')"
    "identity y = identity x" "(z_status x, z_status y) \<in> status_moves\<^sup>*"
    unfolding became_def progresses_def by blast
  then show ?thesis unfolding became_def by (intro bexI [of _ y]) (auto intro: rtrancl_trans)
qed

lemma noted_later: "noted db r a u \<Longrightarrow> progresses db db' \<Longrightarrow> noted db' r a u"
  by (auto simp: noted_def progresses_def)

lemma attested_later: "attested may db r \<Longrightarrow> progresses db db' \<Longrightarrow> attested may db' r"
  unfolding attested_def using noted_later by blast

lemma genuine_later: "genuine h may db row r \<Longrightarrow> progresses db db' \<Longrightarrow> genuine h may db' row r"
  unfolding genuine_def by (blast intro: became_later attested_later noted_later)

lemma progresses_refl: "progresses db db"
  by (auto simp: progresses_def intro: became_here)

lemma progresses_trans: "progresses a b \<Longrightarrow> progresses b c \<Longrightarrow> progresses a c"
  unfolding progresses_def [of a] using became_later [of _ b c] by (auto simp: progresses_def [of b c])

lemma attested_same:
  "noted db = noted db' \<Longrightarrow> attested may db r = attested may db' r"
  by (simp add: attested_def)

text \<open>A step keeps what the tables say when it adds or status_moves one release and records its operation.\<close>

lemma sound_extends:
  assumes "sound h may db" "progresses db db'"
    and "distinct (map z_id (releases db'))"
    and new: "\<And>r. r \<in> set (releases db') \<Longrightarrow> r \<in> set (releases db) \<or> (ReleaseSchema r \<and> attested may db' r \<and> (Candidate, z_status r) \<in> status_moves\<^sup>*)"
    and ops: "\<And>k row r. completedAs db' k row r \<Longrightarrow> completedAs db k row r \<or> genuine h may db' row r"
  shows "sound h may db'"
  unfolding sound_def
proof (intro conjI ballI allI impI)
  fix r assume "r \<in> set (releases db')"
  with new [OF this] assms(1,2) show "ReleaseSchema r" "attested may db' r" "(Candidate, z_status r) \<in> status_moves\<^sup>*"
    unfolding sound_def using attested_later by blast+
next
  fix k row r assume "completedAs db' k row r"
  with ops [OF this] assms(1,2) show "genuine h may db' row r" unfolding sound_def using genuine_later by blast
qed (fact assms(3))

lemma step_audited:
  assumes "sound h may db"
  shows "progresses db (db\<lparr>audits := audits db @ es\<rparr>)" "sound h may (db\<lparr>audits := audits db @ es\<rparr>)"
proof -
  show ev: "progresses db (db\<lparr>audits := audits db @ es\<rparr>)" by (auto simp: progresses_def became_def)
  show "sound h may (db\<lparr>audits := audits db @ es\<rparr>)"
    by (rule sound_extends [OF assms ev]) (use assms in \<open>auto simp: sound_def\<close>)
qed

lemma finished_once:
  assumes "\<And>row r. \<not> completedAs db key row r" "completedAs db' key row r" "\<And>k. k \<noteq> key \<Longrightarrow> opAt db' k = opAt db k"
  shows "\<And>k rw x. completedAs db k rw x \<Longrightarrow> completedAs db' k rw x" "\<And>k rw x. completedAs db' k rw x \<Longrightarrow> completedAs db k rw x \<or> (rw = row \<and> x = r)"
  using assms unfolding completedAs_def by (metis, metis option.inject operation_state.inject(2))

lemma step_created:
  assumes db: "sound h may db" and step: "createCandidate v (candidateOf h i newId t) db = (Inr r, db')"
  shows "progresses db db' \<and> sound h may db'"
proof (rule once_Inr [OF step [unfolded createCandidate_once]], goal_cases frame replay fresh)
  case (frame x r y)
  then show ?case by (rule createBody_Inr(5))
next
  case (replay row)
  then show ?thesis using db progresses_refl by simp
next
  case (fresh ops db2 ops' row)
  note b = createBody_Inr [OF fresh(1)]
  have rel: "releases db' = releases db @ [r]" "z_id r \<notin> z_id ` set (releases db)" "set (audits db) \<subseteq> set (audits db')"
    using b(3,4,6) fresh(2) by auto
  have r: "r = releaseOf i newId t" using b(1) by (simp add: candidateOf_def)
  have cand: "z_status r = Candidate" unfolding r by (simp add: releaseOf_def)
  have at: "attested may db' r" by (simp add: attested_def cand pastApproval_def)
  note ops = finished_once [OF fresh(3,4,7)]
  have ev: "progresses db db'" unfolding progresses_def using rel ops(1) by (auto intro: became_here)
  have ge: "genuine h may db' row r"
    unfolding genuine_def using b(2) at fresh(5,6) r rel(1) by (auto simp: candidateOf_def intro: became_here)
  have op: "completedAs db' k rw x \<Longrightarrow> completedAs db k rw x \<or> genuine h may db' rw x" for k rw x using ops(2) ge by blast
  have "sound h may db'"
    by (rule sound_extends [OF db ev _ _ op]) (use db rel b(2) at cand in \<open>auto simp: sound_def\<close>)
  with ev show ?thesis ..
qed

lemma noted_status [simp]: "noted db (r\<lparr>z_status := st\<rparr>) = noted db r"
  by (intro ext) (simp add: noted_def)

lemma status_moves_iff: "(x, y) \<in> status_moves \<longleftrightarrow> y \<in> set (ALLOWED_TRANSITIONS x)"
  by (simp add: status_moves_def)

text \<open>The predecessors of the statuses that need an approval.\<close>

lemma pastApproval_from:
  "y \<in> set (ALLOWED_TRANSITIONS x) \<Longrightarrow> y \<in> pastApproval \<Longrightarrow> y \<noteq> Rel_approved \<Longrightarrow>
   x \<in> pastApproval \<and> (y \<noteq> Rel_deploying \<longrightarrow> x \<noteq> Rel_approved)"
  by (cases x) (auto simp: pastApproval_def)

lemma attested_move:
  assumes "attested may db r" "z_organizationId r = t_organizationId i" "t_to i \<in> set (ALLOWED_TRANSITIONS (z_status r))"
    "vouched may i audit" "\<forall>a. audit = Some a \<longrightarrow> noted db' r (ra_action a) (ra_actorId a)"
    and later: "\<And>a u. noted db r a u \<Longrightarrow> noted db' r a u"
  shows "attested may db' (r\<lparr>z_status := t_to i\<rparr>)"
  unfolding attested_def
proof (intro conjI impI)
  assume past: "z_status (r\<lparr>z_status := t_to i\<rparr>) \<in> pastApproval"
  show "\<exists>u. may (z_organizationId (r\<lparr>z_status := t_to i\<rparr>)) u \<and> noted db' (r\<lparr>z_status := t_to i\<rparr>) Act_release_approved u"
  proof (cases "t_to i = Rel_approved")
    case True
    then show ?thesis using assms(2,4,5) by (auto simp: vouched_def)
  next
    case False
    then have "z_status r \<in> pastApproval" using pastApproval_from [OF assms(3)] past by simp
    then show ?thesis using assms(1) later by (auto simp: attested_def)
  qed
next
  assume past: "z_status (r\<lparr>z_status := t_to i\<rparr>) \<in> pastApproval - {Rel_approved}"
  show "\<exists>u. noted db' (r\<lparr>z_status := t_to i\<rparr>) Act_deploy_requested u"
  proof (cases "t_to i = Rel_deploying")
    case True
    then show ?thesis using assms(4,5) by (auto simp: vouched_def)
  next
    case False
    then have "z_status r \<in> pastApproval - {Rel_approved}" using pastApproval_from [OF assms(3)] past by simp
    then show ?thesis using assms(1) later unfolding attested_def noted_status by blast
  qed
qed

lemma unique_release:
  "distinct (map z_id rs) \<Longrightarrow> x \<in> set rs \<Longrightarrow> y \<in> set rs \<Longrightarrow> z_id x = z_id y \<Longrightarrow> x = y"
  by (simp add: distinct_map inj_on_def)

lemma relocated:
  assumes "distinct (map z_id rs)" "old \<in> set rs" "z_organizationId old = ts_organizationId i" "z_id old = ts_releaseId i"
    "z_status old = ts_from i"
  shows "map z_id (map (relocate i) rs) = map z_id rs" "relocate i old = old\<lparr>z_status := ts_to i\<rparr>"
    "\<And>z. z \<in> set rs \<Longrightarrow> z \<noteq> old \<Longrightarrow> relocate i z = z" "old\<lparr>z_status := ts_to i\<rparr> \<in> set (map (relocate i) rs)"
proof -
  show up: "relocate i old = old\<lparr>z_status := ts_to i\<rparr>" using assms(3-5) by (simp add: relocate_def)
  then show "old\<lparr>z_status := ts_to i\<rparr> \<in> set (map (relocate i) rs)" using assms(2) by force
  show "relocate i z = z" if "z \<in> set rs" "z \<noteq> old" for z
    using unique_release [OF assms(1) that(1) assms(2)] assms(4) that(2) by (auto simp: relocate_def)
qed (simp add: relocate_def)

lemma relocated_became:
  assumes "distinct (map z_id (releases db))" "old \<in> set (releases db)" "z_organizationId old = ts_organizationId i" "z_id old = ts_releaseId i"
    "z_status old = ts_from i" "ts_to i \<in> set (ALLOWED_TRANSITIONS (ts_from i))" "releases db' = map (relocate i) (releases db)"
    "z \<in> set (releases db)"
  shows "became z db'"
proof (cases "z = old")
  case True
  then show ?thesis
    unfolding became_def using relocated(4) [OF assms(1-5)] assms(5-7) by (intro bexI [of _ "old\<lparr>z_status := ts_to i\<rparr>"]) (auto simp: status_moves_iff)
next
  case False
  then have "z \<in> set (releases db')" using relocated(3) [OF assms(1-5,8)] assms(7,8) by force
  then show ?thesis by (rule became_here)
qed

lemma step_moved:
  assumes db: "sound h may db" and step: "storeTransition v (transitionOf h i audit from) db = (Inr r, db')"
    and allowed: "t_to i \<in> set (ALLOWED_TRANSITIONS from)" and vouched: "vouched may i audit"
  shows "progresses db db' \<and> sound h may db'"
proof (rule once_Inr [OF step [unfolded storeTransition_once]], goal_cases frame replay fresh)
  case (frame x r y)
  then show ?case by (rule moveBody_Inr)
next
  case (replay row)
  then show ?case using db progresses_refl by simp
next
  case (fresh ops db2 ops' row)
  let ?i = "transitionOf h i audit from"
  have i: "ts_organizationId ?i = t_organizationId i" "ts_releaseId ?i = t_releaseId i" "ts_from ?i = from" "ts_to ?i = t_to i"
    "ts_audit ?i = audit" "ts_fingerprint ?i = h (Fp_transition i audit)"
    by (simp_all add: transitionOf_def)
  obtain old where old: "old \<in> set (releases db)" "z_organizationId old = ts_organizationId ?i" "z_id old = ts_releaseId ?i" "z_status old = ts_from ?i"
    and r: "r = old\<lparr>z_status := t_to i\<rparr>" "ReleaseSchema r" and rel: "releases db' = map (relocate ?i) (releases db)"
    and es: "set (audits db) \<subseteq> set (audits db')" and n: "\<forall>a. audit = Some a \<longrightarrow> noted db' old (ra_action a) (ra_actorId a)"
    by (rule moveBody_Inr [OF fresh(1)]) (use fresh(2) in \<open>auto simp: i noted_def\<close>)
  have ids: "distinct (map z_id (releases db))" using db by (simp add: sound_def)
  note up = relocated [OF ids old]
  note ops = finished_once [OF fresh(3,4,7)]
  have ev: "progresses db db'"
    unfolding progresses_def using relocated_became [OF ids old _ rel] allowed es ops(1) unfolding i by blast
  have "attested may db old" "(Candidate, from) \<in> status_moves\<^sup>*" using db old(1,4) unfolding i by (auto simp: sound_def)
  then have at: "attested may db' r" "(Candidate, t_to i) \<in> status_moves\<^sup>*"
    using attested_move [of may db old i audit db'] old(2,4) allowed vouched n noted_later [OF _ ev] r(1)
    unfolding i status_moves_iff [symmetric] by auto
  have ge: "genuine h may db' row r"
    unfolding genuine_def using r at(1) old(2,3) n fresh(5,6) up(4) rel unfolding i by (auto intro!: became_here)
  have op: "completedAs db' k rw x \<Longrightarrow> completedAs db k rw x \<or> genuine h may db' rw x" for k rw x using ops(2) ge by blast
  have "sound h may db'"
  proof (rule sound_extends [OF db ev _ _ op])
    show "distinct (map z_id (releases db'))" unfolding rel up(1) by (fact ids)
    fix z assume "z \<in> set (releases db')"
    then obtain z0 where "z0 \<in> set (releases db)" "z = relocate ?i z0" unfolding rel by auto
    then show "z \<in> set (releases db) \<or> (ReleaseSchema z \<and> attested may db' z \<and> (Candidate, z_status z) \<in> status_moves\<^sup>*)"
      using up(2,3) at r unfolding i by (cases "z0 = old") auto
  qed
  with ev show ?case ..
qed

theorem step_sound: "release_step h may db db' \<Longrightarrow> sound h may db \<Longrightarrow> progresses db db' \<and> sound h may db'"
  by (auto elim!: release_stepE dest: step_created step_moved step_audited)

lemma steps_sound: "(release_step h may)\<^sup>*\<^sup>* db db' \<Longrightarrow> sound h may db \<Longrightarrow> progresses db db' \<and> sound h may db'"
proof (induction rule: rtranclp_induct)
  case base
  then show ?case by (simp add: progresses_refl)
next
  case (step y z)
  then show ?case using step_sound progresses_trans by blast
qed

lemma sound_empty: "sound h may empty_db"
  by (simp add: sound_def empty_db_def completedAs_def opAt_def)

section \<open>The service among other replicas\<close>

datatype release_request =
    Create candidate_input
  | Get string string
  | Move transition_input
  | Approve approve_input
  | Begin begin_input

fun serve :: "service_env \<Rightarrow> release_request \<Rightarrow> release_record option served" where
  "serve c (Create i) = bindR (createReleaseCandidate c i) (\<lambda>r. pureR (Some r))"
| "serve c (Get org rel) = getRelease c org rel"
| "serve c (Move i) = bindR (transitionStatus c i) (\<lambda>r. pureR (Some r))"
| "serve c (Approve i) = bindR (approve c i) (\<lambda>r. pureR (Some r))"
| "serve c (Begin i) = bindR (beginDeployment c i) (\<lambda>r. pureR (Some r))"

text \<open>
  The callers of the service (\<open>compose.ts\<close>) ask for a plain transition to neither of the statuses
  that need an audit; \<open>transitionStatus\<close> itself would make one, without the audit.
\<close>

fun internal :: "release_request \<Rightarrow> bool" where
  "internal (Move i) = (t_to i \<notin> {Rel_approved, Rel_deploying})"
| "internal _ = True"

text \<open>The others are replicas of the same service, and \<open>may\<close> covers whom the directory lets approve.\<close>

definition replicas :: "(string \<Rightarrow> string \<Rightarrow> bool) \<Rightarrow> service_env \<Rightarrow> bool" where
  "replicas may c \<longleftrightarrow>
     (\<forall>n db. (release_step (hash c) may)\<^sup>*\<^sup>* db (others c n db)) \<and>
     (\<forall>n org u. canApprove (directoryAt c n) org u \<longrightarrow> may org u)"

definition keeps :: "(string \<Rightarrow> string \<Rightarrow> bool) \<Rightarrow> service_env \<Rightarrow> 'a served \<Rightarrow> bool" where
  "keeps may c m \<longleftrightarrow> (\<forall>s r s'. m s = (r, s') \<longrightarrow> (release_step (hash c) may)\<^sup>*\<^sup>* (tables s) (tables s'))"

lemma keeps_pure [intro]: "keeps may c (pureR x)" and keeps_throw [intro]: "keeps may c (throwR e)"
  by (simp_all add: keeps_def)

lemma keeps_require [intro]: "keeps may c (require b e)"
  by (simp add: require_def keeps_pure keeps_throw)

lemma keeps_expect [intro]: "keeps may c (expectR e v)"
  by (auto simp: expectR_def split: option.split)

lemma keeps_option: "keeps may c m \<Longrightarrow> (\<And>x. keeps may c (f x)) \<Longrightarrow> keeps may c (case v of None \<Rightarrow> m | Some x \<Rightarrow> f x)"
  by (simp split: option.split)

lemma keeps_git [intro]: "keeps may c (callGit c call)"
  by (auto simp: keeps_def callGit_def split: prod.splits)

lemma keeps_bind [intro]:
  assumes "keeps may c m" "\<And>x s s'. m s = (Inr x, s') \<Longrightarrow> keeps may c (f x)"
  shows "keeps may c (bindR m f)"
  unfolding keeps_def
proof (intro allI impI)
  fix s r s' assume run: "bindR m f s = (r, s')"
  show "(release_step (hash c) may)\<^sup>*\<^sup>* (tables s) (tables s')"
  proof (cases "m s")
    case (Pair q s1)
    then have first: "(release_step (hash c) may)\<^sup>*\<^sup>* (tables s) (tables s1)" using assms(1) by (auto simp: keeps_def)
    show ?thesis
    proof (cases q)
      case (Inl e)
      then show ?thesis using run Pair first by (simp add: bindR_def)
    next
      case (Inr x)
      then have "f x s1 = (r, s')" using run Pair by (simp add: bindR_def)
      then have "(release_step (hash c) may)\<^sup>*\<^sup>* (tables s1) (tables s')" using assms(2) [of s x s1] Pair Inr by (auto simp: keeps_def)
      with first show ?thesis by simp
    qed
  qed
qed

lemma keeps_store:
  assumes "replicas may c"
    and "\<And>v db r db'. op v db = (r, db') \<Longrightarrow> db' = db \<or> release_step (hash c) may db db'"
  shows "keeps may c (inStore c op)"
  unfolding keeps_def
proof (intro allI impI)
  fix s r s' assume run: "inStore c op s = (r, s')"
  have "(release_step (hash c) may)\<^sup>*\<^sup>* (tables s) (others c (turn s) (tables s))" using assms(1) by (simp add: replicas_def)
  moreover have "(release_step (hash c) may)\<^sup>*\<^sup>* (others c (turn s) (tables s)) (tables s')"
    using run assms(2) [of "storeAt c (turn s)"] by (fastforce simp: inStore_def split: prod.splits)
  ultimately show "(release_step (hash c) may)\<^sup>*\<^sup>* (tables s) (tables s')" by simp
qed

lemma keeps_reading: "replicas may c \<Longrightarrow> keeps may c (inStore c (reading f))"
  by (rule keeps_store) (auto simp: reading_def)

lemma require_Inr [simp]: "require b e s = (Inr u, s') \<longleftrightarrow> b \<and> s' = s"
  by (simp add: require_def)

lemma keeps_transition:
  assumes "replicas may c" "vouched may i audit"
  shows "keeps may c (transitionStatusWithAudit c i audit)"
proof -
  have "keeps may c (inStore c (\<lambda>v. storeTransition v (transitionOf (hash c) i audit st)))"
    if "t_to i \<in> set (ALLOWED_TRANSITIONS st)" for st
  proof (rule keeps_store [OF assms(1)])
    fix v db r db' assume run: "storeTransition v (transitionOf (hash c) i audit st) db = (r, db')"
    show "db' = db \<or> release_step (hash c) may db db'"
    proof (cases r)
      case (Inl e)
      then show ?thesis using run transaction_Inl by (auto simp: storeTransition_def Let_def)
    next
      case (Inr x)
      then show ?thesis using run moved that assms(2) by blast
    qed
  qed
  then show ?thesis
    unfolding transitionStatusWithAudit_def
    by (intro keeps_bind keeps_require keeps_expect keeps_option keeps_pure keeps_reading [OF assms(1)]) (auto simp: list_ex_iff)
qed

lemma keeps_create:
  assumes "replicas may c"
  shows "keeps may c (inStore c (\<lambda>v. createCandidate v (candidateOf (hash c) i newId t)))"
proof (rule keeps_store [OF assms])
  fix v db r db' assume run: "createCandidate v (candidateOf (hash c) i newId t) db = (r, db')"
  show "db' = db \<or> release_step (hash c) may db db'"
  proof (cases r)
    case (Inl e)
    then show ?thesis using run transaction_Inl by (auto simp: createCandidate_def Let_def)
  next
    case (Inr x)
    then show ?thesis using run created by blast
  qed
qed

lemma keeps_timed: "(\<And>t. keeps may c (f t)) \<Longrightarrow> keeps may c (timed f)"
  by (simp add: keeps_def timed_def)

lemma keeps_directory: "(\<And>t. keeps may c (f (directoryAt c t))) \<Longrightarrow> keeps may c (bindR (directoryOf c) f)"
  by (simp add: keeps_def bindR_def directoryOf_def)

lemma keeps_candidate:
  assumes "replicas may c"
  shows "keeps may c (createReleaseCandidate c i)"
  unfolding createReleaseCandidate_def Let_def
  by (intro keeps_directory keeps_timed keeps_bind keeps_require keeps_expect keeps_git keeps_create [OF assms] keeps_pure)

lemma approval_vouched:
  "replicas may c \<Longrightarrow> canApprove (directoryAt c t) (p_organizationId i) (p_actorId i) \<Longrightarrow>
   vouched may (approval i) (Some (approvalAudit i))"
  by (auto simp: replicas_def vouched_def approval_def approvalAudit_def)

lemma keeps_approve:
  assumes "replicas may c"
  shows "keeps may c (approve c i)"
  unfolding approve_def
  by (intro keeps_directory keeps_bind keeps_require keeps_expect keeps_reading [OF assms] keeps_transition [OF assms])
    (auto intro: approval_vouched [OF assms])

lemma keeps_serve:
  assumes "replicas may c" "internal req"
  shows "keeps may c (serve c req)"
  using assms
  by (cases req)
    (auto simp: getRelease_def transitionStatus_def beginDeployment_def vouched_def deploymentMove_def deploymentAudit_def
      intro!: keeps_bind keeps_candidate keeps_reading keeps_approve keeps_transition)

section \<open>Properties\<close>

lemma reached_sound:
  "(release_step h may)\<^sup>*\<^sup>* empty_db db \<Longrightarrow> sound h may db"
  using steps_sound sound_empty by blast

text \<open>
  C30.  However the calls of the service's replicas interleave, and whatever a call meets in the
  tables between its store operations: a release keeps its identity (commit, project,
  environment, creator) and its status only moves along \<open>ALLOWED_TRANSITIONS\<close>; every release past
  approval carries an audit of its approval by a member the directory lets approve, and every
  release past the start of a deployment an audit of the request for it.  The request is any but a
  plain transition to approved or to deploying, which no caller of the service makes.
\<close>

theorem release_lifecycle:
  assumes "replicas may c" "internal req" "(release_step (hash c) may)\<^sup>*\<^sup>* empty_db (tables s)" "serve c req s = (res, s')"
  shows "(release_step (hash c) may)\<^sup>*\<^sup>* empty_db (tables s') \<and>
    (\<forall>r \<in> set (releases (tables s)). \<exists>r' \<in> set (releases (tables s')). identity r' = identity r \<and> (z_status r, z_status r') \<in> status_moves\<^sup>*) \<and>
    (\<forall>r \<in> set (releases (tables s')). (Candidate, z_status r) \<in> status_moves\<^sup>* \<and> attested may (tables s') r)"
proof (intro conjI)
  have here: "(release_step (hash c) may)\<^sup>*\<^sup>* (tables s) (tables s')"
    using keeps_serve [OF assms(1,2)] assms(4) by (simp add: keeps_def)
  then show reach: "(release_step (hash c) may)\<^sup>*\<^sup>* empty_db (tables s')" using assms(3) by simp
  show "\<forall>r \<in> set (releases (tables s)). \<exists>r' \<in> set (releases (tables s')). identity r' = identity r \<and> (z_status r, z_status r') \<in> status_moves\<^sup>*"
    using steps_sound [OF here reached_sound [OF assms(3)]] by (auto simp: progresses_def became_def)
  show "\<forall>r \<in> set (releases (tables s')). (Candidate, z_status r) \<in> status_moves\<^sup>* \<and> attested may (tables s') r"
    using reached_sound [OF reach] by (simp add: sound_def)
qed

lemma inStore_Inr:
  "inStore c op s = (Inr x, s') \<longleftrightarrow>
   (\<exists>db. op (storeAt c (turn s)) (others c (turn s) (tables s)) = (Inr x, db) \<and> s' = s\<lparr>tables := db, turn := Suc (turn s)\<rparr>)"
  by (auto simp: inStore_def split: prod.splits)

lemma reading_Inr [simp]: "reading f v db = (Inr x, db') \<longleftrightarrow> f db = Inr x \<and> db' = db"
  by (auto simp: reading_def)

lemma replay_finished:
  "completedOperation key type fp db = Inr (Some r) \<longleftrightarrow>
   (\<exists>row. completedAs db key row r \<and> o_type row = type \<and> o_inputHash row = fp \<and> ReleaseSchema r)"
  unfolding completedOperation_def opAt_def [symmetric] completedAs_def by (auto split: option.splits operation_state.splits)

text \<open>A transition that returns has left a record of itself.\<close>

lemma transition_finished:
  assumes "transitionStatusWithAudit c i audit s = (Inr r, s')"
  shows "TransitionInputSchema i \<and> (\<exists>row. completedAs (tables s') (''release:transition:'' @ t_operationKey i) row r \<and>
    o_type row = ''release.transition'' \<and> o_inputHash row = hash c (Fp_transition i audit) \<and> ReleaseSchema r)"
proof -
  let ?key = "''release:transition:'' @ t_operationKey i"
  obtain replay s1 where ok: "TransitionInputSchema i"
    and rd: "inStore c (reading (getTransitionReplay (t_operationKey i) (hash c (Fp_transition i audit)))) s = (Inr replay, s1)"
    and rest: "(case replay of Some r \<Rightarrow> pureR r
     | None \<Rightarrow> bindR (inStore c (reading (getStored (t_organizationId i) (t_releaseId i)))) (\<lambda>found.
         bindR (expectR Release_not_found found) (\<lambda>current.
         bindR (require (list_ex (\<lambda>status. status = t_to i) (ALLOWED_TRANSITIONS (z_status current))) Invalid_release_transition) (\<lambda>_.
         inStore c (\<lambda>v. storeTransition v (transitionOf (hash c) i audit (z_status current))))))) s1 = (Inr r, s')"
    using assms unfolding transitionStatusWithAudit_def by (auto simp: bindR_Inr_iff)
  show ?thesis
  proof (cases replay)
    case (Some x)
    then show ?thesis using ok rd rest by (auto simp: inStore_Inr getTransitionReplay_def replay_finished)
  next
    case None
    then obtain st v db db' where run: "storeTransition v (transitionOf (hash c) i audit st) db = (Inr r, db')" "tables s' = db'"
      using rest by (auto simp: bindR_Inr_iff inStore_Inr)
    show ?thesis
    proof (rule once_Inr [OF run(1) [unfolded storeTransition_once]], goal_cases frame replay fresh)
      case (frame x r y)
      then show ?case by (rule moveBody_Inr)
    next
      case (replay row)
      then show ?case using ok run(2) by (auto simp: transitionOf_def)
    next
      case (fresh ops db2 ops' row)
      have "ReleaseSchema r" by (rule moveBody_Inr [OF fresh(1)])
      then show ?case using fresh(4-6) ok run(2) by (auto simp: transitionOf_def)
    qed
  qed
qed

text \<open>No other operation has the same fingerprint.\<close>

definition unmistaken :: "(fingerprinted \<Rightarrow> string) \<Rightarrow> fingerprinted \<Rightarrow> bool" where
  "unmistaken h f \<longleftrightarrow> (\<forall>g. h g = h f \<longrightarrow> g = f)"

text \<open>
  C31.  A transition takes effect once.  After a call has returned a release, whatever the replicas
  do next, repeating it under the same operation key returns the same release and writes nothing;
  and any other transition under that key is refused as an idempotency conflict.
\<close>

theorem transition_exactly_once:
  assumes "replicas may c" "replicas may c'" "hash c' = hash c" "(release_step (hash c) may)\<^sup>*\<^sup>* empty_db (tables s1)"
    "transitionStatusWithAudit c i audit s = (Inr r, s1)" "(release_step (hash c) may)\<^sup>*\<^sup>* (tables s1) (tables s2)"
    "unmistaken (hash c) (Fp_transition i audit)"
  shows "transitionStatusWithAudit c' i audit s2 = (Inr r, s2\<lparr>tables := others c' (turn s2) (tables s2), turn := Suc (turn s2)\<rparr>) \<and>
    (TransitionInputSchema i' \<and> t_operationKey i' = t_operationKey i \<and> (i', audit') \<noteq> (i, audit) \<longrightarrow>
      fst (transitionStatusWithAudit c' i' audit' s2) = Inl Idempotency_conflict)"
proof (rule conjI)
  let ?key = "''release:transition:'' @ t_operationKey i"
  obtain row where ok: "TransitionInputSchema i" and fin: "completedAs (tables s1) ?key row r"
    and row: "o_type row = ''release.transition''" "o_inputHash row = hash c (Fp_transition i audit)" "ReleaseSchema r"
    using transition_finished [OF assms(5)] by blast
  have "(release_step (hash c) may)\<^sup>*\<^sup>* (tables s1) (others c' (turn s2) (tables s2))"
    using assms(2,3,6) by (auto simp: replicas_def intro: rtranclp_trans)
  then have later: "completedAs (others c' (turn s2) (tables s2)) ?key row r"
    using steps_sound reached_sound [OF assms(4)] fin by (blast dest: progresses_def [THEN iffD1])
  then have "completedOperation ?key ''release.transition'' (hash c (Fp_transition i audit)) (others c' (turn s2) (tables s2)) = Inr (Some r)"
    using row by (auto simp: replay_finished)
  then show "transitionStatusWithAudit c' i audit s2 = (Inr r, s2\<lparr>tables := others c' (turn s2) (tables s2), turn := Suc (turn s2)\<rparr>)"
    using ok assms(3) by (simp add: transitionStatusWithAudit_def bindR_def require_def pureR_def inStore_def reading_def getTransitionReplay_def)
  show "TransitionInputSchema i' \<and> t_operationKey i' = t_operationKey i \<and> (i', audit') \<noteq> (i, audit) \<longrightarrow>
      fst (transitionStatusWithAudit c' i' audit' s2) = Inl Idempotency_conflict"
  proof (intro impI, elim conjE)
    assume i': "TransitionInputSchema i'" "t_operationKey i' = t_operationKey i" "(i', audit') \<noteq> (i, audit)"
    then have "o_inputHash row \<noteq> hash c (Fp_transition i' audit')" using assms(7) row(2) unfolding unmistaken_def by auto
    then have "getTransitionReplay (t_operationKey i') (hash c (Fp_transition i' audit')) (others c' (turn s2) (tables s2)) = Inl Idempotency_conflict"
      using later i'(2) by (simp add: getTransitionReplay_def completedOperation_def completedAs_def opAt_def)
    then show "fst (transitionStatusWithAudit c' i' audit' s2) = Inl Idempotency_conflict"
      using i'(1) assms(3) by (simp add: transitionStatusWithAudit_def bindR_def require_def pureR_def inStore_def reading_def)
  qed
qed

text \<open>What a returned transition says of the tables.\<close>

lemma transition_genuine:
  assumes "replicas may c" "(release_step (hash c) may)\<^sup>*\<^sup>* empty_db (tables s)" "vouched may i audit"
    "transitionStatusWithAudit c i audit s = (Inr r, s')" "unmistaken (hash c) (Fp_transition i audit)"
  shows "sound (hash c) may (tables s')" "progresses (tables s) (tables s')" "z_organizationId r = t_organizationId i" "z_id r = t_releaseId i"
    "z_status r = t_to i" "became r (tables s')" "attested may (tables s') r"
    "\<forall>a. audit = Some a \<longrightarrow> noted (tables s') r (ra_action a) (ra_actorId a)"
proof -
  have "(release_step (hash c) may)\<^sup>*\<^sup>* (tables s) (tables s')"
    using keeps_transition [OF assms(1,3)] assms(4) by (simp add: keeps_def)
  from steps_sound [OF this reached_sound [OF assms(2)]]
  show so: "sound (hash c) may (tables s')" and "progresses (tables s) (tables s')" by blast+
  obtain row where g: "genuine (hash c) may (tables s') row r" "o_type row = ''release.transition''"
      "o_inputHash row = hash c (Fp_transition i audit)"
    using transition_finished [OF assms(4)] so unfolding sound_def by blast
  then show "became r (tables s')" "attested may (tables s') r" by (simp_all add: genuine_def)
  from g assms(5) show "z_organizationId r = t_organizationId i" "z_id r = t_releaseId i" "z_status r = t_to i"
    "\<forall>a. audit = Some a \<longrightarrow> noted (tables s') r (ra_action a) (ra_actorId a)"
    unfolding genuine_def unmistaken_def by force+
qed

lemma same_release:
  assumes "sound h may db" "became x db" "became y db" "z_id x = z_id y"
  shows "identity x = identity y"
proof -
  obtain x' y' where "x' \<in> set (releases db)" "identity x' = identity x" "y' \<in> set (releases db)" "identity y' = identity y"
    using assms(2,3) unfolding became_def by blast
  moreover from this have "x' = y'"
    using unique_release [of "releases db" x' y'] assms(1,4) identityD(1) by (metis sound_def)
  ultimately show ?thesis by simp
qed

text \<open>
  C32.  A returned approval is real: the caller was allowed to approve when the directory was
  read, the release returned is the one asked for, in status approved, the tables hold it in that status
  or one it moved to from there, and an audit names the caller as the one who approved it.
\<close>

theorem approve_genuine:
  assumes "replicas may c" "(release_step (hash c) may)\<^sup>*\<^sup>* empty_db (tables s)" "approve c i s = (Inr r, s')"
    "unmistaken (hash c) (Fp_transition (approval i) (Some (approvalAudit i)))"
  shows "z_id r = p_releaseId i \<and> z_organizationId r = p_organizationId i \<and> z_status r = Rel_approved \<and>
    canApprove (directoryAt c (Suc (turn s))) (p_organizationId i) (p_actorId i) \<and>
    (\<exists>r' \<in> set (releases (tables s')). identity r' = identity r \<and> (Rel_approved, z_status r') \<in> status_moves\<^sup>*) \<and>
    noted (tables s') r Act_release_approved (p_actorId i)"
proof -
  obtain s1 where tr: "transitionStatusWithAudit c (approval i) (Some (approvalAudit i)) s1 = (Inr r, s')"
    and may: "canApprove (directoryAt c (Suc (turn s))) (p_organizationId i) (p_actorId i)" and s1: "tables s1 = others c (turn s) (tables s)"
    using assms(3) unfolding approve_def by (auto simp: bindR_Inr_iff inStore_Inr directoryOf_def)
  have "(release_step (hash c) may)\<^sup>*\<^sup>* empty_db (tables s1)"
    using assms(1,2) unfolding s1 replicas_def by (blast intro: rtranclp_trans)
  note g = transition_genuine [OF assms(1) this approval_vouched [OF assms(1) may] tr assms(4)]
  show ?thesis using may g(3-6) g(8) by (simp add: became_def approval_def approvalAudit_def)
qed

lemma callGit_Inr:
  "callGit c call s = (Inr b, s') \<longleftrightarrow> git c (gitCalls s) call = Some b \<and> s' = s\<lparr>gitCalls := gitCalls s @ [(call, Some b)]\<rparr>"
  by (auto simp: callGit_def awaitR_def split: option.splits)

lemma create_finished:
  assumes "createCandidate v i db = (Inr r, db')"
  shows "\<exists>row. completedAs db' (''release:create:'' @ s_operationKey i) row r \<and> o_type row = ''release.create'' \<and> o_inputHash row = s_fingerprint i"
proof (rule once_Inr [OF assms [unfolded createCandidate_once]], goal_cases frame replay fresh)
  case (frame x r y)
  then show ?case by (rule createBody_Inr(5))
next
  case (replay row)
  then show ?case by blast
next
  case (fresh ops db2 ops' row)
  then show ?case by blast
qed

lemma resolved:
  assumes "resolveCandidate d org proj environment spec by' actor commit = Some info" "cc_actorRole info \<noteq> Viewer"
    "by' = None \<or> cc_waiverApproved info" "\<not> cc_prototypeOnly info"
  shows "roleOf d org actor \<in> {Some Owner, Some Builder}" "\<forall>u. by' = Some u \<longrightarrow> roleOf d org u = Some Owner"
    "Mode_prototype \<in> set (dir_modes d org proj commit) \<longrightarrow> Mode_build \<in> set (dir_modes d org proj commit)"
  using assms by (cases "cc_actorRole info"; auto simp: resolveCandidate_def Let_def optionally_def split: option.splits if_splits)+

lemma candidate_runs:
  assumes "createReleaseCandidate c i s = (Inr r, s')"
  obtains info s1 s2 b where
    "resolveCandidate (directoryAt c (turn s)) (j_organizationId i) (j_projectId i) (j_environmentId i) (j_specificationId i)
       (map_option w_approvedBy (j_specificationWaiver i)) (j_actorId i) (j_commitSha i) = Some info"
    "cc_actorRole info \<noteq> Viewer" "j_specificationWaiver i = None \<or> cc_waiverApproved info" "\<not> cc_prototypeOnly info"
    "callGit c (Get_commit (j_organizationId i) (j_projectId i) (j_commitSha i)) s = (Inr True, s1)"
    "inStore c (\<lambda>v. createCandidate v (candidateOf (hash c) (trimCandidate i) (newReleaseId c (turn s1)) (nowAt c (turn s1)))) s1 = (Inr r, s2)"
    "callGit c (Create_tag (z_organizationId r) (z_projectId r) (z_id r) (z_commitSha r)) s2 = (Inr b, s')"
  using assms unfolding createReleaseCandidate_def Let_def
  by (auto simp: bindR_Inr_iff directoryOf_def timed_def trimCandidate_def option.map_comp comp_def)

text \<open>
  A returned candidate is for what was asked: when the creation returns a release, Git had
  confirmed the commit before anything was recorded and has accepted the tag of the release at
  that commit; the actor is an owner or a builder of the organization, a waived specification was
  waived by an owner, and a commit that only a prototype run made was refused; and the tables
  hold the release with the requested project, environment and commit.
\<close>

theorem candidate_genuine:
  assumes "replicas may c" "(release_step (hash c) may)\<^sup>*\<^sup>* empty_db (tables s)" "createReleaseCandidate c i s = (Inr r, s')"
    "unmistaken (hash c) (Fp_candidate (trimCandidate i))"
  shows "(\<exists>newId t. r = releaseOf (trimCandidate i) newId t) \<and>
    (\<exists>r' \<in> set (releases (tables s')). identity r' = identity r) \<and>
    roleOf (directoryAt c (turn s)) (j_organizationId i) (j_actorId i) \<in> {Some Owner, Some Builder} \<and>
    (\<forall>w. j_specificationWaiver i = Some w \<longrightarrow> roleOf (directoryAt c (turn s)) (j_organizationId i) (w_approvedBy w) = Some Owner) \<and>
    (Mode_prototype \<in> set (dir_modes (directoryAt c (turn s)) (j_organizationId i) (j_projectId i) (j_commitSha i)) \<longrightarrow>
     Mode_build \<in> set (dir_modes (directoryAt c (turn s)) (j_organizationId i) (j_projectId i) (j_commitSha i))) \<and>
    (\<exists>b. gitCalls s' = gitCalls s @ [(Get_commit (j_organizationId i) (j_projectId i) (j_commitSha i), Some True),
       (Create_tag (z_organizationId r) (z_projectId r) (z_id r) (z_commitSha r), Some b)])"
proof -
  from assms(3) obtain info s1 s2 b where
    ctx: "resolveCandidate (directoryAt c (turn s)) (j_organizationId i) (j_projectId i) (j_environmentId i) (j_specificationId i)
       (map_option w_approvedBy (j_specificationWaiver i)) (j_actorId i) (j_commitSha i) = Some info"
      "cc_actorRole info \<noteq> Viewer" "j_specificationWaiver i = None \<or> cc_waiverApproved info" "\<not> cc_prototypeOnly info"
    and git1: "callGit c (Get_commit (j_organizationId i) (j_projectId i) (j_commitSha i)) s = (Inr True, s1)"
    and store: "inStore c (\<lambda>v. createCandidate v (candidateOf (hash c) (trimCandidate i) (newReleaseId c (turn s1)) (nowAt c (turn s1)))) s1 = (Inr r, s2)"
    and git2: "callGit c (Create_tag (z_organizationId r) (z_projectId r) (z_id r) (z_commitSha r)) s2 = (Inr b, s')"
    by (rule candidate_runs)
  have calls: "gitCalls s' = gitCalls s @ [(Get_commit (j_organizationId i) (j_projectId i) (j_commitSha i), Some True),
       (Create_tag (z_organizationId r) (z_projectId r) (z_id r) (z_commitSha r), Some b)]"
    using git1 git2 store by (auto simp: callGit_Inr inStore_Inr)
  have "(release_step (hash c) may)\<^sup>*\<^sup>* (tables s) (tables s')"
    using keeps_candidate [OF assms(1), of i] assms(3) by (simp add: keeps_def)
  then have so: "sound (hash c) may (tables s')" using assms(2) by (intro reached_sound) simp
  obtain v db where "createCandidate v (candidateOf (hash c) (trimCandidate i) (newReleaseId c (turn s1)) (nowAt c (turn s1))) db = (Inr r, tables s')"
    using store git2 by (auto simp: inStore_Inr callGit_Inr)
  from create_finished [OF this] obtain k row where "completedAs (tables s') k row r" and row: "o_type row = ''release.create''"
      "o_inputHash row = hash c (Fp_candidate (trimCandidate i))"
    unfolding candidateOf_def by auto
  then have g: "genuine (hash c) may (tables s') row r" using so by (auto simp: sound_def)
  have "\<exists>newId t. r = releaseOf (trimCandidate i) newId t"
    using g row assms(4) unfolding genuine_def unmistaken_def by (metis fingerprinted.inject(1))
  moreover have "\<exists>r' \<in> set (releases (tables s')). identity r' = identity r" using g by (auto simp: genuine_def became_def)
  ultimately show ?thesis using resolved [OF ctx(1,2) _ ctx(4)] ctx(3) calls by auto
qed

section \<open>A release_record, from candidate to approval\<close>

fun runs :: "service_env \<Rightarrow> release_request list \<Rightarrow> session \<Rightarrow> session" where
  "runs c [] s = s"
| "runs c (q # qs) s = runs c qs (snd (serve c q s))"

lemma runs_reach:
  "replicas may c \<Longrightarrow> list_all internal qs \<Longrightarrow> (release_step (hash c) may)\<^sup>*\<^sup>* (tables s) (tables (runs c qs s))"
proof (induction qs arbitrary: s)
  case (Cons q qs)
  obtain r s1 where "serve c q s = (r, s1)" by fastforce
  then have "(release_step (hash c) may)\<^sup>*\<^sup>* (tables s) (tables s1)" using keeps_serve [of may c q] Cons.prems by (simp add: keeps_def)
  with Cons \<open>serve c q s = (r, s1)\<close> show ?case by (auto intro: rtranclp_trans)
qed simp

definition sampleId :: "string \<Rightarrow> string" where
  "sampleId pre = pre @ ''_'' @ replicate 26 CHR ''0''"

definition sampleKey :: "char \<Rightarrow> string" where
  "sampleKey ch = ''op_'' @ replicate 64 ch"

definition sample_directory :: directory where
  "sample_directory =
     \<lparr>dir_projects = [(sampleId ''proj'', sampleId ''org'')], dir_environments = [(sampleId ''env'', sampleId ''org'', sampleId ''proj'')],
      dir_members = [(sampleId ''org'', sampleId ''user'', Builder)],
      dir_specifications = [(sampleId ''spec'', sampleId ''org'', sampleId ''proj'')],
      dir_settings = (\<lambda>_. JObject [(''builderCanDeploy'', JBool True)]), dir_modes = (\<lambda>_ _ _. [Mode_build])\<rparr>"

definition sample_may :: "string \<Rightarrow> string \<Rightarrow> bool" where
  "sample_may = canApprove sample_directory"

definition release_env :: "fingerprinted \<Rightarrow> service_env" where
  "release_env target =
     \<lparr>others = (\<lambda>_ db. db),
      storeAt = (\<lambda>n. \<lparr>v_expired = (\<lambda>_. False), v_refs = (\<lambda>_. True), v_sha256 = (\<lambda>_. []), v_ownerId = ''owner'',
        v_auditId = replicate n CHR ''a'', v_waiverAuditId = replicate n CHR ''w'', v_clock = int n\<rparr>),
      directoryAt = (\<lambda>_. sample_directory), hash = (\<lambda>f. if f = target then ''this'' else ''another''),
      git = (\<lambda>_ _. Some True), newReleaseId = (\<lambda>_. sampleId ''rel''), nowAt = int\<rparr>"

definition first_candidate :: candidate_input where
  "first_candidate =
     \<lparr>j_organizationId = sampleId ''org'', j_projectId = sampleId ''proj'', j_environmentId = sampleId ''env'',
      j_commitSha = replicate 40 CHR ''c'', j_specificationId = Some (sampleId ''spec''), j_specificationWaiver = None,
      j_actorId = sampleId ''user'', j_operationKey = sampleKey CHR ''1'', j_resolvedFixRunIds = []\<rparr>"

definition sample_move :: "char \<Rightarrow> release_status \<Rightarrow> transition_input" where
  "sample_move ch st = \<lparr>t_organizationId = sampleId ''org'', t_releaseId = sampleId ''rel'', t_to = st, t_operationKey = sampleKey ch\<rparr>"

definition sample_approval :: approve_input where
  "sample_approval = \<lparr>p_releaseId = sampleId ''rel'', p_actorId = sampleId ''user'', p_organizationId = sampleId ''org'', p_operationKey = sampleKey CHR ''4''\<rparr>"

definition nobody_yet :: session where
  "nobody_yet = \<lparr>tables = empty_db, turn = 0, gitCalls = []\<rparr>"

definition approving :: service_env where
  "approving = release_env (Fp_transition (approval sample_approval) (Some (approvalAudit sample_approval)))"

definition ready_session :: session where
  "ready_session = runs approving [Create first_candidate, Move (sample_move CHR ''2'' Verifying), Move (sample_move CHR ''3'' Rel_ready)] nobody_yet"

lemma sampleKey_inj: "sampleKey a = sampleKey b \<longleftrightarrow> a = b"
  by (simp add: sampleKey_def)

lemma sampleKey_ok: "opKeySchema (sampleKey ch) \<longleftrightarrow> is_hex ch"
  by (simp add: opKeySchema_def sampleKey_def list_all_iff)

lemma sampleId_ok: "idSchema pre (sampleId pre)"
  by (simp add: idSchema_def sampleId_def is_ulid_char_def is_digit_def list_all_iff)

lemma commit_ok: "CommitShaSchema (replicate 40 CHR ''c'')"
  by (simp add: CommitShaSchema_def is_hex_def list_all_iff)

lemmas run_simps = bindR_def pureR_def throwR_def expectR_def require_def inStore_def reading_def transaction_def
  claimOperation_def completeOperation_def completedOperation_def getTransitionReplay_def getStored_def insertAudit_def insertRelease_def
  moveRelease_def relocate_def createCandidate_def storeTransition_def transitionStatusWithAudit_def transitionStatus_def
  createReleaseCandidate_def timed_def directoryOf_def callGit_def awaitR_def approve_def beginDeployment_def
  release_env_def first_candidate_def sample_move_def sample_approval_def approval_def approvalAudit_def candidateOf_def releaseOf_def
  transitionOf_def auditOf_def trimCandidate_def TransitionInputSchema_def ReleaseSchema_def ApproveInputSchema_def
  CreateReleaseCandidateInputSchema_def resolveCandidate_def roleOf_def sample_directory_def canApprove_def optionally_def property_def getOr_def
  sampleKey_inj sampleKey_ok sampleId_ok commit_ok is_hex_def is_digit_def Let_def nobody_yet_def empty_db_def

lemma sample_replicas: "replicas sample_may (release_env f)" "replicas sample_may approving"
  by (simp_all add: replicas_def release_env_def sample_may_def approving_def)

lemma sample_unmistaken: "unmistaken (hash (release_env f)) f"
  "unmistaken (hash approving) (Fp_transition (approval sample_approval) (Some (approvalAudit sample_approval)))"
  by (simp_all add: unmistaken_def release_env_def approving_def)

lemma sample_internal:
  "list_all internal [Create first_candidate, Move (sample_move CHR ''2'' Verifying), Move (sample_move CHR ''3'' Rel_ready)]"
  by (simp add: sample_move_def)

lemma ready_reached: "(release_step (hash approving) sample_may)\<^sup>*\<^sup>* empty_db (tables ready_session)"
proof -
  have "tables nobody_yet = empty_db" by (simp add: nobody_yet_def)
  then show ?thesis
    unfolding ready_session_def by (metis (no_types, lifting) runs_reach [OF sample_replicas(2)] sample_internal)
qed

lemma sample_created: "map_sum id z_status (fst (createReleaseCandidate (release_env f) first_candidate nobody_yet)) = Inr Candidate"
  by (simp add: run_simps)

lemma ran: "map_sum id f (fst x) = Inr y \<Longrightarrow> \<exists>v s'. x = (Inr v, s') \<and> f v = y"
  by (cases x; cases "fst x") auto

lemma sample_approved:
  "\<exists>r s'. approve approving sample_approval ready_session = (Inr r, s') \<and> map z_status (releases (tables s')) = [Rel_approved]"
proof -
  have "case approve approving sample_approval ready_session of (res, s') \<Rightarrow>
      \<not> isl res \<and> map z_status (releases (tables s')) = [Rel_approved]"
    by (simp add: approving_def ready_session_def run_simps)
  then show ?thesis by (cases "approve approving sample_approval ready_session"; cases "fst (approve approving sample_approval ready_session)") auto
qed

theorem release_lifecycle_witness:
  "\<exists>s' r. snd (serve approving (Approve sample_approval) ready_session) = s' \<and> r \<in> set (releases (tables s')) \<and> z_status r = Rel_approved \<and>
     (\<exists>u. sample_may (z_organizationId r) u \<and> noted (tables s') r Act_release_approved u)"
proof -
  obtain v s' where run: "approve approving sample_approval ready_session = (Inr v, s')" and st: "map z_status (releases (tables s')) = [Rel_approved]"
    using sample_approved by (elim exE conjE)
  from st obtain r where r: "r \<in> set (releases (tables s'))" "z_status r = Rel_approved" by (auto simp: map_eq_Cons_conv)
  from run have served: "serve approving (Approve sample_approval) ready_session = (Inr (Some v), s')"
    by (simp add: bindR_def pureR_def)
  have "attested sample_may (tables s') r"
    using release_lifecycle [OF sample_replicas(2) _ ready_reached served] r(1) by simp
  with r served show ?thesis by (auto simp: attested_def pastApproval_def)
qed

theorem transition_exactly_once_witness:
  "\<exists>s r s'. tables s = tables ready_session \<and>
     transitionStatusWithAudit approving (approval sample_approval) (Some (approvalAudit sample_approval)) s = (Inr r, s') \<and>
     transitionStatusWithAudit approving (approval sample_approval) (Some (approvalAudit sample_approval)) s' = (Inr r, s'\<lparr>turn := Suc (turn s')\<rparr>) \<and>
     fst (transitionStatusWithAudit approving (approval sample_approval) None s') = Inl Idempotency_conflict"
proof -
  let ?call = "transitionStatusWithAudit approving (approval sample_approval) (Some (approvalAudit sample_approval))"
  have alone: "others approving n db = db" for n db by (simp add: approving_def release_env_def)
  obtain r s' where run: "approve approving sample_approval ready_session = (Inr r, s')" using sample_approved by blast
  have s: "tables (ready_session\<lparr>turn := Suc (turn ready_session)\<rparr>) = tables ready_session"
      "?call (ready_session\<lparr>turn := Suc (turn ready_session)\<rparr>) = (Inr r, s')"
    using run unfolding approve_def by (auto simp: bindR_Inr_iff inStore_Inr directoryOf_def alone)
  have "(release_step (hash approving) sample_may)\<^sup>*\<^sup>* empty_db (tables s')"
    using keeps_approve [OF sample_replicas(2)] run ready_reached unfolding keeps_def by (blast intro: rtranclp_trans)
  note once = transition_exactly_once [OF sample_replicas(2) sample_replicas(2) refl this s(2) rtranclp.rtrancl_refl sample_unmistaken(2)]
  have "TransitionInputSchema (approval sample_approval)" using transition_finished [OF s(2)] by simp
  then have "?call s' = (Inr r, s'\<lparr>turn := Suc (turn s')\<rparr>) \<and>
      fst (transitionStatusWithAudit approving (approval sample_approval) None s') = Inl Idempotency_conflict"
    using once [of "approval sample_approval" None] by (simp add: alone)
  with s show ?thesis by blast
qed

theorem approve_genuine_witness:
  "\<exists>r s'. approve approving sample_approval ready_session = (Inr r, s') \<and> z_status r = Rel_approved \<and>
     noted (tables s') r Act_release_approved (sampleId ''user'')"
proof -
  obtain r s' where run: "approve approving sample_approval ready_session = (Inr r, s')" using sample_approved by blast
  from approve_genuine [OF sample_replicas(2) ready_reached run sample_unmistaken(2)] run show ?thesis
    by (auto simp: sample_approval_def)
qed

theorem candidate_genuine_witness:
  "\<exists>r s'. createReleaseCandidate (release_env (Fp_candidate first_candidate)) first_candidate nobody_yet = (Inr r, s') \<and>
     z_commitSha r = replicate 40 CHR ''c'' \<and> (\<exists>r' \<in> set (releases (tables s')). identity r' = identity r)"
proof -
  let ?c = "release_env (Fp_candidate first_candidate)"
  have trimmed: "trimCandidate first_candidate = first_candidate" by (simp add: trimCandidate_def first_candidate_def)
  obtain r s' where run: "createReleaseCandidate ?c first_candidate nobody_yet = (Inr r, s')" using ran [OF sample_created] by blast
  have "(release_step (hash ?c) sample_may)\<^sup>*\<^sup>* empty_db (tables nobody_yet)" by (simp add: nobody_yet_def)
  from candidate_genuine [OF sample_replicas(1) this run, unfolded trimmed, OF sample_unmistaken(1)] run show ?thesis
    by (auto simp: releaseOf_def first_candidate_def)
qed

end
