(* ===== verification/Release_Lifecycle.thy ===== *)
theory Release_Lifecycle
  imports Readiness Release_Records
begin

text \<open>
  The release lifecycle (\<open>services/release-service/src/lifecycle.ts\<close>) on the release records, with
  the readiness evaluation as the production composition binds it (\<open>compose.ts\<close>).  What the
  composition injects (loading readiness inputs, deploying, rolling back, forking) is one
  parameter that answers calls; \<open>digest\<close> is SHA-256 in hexadecimal.
\<close>

section \<open>Data\<close>

record rollback_input =
  k_organizationId :: string
  k_releaseId :: string
  k_actorId :: string
  k_operationKey :: string
  k_toDeploymentId :: "string option"
  k_reason :: string

record fork_input =
  g_organizationId :: string
  g_releaseId :: string
  g_actorId :: string
  g_operationKey :: string
  g_startFixRun :: bool

record fork_result =
  fr_releaseId :: string
  fr_branchId :: string
  fr_branchName :: string
  fr_fixRunId :: "string option"

datatype lifecycle_call =
    Load_readiness release_record
  | Deploy release_record begin_input
  | Rollback release_record rollback_input
  | Fork release_record fork_input

datatype lifecycle_reply = Loaded readiness_input | Answer js_value

datatype release_lifecycle_error =
    Refused release_error
  | Unready readiness_error
  | Readiness_identity_mismatch
  | Fork_identity_mismatch
  | Invalid_deployment_result
  | Invalid_fork_result
  | Dependency_rejected

type_synonym lifecycle_entry = "(lifecycle_call, lifecycle_reply) entry"
type_synonym lifecycle_ports = "(lifecycle_call, lifecycle_reply) ports"
type_synonym 'a staged = "(release_lifecycle_error, session \<times> lifecycle_entry list, 'a) effect"

definition onRecords :: "'a served \<Rightarrow> 'a staged" where
  "onRecords m = (\<lambda>(s, h). case m s of (Inl e, s') \<Rightarrow> (Inl (Refused e), (s', h)) | (Inr x, s') \<Rightarrow> (Inr x, (s', h)))"

definition callOut :: "lifecycle_ports \<Rightarrow> lifecycle_call \<Rightarrow> lifecycle_reply staged" where
  "callOut env call = (\<lambda>(s, h). case awaitR Dependency_rejected env call h of (r, h') \<Rightarrow> (r, (s, h')))"

definition raising :: "('e \<Rightarrow> release_lifecycle_error) \<Rightarrow> 'e + 'a \<Rightarrow> 'a staged" where
  "raising f v = (case v of Inl e \<Rightarrow> throwR (f e) | Inr x \<Rightarrow> pureR x)"

section \<open>Readiness\<close>

definition releaseFor :: "service_env \<Rightarrow> string \<Rightarrow> string \<Rightarrow> release_record staged" where
  "releaseFor c org rel = bindR (onRecords (getRelease c org rel)) (expectR (Refused Release_not_found))"

definition derivedOperationKey :: "(string \<Rightarrow> string) \<Rightarrow> string \<Rightarrow> string \<Rightarrow> string" where
  "derivedOperationKey digest key sfx = ''op_'' @ digest (key @ '':'' @ sfx)"

fun state_name :: "readiness_state \<Rightarrow> string" where
  "state_name State_ready = ''ready''"
| "state_name State_warnings = ''warnings''"
| "state_name State_blocked = ''blocked''"

fun settledStatus :: "readiness_state \<Rightarrow> release_status" where
  "settledStatus State_ready = Rel_ready"
| "settledStatus State_warnings = Rel_warnings"
| "settledStatus State_blocked = Rel_blocked"

definition verifyMove :: "(string \<Rightarrow> string) \<Rightarrow> release_record \<Rightarrow> transition_input" where
  "verifyMove digest r = \<lparr>t_organizationId = z_organizationId r, t_releaseId = z_id r, t_to = Verifying,
     t_operationKey = derivedOperationKey digest (z_id r) ''readiness:verifying''\<rparr>"

definition settleMove :: "(string \<Rightarrow> string) \<Rightarrow> release_record \<Rightarrow> readiness_state \<Rightarrow> transition_input" where
  "settleMove digest r st = \<lparr>t_organizationId = z_organizationId r, t_releaseId = z_id r, t_to = settledStatus st,
     t_operationKey = derivedOperationKey digest (z_id r) (''readiness:'' @ state_name st)\<rparr>"

fun readinessOf :: "lifecycle_reply \<Rightarrow> readiness_error + readiness_report" where
  "readinessOf (Loaded i) = evaluateReadiness i"
| "readinessOf (Answer _) = Inl Invalid_readiness_input"

definition evaluate :: "service_env \<Rightarrow> (string \<Rightarrow> string) \<Rightarrow> lifecycle_ports \<Rightarrow> release_record \<Rightarrow> readiness_report staged" where
  "evaluate c digest env r =
     bindR (callOut env (Load_readiness r)) (\<lambda>reply.
     bindR (raising Unready (andThen (readinessOf reply) ReadinessReportSchema_parse)) (\<lambda>report.
     if rp_releaseId report \<noteq> z_id r \<or> rp_commitSha report \<noteq> z_commitSha r then throwR Readiness_identity_mismatch
     else if z_status r = Candidate then
       bindR (onRecords (transitionStatus c (verifyMove digest r))) (\<lambda>_.
       bindR (onRecords (transitionStatus c (settleMove digest r (rp_state report)))) (\<lambda>_.
       pureR report))
     else pureR report))"

definition getReadiness :: "service_env \<Rightarrow> (string \<Rightarrow> string) \<Rightarrow> lifecycle_ports \<Rightarrow> string \<Rightarrow> string \<Rightarrow> readiness_report staged" where
  "getReadiness c digest env org rel =
     (if \<not> (idSchema ''org'' org \<and> idSchema ''rel'' rel) then throwR (Refused Invalid_input)
      else
        bindR (releaseFor c org rel) (\<lambda>r.
        bindR (evaluate c digest env r) (\<lambda>raw.
        bindR (raising Unready (ReadinessReportSchema_parse raw)) (\<lambda>result.
        if rp_releaseId result \<noteq> z_id r \<or> rp_commitSha result \<noteq> z_commitSha r then throwR Readiness_identity_mismatch
        else pureR result))))"

section \<open>Deployment\<close>

fun DeploymentResultSchema :: "lifecycle_reply \<Rightarrow> string option" where
  "DeploymentResultSchema (Answer v) =
     (case strictObject [''deploymentId''] v of None \<Rightarrow> None | Some f \<Rightarrow> asId ''dep'' (f ''deploymentId''))"
| "DeploymentResultSchema (Loaded _) = None"

text \<open>The recheck of an approved release, and the release to deploy.\<close>

definition recheck :: "service_env \<Rightarrow> (string \<Rightarrow> string) \<Rightarrow> lifecycle_ports \<Rightarrow> release_record \<Rightarrow> unit staged" where
  "recheck c digest env r =
     bindR (evaluate c digest env r) (\<lambda>raw.
     bindR (raising Unready (ReadinessReportSchema_parse raw)) (\<lambda>readiness.
     if rp_releaseId readiness \<noteq> z_id r \<or> rp_commitSha readiness \<noteq> z_commitSha r \<or> rp_state readiness = State_blocked
     then throwR (Refused Invalid_release_transition) else pureR ()))"

definition launch :: "service_env \<Rightarrow> (string \<Rightarrow> string) \<Rightarrow> lifecycle_ports \<Rightarrow> begin_input \<Rightarrow> release_record \<Rightarrow> string staged" where
  "launch c digest env i r =
     bindR (if z_status r = Rel_approved then recheck c digest env r else pureR ()) (\<lambda>_.
     bindR (if z_status r = Rel_approved then onRecords (beginDeployment c i) else pureR r) (\<lambda>deploying.
     bindR (callOut env (Deploy deploying i)) (\<lambda>reply.
     expectR Invalid_deployment_result (DeploymentResultSchema reply))))"

definition deploy :: "service_env \<Rightarrow> (string \<Rightarrow> string) \<Rightarrow> lifecycle_ports \<Rightarrow> begin_input \<Rightarrow> string staged" where
  "deploy c digest env i =
     (if \<not> BeginDeploymentInputSchema i then throwR (Refused Invalid_input)
      else
        bindR (releaseFor c (b_organizationId i) (b_releaseId i)) (\<lambda>r.
        if z_status r \<noteq> Rel_approved \<and> z_status r \<noteq> Rel_deploying \<and> z_status r \<noteq> Rel_healthy
        then throwR (Refused Invalid_release_transition)
        else launch c digest env i r))"

section \<open>Rollback and fork\<close>

definition RollbackReleaseInputSchema :: "rollback_input \<Rightarrow> bool" where
  "RollbackReleaseInputSchema i \<longleftrightarrow>
     idSchema ''org'' (k_organizationId i) \<and> idSchema ''rel'' (k_releaseId i) \<and> idSchema ''user'' (k_actorId i) \<and>
     opKeySchema (k_operationKey i) \<and> optionally (idSchema ''dep'') (k_toDeploymentId i) \<and> textOf 1 2000 (k_reason i)"

definition rollback :: "service_env \<Rightarrow> lifecycle_ports \<Rightarrow> rollback_input \<Rightarrow> string staged" where
  "rollback c env raw =
     (let i = raw\<lparr>k_reason := trim (k_reason raw)\<rparr> in
      if \<not> RollbackReleaseInputSchema raw then throwR (Refused Invalid_input)
      else
        bindR (releaseFor c (k_organizationId i) (k_releaseId i)) (\<lambda>r.
        bindR (callOut env (Rollback r i)) (\<lambda>reply.
        expectR Invalid_deployment_result (DeploymentResultSchema reply))))"

definition ForkReleaseInputSchema :: "fork_input \<Rightarrow> bool" where
  "ForkReleaseInputSchema i \<longleftrightarrow>
     idSchema ''org'' (g_organizationId i) \<and> idSchema ''rel'' (g_releaseId i) \<and> idSchema ''user'' (g_actorId i) \<and>
     opKeySchema (g_operationKey i)"

fun ForkReleaseResultSchema :: "lifecycle_reply \<Rightarrow> fork_result option" where
  "ForkReleaseResultSchema (Answer v) =
     (case strictObject [''releaseId'', ''branchId'', ''branchName'', ''fixRunId''] v of
        None \<Rightarrow> None
      | Some f \<Rightarrow>
          (case (asId ''rel'' (f ''releaseId''), asId ''br'' (f ''branchId''), asTrimmed 1 255 (f ''branchName''), asNullable (asId ''run'') (f ''fixRunId'')) of
             (Some r, Some b, Some n, Some x) \<Rightarrow> Some \<lparr>fr_releaseId = r, fr_branchId = b, fr_branchName = n, fr_fixRunId = x\<rparr>
           | _ \<Rightarrow> None))"
| "ForkReleaseResultSchema (Loaded _) = None"

definition forkRelease :: "service_env \<Rightarrow> lifecycle_ports \<Rightarrow> fork_input \<Rightarrow> fork_result staged" where
  "forkRelease c env i =
     (if \<not> ForkReleaseInputSchema i then throwR (Refused Invalid_input)
      else
        bindR (releaseFor c (g_organizationId i) (g_releaseId i)) (\<lambda>r.
        bindR (callOut env (Fork r i)) (\<lambda>reply.
        bindR (expectR Invalid_fork_result (ForkReleaseResultSchema reply)) (\<lambda>result.
        if fr_releaseId result \<noteq> z_id r \<or> fr_branchName result \<noteq> ''fix/rel-'' @ z_id r \<or>
           (fr_fixRunId result = None) = g_startFixRun i
        then throwR Fork_identity_mismatch else pureR result))))"

section \<open>What the calls leave behind\<close>

lemma onRecords_iff:
  "onRecords m (s, h) = (res, (s', h')) \<longleftrightarrow> h' = h \<and> (\<exists>q. m s = (q, s') \<and> res = map_sum Refused id q)"
  by (auto simp: onRecords_def split: prod.splits sum.splits)

lemma onRecords_Inr: "onRecords m (s, h) = (Inr x, (s', h')) \<longleftrightarrow> h' = h \<and> m s = (Inr x, s')"
  by (auto simp: onRecords_def split: prod.splits sum.splits)

lemma callOut_iff:
  "callOut env call (s, h) = (res, (s', h')) \<longleftrightarrow> s' = s \<and> h' = h @ [(call, env h call)] \<and>
     res = (case env h call of None \<Rightarrow> Inl Dependency_rejected | Some v \<Rightarrow> Inr v)"
  by (auto simp: callOut_def awaitR_def split: option.splits)

lemma raising_iff: "raising f v x = (res, y) \<longleftrightarrow> y = x \<and> res = map_sum f id v"
  by (cases v) (auto simp: raising_def)

lemma bindR_cases:
  assumes "bindR m f x = (res, y)"
  obtains (thrown) e where "m x = (Inl e, y)" "res = Inl e" | (returned) v z where "m x = (Inr v, z)" "f v z = (res, y)"
  using assms by (auto simp: bindR_def split: prod.splits sum.splits)

lemma releaseFor_iff:
  "releaseFor c org rel (s, h) = (Inr r, (s', h')) \<longleftrightarrow>
   h' = h \<and> idSchema ''org'' org \<and> idSchema ''rel'' rel \<and> getStored org rel (others c (turn s) (tables s)) = Inr (Some r) \<and>
   s' = s\<lparr>tables := others c (turn s) (tables s), turn := Suc (turn s)\<rparr>"
  by (auto simp: releaseFor_def bindR_Inr_iff getRelease_def onRecords_Inr inStore_Inr require_def)

lemma getStored_Some:
  "getStored org rel db = Inr (Some r) \<Longrightarrow> r \<in> set (releases db) \<and> z_organizationId r = org \<and> z_id r = rel"
  by (auto simp: getStored_def split: option.splits if_splits dest: find_SomeD)

lemma report_parse:
  "ReadinessReportSchema_parse rep = Inr rep' \<Longrightarrow>
   rp_releaseId rep' = rp_releaseId rep \<and> rp_commitSha rep' = rp_commitSha rep \<and> rp_state rep' = rp_state rep"
  by (auto simp: ReadinessReportSchema_parse_def Let_def split: if_splits)

text \<open>Beyond its first stage an evaluation only reads.\<close>

lemma evaluate_reads:
  assumes "evaluate c digest env r (s, h) = (res, (s', h'))" "z_status r \<noteq> Candidate"
  shows "s' = s \<and> h' = h @ [(Load_readiness r, env h (Load_readiness r))]"
  using assms unfolding evaluate_def
  by (auto simp: callOut_iff raising_iff elim!: bindR_cases split: option.splits if_splits)

lemma evaluate_report:
  assumes "evaluate c digest env r (s, h) = (Inr report, (s', h'))"
  obtains i where "env h (Load_readiness r) = Some (Loaded i)" "rp_releaseId report = ri_releaseId i" "rp_commitSha report = ri_commitSha i"
    "rp_state report \<noteq> State_blocked \<longleftrightarrow> cleared i" "rp_releaseId report = z_id r" "rp_commitSha report = z_commitSha r"
proof -
  obtain reply where reply: "env h (Load_readiness r) = Some reply"
    and parsed: "andThen (readinessOf reply) ReadinessReportSchema_parse = Inr report"
    and same: "rp_releaseId report = z_id r" "rp_commitSha report = z_commitSha r"
    using assms unfolding evaluate_def
    by (auto simp: callOut_iff raising_iff bindR_Inr_iff map_sum_def split: option.splits if_splits sum.splits)
  from parsed obtain raw where raw: "readinessOf reply = Inr raw" "ReadinessReportSchema_parse raw = Inr report"
    by (auto simp: andThen_Inr_iff)
  then obtain i where "reply = Loaded i" "evaluateReadiness i = Inr raw" by (cases reply) auto
  then show thesis using that reply evaluated [of i raw] report_parse [OF raw(2)] same by metis
qed

lemma recheck_Inr:
  assumes "recheck c digest env r (s, h) = (Inr u, (s', h'))" "z_status r \<noteq> Candidate"
  obtains i where "s' = s" "h' = h @ [(Load_readiness r, Some (Loaded i))]" "cleared i" "ri_releaseId i = z_id r" "ri_commitSha i = z_commitSha r"
proof -
  obtain report s1 h1 readiness where ev: "evaluate c digest env r (s, h) = (Inr report, (s1, h1))"
    and p: "ReadinessReportSchema_parse report = Inr readiness" and nb: "rp_state readiness \<noteq> State_blocked" and "s' = s1" "h' = h1"
    using assms(1) unfolding recheck_def
    by (auto simp: raising_iff bindR_Inr_iff map_sum_def split: if_splits sum.splits)
  then show thesis
    using evaluate_reads [OF ev assms(2)] evaluate_report [OF ev] report_parse [OF p] that by metis
qed

lemma reached_by:
  "replicas may c \<Longrightarrow> (release_step (hash c) may)\<^sup>*\<^sup>* empty_db db \<Longrightarrow> (release_step (hash c) may)\<^sup>*\<^sup>* empty_db (others c n db)"
  by (auto simp: replicas_def intro: rtranclp_trans)

lemma request_vouched: "vouched may (deploymentMove i) (Some (deploymentAudit i))"
  by (simp add: vouched_def deploymentMove_def deploymentAudit_def)

lemma settle_vouched: "vouched may (settleMove digest r st) None" "vouched may (verifyMove digest r) None"
  by (cases st; simp add: vouched_def settleMove_def verifyMove_def)+

text \<open>The release that reaches the deployment port, and why.\<close>

definition startedNow :: "(string \<Rightarrow> string \<Rightarrow> bool) \<Rightarrow> release_db \<Rightarrow> begin_input \<Rightarrow> lifecycle_entry list \<Rightarrow> release_record \<Rightarrow> bool" where
  "startedNow may db i new d \<longleftrightarrow>
     z_status d = Rel_deploying \<and> noted db d Act_deploy_requested (b_actorId i) \<and>
     (\<exists>r ri. (Load_readiness r, Some (Loaded ri)) \<in> set new \<and> identity r = identity d \<and> cleared ri \<and>
        ri_releaseId ri = z_id d \<and> ri_commitSha ri = z_commitSha d)"

lemma started_now:
  assumes "replicas may c" "(release_step (hash c) may)\<^sup>*\<^sup>* empty_db (tables s)" "r \<in> set (releases (tables s))" "z_id r = b_releaseId i"
    "z_status r = Rel_approved" "recheck c digest env r (s, h) = (Inr u, (s1, h1))" "beginDeployment c i s1 = (Inr d, s')"
    "unmistaken (hash c) (Fp_transition (deploymentMove i) (Some (deploymentAudit i)))"
  shows "\<exists>new. h1 = h @ new \<and> startedNow may (tables s') i new d \<and> (\<forall>d i' rep. (Deploy d i', rep) \<notin> set new)"
    "z_id d = b_releaseId i" "z_organizationId d = b_organizationId i" "attested may (tables s') d"
proof -
  obtain ri where ri: "s1 = s" "h1 = h @ [(Load_readiness r, Some (Loaded ri))]" "cleared ri" "ri_releaseId ri = z_id r" "ri_commitSha ri = z_commitSha r"
    by (rule recheck_Inr [OF assms(6)]) (simp_all add: assms(5))
  have tr: "transitionStatusWithAudit c (deploymentMove i) (Some (deploymentAudit i)) s = (Inr d, s')"
    using assms(7) unfolding ri(1) beginDeployment_def by (simp add: bindR_Inr_iff)
  note g = transition_genuine [OF assms(1,2) request_vouched tr assms(8)]
  show id: "z_id d = b_releaseId i" "z_organizationId d = b_organizationId i" using g(3,4) by (simp_all add: deploymentMove_def)
  show "attested may (tables s') d" by (fact g(7))
  have "became r (tables s')" using became_later [OF became_here [OF assms(3)] g(2)] .
  then have same: "identity r = identity d" using same_release [OF g(1) _ g(6)] id(1) assms(4) by simp
  have "startedNow may (tables s') i [(Load_readiness r, Some (Loaded ri))] d"
    unfolding startedNow_def using same ri g(5,8) identityD [OF same]
    by (auto simp: deploymentMove_def deploymentAudit_def)
  then show "\<exists>new. h1 = h @ new \<and> startedNow may (tables s') i new d \<and> (\<forall>d i' rep. (Deploy d i', rep) \<notin> set new)"
    using ri(2) by (intro exI [of _ "[(Load_readiness r, Some (Loaded ri))]"]) simp
qed

lemma releaseFor_calls: "releaseFor c org rel (s, h) = (res, (s', h')) \<Longrightarrow> h' = h"
  unfolding releaseFor_def by (auto simp: onRecords_iff expectR_def elim!: bindR_cases split: option.splits)

lemma recheck_calls:
  assumes "recheck c digest env r (s, h) = (res, (s', h'))" "z_status r \<noteq> Candidate"
  shows "h' = h @ [(Load_readiness r, env h (Load_readiness r))]"
  using assms(1) unfolding recheck_def
  by (auto simp: raising_iff elim!: bindR_cases split: if_splits dest!: evaluate_reads [OF _ assms(2)])

lemma deploy_calls:
  assumes "bindR (callOut env (Deploy d i)) (\<lambda>reply. expectR e (DeploymentResultSchema reply)) (s, h) = (res, (s', h'))"
  shows "s' = s" "\<exists>rep. h' = h @ [(Deploy d i, rep)]"
  using assms by (auto simp: callOut_iff expectR_def elim!: bindR_cases split: option.splits)

text \<open>What holds of a call of the deployment port.\<close>

definition deployable ::
    "(string \<Rightarrow> string \<Rightarrow> bool) \<Rightarrow> release_db \<Rightarrow> release_db \<Rightarrow> begin_input \<Rightarrow> lifecycle_entry list \<Rightarrow> release_record \<Rightarrow> bool" where
  "deployable may before db i new d \<longleftrightarrow>
     z_id d = b_releaseId i \<and> z_organizationId d = b_organizationId i \<and> attested may db d \<and>
     (startedNow may db i new d \<or> (z_status d \<in> {Rel_deploying, Rel_healthy} \<and> d \<in> set (releases before)))"

lemma startedNow_more: "startedNow may db i new d \<Longrightarrow> startedNow may db i (new @ es) d"
  by (auto simp: startedNow_def)

lemma launch_again:
  assumes "launch c digest env i r (s, h) = (res, (s', h'))" "z_status r \<noteq> Rel_approved"
  shows "s' = s" "\<exists>rep. h' = h @ [(Deploy r i, rep)]"
  using assms deploy_calls [of env r i Invalid_deployment_result s h res s' h'] by (simp_all add: launch_def)

lemma launch_first:
  assumes "replicas may c" "(release_step (hash c) may)\<^sup>*\<^sup>* empty_db (tables s)" "r \<in> set (releases (tables s))" "z_id r = b_releaseId i"
    "z_status r = Rel_approved" "launch c digest env i r (s, h) = (res, (s', h'))"
    "unmistaken (hash c) (Fp_transition (deploymentMove i) (Some (deploymentAudit i)))"
  shows "\<exists>new. h' = h @ new \<and> (\<forall>d i' rep. (Deploy d i', rep) \<in> set new \<longrightarrow> i' = i \<and> deployable may before (tables s') i new d)"
proof -
  have open': "z_status r \<noteq> Candidate" using assms(5) by simp
  have run: "bindR (recheck c digest env r) (\<lambda>_. bindR (onRecords (beginDeployment c i)) (\<lambda>deploying.
      bindR (callOut env (Deploy deploying i)) (\<lambda>reply. expectR Invalid_deployment_result (DeploymentResultSchema reply)))) (s, h) = (res, (s', h'))"
    using assms(5,6) by (simp add: launch_def)
  then show ?thesis
  proof (cases rule: bindR_cases)
    case (thrown e)
    then show ?thesis using recheck_calls [OF thrown(1) open'] by auto
  next
    case (returned u z)
    obtain s1 h1 where z: "z = (s1, h1)" by fastforce
    note first = returned(1) [unfolded z]
    from returned(2) [unfolded z] show ?thesis
    proof (cases rule: bindR_cases)
      case (thrown e)
      then show ?thesis using recheck_calls [OF first open'] by (auto simp: onRecords_iff)
    next
      case began: (returned d y)
      obtain s2 where y: "y = (s2, h1)" and bd: "beginDeployment c i s1 = (Inr d, s2)"
        using began(1) by (cases y) (auto simp: onRecords_Inr)
      from deploy_calls [OF began(2) [unfolded y]] obtain rep where d: "s' = s2" "h' = h1 @ [(Deploy d i, rep)]" by blast
      from started_now [OF assms(1-5) first bd assms(7)] obtain new where
        new: "h1 = h @ new" "startedNow may (tables s2) i new d" "\<forall>d i' rep. (Deploy d i', rep) \<notin> set new"
        and at: "z_id d = b_releaseId i" "z_organizationId d = b_organizationId i" "attested may (tables s2) d" by blast
      have "deployable may before (tables s') i (new @ [(Deploy d i, rep)]) d"
        using new(2) at d(1) startedNow_more by (simp add: deployable_def)
      then show ?thesis using d(2) new(1,3) by (intro exI [of _ "new @ [(Deploy d i, rep)]"]) auto
    qed
  qed
qed

text \<open>
  C28.  Nothing reaches the deployment port unguarded.  Whatever other replicas do meanwhile, a call
  of the port is for the release asked for; its approval by a member allowed to approve and a
  request for its deployment are on record; and either this very deployment was just requested by
  the caller after the readiness of that release at that commit had been evaluated on an input that
  clears it, or the release was already deploying or healthy when it was read.
\<close>

theorem deploy_guarded:
  assumes "replicas may c" "(release_step (hash c) may)\<^sup>*\<^sup>* empty_db (tables s)" "deploy c digest env i (s, h) = (res, (s', h'))"
    "unmistaken (hash c) (Fp_transition (deploymentMove i) (Some (deploymentAudit i)))"
  shows "\<exists>new. h' = h @ new \<and> (\<forall>d i' rep. (Deploy d i', rep) \<in> set new \<longrightarrow>
    i' = i \<and> deployable may (others c (turn s) (tables s)) (tables s') i new d)"
proof (cases "\<exists>r z. releaseFor c (b_organizationId i) (b_releaseId i) (s, h) = (Inr r, z) \<and>
    z_status r \<in> {Rel_approved, Rel_deploying, Rel_healthy} \<and> launch c digest env i r z = (res, (s', h'))")
  case False
  then have "h' = h"
    using assms(3) unfolding deploy_def by (auto elim!: bindR_cases dest: releaseFor_calls split: if_splits)
  then show ?thesis by simp
next
  case True
  let ?db = "others c (turn s) (tables s)"
  from True obtain r s1 h1 where rf: "releaseFor c (b_organizationId i) (b_releaseId i) (s, h) = (Inr r, (s1, h1))"
    and st: "z_status r \<in> {Rel_approved, Rel_deploying, Rel_healthy}" and run: "launch c digest env i r (s1, h1) = (res, (s', h'))"
    by auto
  have s1: "tables s1 = ?db" "h1 = h" and r: "r \<in> set (releases ?db)" "z_organizationId r = b_organizationId i" "z_id r = b_releaseId i"
    using rf unfolding releaseFor_iff by (auto dest: getStored_Some)
  have reach: "(release_step (hash c) may)\<^sup>*\<^sup>* empty_db (tables s1)" using reached_by [OF assms(1,2)] s1(1) by simp
  show ?thesis
  proof (cases "z_status r = Rel_approved")
    case True
    show ?thesis using launch_first [OF assms(1) reach r(1) [folded s1(1)] r(3) True run assms(4)] s1(2) by simp
  next
    case False
    have "attested may (tables s1) r" using reached_sound [OF reach] r(1) s1(1) by (simp add: sound_def)
    then show ?thesis using launch_again [OF run False] st False r s1(2) by (auto simp: deployable_def)
  qed
qed

lemma blocked_final: "(Rel_blocked, x) \<in> status_moves\<^sup>* \<Longrightarrow> x = Rel_blocked"
  by (erule converse_rtranclE) (auto simp: status_moves_iff)

lemma getReadiness_Inr:
  assumes "getReadiness c digest env org rel (s, h) = (Inr rep, (s', h'))" "getStored org rel (others c (turn s) (tables s)) = Inr (Some r)"
  obtains report where "evaluate c digest env r (s\<lparr>tables := others c (turn s) (tables s), turn := Suc (turn s)\<rparr>, h) = (Inr report, (s', h'))"
    "rp_state report = rp_state rep"
proof -
  obtain x z report where "releaseFor c org rel (s, h) = (Inr x, z)" "evaluate c digest env x z = (Inr report, (s', h'))"
      "ReadinessReportSchema_parse report = Inr rep"
    using assms(1) unfolding getReadiness_def
    by (auto simp: raising_iff bindR_Inr_iff map_sum_def split: if_splits sum.splits)
  then show thesis using that report_parse assms(2) by (cases z) (auto simp: releaseFor_iff)
qed

lemma evaluate_settles:
  assumes "evaluate c digest env r (s, h) = (Inr report, (s', h'))" "z_status r = Candidate"
  obtains v s1 x where "transitionStatus c (verifyMove digest r) s = (Inr v, s1)"
    "transitionStatus c (settleMove digest r (rp_state report)) s1 = (Inr x, s')"
    "h' = h @ [(Load_readiness r, env h (Load_readiness r))]"
  using assms unfolding evaluate_def
  by (auto simp: callOut_iff raising_iff bindR_Inr_iff onRecords_Inr split: option.splits if_splits)

text \<open>
  C29.  A returned readiness evaluation of a candidate is on record: the release that was read has
  moved on to the state of the report, or past it, with its identity unchanged; the report is
  blocked unless the loaded input clears the release; and a blocked release stays blocked whatever
  happens later, so that it can be neither approved nor deployed.
\<close>

theorem readiness_settles:
  assumes "replicas may c" "(release_step (hash c) may)\<^sup>*\<^sup>* empty_db (tables s)"
    "getReadiness c digest env org rel (s, h) = (Inr rep, (s', h'))"
    "getStored org rel (others c (turn s) (tables s)) = Inr (Some r)" "z_status r = Candidate"
    "unmistaken (hash c) (Fp_transition (settleMove digest r (rp_state rep)) None)"
    "(release_step (hash c) may)\<^sup>*\<^sup>* (tables s') db"
  shows "(\<exists>r' \<in> set (releases db). identity r' = identity r \<and> (settledStatus (rp_state rep), z_status r') \<in> status_moves\<^sup>* \<and>
      (rp_state rep = State_blocked \<longrightarrow> z_status r' = Rel_blocked)) \<and>
    (\<exists>ri. h' = h @ [(Load_readiness r, Some (Loaded ri))] \<and> (rp_state rep = State_blocked \<longleftrightarrow> \<not> cleared ri))"
proof -
  let ?s = "s\<lparr>tables := others c (turn s) (tables s), turn := Suc (turn s)\<rparr>"
  obtain report where ev: "evaluate c digest env r (?s, h) = (Inr report, (s', h'))" and st: "rp_state report = rp_state rep"
    by (rule getReadiness_Inr [OF assms(3,4)])
  obtain v s1 x where v: "transitionStatus c (verifyMove digest r) ?s = (Inr v, s1)"
    and x: "transitionStatus c (settleMove digest r (rp_state rep)) s1 = (Inr x, s')"
    and h': "h' = h @ [(Load_readiness r, env h (Load_readiness r))]"
    by (rule evaluate_settles [OF ev assms(5)]) (use st in simp)
  have "(release_step (hash c) may)\<^sup>*\<^sup>* empty_db (tables ?s)" using reached_by [OF assms(1,2)] by simp
  moreover have first: "(release_step (hash c) may)\<^sup>*\<^sup>* (tables ?s) (tables s1)"
    using keeps_transition [OF assms(1) settle_vouched(2)] v unfolding keeps_def transitionStatus_def by blast
  ultimately have reach: "(release_step (hash c) may)\<^sup>*\<^sup>* empty_db (tables s1)" by simp
  note g = transition_genuine [OF assms(1) reach settle_vouched(1) x [unfolded transitionStatus_def] assms(6)]
  note later = steps_sound [OF assms(7) g(1)]
  have sound_s: "sound (hash c) may (tables ?s)" using reached_sound \<open>(release_step (hash c) may)\<^sup>*\<^sup>* empty_db (tables ?s)\<close> by blast
  have "r \<in> set (releases (tables ?s))" using getStored_Some [OF assms(4)] by simp
  then have "became r (tables s')"
    using became_later [OF became_later [OF became_here]] steps_sound [OF first sound_s] g(2) by blast
  then have "identity x = identity r"
    using same_release [OF g(1) g(6)] g(4) by (simp add: settleMove_def)
  moreover obtain r' where "r' \<in> set (releases db)" "identity r' = identity x" "(z_status x, z_status r') \<in> status_moves\<^sup>*"
    using became_later [OF g(6)] later unfolding became_def by blast
  moreover have "z_status x = settledStatus (rp_state rep)" using g(5) by (simp add: settleMove_def)
  moreover obtain ri where "env h (Load_readiness r) = Some (Loaded ri)" "rp_state report \<noteq> State_blocked \<longleftrightarrow> cleared ri"
    by (rule evaluate_report [OF ev])
  ultimately show ?thesis using h' st blocked_final by force
qed

text \<open>
  An evaluation that was interrupted between its two transitions is not resumed: a release found
  verifying stays as it was read, whatever the new evaluation says.
\<close>

lemma interrupted_readiness_stalls:
  assumes "getReadiness c digest env org rel (s, h) = (res, (s', h'))" "getStored org rel (others c (turn s) (tables s)) = Inr (Some r)"
    "z_status r = Verifying"
  shows "tables s' = others c (turn s) (tables s)"
proof -
  have "z_organizationId r = org" "z_id r = rel" "ReleaseSchema r"
    using assms(2) by (auto simp: getStored_def split: option.splits if_splits dest: find_SomeD)
  then have ids: "idSchema ''org'' org" "idSchema ''rel'' rel" by (auto simp: ReleaseSchema_def)
  let ?s = "s\<lparr>tables := others c (turn s) (tables s), turn := Suc (turn s)\<rparr>"
  have "releaseFor c org rel (s, h) = (Inr r, (?s, h))" using ids assms(2) by (simp add: releaseFor_iff)
  then have "bindR (evaluate c digest env r) (\<lambda>raw. bindR (raising Unready (ReadinessReportSchema_parse raw)) (\<lambda>result.
      if rp_releaseId result \<noteq> z_id r \<or> rp_commitSha result \<noteq> z_commitSha r then throwR Readiness_identity_mismatch
      else pureR result)) (?s, h) = (res, (s', h'))"
    using assms(1) ids unfolding getReadiness_def by (simp add: bindR_def)
  then have "s' = ?s" using assms(3)
    by (auto simp: raising_iff elim!: bindR_cases split: if_splits dest!: evaluate_reads)
  then show ?thesis by simp
qed

section \<open>A release_record, from candidate to deployment\<close>

definition sample_begin :: begin_input where
  "sample_begin = \<lparr>b_organizationId = sampleId ''org'', b_releaseId = sampleId ''rel'', b_actorId = sampleId ''user'',
     b_operationKey = sampleKey CHR ''5'', b_deploymentType = First_deploy, b_dataDisposition = None\<rparr>"

definition sample_lifecycle :: lifecycle_ports where
  "sample_lifecycle h call = (case call of Load_readiness _ \<Rightarrow> Some (Loaded sample_readiness)
     | _ \<Rightarrow> Some (Answer (JObject [(''deploymentId'', JString (sampleId ''dep''))])))"

definition deploying_env :: service_env where
  "deploying_env = release_env (Fp_transition (deploymentMove sample_begin) (Some (deploymentAudit sample_begin)))"

definition approved_session :: session where
  "approved_session = runs deploying_env [Create first_candidate, Move (sample_move CHR ''2'' Verifying),
     Move (sample_move CHR ''3'' Rel_ready), Approve sample_approval] nobody_yet"

lemma sample_recheck:
  obtains rep where "evaluateReadiness sample_readiness = Inr rep" "ReadinessReportSchema_parse rep = Inr rep"
    "rp_releaseId rep = sampleId ''rel''" "rp_commitSha rep = replicate 40 CHR ''c''" "rp_state rep = State_warnings"
proof -
  obtain rep where rep: "evaluateReadiness sample_readiness = Inr rep"
    using evaluate_returns sample_readiness_valid by blast
  then have "ReadinessReportSchema_parse rep = Inr rep"
    by (auto simp: evaluateReadiness_def Let_def andThen_Inr_iff split: if_splits intro: report_stable)
  moreover have "rp_state rep = State_warnings"
    using evaluated(3,4) [OF rep] by (cases "rp_state rep") (auto simp: cleared_def spotless_def sample_readiness_def Let_def)
  ultimately show thesis using that [OF rep] evaluated(1,2) [OF rep] by (simp add: sample_readiness_def sampleId_def Let_def)
qed

lemmas lifecycle_simps = onRecords_def callOut_def raising_def releaseFor_def getRelease_def evaluate_def recheck_def launch_def
  deploy_def sample_lifecycle_def BeginDeploymentInputSchema_def sample_begin_def deploymentMove_def deploymentAudit_def
  beginDeployment_def strictObject_def asId_def

lemma sample_approved_reach: "(release_step (hash deploying_env) sample_may)\<^sup>*\<^sup>* empty_db (tables approved_session)"
proof -
  have "replicas sample_may deploying_env" unfolding deploying_env_def by (rule sample_replicas)
  moreover have "list_all internal [Create first_candidate, Move (sample_move CHR ''2'' Verifying), Move (sample_move CHR ''3'' Rel_ready), Approve sample_approval]"
    by (simp add: sample_move_def)
  ultimately have "(release_step (hash deploying_env) sample_may)\<^sup>*\<^sup>* (tables nobody_yet) (tables approved_session)"
    unfolding approved_session_def by (rule runs_reach)
  then show ?thesis by (simp add: nobody_yet_def)
qed

lemma sample_deployed:
  "\<exists>d s'. deploy deploying_env id sample_lifecycle sample_begin (approved_session, []) =
     (Inr (sampleId ''dep''), (s', [(Load_readiness (d\<lparr>z_status := Rel_approved\<rparr>), Some (Loaded sample_readiness)),
        (Deploy d sample_begin, sample_lifecycle [] (Deploy d sample_begin))])) \<and> z_status d = Rel_deploying"
proof -
  obtain rep where rep: "evaluateReadiness sample_readiness = Inr rep" "ReadinessReportSchema_parse rep = Inr rep"
    "rp_releaseId rep = sampleId ''rel''" "rp_commitSha rep = replicate 40 CHR ''c''" "rp_state rep = State_warnings"
    by (rule sample_recheck)
  show ?thesis
    by (rule exI [of _ "releaseOf first_candidate (sampleId ''rel'') 0\<lparr>z_status := Rel_deploying\<rparr>"])
      (simp add: deploying_env_def approved_session_def run_simps lifecycle_simps rep)
qed

theorem deploy_guarded_witness:
  "\<exists>d s' h'. deploy deploying_env id sample_lifecycle sample_begin (approved_session, []) = (Inr (sampleId ''dep''), (s', h')) \<and>
     z_status d = Rel_deploying \<and> (\<exists>rep. (Deploy d sample_begin, rep) \<in> set h') \<and> attested sample_may (tables s') d"
proof -
  from sample_deployed obtain d s' where run: "deploy deploying_env id sample_lifecycle sample_begin (approved_session, []) =
     (Inr (sampleId ''dep''), (s', [(Load_readiness (d\<lparr>z_status := Rel_approved\<rparr>), Some (Loaded sample_readiness)),
        (Deploy d sample_begin, sample_lifecycle [] (Deploy d sample_begin))]))" and d: "z_status d = Rel_deploying"
    by (elim exE conjE)
  have u: "unmistaken (hash deploying_env) (Fp_transition (deploymentMove sample_begin) (Some (deploymentAudit sample_begin)))"
    unfolding deploying_env_def by (rule sample_unmistaken)
  have r: "replicas sample_may deploying_env" unfolding deploying_env_def by (rule sample_replicas)
  from deploy_guarded [OF r sample_approved_reach run u] have "attested sample_may (tables s') d"
    by (auto simp: deployable_def)
  with run d show ?thesis by fastforce
qed

definition readiness_digest :: "string \<Rightarrow> string" where
  "readiness_digest x = replicate 64 (if x = sampleId ''rel'' @ '':readiness:verifying'' then CHR ''6'' else CHR ''7'')"

definition first_release :: release_record where
  "first_release = releaseOf first_candidate (sampleId ''rel'') 0"

definition settling_env :: service_env where
  "settling_env = release_env (Fp_transition (settleMove readiness_digest first_release State_warnings) None)"

definition created_session :: session where
  "created_session = runs settling_env [Create first_candidate] nobody_yet"

lemma sample_keys:
  "derivedOperationKey readiness_digest (sampleId ''rel'') ''readiness:verifying'' = sampleKey CHR ''6''"
  "derivedOperationKey readiness_digest (sampleId ''rel'') ''readiness:warnings'' = sampleKey CHR ''7''"
  by (simp_all add: derivedOperationKey_def readiness_digest_def sampleKey_def)

lemma sample_settled:
  "\<exists>rep s'. getReadiness settling_env readiness_digest sample_lifecycle (sampleId ''org'') (sampleId ''rel'') (created_session, []) =
     (Inr rep, (s', [(Load_readiness first_release, Some (Loaded sample_readiness))])) \<and> rp_state rep = State_warnings"
  "getStored (sampleId ''org'') (sampleId ''rel'') (others settling_env (turn created_session) (tables created_session)) = Inr (Some first_release)"
proof -
  obtain rep where rep: "evaluateReadiness sample_readiness = Inr rep" "ReadinessReportSchema_parse rep = Inr rep"
    "rp_releaseId rep = sampleId ''rel''" "rp_commitSha rep = replicate 40 CHR ''c''" "rp_state rep = State_warnings"
    by (rule sample_recheck)
  show "\<exists>rep s'. getReadiness settling_env readiness_digest sample_lifecycle (sampleId ''org'') (sampleId ''rel'') (created_session, []) =
     (Inr rep, (s', [(Load_readiness first_release, Some (Loaded sample_readiness))])) \<and> rp_state rep = State_warnings"
    by (rule exI [of _ rep])
      (simp add: settling_env_def created_session_def first_release_def getReadiness_def verifyMove_def settleMove_def run_simps lifecycle_simps
        rep sample_keys)
  show "getStored (sampleId ''org'') (sampleId ''rel'') (others settling_env (turn created_session) (tables created_session)) = Inr (Some first_release)"
    by (simp add: settling_env_def created_session_def first_release_def run_simps)
qed

theorem readiness_settles_witness:
  "\<exists>rep s' h'. getReadiness settling_env readiness_digest sample_lifecycle (sampleId ''org'') (sampleId ''rel'') (created_session, []) = (Inr rep, (s', h')) \<and>
     (\<exists>r' \<in> set (releases (tables s')). identity r' = identity first_release \<and> (Rel_warnings, z_status r') \<in> status_moves\<^sup>*)"
proof -
  from sample_settled(1) obtain rep s' where
    run: "getReadiness settling_env readiness_digest sample_lifecycle (sampleId ''org'') (sampleId ''rel'') (created_session, []) =
     (Inr rep, (s', [(Load_readiness first_release, Some (Loaded sample_readiness))]))" and st: "rp_state rep = State_warnings"
    by (elim exE conjE)
  have r: "replicas sample_may settling_env" unfolding settling_env_def by (rule sample_replicas)
  have reach: "(release_step (hash settling_env) sample_may)\<^sup>*\<^sup>* empty_db (tables created_session)"
    unfolding created_session_def using runs_reach [OF r, of "[Create first_candidate]" nobody_yet] by (simp add: nobody_yet_def)
  have u: "unmistaken (hash settling_env) (Fp_transition (settleMove readiness_digest first_release (rp_state rep)) None)"
    unfolding settling_env_def st by (rule sample_unmistaken)
  have c: "z_status first_release = Candidate" by (simp add: first_release_def releaseOf_def)
  from readiness_settles [OF r reach run sample_settled(2) c u rtranclp.rtrancl_refl] run st show ?thesis by auto
qed

end
