(* ===== verification/Rollback.thy ===== *)
theory Rollback
  imports Identifiers Ports
begin

text \<open>
  The rollback service (\<open>services/release-service/src/rollback/service.ts\<close>): a deployment is rolled
  back by restoring the configuration of the target, applying an approved compensating plan,
  switching the provider and verifying health, with recovery of the current deployment when a step
  fails.  The dependencies are ports; SHA-256 of the request (\<open>hash\<close>), the check of an https URL
  (\<open>https\<close>) and the fresh deployment identifier are parameters.
\<close>

section \<open>Data\<close>

record rollback_request =
  rq_organizationId :: string
  rq_projectId :: string
  rq_environmentId :: string
  rq_toDeploymentId :: "string option"
  rq_reason :: string
  rq_operationKey :: string

record deployment_snapshot =
  sn_deploymentId :: string
  sn_releaseId :: string
  sn_commitSha :: string
  sn_providerId :: string
  sn_providerDeploymentId :: string
  sn_environmentConfigVersion :: string
  sn_permanentUrl :: string

record compensating_plan =
  cm_planId :: string
  cm_approvalRecordId :: string
  cm_approved :: bool
  cm_evidenceArtifactId :: string

datatype reversibility = Reversible | Compensating | Unavailable

record rollback_context =
  rx_current :: deployment_snapshot
  rx_target :: deployment_snapshot
  rx_reversibility :: reversibility
  rx_compensatingPlan :: "compensating_plan option"

datatype database_state = Compatible_db | Requires_compensation | Incompatible_db

record rollback_result =
  rr_deploymentId :: string
  rr_rollbackOfDeploymentId :: string
  rr_releaseId :: string
  rr_commitSha :: string
  rr_environmentConfigVersion :: string
  rr_databaseState :: database_state
  rr_compensatingPlanApplied :: bool
  rr_healthEvidenceArtifactId :: string

record rollback_preview =
  pw_currentDeploymentId :: string
  pw_targetDeploymentId :: string
  pw_targetReleaseId :: string
  pw_targetCommitSha :: string
  pw_databaseState :: database_state
  pw_allowed :: bool
  pw_compensationApproved :: bool

datatype handle_state = Handle_queued | Handle_building | Handle_deploying | Handle_ready | Handle_failed | Handle_cancelled

record deployment_handle =
  hd_providerId :: string
  hd_providerDeploymentId :: string
  hd_state :: handle_state

record rollback_health =
  hh_healthy :: bool
  hh_evidenceArtifactId :: string
  hh_automaticRollbackAttempted :: bool

datatype rollback_failure =
    Compensating_plan_failure | Config_restore_failure | Provider_rollback_failure | Rollback_health_failure | Rollback_recovery_failure

fun failure_name :: "rollback_failure \<Rightarrow> string" where
  "failure_name Compensating_plan_failure = ''compensating_plan_failed''"
| "failure_name Config_restore_failure = ''environment_config_restore_failed''"
| "failure_name Provider_rollback_failure = ''provider_rollback_failed''"
| "failure_name Rollback_health_failure = ''rollback_health_failed''"
| "failure_name Rollback_recovery_failure = ''rollback_recovery_failed''"

datatype rollback_code =
    Compensating_plan_failed | Compensating_plan_required | Database_incompatible | Environment_config_restore_failed
  | Rollback_context_invalid | Rollback_health_failed | Rollback_not_found | Rollback_provider_failed
  | Rollback_recovery_failed | Rollback_store_failed

text \<open>What the service throws; \<open>Step_failed\<close> is any other error, which the steps catch.\<close>

datatype rollback_error = Rollback_service_error rollback_code "database_state option" | Step_failed

text \<open>The organization, project and environment of a call.\<close>

type_synonym tenant_scope = "string \<times> string \<times> string"

datatype rollback_call =
    Get_replay tenant_scope string string
  | Resolve_context tenant_scope "string option"
  | Create_rollback string tenant_scope string deployment_snapshot string
  | Restore_config string tenant_scope string string
  | Apply_compensation string tenant_scope string string string string
  | Provider_rollback string string string string string string
  | Verify_health string tenant_scope string string deployment_snapshot string
  | Mark_healthy string string string string string string
  | Mark_failed string string string rollback_failure "string option"
  | Complete_replay tenant_scope string string rollback_result

text \<open>Replies by their shape; what has none of the shapes the schemas know is \<open>Malformed\<close>.\<close>

datatype rollback_reply =
    Undefined_reply
  | Context_reply rollback_context
  | Result_reply rollback_result
  | Created_reply string
  | Version_reply string
  | Applied_reply string string string
  | Handle_reply deployment_handle
  | Health_reply rollback_health
  | Malformed

type_synonym rollback_entry = "(rollback_call, rollback_reply) entry"
type_synonym rollback_ports = "(rollback_call, rollback_reply) ports"
type_synonym 'a rolling = "(rollback_error, rollback_entry list, 'a) effect"

section \<open>Schemas\<close>

definition RollbackRequestSchema :: "rollback_request \<Rightarrow> bool" where
  "RollbackRequestSchema i \<longleftrightarrow>
     idSchema ''org'' (rq_organizationId i) \<and> idSchema ''proj'' (rq_projectId i) \<and> idSchema ''env'' (rq_environmentId i) \<and>
     (case rq_toDeploymentId i of None \<Rightarrow> True | Some d \<Rightarrow> idSchema ''dep'' d) \<and> textOf 1 2000 (rq_reason i) \<and>
     textOf 8 400 (rq_operationKey i)"

definition trimRollback :: "rollback_request \<Rightarrow> rollback_request" where
  "trimRollback i = i\<lparr>rq_reason := trim (rq_reason i), rq_operationKey := trim (rq_operationKey i)\<rparr>"

definition SnapshotSchema :: "(string \<Rightarrow> bool) \<Rightarrow> deployment_snapshot \<Rightarrow> bool" where
  "SnapshotSchema https s \<longleftrightarrow>
     idSchema ''dep'' (sn_deploymentId s) \<and> idSchema ''rel'' (sn_releaseId s) \<and> CommitShaSchema (sn_commitSha s) \<and>
     textOf 1 128 (sn_providerId s) \<and> textOf 1 2048 (sn_providerDeploymentId s) \<and>
     textOf 1 512 (sn_environmentConfigVersion s) \<and> https (sn_permanentUrl s)"

definition trimSnapshot :: "deployment_snapshot \<Rightarrow> deployment_snapshot" where
  "trimSnapshot s = s\<lparr>sn_providerId := trim (sn_providerId s), sn_providerDeploymentId := trim (sn_providerDeploymentId s),
     sn_environmentConfigVersion := trim (sn_environmentConfigVersion s)\<rparr>"

definition CompensatingPlanSchema :: "compensating_plan \<Rightarrow> bool" where
  "CompensatingPlanSchema p \<longleftrightarrow>
     textOf 1 256 (cm_planId p) \<and> textOf 1 256 (cm_approvalRecordId p) \<and> idSchema ''art'' (cm_evidenceArtifactId p)"

definition trimCompensation :: "compensating_plan \<Rightarrow> compensating_plan" where
  "trimCompensation p = p\<lparr>cm_planId := trim (cm_planId p), cm_approvalRecordId := trim (cm_approvalRecordId p)\<rparr>"

definition trimContext :: "rollback_context \<Rightarrow> rollback_context" where
  "trimContext x = x\<lparr>rx_current := trimSnapshot (rx_current x), rx_target := trimSnapshot (rx_target x),
     rx_compensatingPlan := map_option trimCompensation (rx_compensatingPlan x)\<rparr>"

text \<open>The refinement compares the trimmed values.\<close>

definition RollbackContextSchema :: "(string \<Rightarrow> bool) \<Rightarrow> rollback_context \<Rightarrow> bool" where
  "RollbackContextSchema https x \<longleftrightarrow>
     SnapshotSchema https (rx_current x) \<and> SnapshotSchema https (rx_target x) \<and>
     (case rx_compensatingPlan x of None \<Rightarrow> True | Some p \<Rightarrow> CompensatingPlanSchema p) \<and>
     sn_deploymentId (rx_current x) \<noteq> sn_deploymentId (rx_target x) \<and>
     trim (sn_providerId (rx_current x)) = trim (sn_providerId (rx_target x))"

definition RollbackResultSchema :: "rollback_result \<Rightarrow> bool" where
  "RollbackResultSchema r \<longleftrightarrow>
     idSchema ''dep'' (rr_deploymentId r) \<and> idSchema ''dep'' (rr_rollbackOfDeploymentId r) \<and> idSchema ''rel'' (rr_releaseId r) \<and>
     CommitShaSchema (rr_commitSha r) \<and> textOf 1 512 (rr_environmentConfigVersion r) \<and> rr_databaseState r \<noteq> Incompatible_db \<and>
     idSchema ''art'' (rr_healthEvidenceArtifactId r)"

definition trimResult :: "rollback_result \<Rightarrow> rollback_result" where
  "trimResult r = r\<lparr>rr_environmentConfigVersion := trim (rr_environmentConfigVersion r)\<rparr>"

definition keyOk :: "string \<Rightarrow> bool" where
  "keyOk = textOf 8 512"

definition scopeOk :: "tenant_scope \<Rightarrow> bool" where
  "scopeOk = (\<lambda>(org, proj, environment). idSchema ''org'' org \<and> idSchema ''proj'' proj \<and> idSchema ''env'' environment)"

definition is_fingerprint :: "string \<Rightarrow> bool" where
  "is_fingerprint s \<longleftrightarrow> length s = 64 \<and> list_all is_hex s"

text \<open>The schemas of the inputs of the calls.\<close>

fun rollbackCallOk :: "(string \<Rightarrow> bool) \<Rightarrow> rollback_call \<Rightarrow> bool" where
  "rollbackCallOk https (Get_replay s key fp) \<longleftrightarrow> scopeOk s \<and> textOf 8 400 key \<and> is_fingerprint fp"
| "rollbackCallOk https (Resolve_context s to) \<longleftrightarrow> True"
| "rollbackCallOk https (Create_rollback k s d t current) \<longleftrightarrow>
     keyOk k \<and> scopeOk s \<and> idSchema ''dep'' d \<and> idSchema ''rel'' (sn_releaseId t) \<and> CommitShaSchema (sn_commitSha t) \<and>
     textOf 1 128 (sn_providerId t) \<and> textOf 1 512 (sn_environmentConfigVersion t) \<and> idSchema ''dep'' current \<and>
     textOf 1 2048 (sn_providerDeploymentId t)"
| "rollbackCallOk https (Restore_config k s d version) \<longleftrightarrow> keyOk k \<and> scopeOk s \<and> idSchema ''dep'' d \<and> textOf 1 512 version"
| "rollbackCallOk https (Apply_compensation k s d plan approval evidence) \<longleftrightarrow>
     keyOk k \<and> scopeOk s \<and> idSchema ''dep'' d \<and> textOf 1 256 plan \<and> textOf 1 256 approval \<and> idSchema ''art'' evidence"
| "rollbackCallOk https (Provider_rollback k provider proj environment to reason) \<longleftrightarrow>
     keyOk k \<and> textOf 1 128 provider \<and> idSchema ''proj'' proj \<and> idSchema ''env'' environment \<and> textOf 1 2048 to \<and> textOf 1 2000 reason"
| "rollbackCallOk https (Verify_health k s d provider t current) \<longleftrightarrow>
     keyOk k \<and> scopeOk s \<and> idSchema ''rel'' (sn_releaseId t) \<and> idSchema ''dep'' d \<and> textOf 1 2048 provider \<and>
     idSchema ''dep'' current \<and> https (sn_permanentUrl t) \<and> CommitShaSchema (sn_commitSha t)"
| "rollbackCallOk https (Mark_healthy k org d provider url evidence) \<longleftrightarrow>
     keyOk k \<and> idSchema ''org'' org \<and> idSchema ''dep'' d \<and> textOf 1 2048 provider \<and> https url \<and> idSchema ''art'' evidence"
| "rollbackCallOk https (Mark_failed k org d reason evidence) \<longleftrightarrow>
     keyOk k \<and> idSchema ''org'' org \<and> idSchema ''dep'' d \<and> (case evidence of None \<Rightarrow> True | Some a \<Rightarrow> idSchema ''art'' a)"
| "rollbackCallOk https (Complete_replay s key fp r) \<longleftrightarrow>
     scopeOk s \<and> textOf 8 400 key \<and> is_fingerprint fp \<and> RollbackResultSchema r"

section \<open>The steps\<close>

abbreviation ask :: "(string \<Rightarrow> bool) \<Rightarrow> rollback_ports \<Rightarrow> rollback_call \<Rightarrow> rollback_reply rolling" where
  "ask https \<equiv> parsedCallR (rollbackCallOk https) Step_failed Step_failed"

abbreviation fails :: "rollback_code \<Rightarrow> database_state option \<Rightarrow> 'a rolling" where
  "fails code state \<equiv> throwR (Rollback_service_error code state)"

abbreviation guarding :: "bool \<Rightarrow> unit rolling" where
  "guarding b \<equiv> (if b then pureR () else throwR Step_failed)"

definition tenantOf :: "rollback_request \<Rightarrow> tenant_scope" where
  "tenantOf i = (rq_organizationId i, rq_projectId i, rq_environmentId i)"

definition rollbackKey :: "rollback_request \<Rightarrow> string \<Rightarrow> string" where
  "rollbackKey i sfx = trim (rq_operationKey i @ '':'' @ sfx)"

fun databaseState :: "reversibility \<Rightarrow> database_state" where
  "databaseState Reversible = Compatible_db"
| "databaseState Compensating = Requires_compensation"
| "databaseState Unavailable = Incompatible_db"

definition compensationApproved :: "rollback_context \<Rightarrow> bool" where
  "compensationApproved x \<longleftrightarrow> (case rx_compensatingPlan x of None \<Rightarrow> False | Some p \<Rightarrow> cm_approved p)"

definition assertDatabaseRollbackAllowed :: "rollback_context \<Rightarrow> database_state rolling" where
  "assertDatabaseRollbackAllowed x =
     (let state = databaseState (rx_reversibility x) in
      if state = Incompatible_db then fails Database_incompatible (Some state)
      else if state = Requires_compensation \<and> \<not> compensationApproved x then fails Compensating_plan_required (Some state)
      else pureR state)"

definition resolveContext :: "(string \<Rightarrow> bool) \<Rightarrow> rollback_ports \<Rightarrow> tenant_scope \<Rightarrow> string option \<Rightarrow> rollback_context rolling" where
  "resolveContext https env s to =
     bindR (catchR (ask https env (Resolve_context s to)) (\<lambda>_. fails Rollback_context_invalid None)) (\<lambda>value.
     case value of
       Undefined_reply \<Rightarrow> fails Rollback_not_found None
     | Context_reply x \<Rightarrow>
         if RollbackContextSchema https x \<and> (to = None \<or> to = Some (sn_deploymentId (rx_target x))) then pureR (trimContext x)
         else fails Rollback_context_invalid None
     | _ \<Rightarrow> fails Rollback_context_invalid None)"

definition markFailed :: "(string \<Rightarrow> bool) \<Rightarrow> rollback_ports \<Rightarrow> rollback_request \<Rightarrow> string \<Rightarrow> rollback_failure \<Rightarrow> string option \<Rightarrow> unit rolling" where
  "markFailed https env i d reason evidence =
     catchR (bindR (ask https env (Mark_failed (rollbackKey i (''deployment:failed:'' @ failure_name reason)) (rq_organizationId i) d reason evidence))
       (\<lambda>_. pureR ())) (\<lambda>_. fails Rollback_store_failed None)"

definition restoreConfig :: "(string \<Rightarrow> bool) \<Rightarrow> rollback_ports \<Rightarrow> rollback_request \<Rightarrow> string \<Rightarrow> string \<Rightarrow> string \<Rightarrow> unit rolling" where
  "restoreConfig https env i d version sfx =
     bindR (ask https env (Restore_config (rollbackKey i sfx) (tenantOf i) d version)) (\<lambda>reply.
     case reply of
       Version_reply v \<Rightarrow> guarding (textOf 1 512 v \<and> trim v = version)
     | _ \<Rightarrow> throwR Step_failed)"

definition switchProvider :: "(string \<Rightarrow> bool) \<Rightarrow> rollback_ports \<Rightarrow> rollback_request \<Rightarrow> deployment_snapshot \<Rightarrow> string \<Rightarrow> deployment_handle rolling" where
  "switchProvider https env i s sfx =
     bindR (ask https env (Provider_rollback (rollbackKey i sfx) (sn_providerId s) (rq_projectId i) (rq_environmentId i)
       (sn_providerDeploymentId s) (rq_reason i))) (\<lambda>reply.
     case reply of
       Handle_reply handle \<Rightarrow>
         bindR (guarding (hd_providerId handle \<noteq> '''' \<and> hd_providerDeploymentId handle \<noteq> '''' \<and>
           hd_providerId handle = sn_providerId s \<and> hd_state handle = Handle_ready)) (\<lambda>_. pureR handle)
     | _ \<Rightarrow> throwR Step_failed)"

definition failRollback ::
    "(string \<Rightarrow> bool) \<Rightarrow> rollback_ports \<Rightarrow> rollback_request \<Rightarrow> string \<Rightarrow> rollback_failure \<Rightarrow> string option \<Rightarrow> rollback_code \<Rightarrow> database_state \<Rightarrow> 'a rolling" where
  "failRollback https env i d reason evidence code state =
     bindR (markFailed https env i d reason evidence) (\<lambda>_. fails code (Some state))"

section \<open>The rollback\<close>

definition createDeployment :: "(string \<Rightarrow> bool) \<Rightarrow> rollback_ports \<Rightarrow> rollback_request \<Rightarrow> rollback_context \<Rightarrow> database_state \<Rightarrow> string \<Rightarrow> string rolling" where
  "createDeployment https env i x state newDep =
     catchR
       (bindR (ask https env (Create_rollback (rollbackKey i ''deployment:create'') (tenantOf i) newDep (rx_target x) (sn_deploymentId (rx_current x))))
         (\<lambda>reply. case reply of Created_reply d \<Rightarrow> bindR (guarding (idSchema ''dep'' d)) (\<lambda>_. pureR d) | _ \<Rightarrow> throwR Step_failed))
       (\<lambda>_. fails Rollback_store_failed (Some state))"

definition restoreTarget :: "(string \<Rightarrow> bool) \<Rightarrow> rollback_ports \<Rightarrow> rollback_request \<Rightarrow> rollback_context \<Rightarrow> database_state \<Rightarrow> string \<Rightarrow> unit rolling" where
  "restoreTarget https env i x state d =
     catchR (restoreConfig https env i d (sn_environmentConfigVersion (rx_target x)) ''environment_config:target'')
       (\<lambda>_. failRollback https env i d Config_restore_failure None Environment_config_restore_failed state)"

text \<open>Back to the current configuration after a failed step; then the failure is recorded.\<close>

definition backToConfig ::
    "(string \<Rightarrow> bool) \<Rightarrow> rollback_ports \<Rightarrow> rollback_request \<Rightarrow> rollback_context \<Rightarrow> database_state \<Rightarrow> string \<Rightarrow> string \<Rightarrow> rollback_failure \<Rightarrow>
     rollback_code \<Rightarrow> 'a rolling" where
  "backToConfig https env i x state d sfx reason code =
     bindR (catchR (restoreConfig https env i d (sn_environmentConfigVersion (rx_current x)) sfx)
       (\<lambda>_. failRollback https env i d Rollback_recovery_failure None Rollback_recovery_failed state)) (\<lambda>_.
     failRollback https env i d reason None code state)"

definition applyCompensation :: "(string \<Rightarrow> bool) \<Rightarrow> rollback_ports \<Rightarrow> rollback_request \<Rightarrow> string \<Rightarrow> compensating_plan \<Rightarrow> bool rolling" where
  "applyCompensation https env i d p =
     bindR (ask https env (Apply_compensation (rollbackKey i ''database:compensate'') (tenantOf i) d (cm_planId p) (cm_approvalRecordId p)
       (cm_evidenceArtifactId p))) (\<lambda>reply.
     case reply of
       Applied_reply plan approval evidence \<Rightarrow>
         bindR (guarding (textOf 1 256 plan \<and> textOf 1 256 approval \<and> idSchema ''art'' evidence \<and> trim plan = cm_planId p \<and>
           trim approval = cm_approvalRecordId p \<and> evidence = cm_evidenceArtifactId p)) (\<lambda>_. pureR True)
     | _ \<Rightarrow> throwR Step_failed)"

definition compensate :: "(string \<Rightarrow> bool) \<Rightarrow> rollback_ports \<Rightarrow> rollback_request \<Rightarrow> rollback_context \<Rightarrow> database_state \<Rightarrow> string \<Rightarrow> bool rolling" where
  "compensate https env i x state d =
     (case rx_compensatingPlan x of
        Some p \<Rightarrow>
          if state = Requires_compensation then
            catchR (applyCompensation https env i d p)
              (\<lambda>_. backToConfig https env i x state d ''environment_config:recover_after_compensation_failure''
                 Compensating_plan_failure Compensating_plan_failed)
          else pureR False
      | None \<Rightarrow> pureR False)"

definition switchTarget :: "(string \<Rightarrow> bool) \<Rightarrow> rollback_ports \<Rightarrow> rollback_request \<Rightarrow> rollback_context \<Rightarrow> database_state \<Rightarrow> string \<Rightarrow> deployment_handle rolling" where
  "switchTarget https env i x state d =
     catchR (switchProvider https env i (rx_target x) ''provider:target'')
       (\<lambda>_. backToConfig https env i x state d ''environment_config:recover_after_provider_failure''
          Provider_rollback_failure Rollback_provider_failed)"

definition recoverCurrent :: "(string \<Rightarrow> bool) \<Rightarrow> rollback_ports \<Rightarrow> rollback_request \<Rightarrow> rollback_context \<Rightarrow> string \<Rightarrow> unit rolling" where
  "recoverCurrent https env i x d =
     bindR (switchProvider https env i (rx_current x) ''provider:recover_current'') (\<lambda>_.
     restoreConfig https env i d (sn_environmentConfigVersion (rx_current x)) ''environment_config:recover_current'')"

definition healthFailed ::
    "(string \<Rightarrow> bool) \<Rightarrow> rollback_ports \<Rightarrow> rollback_request \<Rightarrow> rollback_context \<Rightarrow> database_state \<Rightarrow> string \<Rightarrow> string option \<Rightarrow> 'a rolling" where
  "healthFailed https env i x state d evidence =
     bindR (catchR (recoverCurrent https env i x d)
       (\<lambda>_. failRollback https env i d Rollback_recovery_failure evidence Rollback_recovery_failed state)) (\<lambda>_.
     failRollback https env i d Rollback_health_failure evidence Rollback_health_failed state)"

definition askHealth :: "(string \<Rightarrow> bool) \<Rightarrow> rollback_ports \<Rightarrow> rollback_request \<Rightarrow> rollback_context \<Rightarrow> string \<Rightarrow> deployment_handle \<Rightarrow> rollback_health rolling" where
  "askHealth https env i x d handle =
     bindR (ask https env (Verify_health (rollbackKey i ''health:verify'') (tenantOf i) d (trim (hd_providerDeploymentId handle)) (rx_target x)
       (sn_deploymentId (rx_current x)))) (\<lambda>reply.
     case reply of
       Health_reply health \<Rightarrow>
         bindR (guarding (idSchema ''art'' (hh_evidenceArtifactId health) \<and> \<not> hh_automaticRollbackAttempted health)) (\<lambda>_. pureR health)
     | _ \<Rightarrow> throwR Step_failed)"

definition verifyHealth ::
    "(string \<Rightarrow> bool) \<Rightarrow> rollback_ports \<Rightarrow> rollback_request \<Rightarrow> rollback_context \<Rightarrow> database_state \<Rightarrow> string \<Rightarrow> deployment_handle \<Rightarrow> rollback_health rolling" where
  "verifyHealth https env i x state d handle =
     bindR (catchR (askHealth https env i x d handle) (\<lambda>_. healthFailed https env i x state d None)) (\<lambda>health.
     if \<not> hh_healthy health then healthFailed https env i x state d (Some (hh_evidenceArtifactId health)) else pureR health)"

definition stored :: "(string \<Rightarrow> bool) \<Rightarrow> rollback_ports \<Rightarrow> database_state \<Rightarrow> rollback_call \<Rightarrow> unit rolling" where
  "stored https env state call =
     catchR (bindR (ask https env call) (\<lambda>_. pureR ())) (\<lambda>_. fails Rollback_store_failed (Some state))"

definition resultOf :: "rollback_context \<Rightarrow> database_state \<Rightarrow> string \<Rightarrow> bool \<Rightarrow> rollback_health \<Rightarrow> rollback_result" where
  "resultOf x state d applied health =
     \<lparr>rr_deploymentId = d, rr_rollbackOfDeploymentId = sn_deploymentId (rx_current x), rr_releaseId = sn_releaseId (rx_target x),
      rr_commitSha = sn_commitSha (rx_target x), rr_environmentConfigVersion = sn_environmentConfigVersion (rx_target x),
      rr_databaseState = state, rr_compensatingPlanApplied = applied, rr_healthEvidenceArtifactId = hh_evidenceArtifactId health\<rparr>"

definition finish ::
    "(string \<Rightarrow> bool) \<Rightarrow> rollback_ports \<Rightarrow> rollback_request \<Rightarrow> string \<Rightarrow> rollback_context \<Rightarrow> database_state \<Rightarrow> string \<Rightarrow> bool \<Rightarrow>
     deployment_handle \<Rightarrow> rollback_health \<Rightarrow> rollback_result rolling" where
  "finish https env i fp x state d applied handle health =
     bindR (stored https env state (Mark_healthy (rollbackKey i ''deployment:healthy'') (rq_organizationId i) d (trim (hd_providerDeploymentId handle))
       (sn_permanentUrl (rx_target x)) (hh_evidenceArtifactId health))) (\<lambda>_.
     let result = resultOf x state d applied health in
     bindR (guarding (RollbackResultSchema result)) (\<lambda>_.
     bindR (stored https env state (Complete_replay (tenantOf i) (rq_operationKey i) fp result)) (\<lambda>_.
     pureR result)))"

definition carryOut ::
    "(string \<Rightarrow> bool) \<Rightarrow> rollback_ports \<Rightarrow> rollback_request \<Rightarrow> string \<Rightarrow> rollback_context \<Rightarrow> database_state \<Rightarrow> string \<Rightarrow> rollback_result rolling" where
  "carryOut https env i fp x state d =
     bindR (restoreTarget https env i x state d) (\<lambda>_.
     bindR (compensate https env i x state d) (\<lambda>applied.
     bindR (switchTarget https env i x state d) (\<lambda>handle.
     bindR (verifyHealth https env i x state d handle) (\<lambda>health.
     finish https env i fp x state d applied handle health))))"

definition replayed :: "(string \<Rightarrow> bool) \<Rightarrow> rollback_ports \<Rightarrow> rollback_request \<Rightarrow> string \<Rightarrow> rollback_result option rolling" where
  "replayed https env i fp =
     catchR (bindR (ask https env (Get_replay (tenantOf i) (rq_operationKey i) fp)) (\<lambda>reply.
       case reply of
         Undefined_reply \<Rightarrow> pureR None
       | Result_reply r \<Rightarrow> bindR (guarding (RollbackResultSchema r)) (\<lambda>_. pureR (Some (trimResult r)))
       | _ \<Rightarrow> throwR Step_failed)) (\<lambda>_. fails Rollback_store_failed None)"

definition performRollback ::
    "(string \<Rightarrow> bool) \<Rightarrow> (rollback_request \<Rightarrow> string) \<Rightarrow> rollback_ports \<Rightarrow> string \<Rightarrow> rollback_request \<Rightarrow> rollback_result rolling" where
  "performRollback https hash env newDep raw =
     (let i = trimRollback raw; fp = hash i in
      bindR (guarding (RollbackRequestSchema raw \<and> is_fingerprint fp)) (\<lambda>_.
      bindR (replayed https env i fp) (\<lambda>replay.
      case replay of
        Some r \<Rightarrow> pureR r
      | None \<Rightarrow>
          bindR (resolveContext https env (tenantOf i) (rq_toDeploymentId i)) (\<lambda>x.
          bindR (assertDatabaseRollbackAllowed x) (\<lambda>state.
          bindR (guarding (idSchema ''dep'' newDep)) (\<lambda>_.
          bindR (createDeployment https env i x state newDep) (\<lambda>d.
          carryOut https env i fp x state d)))))))"

text \<open>What the preview shows; the caller has given no operation key and no reason.\<close>

definition preview :: "(string \<Rightarrow> bool) \<Rightarrow> rollback_ports \<Rightarrow> tenant_scope \<Rightarrow> string option \<Rightarrow> rollback_preview rolling" where
  "preview https env s to =
     bindR (guarding (scopeOk s \<and> (case to of None \<Rightarrow> True | Some d \<Rightarrow> idSchema ''dep'' d))) (\<lambda>_.
     bindR (resolveContext https env s to) (\<lambda>x.
     let state = databaseState (rx_reversibility x) in
     pureR \<lparr>pw_currentDeploymentId = sn_deploymentId (rx_current x), pw_targetDeploymentId = sn_deploymentId (rx_target x),
       pw_targetReleaseId = sn_releaseId (rx_target x), pw_targetCommitSha = sn_commitSha (rx_target x), pw_databaseState = state,
       pw_allowed = (state = Compatible_db \<or> state = Requires_compensation \<and> compensationApproved x),
       pw_compensationApproved = compensationApproved x\<rparr>))"

section \<open>What a history has established\<close>

text \<open>
  The abstract view of a rollback: the configuration version and the live provider deployment of
  the environment, whether its database has been compensated, and the evidence of the latest healthy
  verdict.  A call that asks for a change establishes it when the reply confirms it, and leaves it
  open (\<open>None\<close>) otherwise.
\<close>

record standing =
  st_config :: "string option"
  st_live :: "string option"
  st_compensated :: "bool option"
  st_verified :: "string option"

fun confirmsChange :: "rollback_call \<Rightarrow> rollback_reply option \<Rightarrow> bool" where
  "confirmsChange (Restore_config k s d version) (Some (Version_reply v)) \<longleftrightarrow> textOf 1 512 v \<and> trim v = version"
| "confirmsChange (Provider_rollback k provider proj environment to reason) (Some (Handle_reply handle)) \<longleftrightarrow>
     hd_providerId handle = provider \<and> hd_state handle = Handle_ready \<and> hd_providerId handle \<noteq> '''' \<and> hd_providerDeploymentId handle \<noteq> ''''"
| "confirmsChange (Apply_compensation k s d plan approval evidence) (Some (Applied_reply plan' approval' evidence')) \<longleftrightarrow>
     textOf 1 256 plan' \<and> textOf 1 256 approval' \<and> idSchema ''art'' evidence' \<and> trim plan' = plan \<and>
     trim approval' = approval \<and> evidence' = evidence"
| "confirmsChange (Verify_health k s d provider t current) (Some (Health_reply health)) \<longleftrightarrow>
     idSchema ''art'' (hh_evidenceArtifactId health) \<and> \<not> hh_automaticRollbackAttempted health \<and> hh_healthy health"
| "confirmsChange c r \<longleftrightarrow> False"

fun verdictOf :: "rollback_reply option \<Rightarrow> string option" where
  "verdictOf (Some (Health_reply health)) = Some (hh_evidenceArtifactId health)"
| "verdictOf _ = None"

definition observe :: "standing \<Rightarrow> rollback_entry \<Rightarrow> standing" where
  "observe s = (\<lambda>(c, r).
     case c of
       Restore_config k sc d version \<Rightarrow> s\<lparr>st_config := if confirmsChange c r then Some version else None\<rparr>
     | Provider_rollback k provider proj environment to reason \<Rightarrow> s\<lparr>st_live := if confirmsChange c r then Some to else None\<rparr>
     | Apply_compensation k sc d plan approval evidence \<Rightarrow> s\<lparr>st_compensated := if confirmsChange c r then Some True else None\<rparr>
     | Verify_health k sc d provider t current \<Rightarrow> s\<lparr>st_verified := if confirmsChange c r then verdictOf r else None\<rparr>
     | _ \<Rightarrow> s)"

definition stands :: "standing \<Rightarrow> rollback_entry list \<Rightarrow> standing" where
  "stands = foldl observe"

definition serving :: "deployment_snapshot \<Rightarrow> bool \<Rightarrow> standing" where
  "serving s compensated =
     \<lparr>st_config = Some (sn_environmentConfigVersion s), st_live = Some (sn_providerDeploymentId s), st_compensated = Some compensated,
      st_verified = None\<rparr>"

definition readsOnly :: "rollback_call \<Rightarrow> bool" where
  "readsOnly c \<longleftrightarrow> (case c of Get_replay s key fp \<Rightarrow> True | Resolve_context s to \<Rightarrow> True | _ \<Rightarrow> False)"

text \<open>A compensating plan is applied only as the evidence of the release has it, approved.\<close>

definition authorised :: "rollback_context \<Rightarrow> rollback_entry list \<Rightarrow> bool" where
  "authorised x = list_all (\<lambda>(c, r).
     case c of
       Apply_compensation k s d plan approval evidence \<Rightarrow>
         rx_reversibility x = Compensating \<and>
         (case rx_compensatingPlan x of
            None \<Rightarrow> False
          | Some p \<Rightarrow> cm_approved p \<and> plan = cm_planId p \<and> approval = cm_approvalRecordId p \<and> evidence = cm_evidenceArtifactId p)
     | _ \<Rightarrow> True)"

definition recorded :: "string \<Rightarrow> string \<Rightarrow> rollback_failure \<Rightarrow> rollback_entry list \<Rightarrow> bool" where
  "recorded org d reason t \<longleftrightarrow> (\<exists>u k ev v. t = u @ [(Mark_failed k org d reason ev, Some v)])"

text \<open>The failure each error records, and where it leaves the environment.\<close>

fun failureOf :: "rollback_code \<Rightarrow> rollback_failure option" where
  "failureOf Environment_config_restore_failed = Some Config_restore_failure"
| "failureOf Compensating_plan_failed = Some Compensating_plan_failure"
| "failureOf Rollback_provider_failed = Some Provider_rollback_failure"
| "failureOf Rollback_health_failed = Some Rollback_health_failure"
| "failureOf Rollback_recovery_failed = Some Rollback_recovery_failure"
| "failureOf _ = None"

abbreviation needsCompensation :: "rollback_context \<Rightarrow> bool" where
  "needsCompensation x \<equiv> rx_reversibility x = Compensating"

fun leavesAt :: "rollback_context \<Rightarrow> rollback_code \<Rightarrow> standing \<Rightarrow> bool" where
  "leavesAt x Environment_config_restore_failed s \<longleftrightarrow> s = (serving (rx_current x) False)\<lparr>st_config := None\<rparr>"
| "leavesAt x Compensating_plan_failed s \<longleftrightarrow> s = (serving (rx_current x) False)\<lparr>st_compensated := None\<rparr>"
| "leavesAt x Rollback_provider_failed s \<longleftrightarrow> s = (serving (rx_current x) (needsCompensation x))\<lparr>st_live := None\<rparr>"
| "leavesAt x Rollback_health_failed s \<longleftrightarrow> s = serving (rx_current x) (needsCompensation x)"
| "leavesAt x Rollback_recovery_failed s \<longleftrightarrow> st_verified s = None \<and> (st_config s = None \<or> st_live s = None)"
| "leavesAt x _ s \<longleftrightarrow> False"

text \<open>The target in place, with the evidence of its health.\<close>

definition switchedTo :: "rollback_context \<Rightarrow> string \<Rightarrow> standing" where
  "switchedTo x evidence = (serving (rx_target x) (needsCompensation x))\<lparr>st_verified := Some evidence\<rparr>"

text \<open>
  How the store fails after the deployment \<open>d\<close> was created: the last call is the rejected one.  A
  failure that could not be recorded has left the environment where its code says; a deployment
  that could not be recorded as healthy, or was and whose result could not be kept, has the target
  in place and found healthy.
\<close>

definition unrecorded :: "rollback_request \<Rightarrow> rollback_context \<Rightarrow> string \<Rightarrow> standing \<Rightarrow> rollback_entry list \<Rightarrow> bool" where
  "unrecorded i x d s t \<longleftrightarrow>
     (\<exists>u k reason ev code. t = u @ [(Mark_failed k (rq_organizationId i) d reason ev, None)] \<and> failureOf code = Some reason \<and>
        leavesAt x code (stands s u)) \<or>
     (\<exists>u k provider url ev. t = u @ [(Mark_healthy k (rq_organizationId i) d provider url ev, None)] \<and> stands s u = switchedTo x ev) \<or>
     (\<exists>u k provider url v key fp r. t = u @ [(Mark_healthy k (rq_organizationId i) d provider url (rr_healthEvidenceArtifactId r), Some v),
        (Complete_replay (tenantOf i) key fp r, None)] \<and> rr_deploymentId r = d \<and> stands s u = switchedTo x (rr_healthEvidenceArtifactId r))"

lemma stands_Nil [simp]: "stands s [] = s"
  by (simp add: stands_def)

lemma stands_append [simp]: "stands s (t @ u) = stands (stands s t) u"
  by (simp add: stands_def)

lemma stands_Cons [simp]: "stands s (e # t) = stands (observe s e) t"
  by (simp add: stands_def)

lemma authorised_append [simp]: "authorised x (t @ u) \<longleftrightarrow> authorised x t \<and> authorised x u"
  by (auto simp: authorised_def)

lemma authorised_Nil [simp]: "authorised x []"
  by (simp add: authorised_def)

lemma recorded_append: "recorded org d reason u \<Longrightarrow> recorded org d reason (t @ u)"
  unfolding recorded_def by (metis append.assoc)

lemma recorded_last [simp]: "recorded org d reason [(Mark_failed k org d reason ev, Some v)]"
  by (simp add: recorded_def)

section \<open>The calls are well formed\<close>

text \<open>A request and a context that have passed their schemas, and a deployment identifier.\<close>

definition validContext :: "(string \<Rightarrow> bool) \<Rightarrow> rollback_context \<Rightarrow> bool" where
  "validContext https x \<longleftrightarrow> RollbackContextSchema https x \<and> trimContext x = x"

lemma trimContext_valid: "RollbackContextSchema https x \<Longrightarrow> validContext https (trimContext x)"
  by (auto simp: validContext_def RollbackContextSchema_def SnapshotSchema_def CompensatingPlanSchema_def trimContext_def
      trimSnapshot_def trimCompensation_def option.map_comp comp_def split: option.splits)

lemma RollbackRequestSchema_trim: "RollbackRequestSchema (trimRollback i) \<longleftrightarrow> RollbackRequestSchema i"
  by (simp add: RollbackRequestSchema_def trimRollback_def)

definition sound :: "(string \<Rightarrow> bool) \<Rightarrow> rollback_request \<Rightarrow> rollback_context \<Rightarrow> string \<Rightarrow> bool" where
  "sound https i x d \<longleftrightarrow> RollbackRequestSchema i \<and> trimRollback i = i \<and> validContext https x \<and> idSchema ''dep'' d"

definition suffixOk :: "string \<Rightarrow> bool" where
  "suffixOk sfx \<longleftrightarrow> sfx \<noteq> [] \<and> \<not> is_space (last sfx) \<and> length sfx \<le> 111"

lemma suffixes_ok [simp]:
  "suffixOk ''environment_config:target''" "suffixOk ''environment_config:recover_after_compensation_failure''"
  "suffixOk ''environment_config:recover_after_provider_failure''" "suffixOk ''environment_config:recover_current''"
  "suffixOk ''provider:target''" "suffixOk ''provider:recover_current''" "suffixOk ''database:compensate''"
  "suffixOk ''deployment:create''" "suffixOk ''deployment:healthy''"
  by (simp_all add: suffixOk_def is_space_def)

lemma failure_suffix_ok [simp]: "suffixOk (''deployment:failed:'' @ failure_name reason)"
  by (cases reason) (simp_all add: suffixOk_def is_space_def)

lemma rollbackKey_ok:
  assumes "sound https i x d" and "suffixOk sfx"
  shows "keyOk (rollbackKey i sfx)"
proof -
  let ?key = "rq_operationKey i" and ?s = "rq_operationKey i @ '':'' @ sfx"
  from assms(1) have "trim ?key = ?key" by (auto simp: sound_def trimRollback_def dest: arg_cong [where f = rq_operationKey])
  moreover from this assms(1) have "8 \<le> length ?key" "length ?key \<le> 400"
    by (auto simp: sound_def RollbackRequestSchema_def textOf_def sized_def)
  moreover from calculation have "\<not> is_space (hd ?key)" using hd_trim [of ?key] by fastforce
  ultimately have "trim ?s = ?s" using assms(2) by (intro trim_ends) (auto simp: suffixOk_def hd_append)
  with \<open>8 \<le> length ?key\<close> \<open>length ?key \<le> 400\<close> assms(2) show ?thesis
    by (simp add: keyOk_def rollbackKey_def textOf_def sized_def suffixOk_def)
qed

lemma sound_scope: "sound https i x d \<Longrightarrow> scopeOk (tenantOf i)"
  by (simp add: sound_def RollbackRequestSchema_def scopeOk_def tenantOf_def)

lemmas sound_facts = sound_def RollbackRequestSchema_def validContext_def RollbackContextSchema_def SnapshotSchema_def CompensatingPlanSchema_def

lemma restore_ok:
  assumes "sound https i x d" and "suffixOk sfx" and "c \<in> {rx_current x, rx_target x}"
  shows "rollbackCallOk https (Restore_config (rollbackKey i sfx) (tenantOf i) d (sn_environmentConfigVersion c))"
  using assms rollbackKey_ok [OF assms(1,2)] sound_scope [OF assms(1)] by (auto simp: sound_facts)

lemma switch_ok:
  assumes "sound https i x d" and "suffixOk sfx" and "c \<in> {rx_current x, rx_target x}"
  shows "rollbackCallOk https (Provider_rollback (rollbackKey i sfx) (sn_providerId c) (rq_projectId i) (rq_environmentId i)
    (sn_providerDeploymentId c) (rq_reason i))"
  using assms rollbackKey_ok [OF assms(1,2)] by (auto simp: sound_facts)

lemma compensation_ok:
  assumes "sound https i x d" and "rx_compensatingPlan x = Some p"
  shows "rollbackCallOk https (Apply_compensation (rollbackKey i ''database:compensate'') (tenantOf i) d (cm_planId p) (cm_approvalRecordId p)
    (cm_evidenceArtifactId p))"
  using assms rollbackKey_ok [OF assms(1), of "''database:compensate''"] sound_scope [OF assms(1)] by (auto simp: sound_facts)

lemma failed_ok:
  assumes "sound https i x d" and "case evidence of None \<Rightarrow> True | Some a \<Rightarrow> idSchema ''art'' a"
  shows "rollbackCallOk https (Mark_failed (rollbackKey i (''deployment:failed:'' @ failure_name reason)) (rq_organizationId i) d reason evidence)"
  using assms rollbackKey_ok [OF assms(1) failure_suffix_ok] by (auto simp: sound_def RollbackRequestSchema_def)

abbreviation createCall :: "rollback_request \<Rightarrow> rollback_context \<Rightarrow> string \<Rightarrow> rollback_call" where
  "createCall i x newDep \<equiv>
     Create_rollback (rollbackKey i ''deployment:create'') (tenantOf i) newDep (rx_target x) (sn_deploymentId (rx_current x))"

lemma create_ok: "sound https i x newDep \<Longrightarrow> rollbackCallOk https (createCall i x newDep)"
  using rollbackKey_ok [of https i x newDep "''deployment:create''"] sound_scope [of https i x newDep] by (auto simp: sound_facts)

section \<open>The traces of the steps\<close>

text \<open>An attempt at a change: the call and its reply.\<close>

definition attempt :: "rollback_call \<Rightarrow> bool \<Rightarrow> rollback_entry list \<Rightarrow> bool" where
  "attempt c ok t \<longleftrightarrow> (\<exists>r. t = [(c, r)] \<and> confirmsChange c r = ok)"

lemma restoreConfig_emits:
  fixes i version sfx d
  defines "c \<equiv> Restore_config (rollbackKey i sfx) (tenantOf i) d version"
  assumes "rollbackCallOk https c"
  shows "emits (restoreConfig https env i d version sfx) (\<lambda>_. attempt c True) (\<lambda>e. attempt c False)"
  using assms(2) unfolding restoreConfig_def c_def
  by (intro emits_bind [where R = "\<lambda>v t. t = [(c, Some v)]"] emits_parsedCall)
     (auto simp: attempt_def c_def intro!: emits_pure emits_throw split: rollback_reply.splits)

lemma switchProvider_emits:
  fixes i s sfx
  defines "c \<equiv> Provider_rollback (rollbackKey i sfx) (sn_providerId s) (rq_projectId i) (rq_environmentId i) (sn_providerDeploymentId s) (rq_reason i)"
  assumes "rollbackCallOk https c"
  shows "emits (switchProvider https env i s sfx) (\<lambda>_. attempt c True) (\<lambda>e. attempt c False)"
  using assms(2) unfolding switchProvider_def c_def
  by (intro emits_bind [where R = "\<lambda>v t. t = [(c, Some v)]"] emits_parsedCall)
     (auto simp: attempt_def c_def intro!: emits_pure emits_throw split: rollback_reply.splits)

lemma applyCompensation_emits:
  fixes i d p
  defines "c \<equiv> Apply_compensation (rollbackKey i ''database:compensate'') (tenantOf i) d (cm_planId p) (cm_approvalRecordId p) (cm_evidenceArtifactId p)"
  assumes "rollbackCallOk https c"
  shows "emits (applyCompensation https env i d p) (\<lambda>b t. b \<and> attempt c True t) (\<lambda>e. attempt c False)"
  using assms(2) unfolding applyCompensation_def c_def
  by (intro emits_bind [where R = "\<lambda>v t. t = [(c, Some v)]"] emits_parsedCall)
     (auto simp: attempt_def c_def intro!: emits_pure emits_throw split: rollback_reply.splits)

text \<open>
  How a step that started at the standing \<open>s\<close> fails: with an error of the store, or with a failure
  that is recorded and leaves the environment where its code says.
\<close>

definition breaks ::
    "rollback_request \<Rightarrow> rollback_context \<Rightarrow> database_state \<Rightarrow> string \<Rightarrow> standing \<Rightarrow> rollback_error \<Rightarrow> rollback_entry list \<Rightarrow> bool" where
  "breaks i x state d s e t \<longleftrightarrow>
     authorised x t \<and>
     ((\<exists>st. e = Rollback_service_error Rollback_store_failed st \<and> unrecorded i x d s t) \<or>
      (\<exists>code reason. e = Rollback_service_error code (Some state) \<and> failureOf code = Some reason \<and>
         recorded (rq_organizationId i) d reason t \<and> leavesAt x code (stands s t)))"

lemma unrecorded_prefix: "unrecorded i x d (stands s t) u \<Longrightarrow> unrecorded i x d s (t @ u)"
  unfolding unrecorded_def stands_append [symmetric] by (elim disjE exE conjE) (metis append.assoc)+

lemma breaks_prefix:
  assumes "authorised x t" and "breaks i x state d (stands s t) e u"
  shows "breaks i x state d s e (t @ u)"
  using assms recorded_append unrecorded_prefix unfolding breaks_def by fastforce

lemma emits_then:
  assumes "authorised x t" and "emits m (\<lambda>y u. Q y (t @ u)) (breaks i x state d (stands s t))"
  shows "emits m (\<lambda>y u. Q y (t @ u)) (\<lambda>e u. breaks i x state d s e (t @ u))"
  by (rule emits_weaken [OF assms(2)]) (auto intro: breaks_prefix [OF assms(1)])

lemma attempt_config:
  "attempt (Restore_config k sc d version) ok t \<Longrightarrow>
   authorised x t \<and> stands s t = s\<lparr>st_config := if ok then Some version else None\<rparr>"
  by (auto simp: attempt_def observe_def authorised_def)

lemma attempt_live:
  "attempt (Provider_rollback k provider proj environment to reason) ok t \<Longrightarrow>
   authorised x t \<and> stands s t = s\<lparr>st_live := if ok then Some to else None\<rparr>"
  by (auto simp: attempt_def observe_def authorised_def)

lemma markFailed_emits:
  fixes i reason d evidence
  defines "c \<equiv> Mark_failed (rollbackKey i (''deployment:failed:'' @ failure_name reason)) (rq_organizationId i) d reason evidence"
  assumes "rollbackCallOk https c"
  shows "emits (markFailed https env i d reason evidence) (\<lambda>_ t. \<exists>v. t = [(c, Some v)])
    (\<lambda>e t. e = Rollback_service_error Rollback_store_failed None \<and> t = [(c, None)])"
  using assms(2) unfolding markFailed_def c_def
  by (intro emits_catch [where R = "\<lambda>e t. t = [(c, None)]"] emits_bind [where R = "\<lambda>v t. t = [(c, Some v)]"] emits_parsedCall)
     (auto simp: c_def intro!: emits_pure emits_throw)

lemma failRollback_emits:
  assumes "sound https i x d" and "case evidence of None \<Rightarrow> True | Some a \<Rightarrow> idSchema ''art'' a"
    and "failureOf code = Some reason" and "leavesAt x code s"
  shows "emits (failRollback https env i d reason evidence code state) (\<lambda>_ _. False) (breaks i x state d s)"
  unfolding failRollback_def
proof (rule emits_bind [OF emits_weaken [OF markFailed_emits [OF failed_ok [OF assms(1,2)]]]], assumption)
  fix e and t :: "rollback_entry list"
  assume "e = Rollback_service_error Rollback_store_failed None \<and>
    t = [(Mark_failed (rollbackKey i (''deployment:failed:'' @ failure_name reason)) (rq_organizationId i) d reason evidence, None)]"
  with assms(3,4) show "breaks i x state d s e t"
    unfolding breaks_def unrecorded_def by (auto simp: authorised_def intro!: exI [of _ "[]"])
qed (use assms(3,4) in \<open>auto simp: breaks_def authorised_def observe_def intro!: emits_throw\<close>)

lemma backToConfig_emits:
  assumes ok: "sound https i x d" "suffixOk sfx" and "failureOf code = Some reason" and "st_verified s = None"
    and "leavesAt x code (s\<lparr>st_config := Some (sn_environmentConfigVersion (rx_current x))\<rparr>)"
  shows "emits (backToConfig https env i x state d sfx reason code) (\<lambda>_ _. False) (breaks i x state d s)"
  unfolding backToConfig_def
proof (rule emits_bind)
  let ?c = "Restore_config (rollbackKey i sfx) (tenantOf i) d (sn_environmentConfigVersion (rx_current x))"
  show "emits (catchR (restoreConfig https env i d (sn_environmentConfigVersion (rx_current x)) sfx)
      (\<lambda>_. failRollback https env i d Rollback_recovery_failure None Rollback_recovery_failed state))
      (\<lambda>_. attempt ?c True) (breaks i x state d s)"
  proof (rule emits_catch [OF restoreConfig_emits [OF restore_ok [OF ok]]], simp)
    show "emits (failRollback https env i d Rollback_recovery_failure None Rollback_recovery_failed state)
        (\<lambda>_ u. attempt ?c True (t @ u)) (\<lambda>e u. breaks i x state d s e (t @ u))" if "attempt ?c False t" for t
      using attempt_config [OF that, where x = x and s = s] assms(4)
      by (intro emits_then emits_weaken [OF failRollback_emits [OF ok(1)]]) auto
  qed
  show "emits (failRollback https env i d reason None code state) (\<lambda>_ _. False) (\<lambda>e u. breaks i x state d s e (t @ u))"
    if "attempt ?c True t" for t
    using attempt_config [OF that, where x = x and s = s] assms
    by (intro emits_then [where Q = "\<lambda>_ _. False"] failRollback_emits [OF ok(1)]) auto
qed

lemma restoreTarget_emits:
  assumes ok: "sound https i x d" and "s = serving (rx_current x) False"
  shows "emits (restoreTarget https env i x state d)
    (\<lambda>_ t. authorised x t \<and> stands s t = s\<lparr>st_config := Some (sn_environmentConfigVersion (rx_target x))\<rparr>) (breaks i x state d s)"
proof -
  let ?c = "Restore_config (rollbackKey i ''environment_config:target'') (tenantOf i) d (sn_environmentConfigVersion (rx_target x))"
  have "emits (restoreTarget https env i x state d) (\<lambda>_. attempt ?c True) (breaks i x state d s)"
    unfolding restoreTarget_def
  proof (rule emits_catch [OF restoreConfig_emits [OF restore_ok [OF ok]]], simp, simp)
    show "emits (failRollback https env i d Config_restore_failure None Environment_config_restore_failed state)
        (\<lambda>_ u. attempt ?c True (t @ u)) (\<lambda>e u. breaks i x state d s e (t @ u))" if "attempt ?c False t" for t
      using attempt_config [OF that, where x = x and s = s] assms(2)
      by (intro emits_then emits_weaken [OF failRollback_emits [OF ok]]) auto
  qed
  then show ?thesis by (rule emits_weaken) (use attempt_config [where ok = True] in auto)
qed

definition allowed :: "rollback_context \<Rightarrow> bool" where
  "allowed x \<longleftrightarrow>
     databaseState (rx_reversibility x) = Compatible_db \<or>
     databaseState (rx_reversibility x) = Requires_compensation \<and> compensationApproved x"

lemma assertDatabaseRollbackAllowed_result:
  "assertDatabaseRollbackAllowed x =
     (if allowed x then pureR (databaseState (rx_reversibility x))
      else fails (if rx_reversibility x = Unavailable then Database_incompatible else Compensating_plan_required)
        (Some (databaseState (rx_reversibility x))))"
  by (cases "rx_reversibility x") (auto simp: assertDatabaseRollbackAllowed_def allowed_def)

lemma compensate_emits:
  assumes ok: "sound https i x d" and "allowed x" and "state = databaseState (rx_reversibility x)"
    and s: "s = (serving (rx_current x) False)\<lparr>st_config := v\<rparr>"
  shows "emits (compensate https env i x state d)
    (\<lambda>applied t. applied = needsCompensation x \<and> authorised x t \<and> stands s t = s\<lparr>st_compensated := Some applied\<rparr>)
    (breaks i x state d s)"
proof (cases "needsCompensation x")
  case True
  then obtain p where p: "rx_compensatingPlan x = Some p" "cm_approved p" and state: "state = Requires_compensation"
    using assms by (auto simp: allowed_def compensationApproved_def split: option.splits)
  let ?c = "Apply_compensation (rollbackKey i ''database:compensate'') (tenantOf i) d (cm_planId p) (cm_approvalRecordId p) (cm_evidenceArtifactId p)"
  have tried: "authorised x t \<and> stands s t = s\<lparr>st_compensated := if ok then Some True else None\<rparr>" if "attempt ?c ok t" for ok t
    using that p True by (auto simp: attempt_def observe_def authorised_def)
  have "emits (compensate https env i x state d) (\<lambda>applied t. applied \<and> attempt ?c True t) (breaks i x state d s)"
    unfolding compensate_def p(1) option.case if_P [OF state]
  proof (rule emits_catch [OF applyCompensation_emits [OF compensation_ok [OF ok p(1)]]])
    show "emits (backToConfig https env i x state d ''environment_config:recover_after_compensation_failure''
          Compensating_plan_failure Compensating_plan_failed)
        (\<lambda>y u. y \<and> attempt ?c True (t @ u)) (\<lambda>e u. breaks i x state d s e (t @ u))" if "attempt ?c False t" for t
      using tried [OF that] s
      by (intro emits_then [where Q = "\<lambda>y t. y \<and> attempt ?c True t"] emits_weaken [OF backToConfig_emits [OF ok]]) (auto simp: serving_def)
  qed
  then show ?thesis by (rule emits_weaken) (use tried True in auto)
next
  case False
  then have "state \<noteq> Requires_compensation" using assms(3) by (cases "rx_reversibility x") auto
  then have "compensate https env i x state d = pureR False" by (simp add: compensate_def split: option.splits)
  then show ?thesis using False s by (auto simp: serving_def intro!: emits_pure)
qed

lemma switchTarget_emits:
  assumes ok: "sound https i x d" and s: "s = (serving (rx_current x) (needsCompensation x))\<lparr>st_config := v\<rparr>"
  shows "emits (switchTarget https env i x state d)
    (\<lambda>_ t. authorised x t \<and> stands s t = s\<lparr>st_live := Some (sn_providerDeploymentId (rx_target x))\<rparr>) (breaks i x state d s)"
proof -
  let ?c = "Provider_rollback (rollbackKey i ''provider:target'') (sn_providerId (rx_target x)) (rq_projectId i) (rq_environmentId i)
    (sn_providerDeploymentId (rx_target x)) (rq_reason i)"
  have "emits (switchTarget https env i x state d) (\<lambda>_. attempt ?c True) (breaks i x state d s)"
    unfolding switchTarget_def
  proof (rule emits_catch [OF switchProvider_emits [OF switch_ok [OF ok]]], simp, simp)
    show "emits (backToConfig https env i x state d ''environment_config:recover_after_provider_failure''
          Provider_rollback_failure Rollback_provider_failed)
        (\<lambda>_ u. attempt ?c True (t @ u)) (\<lambda>e u. breaks i x state d s e (t @ u))" if "attempt ?c False t" for t
      using attempt_live [OF that, where x = x and s = s] s
      by (intro emits_then emits_weaken [OF backToConfig_emits [OF ok]]) (auto simp: serving_def)
  qed
  then show ?thesis by (rule emits_weaken) (use attempt_live [where ok = True] in auto)
qed

lemma recoverCurrent_emits:
  fixes s :: standing
  assumes ok: "sound https i x d"
  defines "back \<equiv> s\<lparr>st_live := Some (sn_providerDeploymentId (rx_current x))\<rparr>"
  shows "emits (recoverCurrent https env i x d)
     (\<lambda>_ t. authorised x t \<and> stands s t = back\<lparr>st_config := Some (sn_environmentConfigVersion (rx_current x))\<rparr>)
     (\<lambda>_ t. authorised x t \<and> (stands s t = s\<lparr>st_live := None\<rparr> \<or> stands s t = back\<lparr>st_config := None\<rparr>))"
  unfolding recoverCurrent_def
proof (rule emits_bind [OF emits_weaken [OF switchProvider_emits [OF switch_ok [OF ok]]]])
  fix t
  assume t: "authorised x t \<and> stands s t = back"
  show "emits (restoreConfig https env i d (sn_environmentConfigVersion (rx_current x)) ''environment_config:recover_current'')
      (\<lambda>_ u. authorised x (t @ u) \<and> stands s (t @ u) = back\<lparr>st_config := Some (sn_environmentConfigVersion (rx_current x))\<rparr>)
      (\<lambda>_ u. authorised x (t @ u) \<and> (stands s (t @ u) = s\<lparr>st_live := None\<rparr> \<or> stands s (t @ u) = back\<lparr>st_config := None\<rparr>))"
    by (rule emits_weaken [OF restoreConfig_emits [OF restore_ok [OF ok]]])
       (use t in \<open>auto dest: attempt_config [where x = x and s = back]\<close>)
qed (auto simp: back_def dest: attempt_live [where x = x and s = s])

lemma healthFailed_emits:
  assumes ok: "sound https i x d" "case evidence of None \<Rightarrow> True | Some a \<Rightarrow> idSchema ''art'' a"
    and s: "s = serving (rx_target x) (needsCompensation x)"
  shows "emits (healthFailed https env i x state d evidence) (\<lambda>_ _. False) (breaks i x state d s)"
  unfolding healthFailed_def
proof (rule emits_bind)
  let ?Q = "\<lambda>t. authorised x t \<and> stands s t = serving (rx_current x) (needsCompensation x)"
  show "emits (catchR (recoverCurrent https env i x d)
      (\<lambda>_. failRollback https env i d Rollback_recovery_failure evidence Rollback_recovery_failed state)) (\<lambda>_. ?Q) (breaks i x state d s)"
  proof (rule emits_catch)
    show "emits (recoverCurrent https env i x d) (\<lambda>_. ?Q)
        (\<lambda>_ t. authorised x t \<and> leavesAt x Rollback_recovery_failed (stands s t))"
      by (rule emits_weaken [OF recoverCurrent_emits [OF ok(1), of _ s]]) (auto simp: s serving_def)
    show "emits (failRollback https env i d Rollback_recovery_failure evidence Rollback_recovery_failed state) (\<lambda>_ u. ?Q (t @ u))
        (\<lambda>e u. breaks i x state d s e (t @ u))" if "authorised x t \<and> leavesAt x Rollback_recovery_failed (stands s t)" for t
      using that by (intro emits_then emits_weaken [OF failRollback_emits [OF ok]]) auto
  qed
  show "emits (failRollback https env i d Rollback_health_failure evidence Rollback_health_failed state) (\<lambda>_ _. False)
      (\<lambda>e u. breaks i x state d s e (t @ u))" if "?Q t" for t
    using that by (intro emits_then [where Q = "\<lambda>_ _. False"] failRollback_emits [OF ok]) auto
qed

abbreviation healthCall :: "rollback_request \<Rightarrow> rollback_context \<Rightarrow> string \<Rightarrow> deployment_handle \<Rightarrow> rollback_call" where
  "healthCall i x d handle \<equiv>
     Verify_health (rollbackKey i ''health:verify'') (tenantOf i) d (trim (hd_providerDeploymentId handle)) (rx_target x) (sn_deploymentId (rx_current x))"

lemma askHealth_emits:
  assumes "st_verified s = None"
  shows "emits (askHealth https env i x d handle)
     (\<lambda>health t. t = [(healthCall i x d handle, Some (Health_reply health))] \<and> textOf 1 2048 (hd_providerDeploymentId handle) \<and>
        confirmsChange (healthCall i x d handle) (Some (Health_reply (health\<lparr>hh_healthy := True\<rparr>))))
     (\<lambda>_ t. authorised x t \<and> stands s t = s)"
  unfolding askHealth_def
  by (rule emits_bind [where R = "\<lambda>v t. t = [(healthCall i x d handle, Some v)] \<and> textOf 1 2048 (hd_providerDeploymentId handle)"],
      rule emits_parsedCall)
     (use assms in \<open>auto simp: authorised_def observe_def intro!: emits_pure emits_throw split: rollback_reply.splits\<close>)

lemma verifyHealth_emits:
  assumes ok: "sound https i x d" and s: "s = serving (rx_target x) (needsCompensation x)"
  shows "emits (verifyHealth https env i x state d handle)
     (\<lambda>health t. t = [(healthCall i x d handle, Some (Health_reply health))] \<and> textOf 1 2048 (hd_providerDeploymentId handle) \<and>
        confirmsChange (healthCall i x d handle) (Some (Health_reply health)))
     (breaks i x state d s)"
  (is "emits _ ?P _")
  unfolding verifyHealth_def
proof (rule emits_bind)
  let ?Q = "\<lambda>health t. t = [(healthCall i x d handle, Some (Health_reply health))] \<and> textOf 1 2048 (hd_providerDeploymentId handle) \<and>
        confirmsChange (healthCall i x d handle) (Some (Health_reply (health\<lparr>hh_healthy := True\<rparr>)))"
  have none: "st_verified s = None" by (simp add: s serving_def)
  have failing: "emits (healthFailed https env i x state d evidence) (\<lambda>y u. P y (t @ u)) (\<lambda>e u. breaks i x state d s e (t @ u))"
    if "authorised x t" "stands s t = s" "case evidence of None \<Rightarrow> True | Some a \<Rightarrow> idSchema ''art'' a"
    for t evidence and P :: "rollback_health \<Rightarrow> rollback_entry list \<Rightarrow> bool"
    using that s by (intro emits_then emits_weaken [OF healthFailed_emits [OF ok that(3)]]) auto
  show "emits (catchR (askHealth https env i x d handle) (\<lambda>_. healthFailed https env i x state d None)) ?Q (breaks i x state d s)"
    by (rule emits_catch [OF askHealth_emits [OF none, of _ _ _ x]], rule failing) auto
  fix health t
  assume q: "?Q health t"
  show "emits (if \<not> hh_healthy health then healthFailed https env i x state d (Some (hh_evidenceArtifactId health)) else pureR health)
      (\<lambda>y u. ?P y (t @ u)) (\<lambda>e u. breaks i x state d s e (t @ u))"
  proof (cases "hh_healthy health")
    case False
    have "stands s t = s" "authorised x t" using q False none by (simp_all add: observe_def authorised_def)
    with False q show ?thesis using failing [of t "Some (hh_evidenceArtifactId health)" ?P] by simp
  qed (use q in \<open>auto intro!: emits_pure\<close>)
qed

lemma stored_emits:
  assumes "rollbackCallOk https c"
  shows "emits (stored https env state c) (\<lambda>_ t. \<exists>v. t = [(c, Some v)])
    (\<lambda>e t. e = Rollback_service_error Rollback_store_failed (Some state) \<and> t = [(c, None)])"
  using assms unfolding stored_def
  by (intro emits_catch [where R = "\<lambda>e t. t = [(c, None)]"] emits_bind [where R = "\<lambda>v t. t = [(c, Some v)]"] emits_parsedCall)
     (auto intro!: emits_pure emits_throw)

text \<open>What a rollback that succeeds has established and recorded.\<close>

definition completed ::
    "rollback_request \<Rightarrow> string \<Rightarrow> rollback_context \<Rightarrow> string \<Rightarrow> rollback_result \<Rightarrow> rollback_entry list \<Rightarrow> bool" where
  "completed i fp x d r t \<longleftrightarrow>
     authorised x t \<and> stands (serving (rx_current x) False) t = switchedTo x (rr_healthEvidenceArtifactId r) \<and>
     (\<exists>health handle k v w.
        r = resultOf x (databaseState (rx_reversibility x)) d (needsCompensation x) health \<and>
        (healthCall i x d handle, Some (Health_reply health)) \<in> set t \<and> hh_healthy health \<and>
        (Mark_healthy k (rq_organizationId i) d (trim (hd_providerDeploymentId handle)) (sn_permanentUrl (rx_target x))
           (hh_evidenceArtifactId health), Some v) \<in> set t \<and>
        (Complete_replay (tenantOf i) (rq_operationKey i) fp r, Some w) \<in> set t \<and> RollbackResultSchema r)"

lemma resultOf_valid:
  assumes "validContext https x" and "allowed x" and "idSchema ''dep'' d" and "idSchema ''art'' (hh_evidenceArtifactId health)"
  shows "RollbackResultSchema (resultOf x (databaseState (rx_reversibility x)) d applied health)"
  using assms by (auto simp: validContext_def RollbackContextSchema_def SnapshotSchema_def RollbackResultSchema_def resultOf_def allowed_def)

lemma emits_seq:
  assumes "emits m R (breaks i x state d s)" and "\<And>y t. R y t \<Longrightarrow> authorised x t"
    and "\<And>y t. R y t \<Longrightarrow> emits (f y) (\<lambda>z u. Q z (t @ u)) (breaks i x state d (stands s t))"
  shows "emits (bindR m f) Q (breaks i x state d s)"
  by (rule emits_bind [OF assms(1)], rule emits_then) (use assms(2,3) in auto)

lemma finish_emits:
  assumes ok: "sound https i x d" "is_fingerprint fp" and handle: "textOf 1 2048 (hd_providerDeploymentId handle)"
    and result: "RollbackResultSchema (resultOf x state d applied health)" and s: "s = switchedTo x (hh_evidenceArtifactId health)"
  shows "emits (finish https env i fp x state d applied handle health)
    (\<lambda>r t. r = resultOf x state d applied health \<and>
       (\<exists>v w. t = [(Mark_healthy (rollbackKey i ''deployment:healthy'') (rq_organizationId i) d (trim (hd_providerDeploymentId handle))
          (sn_permanentUrl (rx_target x)) (hh_evidenceArtifactId health), Some v),
          (Complete_replay (tenantOf i) (rq_operationKey i) fp (resultOf x state d applied health), Some w)]))
    (breaks i x state d s)"
  unfolding finish_def Let_def if_P [OF result] bindR_pure
proof (rule emits_bind [OF emits_weaken [OF stored_emits]])
  let ?m = "Mark_healthy (rollbackKey i ''deployment:healthy'') (rq_organizationId i) d (trim (hd_providerDeploymentId handle))
    (sn_permanentUrl (rx_target x)) (hh_evidenceArtifactId health)"
  let ?r = "resultOf x state d applied health"
  let ?c = "Complete_replay (tenantOf i) (rq_operationKey i) fp ?r"
  show "rollbackCallOk https ?m"
    using ok handle result rollbackKey_ok [OF ok(1), of "''deployment:healthy''"] by (auto simp: sound_facts RollbackResultSchema_def resultOf_def)
  have c: "rollbackCallOk https ?c" using ok result sound_scope [OF ok(1)] by (auto simp: sound_facts)
  show "breaks i x state d s e t" if "e = Rollback_service_error Rollback_store_failed (Some state) \<and> t = [(?m, None)]" for e t
    using that unfolding breaks_def unrecorded_def by (auto simp: s authorised_def intro!: exI [of _ "[]"])
  show "emits (bindR (stored https env state ?c) (\<lambda>_. pureR ?r))
      (\<lambda>r u. r = ?r \<and> (\<exists>v w. t @ u = [(?m, Some v), (?c, Some w)])) (\<lambda>e u. breaks i x state d s e (t @ u))"
    if "\<exists>v. t = [(?m, Some v)]" for t
  proof (rule emits_bind [OF emits_weaken [OF stored_emits [OF c]]], assumption)
    from that obtain v where t: "t = [(?m, Some v)]" by blast
    show "breaks i x state d s e (t @ u)" if "e = Rollback_service_error Rollback_store_failed (Some state) \<and> u = [(?c, None)]" for e u
      using that unfolding breaks_def unrecorded_def by (auto simp: s t authorised_def resultOf_def intro!: exI [of _ "[]"])
  qed (use that in \<open>auto intro!: emits_pure\<close>)
qed

lemma completedI:
  assumes "authorised x t" and "stands (serving (rx_current x) False) t = serving (rx_target x) (needsCompensation x)"
    and "confirmsChange (healthCall i x d handle) (Some (Health_reply health))" and "RollbackResultSchema r"
    and "r = resultOf x (databaseState (rx_reversibility x)) d (needsCompensation x) health"
  shows "completed i fp x d r (t @ [(healthCall i x d handle, Some (Health_reply health)),
    (Mark_healthy k (rq_organizationId i) d (trim (hd_providerDeploymentId handle)) (sn_permanentUrl (rx_target x))
       (hh_evidenceArtifactId health), Some v), (Complete_replay (tenantOf i) (rq_operationKey i) fp r, Some w)])"
  unfolding completed_def
proof (intro conjI exI)
  show "r = resultOf x (databaseState (rx_reversibility x)) d (needsCompensation x) health" by (rule assms(5))
qed (use assms in \<open>auto simp: authorised_def observe_def switchedTo_def resultOf_def\<close>)

lemma carryOut_emits:
  assumes ok: "sound https i x d" "is_fingerprint fp" and "allowed x" and "state = databaseState (rx_reversibility x)"
  shows "emits (carryOut https env i fp x state d) (completed i fp x d) (breaks i x state d (serving (rx_current x) False))"
  unfolding carryOut_def
proof (rule emits_seq [OF restoreTarget_emits [OF ok(1) refl]], simp, rule emits_seq [OF compensate_emits [OF ok(1) assms(3,4)]],
    simp, simp, rule emits_seq [OF switchTarget_emits [OF ok(1)]], (simp add: serving_def)+,
    rule emits_seq [OF verifyHealth_emits [OF ok(1)]], simp add: serving_def, force simp: authorised_def, rule emits_weaken [OF finish_emits [OF ok]])
qed (use resultOf_valid [of https x d] ok assms(3,4) in
   \<open>auto simp: sound_def serving_def switchedTo_def observe_def intro!: completedI [where t = "t1 @ t2 @ t3" for t1 t2 t3, simplified]\<close>)

text \<open>The context a rollback has read.\<close>

definition contextRead :: "(string \<Rightarrow> bool) \<Rightarrow> tenant_scope \<Rightarrow> string option \<Rightarrow> rollback_context \<Rightarrow> rollback_entry list \<Rightarrow> bool" where
  "contextRead https s to x h \<longleftrightarrow>
     (\<exists>y. (Resolve_context s to, Some (Context_reply y)) \<in> set h \<and> x = trimContext y \<and> validContext https x \<and>
        (to = None \<or> to = Some (sn_deploymentId (rx_target x))))"

definition untouched :: "rollback_entry list \<Rightarrow> bool" where
  "untouched h \<longleftrightarrow> list_all (\<lambda>(c, r). readsOnly c) h"

lemma untouched_Nil [simp]: "untouched []"
  by (simp add: untouched_def)

lemma untouched_append [simp]: "untouched (t @ u) \<longleftrightarrow> untouched t \<and> untouched u"
  by (simp add: untouched_def)

lemma untouched_facts: "untouched t \<Longrightarrow> stands s t = s \<and> authorised x t"
proof (induction t)
  case (Cons e t)
  obtain c r where e: "e = (c, r)" by (cases e)
  with Cons have "stands s t = s" "authorised x t" "readsOnly c" by (auto simp: untouched_def)
  then show ?case by (cases c) (simp_all add: e observe_def authorised_def readsOnly_def)
qed (simp add: authorised_def)

lemma replayed_emits:
  "emits (replayed https env i fp)
     (\<lambda>o_r t. untouched t \<and> (\<forall>r. o_r = Some r \<longrightarrow>
        (\<exists>v. t = [(Get_replay (tenantOf i) (rq_operationKey i) fp, Some (Result_reply v))] \<and> RollbackResultSchema v \<and> r = trimResult v)))
     (\<lambda>e t. e = Rollback_service_error Rollback_store_failed None \<and> untouched t)"
  unfolding replayed_def
  by (rule emits_catch [where R = "\<lambda>e t. untouched t"],
      rule emits_bind [where R = "\<lambda>v t. t = [(Get_replay (tenantOf i) (rq_operationKey i) fp, Some v)]"], rule emits_parsedCall)
     (auto simp: untouched_def readsOnly_def intro!: emits_pure emits_throw split: rollback_reply.splits)

lemma trimContext_target: "sn_deploymentId (rx_target (trimContext x)) = sn_deploymentId (rx_target x)"
  by (simp add: trimContext_def trimSnapshot_def)

lemma resolveContext_emits:
  "emits (resolveContext https env s to)
     (\<lambda>x t. untouched t \<and> contextRead https s to x t)
     (\<lambda>e t. untouched t \<and> (\<exists>code. e = Rollback_service_error code None \<and> code \<in> {Rollback_context_invalid, Rollback_not_found}))"
  unfolding resolveContext_def
proof (rule emits_bind)
  show "emits (catchR (ask https env (Resolve_context s to)) (\<lambda>_. fails Rollback_context_invalid None))
      (\<lambda>v t. t = [(Resolve_context s to, Some v)])
      (\<lambda>e t. untouched t \<and> (\<exists>code. e = Rollback_service_error code None \<and> code \<in> {Rollback_context_invalid, Rollback_not_found}))"
    by (rule emits_catch [where R = "\<lambda>e t. untouched t"], rule emits_parsedCall)
       (auto simp: untouched_def readsOnly_def intro!: emits_throw)
  let ?k = "\<lambda>v. case v of
       Undefined_reply \<Rightarrow> fails Rollback_not_found None
     | Context_reply x \<Rightarrow>
         if RollbackContextSchema https x \<and> (to = None \<or> to = Some (sn_deploymentId (rx_target x))) then pureR (trimContext x)
         else fails Rollback_context_invalid None
     | _ \<Rightarrow> fails Rollback_context_invalid None"
  fix v and t :: "rollback_entry list"
  assume t: "t = [(Resolve_context s to, Some v)]"
  then have read: "untouched t" by (simp add: untouched_def readsOnly_def)
  have found: "contextRead https s to (trimContext x) t" if "v = Context_reply x" "RollbackContextSchema https x"
      "to = None \<or> to = Some (sn_deploymentId (rx_target x))" for x
    using that t trimContext_valid [OF that(2)] by (auto simp: contextRead_def trimContext_target)
  show "emits (?k v) (\<lambda>x u. untouched (t @ u) \<and> contextRead https s to x (t @ u))
      (\<lambda>e u. untouched (t @ u) \<and> (\<exists>code. e = Rollback_service_error code None \<and> code \<in> {Rollback_context_invalid, Rollback_not_found}))"
    using read found by (cases v) (auto intro!: emits_pure emits_throw)
qed

text \<open>The rollback deployment was created as \<open>d\<close>, or its creation was the last call and was not accepted.\<close>

definition createdAs :: "rollback_request \<Rightarrow> rollback_context \<Rightarrow> string \<Rightarrow> string \<Rightarrow> rollback_entry list \<Rightarrow> bool" where
  "createdAs i x newDep d h \<longleftrightarrow> (createCall i x newDep, Some (Created_reply d)) \<in> set h \<and> idSchema ''dep'' d"

definition uncreated :: "rollback_request \<Rightarrow> rollback_context \<Rightarrow> string \<Rightarrow> rollback_entry list \<Rightarrow> bool" where
  "uncreated i x newDep h \<longleftrightarrow>
     (\<exists>u r. h = u @ [(createCall i x newDep, r)] \<and> untouched u \<and> (\<forall>d. r = Some (Created_reply d) \<longrightarrow> \<not> idSchema ''dep'' d))"

lemma uncreated_prefix: "untouched t \<Longrightarrow> uncreated i x newDep u \<Longrightarrow> uncreated i x newDep (t @ u)"
  by (auto simp: uncreated_def)

lemma uncreated_authorised:
  assumes "uncreated i x newDep h"
  shows "authorised x h"
proof -
  from assms obtain u r where h: "h = u @ [(createCall i x newDep, r)]" and "untouched u" by (auto simp: uncreated_def)
  from untouched_facts [OF this(2)] have "authorised x u" by blast
  then show ?thesis by (simp add: h) (simp add: authorised_def)
qed

lemma createDeployment_emits:
  assumes "sound https i x newDep"
  shows "emits (createDeployment https env i x state newDep)
     (\<lambda>d t. t = [(createCall i x newDep, Some (Created_reply d))] \<and> idSchema ''dep'' d)
     (\<lambda>e t. e = Rollback_service_error Rollback_store_failed (Some state) \<and> uncreated i x newDep t)"
  using create_ok [OF assms] unfolding createDeployment_def
  by (intro emits_catch [where R = "\<lambda>e t. uncreated i x newDep t"] emits_bind [where R = "\<lambda>v t. t = [(createCall i x newDep, Some v)]"]
      emits_parsedCall)
     (auto simp: uncreated_def intro!: emits_pure emits_throw split: rollback_reply.splits)

text \<open>How a rollback fails as a whole.\<close>

definition failsSafe ::
    "(string \<Rightarrow> bool) \<Rightarrow> string \<Rightarrow> rollback_request \<Rightarrow> rollback_error \<Rightarrow> rollback_entry list \<Rightarrow> bool" where
  "failsSafe https newDep i e h \<longleftrightarrow>
     untouched h \<and> (\<forall>code st. e = Rollback_service_error code st \<longrightarrow> failureOf code = None) \<or>
     (\<exists>x. contextRead https (tenantOf i) (rq_toDeploymentId i) x h \<and> allowed x \<and> authorised x h \<and>
        ((\<exists>st. e = Rollback_service_error Rollback_store_failed st \<and> uncreated i x newDep h) \<or>
         (\<exists>d. createdAs i x newDep d h \<and>
            breaks i x (databaseState (rx_reversibility x)) d (serving (rx_current x) False) e h)))"

definition succeeds :: "(string \<Rightarrow> bool) \<Rightarrow> string \<Rightarrow> rollback_request \<Rightarrow> string \<Rightarrow> rollback_result \<Rightarrow> rollback_entry list \<Rightarrow> bool" where
  "succeeds https newDep i fp r h \<longleftrightarrow>
     (\<exists>v. h = [(Get_replay (tenantOf i) (rq_operationKey i) fp, Some (Result_reply v))] \<and> r = trimResult v) \<or>
     (\<exists>x d. contextRead https (tenantOf i) (rq_toDeploymentId i) x h \<and> allowed x \<and> createdAs i x newDep d h \<and> completed i fp x d r h)"

lemma completed_prefix:
  assumes "completed i fp x d r u" and "authorised x t" and "\<And>s. stands s t = s"
  shows "completed i fp x d r (t @ u)"
  using assms unfolding completed_def by (auto; blast)

lemma contextRead_append: "contextRead https sc to x t \<Longrightarrow> contextRead https sc to x (t @ u)"
  by (auto simp: contextRead_def)

lemma createDeployment_prefix:
  assumes "untouched t" and "createdAs i x newDep d u" and "u = [(createCall i x newDep, Some (Created_reply d))]"
  shows "authorised x (t @ u)" "stands s (t @ u) = s" "createdAs i x newDep d ((t @ u) @ w)"
  using untouched_facts [OF assms(1)] assms(2,3) by (auto simp: authorised_def observe_def createdAs_def)

lemma created_emits:
  assumes ok: "sound https i x newDep" "is_fingerprint fp" and t: "untouched t" and x: "contextRead https (tenantOf i) (rq_toDeploymentId i) x t" "allowed x"
    and state: "state = databaseState (rx_reversibility x)"
  shows "emits (bindR (createDeployment https env i x state newDep) (carryOut https env i fp x state))
      (\<lambda>r u. succeeds https newDep i fp r (t @ u)) (\<lambda>e u. failsSafe https newDep i e (t @ u))"
proof (rule emits_bind [OF emits_weaken [OF createDeployment_emits [OF ok(1)]]], assumption)
  fix e u
  assume "e = Rollback_service_error Rollback_store_failed (Some state) \<and> uncreated i x newDep u"
  then have "uncreated i x newDep (t @ u)" "authorised x (t @ u)" "e = Rollback_service_error Rollback_store_failed (Some state)"
    using uncreated_prefix [OF t] uncreated_authorised by blast+
  with x contextRead_append [OF x(1), of u] show "failsSafe https newDep i e (t @ u)" unfolding failsSafe_def by blast
next
  fix d u
  assume u: "u = [(createCall i x newDep, Some (Created_reply d))] \<and> idSchema ''dep'' d"
  then have d: "sound https i x d" "createdAs i x newDep d u" using ok(1) by (auto simp: sound_def createdAs_def)
  note tu = createDeployment_prefix [OF t d(2) conjunct1 [OF u]]
  have read: "contextRead https (tenantOf i) (rq_toDeploymentId i) x ((t @ u) @ w)" for w
    using contextRead_append [OF x(1), of "u @ w"] by simp
  have "emits (carryOut https env i fp x state d) (\<lambda>r w. succeeds https newDep i fp r ((t @ u) @ w)) (\<lambda>e w. failsSafe https newDep i e ((t @ u) @ w))"
  proof (rule emits_weaken [OF carryOut_emits [OF d(1) ok(2) x(2) state]])
    show "succeeds https newDep i fp r ((t @ u) @ w)" if "completed i fp x d r w" for r w
      using completed_prefix [OF that tu(1,2)] read tu(3) x(2) unfolding succeeds_def by blast
    show "failsSafe https newDep i e ((t @ u) @ w)" if "breaks i x state d (serving (rx_current x) False) e w" for e w
    proof -
      have "breaks i x state d (serving (rx_current x) False) e ((t @ u) @ w)"
        using that by (intro breaks_prefix [OF tu(1)]) (simp only: tu(2))
      moreover from this have "authorised x ((t @ u) @ w)" by (simp add: breaks_def)
      ultimately show ?thesis using read tu(3) x(2) unfolding failsSafe_def state by blast
    qed
  qed
  then show "emits (carryOut https env i fp x state d) (\<lambda>r w. succeeds https newDep i fp r (t @ u @ w)) (\<lambda>e w. failsSafe https newDep i e (t @ u @ w))"
    by simp
qed

lemma resolved_emits:
  assumes i: "RollbackRequestSchema i" "trimRollback i = i" "is_fingerprint fp" and t: "untouched t"
  shows "emits (bindR (resolveContext https env (tenantOf i) (rq_toDeploymentId i)) (\<lambda>x. bindR (assertDatabaseRollbackAllowed x) (\<lambda>state.
        bindR (guarding (idSchema ''dep'' newDep)) (\<lambda>_. bindR (createDeployment https env i x state newDep) (carryOut https env i fp x state)))))
      (\<lambda>r u. succeeds https newDep i fp r (t @ u)) (\<lambda>e u. failsSafe https newDep i e (t @ u))"
proof (rule emits_bind [OF emits_weaken [OF resolveContext_emits]], assumption)
  fix x u
  assume u: "untouched u \<and> contextRead https (tenantOf i) (rq_toDeploymentId i) x u"
  then have tu: "untouched (t @ u)" "contextRead https (tenantOf i) (rq_toDeploymentId i) x (t @ u)" using t by (auto simp: contextRead_def)
  have "sound https i x newDep" if "idSchema ''dep'' newDep" using that i tu(2) by (auto simp: sound_def contextRead_def)
  with created_emits [OF _ i(3) tu _ refl] tu(1)
  show "emits (bindR (assertDatabaseRollbackAllowed x) (\<lambda>state. bindR (guarding (idSchema ''dep'' newDep)) (\<lambda>_.
      bindR (createDeployment https env i x state newDep) (carryOut https env i fp x state))))
    (\<lambda>r w. succeeds https newDep i fp r (t @ u @ w)) (\<lambda>e w. failsSafe https newDep i e (t @ u @ w))"
    by (auto simp: assertDatabaseRollbackAllowed_result failsSafe_def intro!: emits_throw)
qed (use t in \<open>auto simp: failsSafe_def\<close>)

lemma performRollback_emits:
  "emits (performRollback https hash env newDep raw)
     (succeeds https newDep (trimRollback raw) (hash (trimRollback raw))) (failsSafe https newDep (trimRollback raw))"
proof (cases "RollbackRequestSchema raw \<and> is_fingerprint (hash (trimRollback raw))")
  case True
  let ?i = "trimRollback raw"
  let ?fp = "hash ?i"
  have i: "RollbackRequestSchema ?i" "trimRollback ?i = ?i" "is_fingerprint ?fp"
    using True by (auto simp: RollbackRequestSchema_trim) (simp add: trimRollback_def)
  show ?thesis
    unfolding performRollback_def Let_def if_P [OF True] bindR_pure
  proof (rule emits_bind [OF emits_weaken [OF replayed_emits]], assumption)
    show "emits (case replay of
          Some r \<Rightarrow> pureR r
        | None \<Rightarrow> bindR (resolveContext https env (tenantOf ?i) (rq_toDeploymentId ?i)) (\<lambda>x. bindR (assertDatabaseRollbackAllowed x) (\<lambda>state.
          bindR (guarding (idSchema ''dep'' newDep)) (\<lambda>_. bindR (createDeployment https env ?i x state newDep) (carryOut https env ?i ?fp x state)))))
        (\<lambda>r u. succeeds https newDep ?i ?fp r (t @ u)) (\<lambda>e u. failsSafe https newDep ?i e (t @ u))"
      if "untouched t \<and> (\<forall>r. replay = Some r \<longrightarrow>
        (\<exists>v. t = [(Get_replay (tenantOf ?i) (rq_operationKey ?i) ?fp, Some (Result_reply v))] \<and> RollbackResultSchema v \<and> r = trimResult v))" for replay t
      by (cases replay) (use that resolved_emits [OF i, of t] in \<open>auto simp: succeeds_def intro!: emits_pure\<close>)
  qed (auto simp: failsSafe_def)
next
  case False
  then show ?thesis
    unfolding performRollback_def Let_def by (auto simp: failsSafe_def bindR_throw intro!: emits_throw)
qed

section \<open>Properties of a rollback\<close>

lemma trimRollback_simps [simp]:
  "rq_organizationId (trimRollback raw) = rq_organizationId raw" "rq_toDeploymentId (trimRollback raw) = rq_toDeploymentId raw"
  "rq_operationKey (trimRollback raw) = trim (rq_operationKey raw)" "tenantOf (trimRollback raw) = tenantOf raw"
  "rq_projectId (trimRollback raw) = rq_projectId raw" "rq_environmentId (trimRollback raw) = rq_environmentId raw"
  by (simp_all add: trimRollback_def tenantOf_def)

text \<open>
  C36. When a rollback returns, either it returns the result that the store kept for the same
  operation key and fingerprint, and makes no other call; or the context it read names the
  deployment asked for and evidence that permits the rollback, and the history of its calls
  establishes the configuration version and the provider deployment of the target, a compensated
  database exactly when the migration needs it (by the approved plan of the evidence), a healthy
  verdict for the deployment that the store has created, which is recorded as healthy, and the
  result kept for replay.
\<close>

theorem rollback_completes:
  assumes "performRollback https hash env newDep raw [] = (Inr r, h)"
  shows "(\<exists>v. h = [(Get_replay (tenantOf raw) (trim (rq_operationKey raw)) (hash (trimRollback raw)), Some (Result_reply v))] \<and> r = trimResult v) \<or>
    (\<exists>x d. contextRead https (tenantOf raw) (rq_toDeploymentId raw) x h \<and> allowed x \<and> createdAs (trimRollback raw) x newDep d h \<and>
       completed (trimRollback raw) (hash (trimRollback raw)) x d r h)"
  using emits_result [OF performRollback_emits assms] by (simp add: succeeds_def)

text \<open>
  C35. When a rollback throws, whatever its dependencies answer, one of the following holds.
  Nothing was called but reads: so it is for every error of the request, the replay lookup, the
  context and the database evidence.  Or the creation of the rollback deployment was the last call,
  was not accepted, and only reads came before it; the error is one of the store.  Or the deployment
  was created and its failure is recorded as the last call, and the environment is where the error
  says: the configuration alone is unconfirmed after a failed restore; the current deployment is in
  place and the compensation alone is unconfirmed after a failed compensating plan, the provider
  alone after a failed switch; the current deployment is in place, on the compensated database if
  the migration needed it, after failed health; and after a failed recovery the configuration or the
  provider is unconfirmed.  Or the store rejected the last call: the record of such a failure, with
  the environment where that failure leaves it, or the record of the healthy deployment or of the
  result, with the target in place and found healthy; then the error is one of the store.  In every
  case a compensating plan was applied only as the evidence has it, approved.
\<close>

theorem rollback_failure_recovers:
  assumes "performRollback https hash env newDep raw [] = (Inl e, h)"
  shows "untouched h \<and> (\<forall>code st. e = Rollback_service_error code st \<longrightarrow> failureOf code = None) \<or>
    (\<exists>x. contextRead https (tenantOf raw) (rq_toDeploymentId raw) x h \<and> allowed x \<and> authorised x h \<and>
       ((\<exists>st. e = Rollback_service_error Rollback_store_failed st \<and> uncreated (trimRollback raw) x newDep h) \<or>
        (\<exists>d. createdAs (trimRollback raw) x newDep d h \<and>
           ((\<exists>st. e = Rollback_service_error Rollback_store_failed st \<and>
               unrecorded (trimRollback raw) x d (serving (rx_current x) False) h) \<or>
            (\<exists>code reason. e = Rollback_service_error code (Some (databaseState (rx_reversibility x))) \<and> failureOf code = Some reason \<and>
               recorded (rq_organizationId raw) d reason h \<and> leavesAt x code (stands (serving (rx_current x) False) h))))))"
  using emits_result [OF performRollback_emits assms] by (auto simp: failsSafe_def breaks_def)

lemma trimResult_completed: "contextRead https s to x h \<Longrightarrow> completed i fp x d r h' \<Longrightarrow> trimResult r = r"
  by (auto simp: contextRead_def completed_def resultOf_def trimResult_def trimContext_def trimSnapshot_def)

text \<open>
  C37. A rollback that was carried out is not carried out again: when the store answers a lookup of
  the replay with the result it was given for that key and fingerprint, the same request, made
  after it has returned, returns the same result after that one lookup and changes nothing.
\<close>

theorem rollback_not_repeated:
  assumes run: "performRollback https hash env newDep raw [] = (Inr r, h)" and carried: "\<not> untouched h"
    and same: "trimRollback again = trimRollback raw"
    and kept: "\<And>s key fp r v. (Complete_replay s key fp r, Some v) \<in> set h \<Longrightarrow> env h (Get_replay s key fp) = Some (Result_reply r)"
  shows "\<exists>c. readsOnly c \<and> performRollback https hash env newDep' again h = (Inr r, h @ [(c, Some (Result_reply r))])"
proof -
  let ?i = "trimRollback raw" let ?fp = "hash ?i" let ?c = "Get_replay (tenantOf ?i) (rq_operationKey ?i) ?fp"
  from carried have "h \<noteq> [(?c, Some (Result_reply v))]" for v by (auto simp: untouched_def readsOnly_def)
  then obtain x d where x: "contextRead https (tenantOf ?i) (rq_toDeploymentId ?i) x h" and c: "completed ?i ?fp x d r h"
    using emits_result [OF performRollback_emits run] by (auto simp: succeeds_def)
  from run have ok: "RollbackRequestSchema raw \<and> is_fingerprint ?fp"
    by (cases "RollbackRequestSchema raw \<and> is_fingerprint ?fp") (auto simp: performRollback_def Let_def throwR_iff)
  have again: "RollbackRequestSchema again" using ok same RollbackRequestSchema_trim by metis
  from c obtain w where "(Complete_replay (tenantOf ?i) (rq_operationKey ?i) ?fp r, Some w) \<in> set h" and r: "RollbackResultSchema r"
    unfolding completed_def by blast
  from kept [OF this(1)] have "env h ?c = Some (Result_reply r)" .
  moreover have "rollbackCallOk https ?c"
    using ok by (auto simp: RollbackRequestSchema_def scopeOk_def tenantOf_def)
  ultimately have "replayed https env ?i ?fp h = (Inr (Some r), h @ [(?c, Some (Result_reply r))])"
    using trimResult_completed [OF x c] r by (simp add: replayed_def catchR_def bindR_def parsedCallR_def awaitR_def pureR_def)
  then have "performRollback https hash env newDep' again h = (Inr r, h @ [(?c, Some (Result_reply r))])"
    using same ok again by (simp add: performRollback_def Let_def bindR_def pureR_def)
  then show ?thesis by (auto simp: readsOnly_def)
qed

text \<open>
  The preview tells what the rollback will do: on the context both read, it says the rollback is
  allowed exactly when the guard of the rollback lets it pass, and names the database state that
  the guard returns or reports.
\<close>

theorem preview_agrees:
  assumes "preview https env s to [] = (Inr p, h)"
  shows "untouched h \<and> (\<exists>x. contextRead https s to x h \<and> pw_currentDeploymentId p = sn_deploymentId (rx_current x) \<and>
    pw_targetDeploymentId p = sn_deploymentId (rx_target x) \<and>
    (case fst (assertDatabaseRollbackAllowed x h) of
       Inr state \<Rightarrow> pw_allowed p \<and> pw_databaseState p = state
     | Inl e \<Rightarrow> \<not> pw_allowed p \<and> (\<exists>code. e = Rollback_service_error code (Some (pw_databaseState p)))))"
proof -
  from assms obtain x where "resolveContext https env s to [] = (Inr x, h)"
    and p: "pw_currentDeploymentId p = sn_deploymentId (rx_current x)" "pw_targetDeploymentId p = sn_deploymentId (rx_target x)"
      "pw_databaseState p = databaseState (rx_reversibility x)" "pw_allowed p \<longleftrightarrow> allowed x"
    by (auto simp: preview_def Let_def bindR_Inr_iff effect_results allowed_def split: if_splits)
  with emits_result [OF resolveContext_emits this(1)] show ?thesis
    by (auto simp: assertDatabaseRollbackAllowed_result pureR_def throwR_def intro!: exI [of _ x])
qed

section \<open>Examples\<close>

text \<open>
  A rollback with an approved compensating plan; the ports answer as the services do, and the
  health verdict is the parameter.
\<close>

definition rollId :: "string \<Rightarrow> char \<Rightarrow> string" where
  "rollId pre c = pre @ ''_'' @ replicate 26 c"

definition sample_request :: rollback_request where
  "sample_request = \<lparr>rq_organizationId = rollId ''org'' CHR ''1'', rq_projectId = rollId ''proj'' CHR ''1'',
     rq_environmentId = rollId ''env'' CHR ''1'', rq_toDeploymentId = Some (rollId ''dep'' CHR ''2''), rq_reason = ''broken'',
     rq_operationKey = ''rollback-1''\<rparr>"

definition sample_snapshot :: "char \<Rightarrow> deployment_snapshot" where
  "sample_snapshot c = \<lparr>sn_deploymentId = rollId ''dep'' c, sn_releaseId = rollId ''rel'' c, sn_commitSha = replicate 40 c,
     sn_providerId = ''vercel'', sn_providerDeploymentId = [c], sn_environmentConfigVersion = ''v'' @ [c], sn_permanentUrl = ''https://app''\<rparr>"

definition sample_rollback :: rollback_context where
  "sample_rollback = \<lparr>rx_current = sample_snapshot CHR ''3'', rx_target = sample_snapshot CHR ''2'', rx_reversibility = Compensating,
     rx_compensatingPlan = Some \<lparr>cm_planId = ''plan'', cm_approvalRecordId = ''approval'', cm_approved = True,
       cm_evidenceArtifactId = rollId ''art'' CHR ''4''\<rparr>\<rparr>"

fun keptReplay :: "rollback_entry list \<Rightarrow> rollback_reply option" where
  "keptReplay [] = Some Undefined_reply"
| "keptReplay ((Complete_replay s key fp r, Some v) # h) = Some (Result_reply r)"
| "keptReplay (e # h) = keptReplay h"

fun sample_services :: "bool \<Rightarrow> rollback_ports" where
  "sample_services healthy h (Get_replay s key fp) = keptReplay h"
| "sample_services healthy h (Resolve_context s to) = Some (Context_reply sample_rollback)"
| "sample_services healthy h (Create_rollback k s d t current) = Some (Created_reply d)"
| "sample_services healthy h (Restore_config k s d version) = Some (Version_reply version)"
| "sample_services healthy h (Apply_compensation k s d plan approval evidence) = Some (Applied_reply plan approval evidence)"
| "sample_services healthy h (Provider_rollback k provider proj environment to reason) =
     Some (Handle_reply \<lparr>hd_providerId = provider, hd_providerDeploymentId = to, hd_state = Handle_ready\<rparr>)"
| "sample_services healthy h (Verify_health k s d provider t current) =
     Some (Health_reply \<lparr>hh_healthy = healthy, hh_evidenceArtifactId = rollId ''art'' CHR ''5'', hh_automaticRollbackAttempted = False\<rparr>)"
| "sample_services healthy h _ = Some Undefined_reply"

definition sample_rolled :: "bool \<Rightarrow> (rollback_error + rollback_result) \<times> rollback_entry list" where
  "sample_rolled healthy =
     performRollback (\<lambda>_. True) (\<lambda>_. replicate 64 CHR ''a'') (sample_services healthy) (rollId ''dep'' CHR ''6'') sample_request []"

lemma list_all_replicate: "list_all P (replicate n c) \<longleftrightarrow> n = 0 \<or> P c"
  by (auto simp: list_all_iff)

lemmas rollback_simps = list_all_replicate sample_rolled_def performRollback_def RollbackRequestSchema_def sample_request_def trimRollback_def
  is_fingerprint_def rollId_def idSchema_def is_ulid_char_def is_digit_def is_hex_def textOf_def sized_def trim_def is_space_def
  Let_def bindR_def pureR_def catchR_def throwR_def parsedCallR_def awaitR_def replayed_def scopeOk_def tenantOf_def resolveContext_def
  sample_rollback_def sample_snapshot_def RollbackContextSchema_def SnapshotSchema_def CompensatingPlanSchema_def CommitShaSchema_def
  trimContext_def trimSnapshot_def trimCompensation_def assertDatabaseRollbackAllowed_def compensationApproved_def createDeployment_def
  carryOut_def restoreTarget_def restoreConfig_def rollbackKey_def keyOk_def compensate_def applyCompensation_def switchTarget_def
  switchProvider_def verifyHealth_def askHealth_def finish_def stored_def resultOf_def RollbackResultSchema_def healthFailed_def recoverCurrent_def
  failRollback_def markFailed_def

lemma sample_healthy:
  "\<exists>r h. sample_rolled True = (Inr r, h) \<and> map readsOnly (map fst h) = [True, True, False, False, False, False, False, False, False] \<and>
     list_all (\<lambda>(c, v). \<forall>s key fp q. c = Complete_replay s key fp q \<longrightarrow> keptReplay h = Some (Result_reply q)) h"
  by (simp add: rollback_simps readsOnly_def)

lemma sample_unhealthy:
  "\<exists>h. sample_rolled False = (Inl (Rollback_service_error Rollback_health_failed (Some Requires_compensation)), h) \<and>
     (\<forall>x. contextRead (\<lambda>_. True) s to x h \<longrightarrow> x = sample_rollback)"
  by (simp add: rollback_simps contextRead_def)

theorem rollback_completes_witness:
  "\<exists>r h x d. sample_rolled True = (Inr r, h) \<and> allowed x \<and>
     completed (trimRollback sample_request) (replicate 64 CHR ''a'') x d r h"
proof -
  obtain r h where run: "sample_rolled True = (Inr r, h)"
    and calls: "map readsOnly (map fst h) = [True, True, False, False, False, False, False, False, False]"
    using sample_healthy by (elim exE conjE)
  from rollback_completes [OF run [unfolded sample_rolled_def]] calls run show ?thesis by auto
qed

theorem rollback_failure_recovers_witness:
  "\<exists>h d. sample_rolled False = (Inl (Rollback_service_error Rollback_health_failed (Some Requires_compensation)), h) \<and>
     recorded (rollId ''org'' CHR ''1'') d Rollback_health_failure h \<and>
     stands (serving (sample_snapshot CHR ''3'') False) h = serving (sample_snapshot CHR ''3'') True"
proof -
  obtain h where run: "sample_rolled False = (Inl (Rollback_service_error Rollback_health_failed (Some Requires_compensation)), h)"
    and ctx: "\<And>x. contextRead (\<lambda>_. True) (tenantOf sample_request) (rq_toDeploymentId sample_request) x h \<Longrightarrow> x = sample_rollback"
    using sample_unhealthy by blast
  have "rx_current sample_rollback = sample_snapshot CHR ''3''" "needsCompensation sample_rollback"
    "rq_organizationId sample_request = rollId ''org'' CHR ''1''"
    by (simp_all add: sample_rollback_def sample_snapshot_def sample_request_def)
  with rollback_failure_recovers [OF run [unfolded sample_rolled_def]] run show ?thesis
    by (auto dest!: ctx)
qed

theorem rollback_not_repeated_witness:
  "\<exists>r h c. sample_rolled True = (Inr r, h) \<and> readsOnly c \<and>
     performRollback (\<lambda>_. True) (\<lambda>_. replicate 64 CHR ''a'') (sample_services True) (rollId ''dep'' CHR ''7'') sample_request h =
       (Inr r, h @ [(c, Some (Result_reply r))])"
proof -
  obtain r h where run: "sample_rolled True = (Inr r, h)"
    and calls: "map readsOnly (map fst h) = [True, True, False, False, False, False, False, False, False]"
    and kept: "list_all (\<lambda>(c, v). \<forall>s key fp q. c = Complete_replay s key fp q \<longrightarrow> keptReplay h = Some (Result_reply q)) h"
    using sample_healthy by (elim exE conjE)
  have carried: "\<not> untouched h"
  proof
    assume "untouched h"
    then have "list_all id (map readsOnly (map fst h))" by (induction h) (auto simp: untouched_def)
    then show False unfolding calls by simp
  qed
  have store: "sample_services True h (Get_replay s key fp) = Some (Result_reply q)" if "(Complete_replay s key fp q, Some v) \<in> set h" for s key fp q v
    using bspec [OF iffD1 [OF list_all_iff kept] that] by (cases s) simp
  have "\<exists>c. readsOnly c \<and> performRollback (\<lambda>_. True) (\<lambda>_. replicate 64 CHR ''a'') (sample_services True) (rollId ''dep'' CHR ''7'') sample_request h =
      (Inr r, h @ [(c, Some (Result_reply r))])"
    by (rule rollback_not_repeated [OF run [unfolded sample_rolled_def] carried refl]) (rule store)
  with run show ?thesis by blast
qed

theorem preview_agrees_witness:
  "\<exists>p h. preview (\<lambda>_. True) (sample_services True) (tenantOf sample_request) None [] = (Inr p, h) \<and> pw_allowed p \<and> untouched h"
proof -
  obtain p h where run: "preview (\<lambda>_. True) (sample_services True) (tenantOf sample_request) None [] = (Inr p, h)" and "pw_allowed p"
    by (auto simp: preview_def rollback_simps)
  with preview_agrees [OF run] show ?thesis by blast
qed

text \<open>
  A store that does not record the healthy deployment leaves the target in place with no failure
  recorded; the call can be made again under its operation key.
\<close>

fun forgetful_services :: rollback_ports where
  "forgetful_services h (Mark_healthy k org d provider url ev) = None"
| "forgetful_services h c = sample_services True h c"

lemma healthy_unrecorded:
  "\<exists>h. performRollback (\<lambda>_. True) (\<lambda>_. replicate 64 CHR ''a'') forgetful_services (rollId ''dep'' CHR ''6'') sample_request [] =
       (Inl (Rollback_service_error Rollback_store_failed (Some Requires_compensation)), h) \<and>
     stands (serving (sample_snapshot CHR ''3'') False) h = switchedTo sample_rollback (rollId ''art'' CHR ''5'') \<and>
     list_all (\<lambda>(c, r). \<forall>k org d reason ev. c \<noteq> Mark_failed k org d reason ev) h"
  by (simp add: rollback_simps serving_def switchedTo_def observe_def)

text \<open>
  Recovery covers the configuration and the provider, not the database: when health fails after the
  compensating plan was applied, the current deployment is live again on a compensated database.
\<close>

lemma compensation_not_undone:
  "stands (serving (sample_snapshot CHR ''3'') False) (snd (sample_rolled False)) =
     \<lparr>st_config = Some ''v3'', st_live = Some ''3'', st_compensated = Some True, st_verified = None\<rparr>"
  by (simp add: rollback_simps serving_def observe_def)

end
