(* ===== verification/Deployment_Types.thy ===== *)
theory Deployment_Types
  imports Release_Records Readiness Rollback
begin

text \<open>
  The types of a deployment (\<open>services/release-service/src/release/types.ts\<close>): how a deployment is
  classified against the history of its environment, which confirmation it needs, and the summary
  of its effects a user confirms.  \<open>Date.parse\<close> is a parameter (\<open>instant\<close>).
\<close>

section \<open>Classification\<close>

record history_entry =
  he_environmentId :: string
  he_projectId :: string
  he_repositoryLineageId :: string
  he_deployedAt :: string

record deployment_target =
  dt_environmentId :: string
  dt_projectId :: string
  dt_repositoryLineageId :: string
  dt_explicitUserRetarget :: bool

definition DeploymentHistoryEntrySchema :: "(string \<Rightarrow> bool) \<Rightarrow> history_entry \<Rightarrow> bool" where
  "DeploymentHistoryEntrySchema datetime e \<longleftrightarrow>
     idSchema ''env'' (he_environmentId e) \<and> idSchema ''proj'' (he_projectId e) \<and> textOf 1 512 (he_repositoryLineageId e) \<and>
     datetime (he_deployedAt e)"

definition DeploymentTargetSchema :: "deployment_target \<Rightarrow> bool" where
  "DeploymentTargetSchema t \<longleftrightarrow>
     idSchema ''env'' (dt_environmentId t) \<and> idSchema ''proj'' (dt_projectId t) \<and> textOf 1 512 (dt_repositoryLineageId t)"

datatype type_error = Invalid_input | Data_disposition_required | Data_disposition_not_applicable | Invalid_summary

text \<open>The latest deployment first; the sort is stable, so the first of several equally late ones.\<close>

definition latestOf :: "(string \<Rightarrow> int) \<Rightarrow> history_entry list \<Rightarrow> string \<Rightarrow> history_entry option" where
  "latestOf instant history environment =
     (case foldr (insertBy (\<lambda>l r. instant (he_deployedAt r) \<le> instant (he_deployedAt l)))
             (filter (\<lambda>e. he_environmentId e = environment) history) [] of
        [] \<Rightarrow> None
      | e # _ \<Rightarrow> Some e)"

definition classifyDeploymentType ::
    "(string \<Rightarrow> bool) \<Rightarrow> (string \<Rightarrow> int) \<Rightarrow> history_entry list \<Rightarrow> deployment_target \<Rightarrow> type_error + release_kind" where
  "classifyDeploymentType datetime instant history t =
     (if \<not> (list_all (DeploymentHistoryEntrySchema datetime) history \<and> length history \<le> 10000 \<and> DeploymentTargetSchema t) then Inl Invalid_input
      else (case latestOf instant history (dt_environmentId t) of
          None \<Rightarrow> Inr First_deploy
        | Some latest \<Rightarrow>
            if dt_explicitUserRetarget t \<or> he_projectId latest \<noteq> dt_projectId t \<or>
               trim (he_repositoryLineageId latest) \<noteq> trim (dt_repositoryLineageId t)
            then Inr Replace_deployment
            else Inr Redeploy))"

section \<open>Confirmation\<close>

definition validateDeploymentConfirmation ::
    "release_kind \<Rightarrow> release_disposition option \<Rightarrow> type_error + release_kind \<times> release_disposition option" where
  "validateDeploymentConfirmation kind disposition =
     (if kind = Replace_deployment \<and> disposition = None then Inl Data_disposition_required
      else if kind \<noteq> Replace_deployment \<and> disposition \<noteq> None then Inl Data_disposition_not_applicable
      else Inr (kind, disposition))"

section \<open>The summary\<close>

datatype url_effect = Url_created | Url_preserved | Url_changed
datatype user_effect = Brief_interruption | Zero_downtime

record summary_input =
  su_deploymentType :: release_kind
  su_dataDisposition :: "release_disposition option"
  su_migrations :: nat
  su_reversibility :: reversibility
  su_addedNames :: "string list"
  su_changedNames :: "string list"
  su_removedNames :: "string list"
  su_urlEffect :: url_effect
  su_activeUserEffect :: user_effect

record confirmation_summary =
  cs_deploymentType :: release_kind
  cs_title :: string
  cs_requiresExplicitDataDisposition :: bool
  cs_productionData :: string
  cs_secrets :: string
  cs_url :: string
  cs_activeUsers :: string

definition SecretChangesSchema :: "summary_input \<Rightarrow> bool" where
  "SecretChangesSchema i \<longleftrightarrow>
     list_all (\<lambda>names. list_all EnvironmentNameSchema names \<and> length names \<le> 1000) [su_addedNames i, su_changedNames i, su_removedNames i] \<and>
     distinct (su_addedNames i @ su_changedNames i @ su_removedNames i)"

definition DeploymentConfirmationSummaryInputSchema :: "summary_input \<Rightarrow> bool" where
  "DeploymentConfirmationSummaryInputSchema i \<longleftrightarrow>
     su_migrations i \<le> 10000 \<and> SecretChangesSchema i \<and>
     \<not> (su_deploymentType i \<noteq> Replace_deployment \<and> su_dataDisposition i \<noteq> None)"

fun TITLES :: "release_kind \<Rightarrow> string" where
  "TITLES First_deploy = ''First deploy''"
| "TITLES Redeploy = ''Redeploy''"
| "TITLES Replace_deployment = ''Replace deployment''"

fun URL_EFFECTS :: "url_effect \<Rightarrow> string" where
  "URL_EFFECTS Url_created = ''Production URL: a new permanent URL will be created.''"
| "URL_EFFECTS Url_preserved = ''Production URL: preserved.''"
| "URL_EFFECTS Url_changed = ''Production URL: changed.''"

fun ACTIVE_USER_EFFECTS :: "user_effect \<Rightarrow> string" where
  "ACTIVE_USER_EFFECTS Zero_downtime = ''Active users: zero downtime. Traffic switches only after health checks pass.''"
| "ACTIVE_USER_EFFECTS Brief_interruption = ''Active users: a brief interruption is expected while the provider switches traffic.''"

fun reversibility_name :: "reversibility \<Rightarrow> string" where
  "reversibility_name Reversible = ''reversible''"
| "reversibility_name Compensating = ''compensating''"
| "reversibility_name Unavailable = ''unavailable''"

definition migrationEffect :: "summary_input \<Rightarrow> string" where
  "migrationEffect i =
     (if su_deploymentType i = Replace_deployment \<and> su_dataDisposition i = None
      then ''Production data: select Preserve, Transfer, or Reset. No choice will be inferred.''
      else if su_dataDisposition i = Some Reset
      then ''Production data: reset. This destructive choice requires explicit selection.''
      else if su_migrations i = 0
      then (if su_dataDisposition i = Some Transfer
            then ''Production data: transferred to the replacement deployment. No migrations will run.''
            else ''Production data: preserved. No migrations will run.'')
      else
        let noun = (if su_migrations i = 1 then ''migration'' else ''migrations'');
            tail = decimal (su_migrations i) @ '' '' @ noun @ ''. Reversibility: '' @ reversibility_name (su_reversibility i) @ ''.'' in
        if su_dataDisposition i = Some Transfer then ''Production data: migrated to the replacement deployment by '' @ tail
        else if su_dataDisposition i = Some Preserve then ''Production data: preserved and migrated in place by '' @ tail
        else ''Production data: migrated by '' @ tail)"

definition listNames :: "string list \<Rightarrow> string" where
  "listNames names = (if names = [] then ''none'' else join '', '' (foldr (insertBy codeUnitLe) names []))"

definition secretEffect :: "summary_input \<Rightarrow> string" where
  "secretEffect i =
     ''Secrets: added '' @ listNames (su_addedNames i) @ ''; changed '' @ listNames (su_changedNames i) @ ''; removed '' @
     listNames (su_removedNames i) @ ''.''"

definition DeploymentConfirmationSummarySchema :: "confirmation_summary \<Rightarrow> bool" where
  "DeploymentConfirmationSummarySchema s \<longleftrightarrow>
     textOf 1 2000 (cs_productionData s) \<and> textOf 1 10000 (cs_secrets s) \<and> textOf 1 2000 (cs_url s) \<and> textOf 1 2000 (cs_activeUsers s)"

definition createDeploymentConfirmationSummary :: "summary_input \<Rightarrow> type_error + confirmation_summary" where
  "createDeploymentConfirmationSummary i =
     (if \<not> DeploymentConfirmationSummaryInputSchema i then Inl Invalid_input
      else
        let s = \<lparr>cs_deploymentType = su_deploymentType i, cs_title = TITLES (su_deploymentType i),
               cs_requiresExplicitDataDisposition = (su_deploymentType i = Replace_deployment), cs_productionData = trim (migrationEffect i),
               cs_secrets = trim (secretEffect i), cs_url = trim (URL_EFFECTS (su_urlEffect i)),
               cs_activeUsers = trim (ACTIVE_USER_EFFECTS (su_activeUserEffect i))\<rparr>
        in if DeploymentConfirmationSummarySchema s then Inr s else Inl Invalid_summary)"

section \<open>Lemmas\<close>

lemma insertBy_head:
  assumes "\<And>a b. le a b \<or> le b a" "\<And>a b c. le a b \<Longrightarrow> le b c \<Longrightarrow> le a c"
    and "ys = [] \<or> (\<forall>y \<in> set ys. le (hd ys) y)"
  shows "\<forall>y \<in> set (insertBy le x ys). le (hd (insertBy le x ys)) y"
  using assms(3) assms(1) [of x] assms(1) [of x x] by (cases ys) (auto dest: assms(2))

lemma sorted_head:
  assumes "\<And>a b. le a b \<or> le b a" "\<And>a b c. le a b \<Longrightarrow> le b c \<Longrightarrow> le a c"
  shows "\<forall>x \<in> set xs. le (hd (foldr (insertBy le) xs [])) x"
proof -
  have "\<forall>x \<in> set (foldr (insertBy le) xs []). le (hd (foldr (insertBy le) xs [])) x"
  proof (induction xs)
    case (Cons x xs)
    then show ?case using insertBy_head [where le = le and x = x and ys = "foldr (insertBy le) xs []"] assms by simp
  qed simp
  then show ?thesis by (simp add: sorted_facts(1))
qed

lemma latestOf_facts:
  shows "latestOf instant history environment = None \<longleftrightarrow> (\<forall>e \<in> set history. he_environmentId e \<noteq> environment)"
    and "latestOf instant history environment = Some l \<Longrightarrow>
      l \<in> set history \<and> he_environmentId l = environment \<and>
      (\<forall>e \<in> set history. he_environmentId e = environment \<longrightarrow> instant (he_deployedAt e) \<le> instant (he_deployedAt l))"
proof -
  let ?le = "\<lambda>l r. instant (he_deployedAt r) \<le> instant (he_deployedAt l)"
  let ?here = "filter (\<lambda>e. he_environmentId e = environment) history"
  let ?sorted = "foldr (insertBy ?le) ?here []"
  have same: "set ?sorted = set ?here" "length ?sorted = length ?here" by (rule sorted_facts)+
  have head: "\<forall>x \<in> set ?here. ?le (hd ?sorted) x" by (rule sorted_head) auto
  have "?sorted = [] \<longleftrightarrow> ?here = []" using same(2) by (metis length_0_conv)
  then show "latestOf instant history environment = None \<longleftrightarrow> (\<forall>e \<in> set history. he_environmentId e \<noteq> environment)"
    by (auto simp: latestOf_def filter_empty_conv split: list.splits)
  assume "latestOf instant history environment = Some l"
  then obtain rest where "?sorted = l # rest" by (auto simp: latestOf_def split: list.splits)
  then show "l \<in> set history \<and> he_environmentId l = environment \<and>
      (\<forall>e \<in> set history. he_environmentId e = environment \<longrightarrow> instant (he_deployedAt e) \<le> instant (he_deployedAt l))"
    using same(1) head by auto
qed

text \<open>
  A valid target is a first deployment exactly when its environment has no history; otherwise some
  latest deployment of that environment decides: it is a redeployment when that one is of the same
  project and repository lineage and the user has not retargeted, and a replacement otherwise.
\<close>

lemma classify_by_latest:
  assumes "list_all (DeploymentHistoryEntrySchema datetime) history" "length history \<le> 10000" "DeploymentTargetSchema t"
  shows "if \<forall>e \<in> set history. he_environmentId e \<noteq> dt_environmentId t then classifyDeploymentType datetime instant history t = Inr First_deploy
    else \<exists>l \<in> set history. he_environmentId l = dt_environmentId t \<and>
      (\<forall>e \<in> set history. he_environmentId e = dt_environmentId t \<longrightarrow> instant (he_deployedAt e) \<le> instant (he_deployedAt l)) \<and>
      classifyDeploymentType datetime instant history t =
        Inr (if \<not> dt_explicitUserRetarget t \<and> he_projectId l = dt_projectId t \<and> trim (he_repositoryLineageId l) = trim (dt_repositoryLineageId t)
             then Redeploy else Replace_deployment)"
  using latestOf_facts(1) [of instant history "dt_environmentId t"] latestOf_facts(2) [of instant history "dt_environmentId t"] assms
  by (cases "latestOf instant history (dt_environmentId t)") (auto simp: classifyDeploymentType_def)

text \<open>
  The summary of an accepted input is returned exactly when the list of changed secrets fits its
  limit; the limits of the input do not imply that.
\<close>

lemma decimal_length: "n < 10 ^ Suc k \<Longrightarrow> length (decimal n) \<le> Suc k"
proof (induction k arbitrary: n)
  case (Suc k)
  then show ?case
  proof (cases "n < 10")
    case False
    have "n div 10 < 10 ^ Suc k" using Suc.prems by (simp add: less_mult_imp_div_less)
    from Suc.IH [OF this] False show ?thesis by (subst decimal.simps) simp
  qed (subst decimal.simps, simp)
qed (subst decimal.simps, simp)

lemma short_effects:
  "su_migrations i \<le> 10000 \<Longrightarrow> textOf 1 2000 (migrationEffect i)" "textOf 1 2000 (URL_EFFECTS u)" "textOf 1 2000 (ACTIVE_USER_EFFECTS a)"
proof -
  show "textOf 1 2000 (URL_EFFECTS u)" by (cases u) (simp_all add: textOf_word is_space_def)
  show "textOf 1 2000 (ACTIVE_USER_EFFECTS a)" by (cases a) (simp_all add: textOf_word is_space_def)
  assume "su_migrations i \<le> 10000"
  then have n: "length (decimal (su_migrations i)) \<le> 5" using decimal_length [of "su_migrations i" 4] by simp
  have r: "length (reversibility_name (su_reversibility i)) \<le> 12" by (cases "su_reversibility i") auto
  show "textOf 1 2000 (migrationEffect i)"
    unfolding migrationEffect_def Let_def using n r by (auto simp: textOf_word is_space_def)
qed

lemma summary_returns_iff:
  assumes "DeploymentConfirmationSummaryInputSchema i"
  shows "(\<exists>s. createDeploymentConfirmationSummary i = Inr s) \<longleftrightarrow> length (secretEffect i) \<le> 10000"
proof -
  have "trim (secretEffect i) = secretEffect i" by (rule trim_ends) (simp_all add: secretEffect_def is_space_def)
  then have "textOf 1 10000 (secretEffect i) \<longleftrightarrow> length (secretEffect i) \<le> 10000"
    by (simp add: textOf_def sized_def) (simp add: secretEffect_def)
  then show ?thesis
    using assms short_effects
    by (simp add: createDeploymentConfirmationSummary_def Let_def DeploymentConfirmationSummarySchema_def DeploymentConfirmationSummaryInputSchema_def)
qed

definition many_names :: "string list" where
  "many_names = map (\<lambda>n. replicate n CHR ''A'') [100..<256]"

definition many_secrets :: summary_input where
  "many_secrets = \<lparr>su_deploymentType = First_deploy, su_dataDisposition = None, su_migrations = 0, su_reversibility = Reversible,
     su_addedNames = many_names, su_changedNames = [], su_removedNames = [], su_urlEffect = Url_created,
     su_activeUserEffect = Zero_downtime\<rparr>"

lemma join_length: "\<forall>x \<in> set xs. m \<le> length x \<Longrightarrow> m * length xs \<le> length (join sep xs)"
  by (induction sep xs rule: join.induct) auto

lemma many_secrets_refused:
  "DeploymentConfirmationSummaryInputSchema many_secrets \<and> \<not> (\<exists>s. createDeploymentConfirmationSummary many_secrets = Inr s)"
proof
  have "EnvironmentNameSchema (replicate n CHR ''A'')" if "n \<in> {100..<256}" for n
    using that by (cases n) (auto simp: EnvironmentNameSchema_def sized_def is_upper_def list_all_iff)
  then have "list_all EnvironmentNameSchema many_names" by (auto simp: list_all_iff many_names_def simp del: upt_rec_numeral)
  moreover have "distinct many_names" by (auto simp: many_names_def distinct_map inj_on_def simp del: upt_rec_numeral dest: arg_cong [of _ _ length])
  moreover have names: "length many_names = 156" "\<forall>s \<in> set many_names. 100 \<le> length s"
    by (auto simp: many_names_def simp del: upt_rec_numeral)
  ultimately show valid: "DeploymentConfirmationSummaryInputSchema many_secrets"
    by (simp add: DeploymentConfirmationSummaryInputSchema_def SecretChangesSchema_def many_secrets_def)
  have "100 * length (foldr (insertBy codeUnitLe) many_names []) \<le> length (join '', '' (foldr (insertBy codeUnitLe) many_names []))"
    by (rule join_length) (simp add: sorted_facts(1) names(2))
  moreover have "many_names \<noteq> []" using names(1) by auto
  ultimately have "\<not> length (secretEffect many_secrets) \<le> 10000"
    by (simp add: secretEffect_def many_secrets_def listNames_def sorted_facts(2) names(1))
  then show "\<not> (\<exists>s. createDeploymentConfirmationSummary many_secrets = Inr s)"
    using summary_returns_iff [OF valid] by blast
qed

end
