(* ===== verification/Idempotency.thy ===== *)
theory Idempotency
  imports Js_Value Identifiers "HOL-Library.Multiset"
begin

text \<open>
  Idempotent replay of mutating requests (\<open>services/control-api/src/plugins/idempotency.ts\<close>): a
  request with an \<open>Idempotency-Key\<close> reserves it, the handler runs, and its response is stored and
  replayed.  The two stores implement one interface, which the hooks use; the server is a step
  relation in which requests arrive, answer and die in any order, and calls of the store may fail.
  SHA-256 (\<open>hash\<close>), the rendering of scalars by \<open>JSON.stringify\<close> (\<open>scalar\<close>) and the instant at which
  Redis drops a key whose deadline has come (\<open>gone\<close>) are parameters.  Times are milliseconds.
\<close>

section \<open>Entries\<close>

definition RESERVATION_TTL_MS :: int where "RESERVATION_TTL_MS = 60000"
definition RECORD_TTL_MS :: int where "RECORD_TTL_MS = 24 * 60 * 60 * 1000"
definition MAX_STORED_BODY_BYTES :: nat where "MAX_STORED_BODY_BYTES = 64 * 1024"

record stored_response =
  sr_statusCode :: nat
  sr_body :: string
  sr_contentType :: "string option"

datatype idempotency_entry = Pending string | Completed string stored_response

text \<open>The interface of a store; the first argument is the time of the call.\<close>

record 's idempotency_store =
  reserveOp :: "int \<Rightarrow> string \<Rightarrow> string \<Rightarrow> int \<Rightarrow> 's \<Rightarrow> idempotency_entry option \<times> 's"
  completeOp :: "int \<Rightarrow> string \<Rightarrow> string \<Rightarrow> stored_response \<Rightarrow> int \<Rightarrow> 's \<Rightarrow> 's"
  releaseOp :: "int \<Rightarrow> string \<Rightarrow> 's \<Rightarrow> 's"

section \<open>The store on Redis\<close>

text \<open>
  Hashes with a deadline, and the commands the scripts use, as Redis documents them: a key whose
  deadline has passed does not exist.
\<close>

type_synonym redis = "string \<rightharpoonup> (string \<rightharpoonup> string) \<times> int option"

definition found :: "(int \<Rightarrow> int \<Rightarrow> bool) \<Rightarrow> int \<Rightarrow> redis \<Rightarrow> string \<Rightarrow> (string \<rightharpoonup> string) option" where
  "found gone now db key =
     (case db key of
        None \<Rightarrow> None
      | Some (h, None) \<Rightarrow> Some h
      | Some (h, Some deadline) \<Rightarrow> if gone now deadline then None else Some h)"

definition HMGET :: "(int \<Rightarrow> int \<Rightarrow> bool) \<Rightarrow> int \<Rightarrow> redis \<Rightarrow> string \<Rightarrow> string list \<Rightarrow> string option list" where
  "HMGET gone now db key names = map (\<lambda>f. case found gone now db key of None \<Rightarrow> None | Some h \<Rightarrow> h f) names"

definition HSET :: "(int \<Rightarrow> int \<Rightarrow> bool) \<Rightarrow> int \<Rightarrow> string \<Rightarrow> (string \<times> string) list \<Rightarrow> redis \<Rightarrow> redis" where
  "HSET gone now key assigns db =
     db(key \<mapsto> (case found gone now db key of
                None \<Rightarrow> (map_of assigns, None)
              | Some h \<Rightarrow> (h ++ map_of assigns, snd (the (db key)))))"

definition PEXPIRE :: "int \<Rightarrow> string \<Rightarrow> int \<Rightarrow> redis \<Rightarrow> redis" where
  "PEXPIRE now key ms db = (case db key of None \<Rightarrow> db | Some (h, _) \<Rightarrow> db(key \<mapsto> (h, Some (now + ms))))"

text \<open>The scripts; Redis runs each without interruption.  \<open>RESERVE\<close> returns \<open>None\<close> for \<open>false\<close>.\<close>

definition RESERVE :: "(int \<Rightarrow> int \<Rightarrow> bool) \<Rightarrow> int \<Rightarrow> string \<Rightarrow> string \<Rightarrow> int \<Rightarrow> redis \<Rightarrow> string option list option \<times> redis" where
  "RESERVE gone now key fingerprint ttl db =
     (if found gone now db key \<noteq> None
      then (Some (HMGET gone now db key [''state'', ''fingerprint'', ''status'', ''body'', ''contentType'']), db)
      else (None, PEXPIRE now key ttl (HSET gone now key [(''state'', ''pending''), (''fingerprint'', fingerprint)] db)))"

definition COMPLETE :: "(int \<Rightarrow> int \<Rightarrow> bool) \<Rightarrow> int \<Rightarrow> string \<Rightarrow> string \<Rightarrow> string \<Rightarrow> string \<Rightarrow> string \<Rightarrow> int \<Rightarrow> redis \<Rightarrow> redis" where
  "COMPLETE gone now key fingerprint status body contentType ttl db =
     PEXPIRE now key ttl (HSET gone now key
       [(''state'', ''completed''), (''fingerprint'', fingerprint), (''status'', status), (''body'', body), (''contentType'', contentType)] db)"

definition RELEASE :: "(int \<Rightarrow> int \<Rightarrow> bool) \<Rightarrow> int \<Rightarrow> string \<Rightarrow> redis \<Rightarrow> redis" where
  "RELEASE gone now key db =
     (if HMGET gone now db key [''state''] = [Some ''pending''] then db(key := None) else db)"

definition parseEntry :: "string option list option \<Rightarrow> idempotency_entry option" where
  "parseEntry reply =
     (case reply of
        Some [state, Some fingerprint, status, body, contentType] \<Rightarrow>
          (case (state, status, body) of
             (Some st, Some code, Some b) \<Rightarrow>
               if st = ''completed''
               then Some (Completed fingerprint \<lparr>sr_statusCode = readDecimal code, sr_body = b, sr_contentType = contentType\<rparr>)
               else Some (Pending fingerprint)
           | _ \<Rightarrow> Some (Pending fingerprint))
      | _ \<Rightarrow> None)"

definition createRedisIdempotencyStore :: "(int \<Rightarrow> int \<Rightarrow> bool) \<Rightarrow> redis idempotency_store" where
  "createRedisIdempotencyStore gone =
     \<lparr>reserveOp = (\<lambda>now key fp ttl db. case RESERVE gone now key fp ttl db of (reply, db') \<Rightarrow> (parseEntry reply, db')),
      completeOp = (\<lambda>now key fp r ttl db.
        COMPLETE gone now key fp (decimal (sr_statusCode r)) (sr_body r) (case sr_contentType r of None \<Rightarrow> '''' | Some c \<Rightarrow> c) ttl db),
      releaseOp = RELEASE gone\<rparr>"

section \<open>The store in memory\<close>

type_synonym memory = "string \<rightharpoonup> idempotency_entry \<times> int"

definition liveEntry :: "int \<Rightarrow> string \<Rightarrow> memory \<Rightarrow> (idempotency_entry \<times> int) option \<times> memory" where
  "liveEntry now key entries =
     (case entries key of
        None \<Rightarrow> (None, entries)
      | Some (e, expiresAt) \<Rightarrow> if expiresAt \<le> now then (None, entries(key := None)) else (Some (e, expiresAt), entries))"

definition createInMemoryIdempotencyStore :: "memory idempotency_store" where
  "createInMemoryIdempotencyStore =
     \<lparr>reserveOp = (\<lambda>now key fp ttl entries.
        case liveEntry now key entries of
          (Some (e, _), entries') \<Rightarrow> (Some e, entries')
        | (None, entries') \<Rightarrow> (None, entries'(key \<mapsto> (Pending fp, now + ttl)))),
      completeOp = (\<lambda>now key fp r ttl entries. entries(key \<mapsto> (Completed fp r, now + ttl))),
      releaseOp = (\<lambda>now key entries.
        case liveEntry now key entries of
          (Some (Pending fp, _), entries') \<Rightarrow> entries'(key := None)
        | (_, entries') \<Rightarrow> entries')\<rparr>"

section \<open>What the hooks rely on\<close>

text \<open>
  The contract of a store: what it holds at a time (\<open>look\<close>).  A reservation returns what was there,
  or reserves the key until its deadline; completing a key keeps the response, up to what a replay
  does not send (\<open>keep\<close>); releasing removes a reservation only.
\<close>

definition replayHeader :: "stored_response \<Rightarrow> string option" where
  "replayHeader r = (case sr_contentType r of Some c \<Rightarrow> if c = '''' then None else Some c | None \<Rightarrow> None)"

definition sameReplay :: "stored_response \<Rightarrow> stored_response \<Rightarrow> bool" where
  "sameReplay r r' \<longleftrightarrow> sr_statusCode r = sr_statusCode r' \<and> sr_body r = sr_body r' \<and> replayHeader r = replayHeader r'"

locale replay_store =
  fixes ops :: "'s idempotency_store" and wf :: "'s \<Rightarrow> bool" and look :: "int \<Rightarrow> 's \<Rightarrow> string \<Rightarrow> idempotency_entry option"
    and keep :: "stored_response \<Rightarrow> stored_response" and alive :: "int \<Rightarrow> int \<Rightarrow> bool"
  assumes alive_before: "t < deadline \<Longrightarrow> alive t deadline"
    and keep_replay: "sameReplay (keep r) r"
    and reserve_wf: "wf s \<Longrightarrow> wf (snd (reserveOp ops now key fp ttl s))"
    and complete_wf: "wf s \<Longrightarrow> wf (completeOp ops now key fp r ttl s)"
    and release_wf: "wf s \<Longrightarrow> wf (releaseOp ops now key s)"
    and reserve_returns: "wf s \<Longrightarrow> fst (reserveOp ops now key fp ttl s) = look now s key"
    and reserve_look: "wf s \<Longrightarrow> now \<le> t \<Longrightarrow>
      look t (snd (reserveOp ops now key fp ttl s)) k =
        (if k = key \<and> look now s key = None then if alive t (now + ttl) then Some (Pending fp) else None else look t s k)"
    and complete_look: "wf s \<Longrightarrow> now \<le> t \<Longrightarrow>
      look t (completeOp ops now key fp r ttl s) k =
        (if k = key then if alive t (now + ttl) then Some (Completed fp (keep r)) else None else look t s k)"
    and release_look: "wf s \<Longrightarrow> now \<le> t \<Longrightarrow>
      look t (releaseOp ops now key s) k =
        (if k = key \<and> (\<exists>fp. look now s key = Some (Pending fp)) then None else look t s k)"
begin

end

definition lookMemory :: "int \<Rightarrow> memory \<Rightarrow> string \<Rightarrow> idempotency_entry option" where
  "lookMemory t entries key = (case entries key of None \<Rightarrow> None | Some (e, expiresAt) \<Rightarrow> if expiresAt \<le> t then None else Some e)"

interpretation inMemory: replay_store createInMemoryIdempotencyStore "\<lambda>_. True" lookMemory id "\<lambda>t deadline. t < deadline"
  by unfold_locales
    (auto simp: createInMemoryIdempotencyStore_def lookMemory_def liveEntry_def sameReplay_def split: option.splits prod.splits idempotency_entry.splits)

text \<open>On Redis, for every choice of the instant at which an expired key is dropped.\<close>

locale redis_expiry =
  fixes gone :: "int \<Rightarrow> int \<Rightarrow> bool"
  assumes kept_before: "t < deadline \<Longrightarrow> \<not> gone t deadline"
begin

end

definition hashEntry :: "(string \<rightharpoonup> string) \<Rightarrow> idempotency_entry option" where
  "hashEntry h = parseEntry (Some (map h [''state'', ''fingerprint'', ''status'', ''body'', ''contentType'']))"

definition lookRedis :: "(int \<Rightarrow> int \<Rightarrow> bool) \<Rightarrow> int \<Rightarrow> redis \<Rightarrow> string \<Rightarrow> idempotency_entry option" where
  "lookRedis gone t db key = Option.bind (found gone t db key) hashEntry"

definition wfHash :: "(string \<rightharpoonup> string) \<Rightarrow> bool" where
  "wfHash h \<longleftrightarrow>
     h ''fingerprint'' \<noteq> None \<and>
     (h ''state'' = Some ''pending'' \<or> h ''state'' = Some ''completed'' \<and> h ''status'' \<noteq> None \<and> h ''body'' \<noteq> None)"

definition wfRedis :: "redis \<Rightarrow> bool" where
  "wfRedis db \<longleftrightarrow> (\<forall>key h deadline. db key = Some (h, deadline) \<longrightarrow> wfHash h)"

definition keepRedis :: "stored_response \<Rightarrow> stored_response" where
  "keepRedis r = r\<lparr>sr_contentType := Some (case sr_contentType r of None \<Rightarrow> '''' | Some c \<Rightarrow> c)\<rparr>"

lemma hashEntry_wf:
  assumes "wfHash h"
  shows "hashEntry h \<noteq> None" "(\<exists>fp. hashEntry h = Some (Pending fp)) \<longleftrightarrow> h ''state'' = Some ''pending''"
  using assms by (auto simp: wfHash_def hashEntry_def parseEntry_def split: option.splits)

lemma parseEntry_None: "parseEntry None = None"
  by (simp add: parseEntry_def)

lemma found_wf: "wfRedis db \<Longrightarrow> found gone t db key = Some h \<Longrightarrow> wfHash h"
  by (fastforce simp: wfRedis_def found_def split: option.splits if_splits)

lemma HMGET_entry: "found gone t db key = Some h \<Longrightarrow> parseEntry (Some (HMGET gone t db key [''state'', ''fingerprint'', ''status'', ''body'', ''contentType''])) = hashEntry h"
  by (simp add: HMGET_def hashEntry_def)

lemma reserve_new:
  "found gone now db key = None \<Longrightarrow>
   PEXPIRE now key ttl (HSET gone now key [(''state'', ''pending''), (''fingerprint'', fp)] db) =
     db(key \<mapsto> ([''state'' \<mapsto> ''pending'', ''fingerprint'' \<mapsto> fp], Some (now + ttl)))"
  by (simp add: HSET_def PEXPIRE_def fun_upd_twist)

definition completedHash :: "string \<Rightarrow> stored_response \<Rightarrow> string \<rightharpoonup> string" where
  "completedHash fp r = map_of [(''state'', ''completed''), (''fingerprint'', fp), (''status'', decimal (sr_statusCode r)),
     (''body'', sr_body r), (''contentType'', case sr_contentType r of None \<Rightarrow> '''' | Some c \<Rightarrow> c)]"

lemma completedHash_entry: "wfHash (h ++ completedHash fp r)" "hashEntry (h ++ completedHash fp r) = Some (Completed fp (keepRedis r))"
  by (simp_all add: completedHash_def wfHash_def hashEntry_def parseEntry_def readDecimal_decimal keepRedis_def)

lemma complete_entry:
  "\<exists>h. completeOp (createRedisIdempotencyStore gone) now key fp r ttl db = db(key \<mapsto> (h ++ completedHash fp r, Some (now + ttl)))"
proof (cases "found gone now db key")
  case None
  then show ?thesis
    by (intro exI [of _ Map.empty]) (simp add: createRedisIdempotencyStore_def COMPLETE_def HSET_def PEXPIRE_def completedHash_def)
next
  case (Some h)
  then show ?thesis
    by (intro exI [of _ h]) (simp add: createRedisIdempotencyStore_def COMPLETE_def HSET_def PEXPIRE_def completedHash_def)
qed

context redis_expiry
begin

lemma redis_reserve:
  "wfRedis db \<Longrightarrow> reserveOp (createRedisIdempotencyStore gone) now key fp ttl db =
     (case found gone now db key of
        Some h \<Rightarrow> (hashEntry h, db)
      | None \<Rightarrow> (None, db(key \<mapsto> ([''state'' \<mapsto> ''pending'', ''fingerprint'' \<mapsto> fp], Some (now + ttl)))))"
  by (auto simp: createRedisIdempotencyStore_def RESERVE_def reserve_new HMGET_entry parseEntry_None split: option.splits)

lemma redis_release:
  "wfRedis db \<Longrightarrow> releaseOp (createRedisIdempotencyStore gone) now key db =
     (if \<exists>fp. lookRedis gone now db key = Some (Pending fp) then db(key := None) else db)"
  by (cases "found gone now db key")
    (auto simp: createRedisIdempotencyStore_def RELEASE_def HMGET_def lookRedis_def dest: found_wf hashEntry_wf(2))

lemma look_none: "wfRedis db \<Longrightarrow> lookRedis gone now db key = None \<longleftrightarrow> found gone now db key = None"
  by (cases "found gone now db key") (auto simp: lookRedis_def dest: found_wf hashEntry_wf(1))

end

lemma wfRedis_upd: "wfRedis db \<Longrightarrow> wfHash h \<Longrightarrow> wfRedis (db(key \<mapsto> (h, deadline)))" "wfRedis db \<Longrightarrow> wfRedis (db(key := None))"
  unfolding wfRedis_def by auto

lemma pending_entry: "wfHash [''state'' \<mapsto> ''pending'', ''fingerprint'' \<mapsto> fp]" "hashEntry [''state'' \<mapsto> ''pending'', ''fingerprint'' \<mapsto> fp] = Some (Pending fp)"
  by (simp_all add: wfHash_def hashEntry_def parseEntry_def)

lemma look_upd:
  "lookRedis gone t (db(key \<mapsto> (h, Some deadline))) k =
     (if k = key then if gone t deadline then None else hashEntry h else lookRedis gone t db k)"
  "lookRedis gone t (db(key := None)) k = (if k = key then None else lookRedis gone t db k)"
  by (auto simp: lookRedis_def found_def)

sublocale redis_expiry \<subseteq> onRedis: replay_store "createRedisIdempotencyStore gone" wfRedis "lookRedis gone" keepRedis "\<lambda>t deadline. \<not> gone t deadline"
proof unfold_locales
  fix s now key fp ttl r t k
  assume wf: "wfRedis s"
  show "wfRedis (snd (reserveOp (createRedisIdempotencyStore gone) now key fp ttl s))"
    using wf by (simp add: redis_reserve wfRedis_upd pending_entry split: option.splits)
  obtain h where "completeOp (createRedisIdempotencyStore gone) now key fp r ttl s = s(key \<mapsto> (h ++ completedHash fp r, Some (now + ttl)))"
    using complete_entry by blast
  then show "wfRedis (completeOp (createRedisIdempotencyStore gone) now key fp r ttl s)"
    "lookRedis gone t (completeOp (createRedisIdempotencyStore gone) now key fp r ttl s) k =
      (if k = key then if \<not> gone t (now + ttl) then Some (Completed fp (keepRedis r)) else None else lookRedis gone t s k)"
    using wf by (simp_all add: wfRedis_upd completedHash_entry look_upd)
  show "wfRedis (releaseOp (createRedisIdempotencyStore gone) now key s)"
    "lookRedis gone t (releaseOp (createRedisIdempotencyStore gone) now key s) k =
      (if k = key \<and> (\<exists>fp. lookRedis gone now s key = Some (Pending fp)) then None else lookRedis gone t s k)"
    using wf by (auto simp: redis_release wfRedis_upd look_upd)
  show "fst (reserveOp (createRedisIdempotencyStore gone) now key fp ttl s) = lookRedis gone now s key"
    using wf by (simp add: redis_reserve lookRedis_def split: option.splits)
  show "lookRedis gone t (snd (reserveOp (createRedisIdempotencyStore gone) now key fp ttl s)) k =
      (if k = key \<and> lookRedis gone now s key = None then if \<not> gone t (now + ttl) then Some (Pending fp) else None else lookRedis gone t s k)"
    using wf by (simp add: redis_reserve look_none look_upd pending_entry split: option.splits)
qed (auto simp: kept_before keepRedis_def sameReplay_def replayHeader_def split: option.splits)

interpretation redisServer: redis_expiry "\<lambda>t deadline. deadline < t"
  by unfold_locales simp

section \<open>Requests\<close>

datatype header_value = No_header | One_header string | Header_list "string list"

datatype route_replay = Replay_default | Exempt | Refresh_response

record api_request =
  a_method :: string
  a_url :: string
  a_body :: js_value
  a_header :: header_value
  a_service :: "string option"
  a_organizationId :: "string option"
  a_userId :: "string option"
  a_ip :: string
  a_replay :: route_replay
  a_withoutOccurredAt :: bool

definition key_char :: "char \<Rightarrow> bool" where
  "key_char c \<longleftrightarrow> is_word c \<or> c \<in> set ''.:-''"

definition IdempotencyKeySchema :: "string \<Rightarrow> bool" where
  "IdempotencyKeySchema s \<longleftrightarrow> 8 \<le> length s \<and> length s \<le> 255 \<and> list_all key_char s"

text \<open>
  A stable rendering of a body.  The members of an object are rendered in the order of their names;
  the sort compares names only, so members are rendered first.
\<close>

fun canonical :: "(js_value \<Rightarrow> string) \<Rightarrow> js_value \<Rightarrow> string" where
  "canonical scalar JUndefined = ''undefined''"
| "canonical scalar (JArray vs) = ''['' @ join '','' (map (canonical scalar) vs) @ '']''"
| "canonical scalar (JObject members) =
     ''{'' @ join '','' (map (\<lambda>(name, text). scalar (JString name) @ '':'' @ text)
       (foldr (insertBy (\<lambda>x y. codeUnitLe (fst x) (fst y))) (map (\<lambda>(name, v). (name, canonical scalar v)) members) [])) @ ''}''"
| "canonical scalar v = scalar v"

definition withoutOccurredAt :: "js_value \<Rightarrow> js_value" where
  "withoutOccurredAt v =
     (case v of JObject members \<Rightarrow> JObject (filter (\<lambda>(name, _). name \<noteq> ''occurredAt'') members) | _ \<Rightarrow> v)"

definition fingerprintOf :: "(string \<Rightarrow> string) \<Rightarrow> (js_value \<Rightarrow> string) \<Rightarrow> api_request \<Rightarrow> string" where
  "fingerprintOf hash scalar q =
     (let body = (case a_body q of
                    JArray vs \<Rightarrow> if a_withoutOccurredAt q then JArray (map withoutOccurredAt vs) else JArray vs
                  | v \<Rightarrow> v)
      in hash (a_method q @ [CHR 0x0A] @ a_url q @ [CHR 0x0A] @ canonical scalar body))"

definition scopeOf :: "api_request \<Rightarrow> string" where
  "scopeOf q =
     (case a_service q of
        Some service \<Rightarrow> ''service:'' @ service
      | None \<Rightarrow>
          (case a_userId q of
             None \<Rightarrow> ''ip:'' @ a_ip q
           | Some user \<Rightarrow>
               (case a_organizationId q of
                  None \<Rightarrow> ''user:'' @ user
                | Some org \<Rightarrow> ''org:'' @ org @ ''|user:'' @ user)))"

definition submittedKey :: "api_request \<Rightarrow> string" where
  "submittedKey q =
     (case a_header q of
        No_header \<Rightarrow> ''''
      | One_header s \<Rightarrow> trim s
      | Header_list [] \<Rightarrow> ''''
      | Header_list (s # _) \<Rightarrow> trim s)"

definition storeKey :: "api_request \<Rightarrow> string" where
  "storeKey q = ''idem:'' @ scopeOf q @ '':'' @ submittedKey q"

section \<open>The hooks\<close>

datatype replay_error = Key_invalid | Idempotency_conflict | In_progress | Idempotency_unavailable

text \<open>What the hook before the handler decides; \<open>Refresh\<close> runs the handler and marks its answer as a replay.\<close>

datatype decision =
    Unkeyed
  | Run string string
  | Replayed stored_response
  | Refresh
  | Refused replay_error

text \<open>How a call of the store ends: it works, it fails before or after it had its effect.\<close>

datatype fault = Works | Lost | Unanswered

definition reserveHook ::
    "'s idempotency_store \<Rightarrow> (string \<Rightarrow> string) \<Rightarrow> (js_value \<Rightarrow> string) \<Rightarrow> fault \<Rightarrow> int \<Rightarrow> api_request \<Rightarrow> 's \<Rightarrow> decision \<times> 's" where
  "reserveHook ops hash scalar f now q s =
     (if submittedKey q = '''' then (Unkeyed, s)
      else if \<not> IdempotencyKeySchema (submittedKey q) then (Refused Key_invalid, s)
      else
        let key = storeKey q; fingerprint = fingerprintOf hash scalar q;
            (existing, s') = reserveOp ops now key fingerprint RESERVATION_TTL_MS s in
        case f of
          Lost \<Rightarrow> (Refused Idempotency_unavailable, s)
        | Unanswered \<Rightarrow> (Refused Idempotency_unavailable, s')
        | Works \<Rightarrow>
            (case existing of
               None \<Rightarrow> (Run key fingerprint, s')
             | Some (Pending fp) \<Rightarrow> (Refused (if fp \<noteq> fingerprint then Idempotency_conflict else In_progress), s')
             | Some (Completed fp response) \<Rightarrow>
                 if fp \<noteq> fingerprint then (Refused Idempotency_conflict, s')
                 else if a_replay q = Refresh_response then (Refresh, s')
                 else (Replayed response, s')))"

definition READ_METHODS :: "string list" where
  "READ_METHODS = [''GET'', ''HEAD'', ''OPTIONS'']"

definition upperCase :: "string \<Rightarrow> string" where
  "upperCase s = map (\<lambda>c. if is_lower c then char_of ((of_char c :: nat) - 32) else c) s"

definition enrolled :: "string list \<Rightarrow> route_replay \<Rightarrow> bool" where
  "enrolled methods config \<longleftrightarrow> \<not> list_all (\<lambda>m. upperCase m \<in> set READ_METHODS) methods \<and> config \<noteq> Exempt"

datatype payload = No_payload | Text_payload string | Other_payload

record api_reply =
  y_statusCode :: nat
  y_payload :: payload
  y_contentType :: "string option"

text \<open>The length of a text in UTF-8; characters are code units below 256.\<close>

definition byteLength :: "string \<Rightarrow> nat" where
  "byteLength s = sum_list (map (\<lambda>c. if (of_char c :: nat) < 128 then 1 else 2) s)"

definition storedBody :: "api_reply \<Rightarrow> string" where
  "storedBody y = (case y_payload y of Text_payload s \<Rightarrow> s | _ \<Rightarrow> '''')"

definition storable :: "api_reply \<Rightarrow> bool" where
  "storable y \<longleftrightarrow>
     200 \<le> y_statusCode y \<and> y_statusCode y < 300 \<and> y_payload y \<noteq> Other_payload \<and>
     \<not> byteLength (storedBody y) > MAX_STORED_BODY_BYTES"

definition responseOf :: "api_reply \<Rightarrow> stored_response" where
  "responseOf y = \<lparr>sr_statusCode = y_statusCode y, sr_body = storedBody y, sr_contentType = y_contentType y\<rparr>"

text \<open>The hook after a handler that ran under a reservation; a failure of the store is only logged.\<close>

definition onSend :: "'s idempotency_store \<Rightarrow> fault \<Rightarrow> int \<Rightarrow> string \<Rightarrow> string \<Rightarrow> api_reply \<Rightarrow> 's \<Rightarrow> 's" where
  "onSend ops f now key fingerprint y s =
     (if f = Lost then s
      else if storable y then completeOp ops now key fingerprint (responseOf y) RECORD_TTL_MS s
      else releaseOp ops now key s)"

section \<open>The server\<close>

text \<open>
  Requests in flight hold a reservation since a time; \<open>recordings\<close> are the responses that were
  stored, with the time at which they were.
\<close>

record flight =
  fl_key :: string
  fl_fingerprint :: string
  fl_since :: int

record recording =
  rec_key :: string
  rec_fingerprint :: string
  rec_response :: stored_response
  rec_at :: int

record 's server =
  sv_store :: 's
  sv_clock :: int
  flights :: "flight list"
  recordings :: "recording list"

text \<open>
  One step: a request arrives, the handler of one answers, the process of one dies, or time passes.
  In a prompt server time passes only while every handler stays within its reservation.
\<close>

inductive serverStep :: "'s idempotency_store \<Rightarrow> (string \<Rightarrow> string) \<Rightarrow> (js_value \<Rightarrow> string) \<Rightarrow> bool \<Rightarrow> 's server \<Rightarrow> 's server \<Rightarrow> bool"
  for ops hash scalar prompt where
  arrive: "reserveHook ops hash scalar f (sv_clock s) q (sv_store s) = (d, st) \<Longrightarrow>
    serverStep ops hash scalar prompt s
      (s\<lparr>sv_store := st,
         flights := (case d of Run key fp \<Rightarrow> \<lparr>fl_key = key, fl_fingerprint = fp, fl_since = sv_clock s\<rparr> # flights s | _ \<Rightarrow> flights s)\<rparr>)"
| answer: "flights s = xs @ fl # ys \<Longrightarrow>
    serverStep ops hash scalar prompt s
      (s\<lparr>sv_store := onSend ops f (sv_clock s) (fl_key fl) (fl_fingerprint fl) y (sv_store s), flights := xs @ ys,
         recordings := (if storable y \<and> f \<noteq> Lost
           then \<lparr>rec_key = fl_key fl, rec_fingerprint = fl_fingerprint fl, rec_response = responseOf y, rec_at = sv_clock s\<rparr> # recordings s
           else recordings s)\<rparr>)"
| die: "flights s = xs @ fl # ys \<Longrightarrow> serverStep ops hash scalar prompt s (s\<lparr>flights := xs @ ys\<rparr>)"
| tick: "0 < d \<Longrightarrow> (prompt \<Longrightarrow> \<forall>fl \<in> set (flights s). sv_clock s + d < fl_since fl + RESERVATION_TTL_MS) \<Longrightarrow>
    serverStep ops hash scalar prompt s (s\<lparr>sv_clock := sv_clock s + d\<rparr>)"

context replay_store
begin

text \<open>
  What a prompt server keeps: one request in flight per key, whose reservation the store holds
  until it ends, and every recording for its day.
\<close>

definition exclusive :: "'s server \<Rightarrow> bool" where
  "exclusive s \<longleftrightarrow>
     wf (sv_store s) \<and> distinct (map fl_key (flights s)) \<and>
     (\<forall>fl \<in> set (flights s). sv_clock s < fl_since fl + RESERVATION_TTL_MS \<and>
        (\<forall>t. sv_clock s \<le> t \<and> t < fl_since fl + RESERVATION_TTL_MS \<longrightarrow> look t (sv_store s) (fl_key fl) = Some (Pending (fl_fingerprint fl)))) \<and>
     (\<forall>r \<in> set (recordings s).
        (\<forall>t. sv_clock s \<le> t \<and> t < rec_at r + RECORD_TTL_MS \<longrightarrow>
           look t (sv_store s) (rec_key r) = Some (Completed (rec_fingerprint r) (keep (rec_response r)))))"

lemma exclusive_flight:
  "exclusive s \<Longrightarrow> fl \<in> set (flights s) \<Longrightarrow> look (sv_clock s) (sv_store s) (fl_key fl) = Some (Pending (fl_fingerprint fl))"
  unfolding exclusive_def by blast

lemma exclusive_recording:
  "exclusive s \<Longrightarrow> r \<in> set (recordings s) \<Longrightarrow> sv_clock s < rec_at r + RECORD_TTL_MS \<Longrightarrow>
   look (sv_clock s) (sv_store s) (rec_key r) = Some (Completed (rec_fingerprint r) (keep (rec_response r)))"
  unfolding exclusive_def by blast

lemma reserveHook_result:
  assumes "wf st"
  shows "reserveHook ops hash scalar f now q st =
    (if submittedKey q = '''' then (Unkeyed, st)
     else if \<not> IdempotencyKeySchema (submittedKey q) then (Refused Key_invalid, st)
     else (case f of
         Lost \<Rightarrow> (Refused Idempotency_unavailable, st)
       | Unanswered \<Rightarrow> (Refused Idempotency_unavailable, snd (reserveOp ops now (storeKey q) (fingerprintOf hash scalar q) RESERVATION_TTL_MS st))
       | Works \<Rightarrow>
          ((case look now st (storeKey q) of
              None \<Rightarrow> Run (storeKey q) (fingerprintOf hash scalar q)
            | Some (Pending fp) \<Rightarrow> Refused (if fp \<noteq> fingerprintOf hash scalar q then Idempotency_conflict else In_progress)
            | Some (Completed fp response) \<Rightarrow>
                if fp \<noteq> fingerprintOf hash scalar q then Refused Idempotency_conflict
                else if a_replay q = Refresh_response then Refresh else Replayed response),
           snd (reserveOp ops now (storeKey q) (fingerprintOf hash scalar q) RESERVATION_TTL_MS st))))"
  using reserve_returns [OF assms, of now "storeKey q" "fingerprintOf hash scalar q" RESERVATION_TTL_MS]
  by (auto simp: reserveHook_def Let_def split: fault.splits option.splits idempotency_entry.splits prod.splits)

text \<open>The effect of a reservation that found nothing or something.\<close>

lemma reserved_exclusive:
  assumes "exclusive s" and "st = snd (reserveOp ops (sv_clock s) key fp RESERVATION_TTL_MS (sv_store s))"
  shows "exclusive (s\<lparr>sv_store := st\<rparr>)"
    "look (sv_clock s) (sv_store s) key = None \<Longrightarrow>
     exclusive (s\<lparr>sv_store := st, flights := \<lparr>fl_key = key, fl_fingerprint = fp, fl_since = sv_clock s\<rparr> # flights s\<rparr>)"
proof -
  let ?new = "\<lparr>fl_key = key, fl_fingerprint = fp, fl_since = sv_clock s\<rparr>"
  have wf: "wf (sv_store s)" using assms(1) by (simp add: exclusive_def)
  have wf': "wf st" unfolding assms(2) by (rule reserve_wf [OF wf])
  have look': "look t st k = (if k = key \<and> look (sv_clock s) (sv_store s) key = None
      then if alive t (sv_clock s + RESERVATION_TTL_MS) then Some (Pending fp) else None else look t (sv_store s) k)"
    if "sv_clock s \<le> t" for t k unfolding assms(2) by (rule reserve_look [OF wf that])
  have flight: "look t st (fl_key fl) = Some (Pending (fl_fingerprint fl))"
    if "fl \<in> set (flights s)" "sv_clock s \<le> t" "t < fl_since fl + RESERVATION_TTL_MS" for fl t
    using look' [OF that(2), of "fl_key fl"] exclusive_flight [OF assms(1) that(1)] assms(1) that by (auto simp: exclusive_def)
  have recording: "look t st (rec_key r) = Some (Completed (rec_fingerprint r) (keep (rec_response r)))"
    if "r \<in> set (recordings s)" "sv_clock s \<le> t" "t < rec_at r + RECORD_TTL_MS" for r t
    using look' [OF that(2), of "rec_key r"] exclusive_recording [OF assms(1) that(1)] assms(1) that by (auto simp: exclusive_def)
  show "exclusive (s\<lparr>sv_store := st\<rparr>)"
    using assms(1) wf' flight recording by (simp add: exclusive_def)
  assume none: "look (sv_clock s) (sv_store s) key = None"
  then have "key \<notin> set (map fl_key (flights s))" using exclusive_flight [OF assms(1)] by auto
  moreover have "look t st key = Some (Pending fp)" if "sv_clock s \<le> t" "t < sv_clock s + RESERVATION_TTL_MS" for t
    using look' [OF that(1), of key] none alive_before [OF that(2)] by simp
  ultimately show "exclusive (s\<lparr>sv_store := st, flights := ?new # flights s\<rparr>)"
    using assms(1) wf' flight recording by (simp add: exclusive_def RESERVATION_TTL_MS_def)
qed

end

context replay_store
begin

lemma exclusive_fewer: "exclusive s \<Longrightarrow> flights s = xs @ fl # ys \<Longrightarrow> exclusive (s\<lparr>flights := xs @ ys\<rparr>)"
  by (auto simp: exclusive_def)

lemma answered_exclusive:
  assumes "exclusive s" and "flights s = xs @ fl # ys" and "st = onSend ops f (sv_clock s) (fl_key fl) (fl_fingerprint fl) y (sv_store s)"
    and "rs = (if storable y \<and> f \<noteq> Lost
      then \<lparr>rec_key = fl_key fl, rec_fingerprint = fl_fingerprint fl, rec_response = responseOf y, rec_at = sv_clock s\<rparr> # recordings s
      else recordings s)"
  shows "exclusive (s\<lparr>sv_store := st, flights := xs @ ys, recordings := rs\<rparr>)"
proof (cases "f = Lost")
  case True
  then show ?thesis using exclusive_fewer [OF assms(1,2)] assms(3,4) by (simp add: onSend_def exclusive_def)
next
  case False
  have wf: "wf (sv_store s)" using assms(1) by (simp add: exclusive_def)
  have fl: "fl \<in> set (flights s)" using assms(2) by simp
  have pending: "look (sv_clock s) (sv_store s) (fl_key fl) = Some (Pending (fl_fingerprint fl))"
    by (rule exclusive_flight [OF assms(1) fl])
  have wf': "wf st" using wf by (simp add: assms(3) onSend_def complete_wf release_wf)
  have others: "look t st k = look t (sv_store s) k" if "sv_clock s \<le> t" "k \<noteq> fl_key fl" for t k
    using that wf by (simp add: assms(3) onSend_def complete_look release_look)
  have stored: "look t st (fl_key fl) = Some (Completed (fl_fingerprint fl) (keep (responseOf y)))"
    if "storable y" "sv_clock s \<le> t" "t < sv_clock s + RECORD_TTL_MS" for t
    using that wf False by (simp add: assms(3) onSend_def complete_look alive_before)
  have flight: "look t st (fl_key g) = Some (Pending (fl_fingerprint g))"
    if "g \<in> set (xs @ ys)" "sv_clock s \<le> t" "t < fl_since g + RESERVATION_TTL_MS" for g t
  proof -
    have "fl_key fl \<notin> fl_key ` set (xs @ ys)" using assms(1,2) by (simp add: exclusive_def image_Un)
    with that(1) have "fl_key g \<noteq> fl_key fl" by (metis imageI)
    moreover have "g \<in> set (flights s)" using assms(2) that(1) by auto
    ultimately show ?thesis using others [OF that(2)] assms(1) that by (simp add: exclusive_def)
  qed
  have recording: "look t st (rec_key r) = Some (Completed (rec_fingerprint r) (keep (rec_response r)))"
    if "r \<in> set (recordings s)" "sv_clock s \<le> t" "t < rec_at r + RECORD_TTL_MS" for r t
  proof -
    have "rec_key r \<noteq> fl_key fl" using exclusive_recording [OF assms(1) that(1)] pending that by auto
    then show ?thesis using others [OF that(2)] assms(1) that by (simp add: exclusive_def)
  qed
  show ?thesis
    using assms(1,2,4) False wf' flight recording stored by (auto simp: exclusive_def)
qed

lemma exclusive_step:
  assumes "serverStep ops hash scalar True s s'" and "exclusive s"
  shows "exclusive s'"
  using assms(1)
proof (cases rule: serverStep.cases)
  case (arrive f q d st)
  have wf: "wf (sv_store s)" using assms(2) by (simp add: exclusive_def)
  let ?st = "snd (reserveOp ops (sv_clock s) (storeKey q) (fingerprintOf hash scalar q) RESERVATION_TTL_MS (sv_store s))"
  have "st = sv_store s \<and> (\<forall>key fp. d \<noteq> Run key fp) \<or> st = ?st \<and> (\<forall>key fp. d \<noteq> Run key fp) \<or>
      st = ?st \<and> d = Run (storeKey q) (fingerprintOf hash scalar q) \<and> look (sv_clock s) (sv_store s) (storeKey q) = None"
    using arrive(2) unfolding reserveHook_result [OF wf]
    by (auto split: if_splits fault.splits option.splits idempotency_entry.splits)
  then show ?thesis
    unfolding arrive(1) using assms(2) reserved_exclusive [OF assms(2) refl] by (auto split: decision.splits)
next
  case (answer xs fl ys f y)
  then show ?thesis using answered_exclusive [OF assms(2) answer(2) refl refl] by simp
next
  case (die xs fl ys)
  then show ?thesis using exclusive_fewer [OF assms(2)] by simp
next
  case (tick d)
  then show ?thesis using assms(2) by (auto simp: exclusive_def)
qed

lemma exclusive_reach:
  assumes "(serverStep ops hash scalar True)\<^sup>*\<^sup>* s s'" and "wf (sv_store s)" and "flights s = []" and "recordings s = []"
  shows "exclusive s'"
  using assms(1)
proof (induction rule: rtranclp_induct)
  case base
  then show ?case using assms(2-4) by (simp add: exclusive_def)
next
  case (step t u)
  then show ?case using exclusive_step by blast
qed

lemma replay_after_success:
  assumes "(serverStep ops hash scalar True)\<^sup>*\<^sup>* s s'" and "wf (sv_store s)" and "flights s = []" and "recordings s = []"
    and "r \<in> set (recordings s')" and "sv_clock s' < rec_at r + RECORD_TTL_MS"
    and "IdempotencyKeySchema (submittedKey q)" and "storeKey q = rec_key r"
  shows "case fst (reserveHook ops hash scalar Works (sv_clock s') q (sv_store s')) of
      Replayed response \<Rightarrow> fingerprintOf hash scalar q = rec_fingerprint r \<and> sameReplay response (rec_response r)
    | Refresh \<Rightarrow> fingerprintOf hash scalar q = rec_fingerprint r \<and> a_replay q = Refresh_response
    | Refused e \<Rightarrow> e = Idempotency_conflict \<and> fingerprintOf hash scalar q \<noteq> rec_fingerprint r
    | _ \<Rightarrow> False"
proof -
  have ex: "exclusive s'" by (rule exclusive_reach [OF assms(1-4)])
  then have wf: "wf (sv_store s')" by (simp add: exclusive_def)
  have "submittedKey q \<noteq> ''''" using assms(7) by (auto simp: IdempotencyKeySchema_def)
  then show ?thesis
    using exclusive_recording [OF ex assms(5,6)] assms(7,8) keep_replay [of "rec_response r"] by (simp add: reserveHook_result [OF wf])
qed

lemma one_in_flight:
  assumes "(serverStep ops hash scalar True)\<^sup>*\<^sup>* s s'" and "wf (sv_store s)" and "flights s = []" and "recordings s = []"
  shows "distinct (map fl_key (flights s'))"
    and "fl \<in> set (flights s') \<Longrightarrow> IdempotencyKeySchema (submittedKey q) \<Longrightarrow> storeKey q = fl_key fl \<Longrightarrow>
      fst (reserveHook ops hash scalar Works (sv_clock s') q (sv_store s')) =
        Refused (if fl_fingerprint fl \<noteq> fingerprintOf hash scalar q then Idempotency_conflict else In_progress)"
proof -
  have ex: "exclusive s'" by (rule exclusive_reach [OF assms])
  then have wf: "wf (sv_store s')" by (simp add: exclusive_def)
  show "distinct (map fl_key (flights s'))" using ex by (simp add: exclusive_def)
  assume fl: "fl \<in> set (flights s')" and q: "IdempotencyKeySchema (submittedKey q)" "storeKey q = fl_key fl"
  have "submittedKey q \<noteq> ''''" using q(1) by (auto simp: IdempotencyKeySchema_def)
  then show "fst (reserveHook ops hash scalar Works (sv_clock s') q (sv_store s')) =
        Refused (if fl_fingerprint fl \<noteq> fingerprintOf hash scalar q then Idempotency_conflict else In_progress)"
    using exclusive_flight [OF ex fl] q by (simp add: reserveHook_result [OF wf])
qed

end

section \<open>Fingerprints and keys\<close>

lemma insertBy_comm:
  assumes "\<And>a b. le a b \<or> le b a" "\<And>a b c. le a b \<Longrightarrow> le b c \<Longrightarrow> le a c" "\<not> (le x y \<and> le y x)"
  shows "insertBy le x (insertBy le y zs) = insertBy le y (insertBy le x zs)"
proof (induction zs)
  case Nil
  show ?case using assms(1) [of x y] assms(3) by auto
next
  case (Cons z zs)
  then show ?case using assms(1) [of x y] assms(2) [of x y z] assms(2) [of y x z] assms(3) by auto
qed

lemma sort_members:
  assumes "mset xs = mset ys" and "distinct (map fst xs)"
  shows "foldr (insertBy (\<lambda>x y. codeUnitLe (fst x) (fst y))) xs [] = foldr (insertBy (\<lambda>x y. codeUnitLe (fst x) (fst y))) ys []"
proof -
  let ?le = "\<lambda>x y :: string \<times> 'a. codeUnitLe (fst x) (fst y)"
  have "insertBy ?le x \<circ> insertBy ?le y = insertBy ?le y \<circ> insertBy ?le x" if "x \<in> set xs" "y \<in> set xs" for x y
  proof (cases "x = y")
    case False
    then have "fst x \<noteq> fst y" using assms(2) that by (auto simp: distinct_map inj_on_def)
    then have "\<not> (?le x y \<and> ?le y x)" using codeUnitLe_antisym by blast
    then show ?thesis
      by (intro ext) (simp add: insertBy_comm [of ?le x y] codeUnitLe_total codeUnitLe_trans)
  qed simp
  then have "fold (insertBy ?le) (rev xs) = fold (insertBy ?le) (rev ys)"
    by (intro fold_multiset_equiv) (auto simp: assms(1))
  then show ?thesis by (simp add: foldr_conv_fold)
qed

text \<open>
  The order in which a client writes the members of an object is not part of the request: the
  rendering of the body, and with it the fingerprint, is the same.
\<close>

lemma canonical_ignores_order:
  assumes "mset members = mset members'" and "distinct (map fst members)"
  shows "canonical scalar (JObject members) = canonical scalar (JObject members')"
proof -
  let ?f = "\<lambda>(name, v). (name, canonical scalar v)"
  have "mset (map ?f members) = mset (map ?f members')" using assms(1) by simp
  moreover have "distinct (map fst (map ?f members))" using assms(2) by (simp add: comp_def case_prod_beta)
  ultimately show ?thesis using sort_members [of "map ?f members" "map ?f members'"] by simp
qed

text \<open>A caller the server knows: a service, or a user with or without an organization.\<close>

definition identified :: "api_request \<Rightarrow> bool" where
  "identified q \<longleftrightarrow>
     (case a_service q of
        Some name \<Rightarrow> CHR '':'' \<notin> set name
      | None \<Rightarrow> (\<exists>user. a_userId q = Some user \<and> idSchema ''user'' user) \<and>
          (\<forall>org. a_organizationId q = Some org \<longrightarrow> idSchema ''org'' org))"

lemma before_colon: "CHR '':'' \<notin> set s \<Longrightarrow> CHR '':'' \<notin> set s' \<Longrightarrow> s @ '':'' @ t = s' @ '':'' @ t' \<Longrightarrow> s = s' \<and> t = t'"
proof (induction s arbitrary: s')
  case Nil
  then show ?case by (cases s') auto
next
  case (Cons c s)
  then show ?case by (cases s') auto
qed

text \<open>
  C39. Keys of different callers never meet: when two requests of known callers share a key in the
  store, they come from the same service, or from the same user in the same organization, and
  carry the same idempotency key.
\<close>

theorem store_keys_separate:
  assumes "identified q" and "identified q'" and "storeKey q = storeKey q'"
  shows "a_service q = a_service q' \<and> submittedKey q = submittedKey q' \<and>
    (a_service q = None \<longrightarrow> a_userId q = a_userId q' \<and> a_organizationId q = a_organizationId q')"
proof (cases "a_service q = None \<and> a_service q' = None")
  case True
  then obtain u u' where u: "a_userId q = Some u" "length u = 31" "a_userId q' = Some u'" "length u' = 31"
    using assms(1,2) by (auto simp: identified_def idSchema_def)
  have org: "length o1 = 30" if "a_organizationId p = Some o1" "a_service p = None" "identified p" for p o1
    using that by (auto simp: identified_def idSchema_def)
  show ?thesis
    using True u org [of q] org [of q'] assms
    by (cases "a_organizationId q"; cases "a_organizationId q'") (auto simp: storeKey_def scopeOf_def)
next
  case False
  then show ?thesis
    using assms before_colon [of "the (a_service q)" "the (a_service q')" "submittedKey q" "submittedKey q'"]
    by (auto simp: storeKey_def scopeOf_def identified_def split: option.splits)
qed

text \<open>
  Callers known by their address only are not separated: the key may hold colons, as an IPv6
  address does.
\<close>

definition addressed :: "string \<Rightarrow> string \<Rightarrow> api_request" where
  "addressed ip key = \<lparr>a_method = ''POST'', a_url = ''/v1/organizations'', a_body = JObject [], a_header = One_header key, a_service = None,
     a_organizationId = None, a_userId = None, a_ip = ip, a_replay = Replay_default, a_withoutOccurredAt = False\<rparr>"

lemma addresses_collide:
  "storeKey (addressed ''2001:db8::1'' ''1:retry-001'') = storeKey (addressed ''2001:db8::1:1'' ''retry-001'')"
  "IdempotencyKeySchema (submittedKey (addressed ''2001:db8::1'' ''1:retry-001''))" "IdempotencyKeySchema (submittedKey (addressed ''2001:db8::1:1'' ''retry-001''))"
  by (simp_all add: storeKey_def scopeOf_def addressed_def submittedKey_def trim_def is_space_def IdempotencyKeySchema_def key_char_def is_word_def
      is_lower_def lower_char_def is_digit_def)

section \<open>Properties of the server\<close>

context redis_expiry
begin

lemmas redis_one_in_flight = onRedis.one_in_flight
lemmas redis_replay_after_success = onRedis.replay_after_success

end

abbreviation emptyServer :: "int \<Rightarrow> redis server" where
  "emptyServer now \<equiv> \<lparr>sv_store = Map.empty, sv_clock = now, flights = [], recordings = []\<rparr>"

text \<open>
  C38. On the store that replicas share, and while every handler answers within the minute of its
  reservation, a key is used once: at most one handler holds the reservation; a second request is
  told that the first is in progress, or that the key belongs to a different request; and for a day
  after a response has been stored under it every request is answered by that response, or is
  refused as a different request, or runs again, without a reservation, where the route asks for a
  fresh response.  This holds
  however requests interleave and processes die, and whichever calls of the store fail.
\<close>

theorem idempotent_requests:
  assumes expiry: "\<And>t deadline. t < deadline \<Longrightarrow> \<not> gone t deadline"
    and reach: "(serverStep (createRedisIdempotencyStore gone) hash scalar True)\<^sup>*\<^sup>* (emptyServer now) s"
    and key: "IdempotencyKeySchema (submittedKey q)"
  shows "distinct (map fl_key (flights s)) \<and>
    (\<forall>fl. fl \<in> set (flights s) \<and> storeKey q = fl_key fl \<longrightarrow>
      fst (reserveHook (createRedisIdempotencyStore gone) hash scalar Works (sv_clock s) q (sv_store s)) =
        Refused (if fl_fingerprint fl \<noteq> fingerprintOf hash scalar q then Idempotency_conflict else In_progress)) \<and>
    (\<forall>r. r \<in> set (recordings s) \<and> sv_clock s < rec_at r + RECORD_TTL_MS \<and> storeKey q = rec_key r \<longrightarrow>
      (case fst (reserveHook (createRedisIdempotencyStore gone) hash scalar Works (sv_clock s) q (sv_store s)) of
         Replayed response \<Rightarrow> fingerprintOf hash scalar q = rec_fingerprint r \<and> sameReplay response (rec_response r)
       | Refresh \<Rightarrow> fingerprintOf hash scalar q = rec_fingerprint r \<and> a_replay q = Refresh_response
       | Refused e \<Rightarrow> e = Idempotency_conflict \<and> fingerprintOf hash scalar q \<noteq> rec_fingerprint r
       | _ \<Rightarrow> False))"
proof -
  have redis: "redis_expiry gone" using expiry by unfold_locales
  have start: "wfRedis (sv_store (emptyServer now))" "flights (emptyServer now) = []" "recordings (emptyServer now) = []"
    by (simp_all add: wfRedis_def)
  note one = redis_expiry.redis_one_in_flight [OF redis reach start] and day = redis_expiry.redis_replay_after_success [OF redis reach start]
  show ?thesis using one(1) one(2) [OF _ key] day [OF _ _ key] by blast
qed

section \<open>Examples\<close>

definition sample_call :: api_request where
  "sample_call = (addressed ''10.0.0.1'' ''retry-001'')\<lparr>a_userId := Some (''user_'' @ replicate 26 CHR ''0'')\<rparr>"

definition sample_created :: api_reply where
  "sample_created = \<lparr>y_statusCode = 201, y_payload = Text_payload ''{}'', y_contentType = None\<rparr>"

lemma sample_key: "submittedKey sample_call = ''retry-001''" "IdempotencyKeySchema (submittedKey sample_call)"
  by (simp_all add: sample_call_def addressed_def submittedKey_def trim_def is_space_def IdempotencyKeySchema_def key_char_def is_word_def
      is_lower_def lower_char_def is_digit_def)

text \<open>A request that finds no entry runs; here on the store in memory.\<close>

lemma memory_run:
  assumes "lookMemory now st (storeKey q) = None" and "IdempotencyKeySchema (submittedKey q)"
  shows "reserveHook createInMemoryIdempotencyStore hash scalar Works now q st =
    (Run (storeKey q) (fingerprintOf hash scalar q), st(storeKey q \<mapsto> (Pending (fingerprintOf hash scalar q), now + 60000)))"
proof -
  have "submittedKey q \<noteq> ''''" using assms(2) by (auto simp: IdempotencyKeySchema_def)
  then show ?thesis using assms
    by (auto simp: reserveHook_def Let_def createInMemoryIdempotencyStore_def liveEntry_def lookMemory_def RESERVATION_TTL_MS_def
        split: option.splits if_splits)
qed

text \<open>
  The minute matters: a reservation names no owner.  A handler that fails after its reservation has
  expired releases the reservation of the request that took the key after it, and a third request
  runs beside the second.
\<close>

lemma slow_request_frees_key:
  "\<exists>s fl. (serverStep createInMemoryIdempotencyStore hash scalar False)\<^sup>*\<^sup>* \<lparr>sv_store = Map.empty, sv_clock = 0, flights = [], recordings = []\<rparr> s \<and>
     flights s = [fl, fl] \<and> fl_key fl = storeKey sample_call"
proof -
  let ?ops = createInMemoryIdempotencyStore and ?k = "storeKey sample_call" and ?fp = "fingerprintOf hash scalar sample_call"
  let ?step = "serverStep ?ops hash scalar False"
  let ?fl = "\<lambda>t. \<lparr>fl_key = ?k, fl_fingerprint = ?fp, fl_since = t\<rparr>" and ?p = "\<lambda>t. [?k \<mapsto> (Pending ?fp, t + 60000)]"
  let ?s = "\<lambda>st t fls. \<lparr>sv_store = st, sv_clock = t, flights = fls, recordings = []\<rparr> :: memory server"
  have run: "?step (?s st t fls) (?s (st(?k \<mapsto> (Pending ?fp, t + 60000))) t (?fl t # fls))" if "lookMemory t st ?k = None" for st t fls
    using arrive [of ?ops hash scalar Works "?s st t fls" sample_call _ _ False] memory_run [OF _ sample_key(2), of t st hash scalar] that by simp
  have "?step (?s Map.empty 0 []) (?s (?p 0) 0 [?fl 0])" using run [of 0 Map.empty "[]"] by (simp add: lookMemory_def)
  moreover have "?step (?s (?p 0) 0 [?fl 0]) (?s (?p 0) 60001 [?fl 0])"
    using tick [of 60001 False "?s (?p 0) 0 [?fl 0]" ?ops hash scalar] by simp
  moreover have "?step (?s (?p 0) 60001 [?fl 0]) (?s (?p 60001) 60001 [?fl 60001, ?fl 0])"
    using run [of 60001 "?p 0" "[?fl 0]"] by (simp add: lookMemory_def)
  moreover have "?step (?s (?p 60001) 60001 [?fl 60001, ?fl 0]) (?s Map.empty 60001 [?fl 60001])"
    using answer [where s = "?s (?p 60001) 60001 [?fl 60001, ?fl 0]" and xs = "[?fl 60001]" and fl = "?fl 0" and ys = "[]" and ops = ?ops
        and hash = hash and scalar = scalar and prompt = False and f = Works
        and y = "\<lparr>y_statusCode = 500, y_payload = No_payload, y_contentType = None\<rparr>"]
    by (simp add: onSend_def storable_def createInMemoryIdempotencyStore_def liveEntry_def)
  moreover have "?step (?s Map.empty 60001 [?fl 60001]) (?s (?p 60001) 60001 [?fl 60001, ?fl 60001])"
    using run [of 60001 Map.empty "[?fl 60001]"] by (simp add: lookMemory_def)
  ultimately have "?step\<^sup>*\<^sup>* (?s Map.empty 0 []) (?s (?p 60001) 60001 [?fl 60001, ?fl 60001])"
    by (meson converse_rtranclp_into_rtranclp rtranclp.rtrancl_refl)
  then show ?thesis by fastforce
qed

lemma sample_served:
  "\<exists>s r. (serverStep (createRedisIdempotencyStore (\<lambda>t deadline. deadline < t)) id (\<lambda>_. '''') True)\<^sup>*\<^sup>* (emptyServer 0) s \<and>
     recordings s = [r] \<and> sv_clock s = 0 \<and> rec_at r = 0 \<and> rec_key r = storeKey sample_call \<and>
     rec_fingerprint r = fingerprintOf id (\<lambda>_. '''') sample_call \<and> rec_response r = responseOf sample_created"
proof -
  let ?ops = "createRedisIdempotencyStore (\<lambda>t deadline. deadline < t)" and ?k = "storeKey sample_call" and ?fp = "fingerprintOf id (\<lambda>_. '''') sample_call"
  let ?step = "serverStep ?ops id (\<lambda>_. '''') True"
  obtain st where "reserveHook ?ops id (\<lambda>_. '''') Works 0 sample_call Map.empty = (Run ?k ?fp, st)"
    using sample_key by (simp add: reserveHook_def Let_def createRedisIdempotencyStore_def RESERVE_def found_def parseEntry_None)
  then have first: "?step (emptyServer 0) ((emptyServer 0)\<lparr>sv_store := st, flights := [\<lparr>fl_key = ?k, fl_fingerprint = ?fp, fl_since = 0\<rparr>]\<rparr>)"
    using arrive [where f = Works and s = "emptyServer 0" and q = sample_call and ops = ?ops and hash = id and scalar = "\<lambda>_. ''''" and prompt = True]
    by fastforce
  have created: "storable sample_created"
    by (simp add: storable_def sample_created_def storedBody_def byteLength_def MAX_STORED_BODY_BYTES_def)
  let ?r = "\<lparr>rec_key = ?k, rec_fingerprint = ?fp, rec_response = responseOf sample_created, rec_at = 0\<rparr>"
  have second: "?step ((emptyServer 0)\<lparr>sv_store := st, flights := [\<lparr>fl_key = ?k, fl_fingerprint = ?fp, fl_since = 0\<rparr>]\<rparr>)
      ((emptyServer 0)\<lparr>sv_store := onSend ?ops Works 0 ?k ?fp sample_created st, recordings := [?r]\<rparr>)"
    using answer [where s = "(emptyServer 0)\<lparr>sv_store := st, flights := [\<lparr>fl_key = ?k, fl_fingerprint = ?fp, fl_since = 0\<rparr>]\<rparr>" and xs = "[]"
        and fl = "\<lparr>fl_key = ?k, fl_fingerprint = ?fp, fl_since = 0\<rparr>" and ys = "[]" and ops = ?ops and hash = id and scalar = "\<lambda>_. ''''"
        and prompt = True and f = Works and y = sample_created] created by simp
  have "?step\<^sup>*\<^sup>* (emptyServer 0) ((emptyServer 0)\<lparr>sv_store := onSend ?ops Works 0 ?k ?fp sample_created st, recordings := [?r]\<rparr>)"
    using rtranclp.rtrancl_into_rtrancl [OF r_into_rtranclp, of ?step, OF first second] .
  then show ?thesis
    by (intro exI [of _ "(emptyServer 0)\<lparr>sv_store := onSend ?ops Works 0 ?k ?fp sample_created st, recordings := [?r]\<rparr>"] exI [of _ ?r] conjI) simp_all
qed

theorem idempotent_requests_witness:
  "\<exists>s response. (serverStep (createRedisIdempotencyStore (\<lambda>t deadline. deadline < t)) id (\<lambda>_. '''') True)\<^sup>*\<^sup>* (emptyServer 0) s \<and>
     fst (reserveHook (createRedisIdempotencyStore (\<lambda>t deadline. deadline < t)) id (\<lambda>_. '''') Works (sv_clock s) sample_call (sv_store s)) =
       Replayed response \<and> sr_statusCode response = 201"
proof -
  let ?ops = "createRedisIdempotencyStore (\<lambda>t deadline. deadline < t)"
  obtain s r where reach: "(serverStep ?ops id (\<lambda>_. '''') True)\<^sup>*\<^sup>* (emptyServer 0) s"
    and r: "recordings s = [r]" "sv_clock s = 0" "rec_at r = 0" "rec_key r = storeKey sample_call"
      "rec_fingerprint r = fingerprintOf id (\<lambda>_. '''') sample_call" "rec_response r = responseOf sample_created"
    using sample_served by (elim exE conjE)
  have "a_replay sample_call = Replay_default" by (simp add: sample_call_def addressed_def)
  moreover have "case fst (reserveHook ?ops id (\<lambda>_. '''') Works (sv_clock s) sample_call (sv_store s)) of
         Replayed response \<Rightarrow> fingerprintOf id (\<lambda>_. '''') sample_call = rec_fingerprint r \<and> sameReplay response (rec_response r)
       | Refresh \<Rightarrow> fingerprintOf id (\<lambda>_. '''') sample_call = rec_fingerprint r \<and> a_replay sample_call = Refresh_response
       | Refused e \<Rightarrow> e = Idempotency_conflict \<and> fingerprintOf id (\<lambda>_. '''') sample_call \<noteq> rec_fingerprint r
       | _ \<Rightarrow> False"
    using idempotent_requests [OF _ reach sample_key(2)] r by (simp add: RECORD_TTL_MS_def)
  ultimately show ?thesis
    using reach r(5,6) by (auto simp: sameReplay_def responseOf_def sample_created_def split: decision.splits)
qed

theorem store_keys_separate_witness:
  "submittedKey sample_call = submittedKey (sample_call\<lparr>a_ip := ''10.0.0.2''\<rparr>) \<and> storeKey sample_call = storeKey (sample_call\<lparr>a_ip := ''10.0.0.2''\<rparr>)"
proof -
  have "identified sample_call" "identified (sample_call\<lparr>a_ip := ''10.0.0.2''\<rparr>)"
    by (simp_all add: identified_def sample_call_def addressed_def idSchema_def is_ulid_char_def is_digit_def list_all_iff)
  moreover have same: "storeKey sample_call = storeKey (sample_call\<lparr>a_ip := ''10.0.0.2''\<rparr>)"
    by (simp add: storeKey_def scopeOf_def submittedKey_def sample_call_def addressed_def)
  ultimately show ?thesis using store_keys_separate by blast
qed

end
