(* ===== verification/Activity_Fence.thy ===== *)
theory Activity_Fence
  imports Idempotency
begin

text \<open>
  Idempotent activities of the orchestrator (\<open>services/orchestrator-worker/src/activities/idempotency.ts\<close>)
  on the table of claims (\<open>packages/db/src/activity-idempotency.ts\<close>).  An attempt claims the key of
  its activity under a lease, runs the activity, and records its result; a later attempt replays it.
  SHA-256 (\<open>sha\<close>), \<open>JSON.stringify\<close> of a canonical value (\<open>render\<close>) and the value that PostgreSQL gives
  back for a stored one (\<open>jsonb\<close>, which may order the members of an object anew) are parameters.
\<close>

section \<open>Canonical values\<close>

definition sortMembers :: "(string \<times> 'a) list \<Rightarrow> (string \<times> 'a) list" where
  "sortMembers members = foldr (insertBy (\<lambda>x y. codeUnitLe (fst x) (fst y))) members []"

text \<open>
  \<open>Object.fromEntries\<close>: an object lists the members whose names are array indices first, in
  ascending order, and the others in the order in which they were added.
\<close>

definition isIndex :: "string \<Rightarrow> bool" where
  "isIndex s \<longleftrightarrow> s \<noteq> [] \<and> list_all is_digit s \<and> (s = ''0'' \<or> hd s \<noteq> CHR ''0'') \<and> readDecimal s < 4294967295"

definition fromEntries :: "(string \<times> 'a) list \<Rightarrow> (string \<times> 'a) list" where
  "fromEntries members = sort_key (readDecimal \<circ> fst) (filter (isIndex \<circ> fst) members) @ filter (Not \<circ> isIndex \<circ> fst) members"

text \<open>What is not JSON throws (\<open>None\<close>).  Values are trees, so that the search for a cycle finds none.\<close>

fun canonicalize :: "js_value \<Rightarrow> js_value option" where
  "canonicalize (JArray vs) = map_option JArray (those (map canonicalize vs))"
| "canonicalize (JObject members) =
     map_option (JObject \<circ> fromEntries \<circ> sortMembers) (those (map (\<lambda>(name, v). map_option (Pair name) (canonicalize v)) members))"
| "canonicalize JUndefined = None"
| "canonicalize JOther = None"
| "canonicalize v = Some v"

definition hashValue :: "(string \<Rightarrow> string) \<Rightarrow> (js_value \<Rightarrow> string) \<Rightarrow> js_value \<Rightarrow> string option" where
  "hashValue sha render v = map_option (sha \<circ> render) (canonicalize v)"

definition hashActivityInput :: "(string \<Rightarrow> string) \<Rightarrow> (js_value \<Rightarrow> string) \<Rightarrow> string \<Rightarrow> js_value list \<Rightarrow> string option" where
  "hashActivityInput sha render activityType args =
     hashValue sha render (JObject [(''activityType'', JString activityType), (''args'', JArray args)])"

definition encodeResult :: "js_value \<Rightarrow> js_value option" where
  "encodeResult v =
     (if v = JUndefined then Some (JObject [(''kind'', JString ''void'')])
      else map_option (\<lambda>c. JObject [(''kind'', JString ''value''), (''value'', c)]) (canonicalize v))"

definition decodeResult :: "js_value \<Rightarrow> js_value option" where
  "decodeResult stored =
     (case stored of
        JObject members \<Rightarrow>
          let keys = map fst (sortMembers members); kind = property members ''kind'' in
          if kind = JString ''void'' \<and> keys = [''kind''] then Some JUndefined
          else if kind = JString ''value'' \<and> keys = [''kind'', ''value''] then canonicalize (property members ''value'')
          else None
      | _ \<Rightarrow> None)"

section \<open>The table of claims\<close>

datatype claim_state = Claim_running string int | Claim_completed string js_value

record claim_row =
  ac_activityType :: string
  ac_inputHash :: string
  ac_state :: claim_state

type_synonym claim_table = "string \<rightharpoonup> claim_row"

datatype claim_reply = Acquired | Claim_in_progress | Claim_conflict | Claim_replay string js_value

definition claimActivity :: "(js_value \<Rightarrow> js_value) \<Rightarrow> int \<Rightarrow> string \<Rightarrow> string \<Rightarrow> string \<Rightarrow> string \<Rightarrow> int \<Rightarrow> claim_table \<Rightarrow> claim_reply \<times> claim_table" where
  "claimActivity jsonb now key activityType inputHash owner leaseMs rows =
     (let mine = \<lparr>ac_activityType = activityType, ac_inputHash = inputHash, ac_state = Claim_running owner (now + leaseMs)\<rparr> in
      case rows key of
        None \<Rightarrow> (Acquired, rows(key \<mapsto> mine))
      | Some row \<Rightarrow>
          if ac_activityType row \<noteq> activityType \<or> ac_inputHash row \<noteq> inputHash then (Claim_conflict, rows)
          else (case ac_state row of
              Claim_completed resultHash result \<Rightarrow> (Claim_replay resultHash (jsonb result), rows)
            | Claim_running _ leaseExpiresAt \<Rightarrow>
                if \<not> leaseExpiresAt \<le> now then (Claim_in_progress, rows)
                else (Acquired, rows(key \<mapsto> row\<lparr>ac_state := Claim_running owner (now + leaseMs)\<rparr>))))"

definition holdsClaim :: "int \<Rightarrow> string \<Rightarrow> string \<Rightarrow> claim_table \<Rightarrow> bool" where
  "holdsClaim now key owner rows \<longleftrightarrow>
     (case rows key of
        Some row \<Rightarrow> (case ac_state row of Claim_running o' leaseExpiresAt \<Rightarrow> o' = owner \<and> leaseExpiresAt > now | _ \<Rightarrow> False)
      | None \<Rightarrow> False)"

definition renewClaim :: "int \<Rightarrow> string \<Rightarrow> string \<Rightarrow> int \<Rightarrow> claim_table \<Rightarrow> bool \<times> claim_table" where
  "renewClaim now key owner leaseMs rows =
     (if holdsClaim now key owner rows
      then (True, rows(key \<mapsto> (the (rows key))\<lparr>ac_state := Claim_running owner (now + leaseMs)\<rparr>))
      else (False, rows))"

definition completeClaim :: "int \<Rightarrow> string \<Rightarrow> string \<Rightarrow> string \<Rightarrow> js_value \<Rightarrow> claim_table \<Rightarrow> bool \<times> claim_table" where
  "completeClaim now key owner resultHash result rows =
     (if holdsClaim now key owner rows
      then (True, rows(key \<mapsto> (the (rows key))\<lparr>ac_state := Claim_completed resultHash result\<rparr>))
      else (False, rows))"

definition releaseClaim :: "string \<Rightarrow> string \<Rightarrow> claim_table \<Rightarrow> claim_table" where
  "releaseClaim key owner rows =
     (case rows key of
        Some row \<Rightarrow> (case ac_state row of Claim_running o' _ \<Rightarrow> if o' = owner then rows(key := None) else rows | _ \<Rightarrow> rows)
      | None \<Rightarrow> rows)"

section \<open>Keys\<close>

datatype activity_failure =
    Key_required | Activity_conflict | Activity_in_progress | Activity_corrupt | Lease_lost | Not_serializable | Activity_threw

definition READ_ONLY_ACTIVITY_TYPES :: "string list" where
  "READ_ONLY_ACTIVITY_TYPES = [''evaluateFeatureFlag'']"

definition stringsOf :: "js_value list \<Rightarrow> string list option" where
  "stringsOf vs = those (map asString vs)"

definition eventKeysOf :: "js_value \<Rightarrow> string list option" where
  "eventKeysOf events =
     (case events of
        JArray (v # vs) \<Rightarrow>
          those (map (\<lambda>e. case e of JObject members \<Rightarrow> asString (property members ''eventKey'') | _ \<Rightarrow> None) (v # vs))
      | _ \<Rightarrow> None)"

definition firstRunId :: "js_value \<Rightarrow> string option" where
  "firstRunId events =
     (case events of
        JArray (JObject members # _) \<Rightarrow>
          (case asString (property members ''runId'') of
             Some s \<Rightarrow> if s \<noteq> '''' \<and> length s \<le> 512 then Some s else None
           | None \<Rightarrow> None)
      | _ \<Rightarrow> None)"

definition verifyPhaseKey :: "js_value list \<Rightarrow> string option" where
  "verifyPhaseKey args =
     (case stringsOf args of
        Some [run, phase, commit] \<Rightarrow>
          if idSchema ''run'' run \<and> idSchema ''phase'' phase \<and> CommitShaSchema commit
          then Some (''verify-phase:'' @ run @ '':'' @ phase @ '':'' @ commit) else None
      | _ \<Rightarrow> None)"

definition directKey :: "js_value list \<Rightarrow> string option" where
  "directKey args =
     (case args of
        JObject members # _ \<Rightarrow>
          (case asString (property members ''idempotencyKey'') of
             Some key \<Rightarrow> if key \<noteq> '''' \<and> length key \<le> 512 then Some key else None
           | None \<Rightarrow> None)
      | _ \<Rightarrow> None)"

definition eventsKey :: "(string \<Rightarrow> string) \<Rightarrow> js_value list \<Rightarrow> string option" where
  "eventsKey sha args =
     (case args of
        JObject members # _ \<Rightarrow>
          (case (eventKeysOf (property members ''events''), firstRunId (property members ''events'')) of
             (Some keys, Some run) \<Rightarrow> Some (run @ '':events:'' @ sha (join [CHR 0x0A] keys))
           | _ \<Rightarrow> None)
      | _ \<Rightarrow> None)"

definition idempotencyKeyOf :: "(string \<Rightarrow> string) \<Rightarrow> string \<Rightarrow> js_value list \<Rightarrow> activity_failure + string" where
  "idempotencyKeyOf sha activityType args =
     (case (if activityType = ''verifyPhase'' then verifyPhaseKey args
            else case directKey args of
                   Some key \<Rightarrow> Some key
                 | None \<Rightarrow> if activityType = ''emitEvents'' then eventsKey sha args else None) of
        Some key \<Rightarrow> Inr key
      | None \<Rightarrow> Inl Key_required)"

section \<open>Attempts\<close>

datatype begun = Read_only | Started string string | Returned js_value | Failed activity_failure

definition replayResult :: "(string \<Rightarrow> string) \<Rightarrow> (js_value \<Rightarrow> string) \<Rightarrow> string \<Rightarrow> js_value \<Rightarrow> activity_failure + js_value" where
  "replayResult sha render resultHash result =
     (if hashValue sha render result \<noteq> Some resultHash then Inl Activity_corrupt
      else (case decodeResult result of Some v \<Rightarrow> Inr v | None \<Rightarrow> Inl Activity_corrupt))"

text \<open>Up to the call of the activity.\<close>

definition beginActivity ::
    "(js_value \<Rightarrow> js_value) \<Rightarrow> (string \<Rightarrow> string) \<Rightarrow> (js_value \<Rightarrow> string) \<Rightarrow> int \<Rightarrow> int \<Rightarrow> string \<Rightarrow> string \<Rightarrow> js_value list \<Rightarrow> claim_table \<Rightarrow> begun \<times> claim_table" where
  "beginActivity jsonb sha render leaseMs now owner activityType args rows =
     (if activityType \<in> set READ_ONLY_ACTIVITY_TYPES then (Read_only, rows)
      else (case (idempotencyKeyOf sha activityType args, hashActivityInput sha render activityType args) of
          (Inl e, _) \<Rightarrow> (Failed e, rows)
        | (Inr key, None) \<Rightarrow> (Failed Not_serializable, rows)
        | (Inr key, Some inputHash) \<Rightarrow>
            (case claimActivity jsonb now key activityType inputHash owner leaseMs rows of
               (Claim_conflict, rows') \<Rightarrow> (Failed Activity_conflict, rows')
             | (Claim_in_progress, rows') \<Rightarrow> (Failed Activity_in_progress, rows')
             | (Claim_replay resultHash result, rows') \<Rightarrow>
                 (case replayResult sha render resultHash result of Inr v \<Rightarrow> (Returned v, rows') | Inl e \<Rightarrow> (Failed e, rows'))
             | (Acquired, rows') \<Rightarrow> (Started key inputHash, rows'))))"

record activity_attempt =
  at_owner :: string
  at_key :: string
  at_renewalFailed :: bool

text \<open>
  From the return of the activity (\<open>None\<close> when it threw); a call of the store may fail.  What is
  thrown after the claim gives it back.
\<close>

definition finishActivity ::
    "(string \<Rightarrow> string) \<Rightarrow> (js_value \<Rightarrow> string) \<Rightarrow> fault \<Rightarrow> int \<Rightarrow> activity_attempt \<Rightarrow> js_value option \<Rightarrow> claim_table \<Rightarrow> (activity_failure + js_value) \<times> claim_table" where
  "finishActivity sha render f now a outcome rows =
     (let give = releaseClaim (at_key a) (at_owner a) in
      case outcome of
        None \<Rightarrow> (Inl Activity_threw, give rows)
      | Some v \<Rightarrow>
          (case encodeResult v of
             None \<Rightarrow> (Inl Not_serializable, give rows)
           | Some stored \<Rightarrow>
               if at_renewalFailed a then (Inl Lease_lost, give rows)
               else (case hashValue sha render stored of
                   None \<Rightarrow> (Inl Not_serializable, give rows)
                 | Some resultHash \<Rightarrow>
                     let (completed, rows') = completeClaim now (at_key a) (at_owner a) resultHash stored rows in
                     (case f of
                        Lost \<Rightarrow> (Inl Activity_threw, give rows)
                      | Unanswered \<Rightarrow> (Inl Activity_threw, give rows')
                      | Works \<Rightarrow>
                          if \<not> completed then (Inl Lease_lost, give rows')
                          else (case decodeResult stored of
                              Some w \<Rightarrow> (Inr w, rows')
                            | None \<Rightarrow> (Inl Not_serializable, give rows'))))))"

text \<open>The lease and the interval of its renewal; the interceptor refuses those that could let it lapse.\<close>

definition interceptorIntervals :: "int option \<Rightarrow> int option \<Rightarrow> (int \<times> int) option" where
  "interceptorIntervals lease renew =
     (let leaseMs = (case lease of None \<Rightarrow> 30000 | Some l \<Rightarrow> l); renewIntervalMs = (case renew of None \<Rightarrow> 10000 | Some r \<Rightarrow> r) in
      if leaseMs \<le> 0 \<or> renewIntervalMs \<le> 0 \<or> renewIntervalMs \<ge> leaseMs then None else Some (leaseMs, renewIntervalMs))"

section \<open>The workers\<close>

text \<open>\<open>answers\<close> are the values that were returned to the workflow under a key.\<close>

record workers =
  wk_rows :: claim_table
  wk_clock :: int
  attempts :: "activity_attempt list"
  answers :: "(string \<times> js_value) list"

inductive workerStep :: "(js_value \<Rightarrow> js_value) \<Rightarrow> (string \<Rightarrow> string) \<Rightarrow> (js_value \<Rightarrow> string) \<Rightarrow> int \<Rightarrow> workers \<Rightarrow> workers \<Rightarrow> bool"
  for jsonb sha render leaseMs where
  begin_activity: "beginActivity jsonb sha render leaseMs (wk_clock s) owner activityType args (wk_rows s) = (b, rows) \<Longrightarrow>
    idempotencyKeyOf sha activityType args = Inr key \<Longrightarrow>
    workerStep jsonb sha render leaseMs s
      (s\<lparr>wk_rows := rows,
         attempts := (case b of Started k ih \<Rightarrow> \<lparr>at_owner = owner, at_key = k, at_renewalFailed = False\<rparr> # attempts s | _ \<Rightarrow> attempts s),
         answers := (case b of Returned v \<Rightarrow> (key, v) # answers s | _ \<Rightarrow> answers s)\<rparr>)"
| renew_lease: "attempts s = xs @ a # ys \<Longrightarrow> renewClaim (wk_clock s) (at_key a) (at_owner a) leaseMs (wk_rows s) = (renewed, rows) \<Longrightarrow>
    workerStep jsonb sha render leaseMs s
      (s\<lparr>wk_rows := (if f = Lost then wk_rows s else rows),
         attempts := xs @ a\<lparr>at_renewalFailed := at_renewalFailed a \<or> f \<noteq> Works \<or> \<not> renewed\<rparr> # ys\<rparr>)"
| finish_activity: "attempts s = xs @ a # ys \<Longrightarrow> finishActivity sha render f (wk_clock s) a outcome (wk_rows s) = (r, rows) \<Longrightarrow>
    workerStep jsonb sha render leaseMs s
      (s\<lparr>wk_rows := rows, attempts := xs @ ys, answers := (case r of Inr v \<Rightarrow> (at_key a, v) # answers s | Inl _ \<Rightarrow> answers s)\<rparr>)"
| worker_dies: "attempts s = xs @ a # ys \<Longrightarrow> workerStep jsonb sha render leaseMs s (s\<lparr>attempts := xs @ ys\<rparr>)"
| time_passes: "0 < d \<Longrightarrow> workerStep jsonb sha render leaseMs s (s\<lparr>wk_clock := wk_clock s + d\<rparr>)"

section \<open>Canonical values are fixed\<close>

abbreviation memberLe :: "string \<times> 'a \<Rightarrow> string \<times> 'a \<Rightarrow> bool" where
  "memberLe x y \<equiv> codeUnitLe (fst x) (fst y)"

lemma insertBy_sorted: "sorted_wrt memberLe ys \<Longrightarrow> sorted_wrt memberLe (insertBy memberLe x ys)"
proof (induction ys)
  case (Cons y ys)
  then show ?case using codeUnitLe_total [of "fst x" "fst y"] codeUnitLe_trans [of "fst x" "fst y"] by auto
qed simp

lemma sortMembers_sorted: "sorted_wrt memberLe (sortMembers xs)"
  unfolding sortMembers_def by (induction xs) (simp_all add: insertBy_sorted)

lemma sortMembers_mset: "mset (sortMembers xs) = mset xs"
proof -
  have ins: "mset (insertBy le x ys) = add_mset x (mset ys)" for le and x :: "string \<times> 'a" and ys by (induction ys) auto
  show ?thesis unfolding sortMembers_def by (induction xs) (simp_all add: ins)
qed

lemma sortMembers_facts [simp]: "set (sortMembers xs) = set xs" "length (sortMembers xs) = length xs"
  using mset_eq_setD [OF sortMembers_mset] mset_eq_length [OF sortMembers_mset] by blast+

text \<open>Sorting is stable: it keeps the members of one name in their order, and is determined by them.\<close>

lemma sortMembers_stable: "filter (\<lambda>x. fst x = k) (sortMembers xs) = filter (\<lambda>x. fst x = k) xs"
proof -
  have ins: "filter (\<lambda>z. fst z = k) (insertBy memberLe x ys) = filter (\<lambda>z. fst z = k) (x # ys)" for x :: "string \<times> 'a" and ys
    using codeUnitLe_total by (induction ys) auto
  show ?thesis unfolding sortMembers_def by (induction xs) (simp_all add: ins)
qed

lemma sorted_unique:
  assumes "sorted_wrt memberLe xs" "sorted_wrt memberLe ys" "\<And>k. filter (\<lambda>x. fst x = k) xs = filter (\<lambda>x. fst x = k) ys"
  shows "xs = ys"
  using assms
proof (induction xs arbitrary: ys)
  case Nil
  show ?case using Nil(3) [of "fst (hd ys)"] by (cases ys) auto
next
  case (Cons x xs)
  have mem: "z \<in> set (x # xs) \<longleftrightarrow> z \<in> set ys" for z
    using arg_cong [OF Cons.prems(3) [of "fst z"], of "\<lambda>l. z \<in> set l"] by (simp only: set_filter mem_Collect_eq simp_thms)
  have "x \<in> set ys" by (rule iffD1 [OF mem]) simp
  then obtain y zs where ys: "ys = y # zs" by (cases ys) auto
  have "y \<in> set (x # xs)" by (rule iffD2 [OF mem]) (simp add: ys)
  then have "y = x \<or> memberLe x y" using Cons.prems(1) by auto
  moreover have "x = y \<or> memberLe y x" using Cons.prems(2) \<open>x \<in> set ys\<close> ys by auto
  ultimately have "fst x = fst y" using codeUnitLe_antisym by blast
  then have "x = y" using Cons.prems(3) [of "fst x"] ys by simp
  have "filter (\<lambda>z. fst z = k) xs = filter (\<lambda>z. fst z = k) zs" for k
    using Cons.prems(3) [of k] ys \<open>x = y\<close> by (cases "fst x = k") simp_all
  then have "xs = zs" using Cons.prems(1,2) ys by (intro Cons.IH) simp_all
  then show ?case using ys \<open>x = y\<close> by simp
qed

lemma fromEntries_stable: "filter (\<lambda>x. fst x = k) (fromEntries xs) = filter (\<lambda>x. fst x = k) xs"
proof -
  have narrow: "filter (\<lambda>x. fst x = k) zs = filter (\<lambda>x. fst x = k) (filter (\<lambda>x. (readDecimal \<circ> fst) x = readDecimal k) zs)"
    for zs :: "(string \<times> 'a) list" by (induction zs) auto
  have "filter (\<lambda>x. fst x = k) (sort_key (readDecimal \<circ> fst) ys) = filter (\<lambda>x. fst x = k) ys" for ys :: "(string \<times> 'a) list"
    by (subst (1 2) narrow) (simp only: sort_key_stable)
  then have "filter (\<lambda>x. fst x = k) (fromEntries xs) =
      filter (\<lambda>x. fst x = k) (filter (isIndex \<circ> fst) xs) @ filter (\<lambda>x. fst x = k) (filter (Not \<circ> isIndex \<circ> fst) xs)"
    by (simp add: fromEntries_def)
  also have "filter (\<lambda>x. fst x = k) (filter (isIndex \<circ> fst) xs) = (if isIndex k then filter (\<lambda>x. fst x = k) xs else [])"
    by (induction xs) auto
  also have "filter (\<lambda>x. fst x = k) (filter (Not \<circ> isIndex \<circ> fst) xs) = (if isIndex k then [] else filter (\<lambda>x. fst x = k) xs)"
    by (induction xs) auto
  finally show ?thesis by simp
qed

lemma fromEntries_set [simp]: "set (fromEntries xs) = set xs"
  by (auto simp: fromEntries_def)

lemma fromEntries_fixed: "fromEntries (sortMembers (fromEntries (sortMembers xs))) = fromEntries (sortMembers xs)"
  by (rule arg_cong [of _ _ fromEntries], rule sorted_unique)
     (simp_all add: sortMembers_sorted sortMembers_stable fromEntries_stable)

lemma those_Some: "those xs = Some ys \<longleftrightarrow> xs = map Some ys"
proof (induction xs arbitrary: ys)
  case (Cons x xs)
  then show ?case by (cases ys) (auto split: option.splits)
qed auto

lemma canonicalize_fixed: "canonicalize v = Some c \<Longrightarrow> canonicalize c = Some c"
proof (induction v arbitrary: c rule: canonicalize.induct)
  case (1 vs)
  then obtain cs where cs: "map canonicalize vs = map Some cs" "c = JArray cs" by (auto simp: those_Some)
  have "canonicalize d = Some d" if "d \<in> set cs" for d
  proof -
    from that cs(1) have "Some d \<in> set (map canonicalize vs)" by simp
    then show ?thesis using 1(1) by auto
  qed
  then show ?case by (simp add: cs(2) those_Some)
next
  case (2 members)
  let ?f = "\<lambda>(name, v). map_option (Pair name) (canonicalize v)"
  from 2(2) obtain ms where ms: "map ?f members = map Some ms" "c = JObject (fromEntries (sortMembers ms))" by (auto simp: those_Some)
  have "?f m = Some m" if "m \<in> set ms" for m
  proof -
    from that ms(1) have "Some m \<in> set (map ?f members)" by simp
    then obtain name v c' where "(name, v) \<in> set members" "canonicalize v = Some c'" "m = (name, c')"
      by (auto simp: eq_commute [of "Some m"])
    then show ?thesis using 2(1) by auto
  qed
  then have "map ?f (fromEntries (sortMembers ms)) = map Some (fromEntries (sortMembers ms))" by (intro map_cong) auto
  then have "those (map ?f (fromEntries (sortMembers ms))) = Some (fromEntries (sortMembers ms))" by (simp only: those_Some)
  then show ?case by (simp add: ms(2) fromEntries_fixed)
qed auto

text \<open>Values that differ at most in the order of the members of their objects.\<close>

inductive sameJson :: "js_value \<Rightarrow> js_value \<Rightarrow> bool" where
  same_leaf: "sameJson v v"
| same_array: "list_all2 sameJson vs ws \<Longrightarrow> sameJson (JArray vs) (JArray ws)"
| same_object: "list_all2 (\<lambda>x y. fst x = fst y \<and> sameJson (snd x) (snd y)) ms ns' \<Longrightarrow> mset ns' = mset ns \<Longrightarrow> distinct (map fst ms) \<Longrightarrow>
    sameJson (JObject ms) (JObject ns)"
  monos list_all2_mono

lemma those_perm:
  assumes "mset xs = mset ys" and "those xs = Some us"
  shows "\<exists>ws. those ys = Some ws \<and> mset us = mset ws"
proof -
  from assms(2) have us: "xs = map Some us" by (simp add: those_Some)
  have "set ys = Some ` set us" using mset_eq_setD [OF assms(1)] us by simp
  then have "ys = map Some (map the ys)" by (simp add: comp_def) (rule map_idI [symmetric], auto)
  moreover have "mset us = mset (map the ys)" using arg_cong [OF assms(1), of "image_mset the"] us by (simp add: comp_def multiset.map_comp)
  ultimately show ?thesis using those_Some by blast
qed

lemma canonicalize_same: "sameJson v w \<Longrightarrow> canonicalize v = canonicalize w"
proof (induction rule: sameJson.induct)
  case (same_array vs ws)
  then have "map canonicalize vs = map canonicalize ws" by (induction vs ws rule: list_all2_induct) auto
  then show ?case by simp
next
  case (same_object ms ns' ns)
  let ?f = "\<lambda>(name, v). map_option (Pair name) (canonicalize v)"
  from same_object(1) have eq: "map ?f ms = map ?f ns'" "map fst ms = map fst ns'"
    by (induction ms ns' rule: list_all2_induct) auto
  have perm: "mset (map ?f ns') = mset (map ?f ns)" using same_object(2) by simp
  have none: "those (map ?f ns') = None \<longleftrightarrow> those (map ?f ns) = None"
    using those_perm [OF perm] those_perm [OF perm [symmetric]] by (metis option.exhaust option.discI)
  have same: "sortMembers us = sortMembers ws" if us: "those (map ?f ns') = Some us" and ws: "those (map ?f ns) = Some ws" for us ws
  proof -
    have "mset us = mset ws" using those_perm [OF perm us] ws by auto
    moreover have "map fst us = map fst ns'"
      using us unfolding those_Some by (induction ns' arbitrary: us) (auto simp: Cons_eq_map_conv)
    ultimately show ?thesis using sort_members [of us ws] same_object(3) eq(2) by (simp add: sortMembers_def)
  qed
  have opt: "map_option (JObject \<circ> fromEntries \<circ> sortMembers) x = map_option (JObject \<circ> fromEntries \<circ> sortMembers) y"
    if "x = None \<longleftrightarrow> y = None" "\<And>us ws. x = Some us \<Longrightarrow> y = Some ws \<Longrightarrow> sortMembers us = sortMembers ws" for x y
  proof (cases x)
    case (Some us)
    with that(1) obtain ws where "y = Some ws" by blast
    then show ?thesis using that(2) [OF Some] Some by simp
  qed (use that(1) in simp)
  show ?case unfolding canonicalize.simps eq(1) by (rule opt [OF none same])
qed simp

lemma encode_facts:
  assumes "encodeResult v = Some stored"
  shows "canonicalize stored = Some stored" "\<exists>w. decodeResult stored = Some w"
  using assms canonicalize_fixed
  by (auto simp: encodeResult_def decodeResult_def sortMembers_def fromEntries_def isIndex_def is_digit_def Let_def property_def getOr_def
      split: if_splits)

inductive_cases sameJson_stringE: "sameJson (JString s) w"
inductive_cases sameJson_objectE: "sameJson (JObject ms) w"

lemma mset_two: "mset ns = mset [x, y] \<Longrightarrow> ns = [x, y] \<or> ns = [y, x]"
proof -
  assume a: "mset ns = mset [x, y]"
  then obtain p q where "ns = [p, q]" using mset_eq_length [OF a] by (auto simp: length_Suc_conv numeral_2_eq_2)
  with a show ?thesis by (auto simp: add_eq_conv_ex)
qed

lemma decode_value: "canonicalize c' = canonicalize c \<Longrightarrow>
  decodeResult (JObject [(''kind'', JString ''value''), (''value'', c')]) = canonicalize c \<and>
  decodeResult (JObject [(''value'', c'), (''kind'', JString ''value'')]) = canonicalize c"
  by (simp add: decodeResult_def sortMembers_def Let_def property_def getOr_def)

lemma decode_same:
  assumes "encodeResult v = Some stored" and "sameJson stored stored'"
  shows "decodeResult stored' = decodeResult stored"
proof (cases "v = JUndefined")
  case True
  with assms have "sameJson (JObject [(''kind'', JString ''void'')]) stored'" "stored = JObject [(''kind'', JString ''void'')]"
    by (simp_all add: encodeResult_def)
  then show ?thesis by (auto elim!: sameJson_objectE sameJson_stringE simp: list_all2_Cons1)
next
  case False
  with assms(1) obtain c where stored: "stored = JObject [(''kind'', JString ''value''), (''value'', c)]"
    by (auto simp: encodeResult_def split: if_splits)
  from assms(2) [unfolded stored] show ?thesis
  proof (cases rule: sameJson.cases)
    case (same_object ns' ns)
    then obtain c' where c': "ns' = [(''kind'', JString ''value''), (''value'', c')]" "sameJson c c'"
      by (auto simp: list_all2_Cons1 elim!: sameJson_stringE)
    then have "ns = [(''kind'', JString ''value''), (''value'', c')] \<or> ns = [(''value'', c'), (''kind'', JString ''value'')]"
      using same_object(3) mset_two [of ns] by auto
    then show ?thesis
      using same_object(1) decode_value [OF canonicalize_same [OF c'(2), symmetric]] decode_value [of c c] stored by auto
  qed (simp add: stored)
qed

section \<open>One result per key\<close>

text \<open>A result that was recorded is read back, and no operation of the table changes it.\<close>

definition recordedAs :: "(string \<Rightarrow> string) \<Rightarrow> (js_value \<Rightarrow> string) \<Rightarrow> claim_row \<Rightarrow> js_value \<Rightarrow> bool" where
  "recordedAs sha render row v \<longleftrightarrow>
     (\<exists>u stored resultHash. ac_state row = Claim_completed resultHash stored \<and> encodeResult u = Some stored \<and>
        hashValue sha render stored = Some resultHash \<and> decodeResult stored = Some v)"

definition soundRow :: "(string \<Rightarrow> string) \<Rightarrow> (js_value \<Rightarrow> string) \<Rightarrow> claim_row \<Rightarrow> bool" where
  "soundRow sha render row \<longleftrightarrow> (\<exists>owner lease. ac_state row = Claim_running owner lease) \<or> (\<exists>v. recordedAs sha render row v)"

definition soundTable :: "(string \<Rightarrow> string) \<Rightarrow> (js_value \<Rightarrow> string) \<Rightarrow> claim_table \<Rightarrow> bool" where
  "soundTable sha render rows \<longleftrightarrow> (\<forall>key row. rows key = Some row \<longrightarrow> soundRow sha render row)"

lemma soundTable_upd: "soundTable sha render rows \<Longrightarrow> soundRow sha render row \<Longrightarrow> soundTable sha render (rows(key \<mapsto> row))" "soundTable sha render rows \<Longrightarrow> soundTable sha render (rows(key := None))"
  by (auto simp: soundTable_def)

lemma soundRow_running: "ac_state row = Claim_running owner lease \<Longrightarrow> soundRow sha render row"
  by (simp add: soundRow_def)

text \<open>Every completed row of one table is the same in the other.\<close>

definition keepsResults :: "claim_table \<Rightarrow> claim_table \<Rightarrow> bool" where
  "keepsResults rows rows' \<longleftrightarrow>
     (\<forall>key row resultHash result. rows key = Some row \<and> ac_state row = Claim_completed resultHash result \<longrightarrow> rows' key = Some row)"

lemma keepsResults_refl [simp]: "keepsResults rows rows"
  by (simp add: keepsResults_def)

lemma release_keeps: "keepsResults rows (releaseClaim key owner rows)" "soundTable sha render rows \<Longrightarrow> soundTable sha render (releaseClaim key owner rows)"
  by (auto simp: keepsResults_def releaseClaim_def soundTable_upd split: option.splits claim_state.splits)

lemma holdsClaim_row: "holdsClaim now key owner rows \<Longrightarrow> \<exists>row lease. rows key = Some row \<and> ac_state row = Claim_running owner lease"
  by (auto simp: holdsClaim_def split: option.splits claim_state.splits)

lemma renew_keeps:
  assumes "renewClaim now key owner leaseMs rows = (r, rows')"
  shows "keepsResults rows rows'" "soundTable sha render rows \<Longrightarrow> soundTable sha render rows'"
  using assms holdsClaim_row [of now key owner rows] by (auto simp: renewClaim_def keepsResults_def soundTable_upd soundRow_running split: if_splits)

lemma replay_recorded:
  assumes "recordedAs sha render row v" and "ac_state row = Claim_completed resultHash result" and "sameJson result result'"
  shows "replayResult sha render resultHash result' = Inr v"
  using assms decode_same canonicalize_same [OF assms(3)] by (auto simp: recordedAs_def replayResult_def hashValue_def)

lemma claim_keeps:
  assumes "claimActivity jsonb now key activityType inputHash owner leaseMs rows = (r, rows')"
  shows "keepsResults rows rows'" "soundTable sha render rows \<Longrightarrow> soundTable sha render rows'"
  using assms by (auto simp: claimActivity_def Let_def keepsResults_def soundTable_upd soundRow_running split: option.splits if_splits claim_state.splits)

lemma begin_keeps:
  assumes "beginActivity jsonb sha render leaseMs now owner activityType args rows = (b, rows')"
  shows "keepsResults rows rows'" "soundTable sha render rows \<Longrightarrow> soundTable sha render rows'"
  using assms claim_keeps [of jsonb now _ activityType _ owner leaseMs rows]
  by (auto simp: beginActivity_def split: if_splits sum.splits option.splits prod.splits claim_reply.splits)

lemma finish_keeps:
  assumes "finishActivity sha render f now a outcome rows = (r, rows')" and "soundTable sha render rows"
  shows "keepsResults rows rows' \<and> soundTable sha render rows' \<and>
    (\<forall>v. r = Inr v \<longrightarrow> (\<exists>row. rows' (at_key a) = Some row \<and> recordedAs sha render row v))"
proof -
  let ?give = "releaseClaim (at_key a) (at_owner a)"
  have done1: "keepsResults rows (?give rows) \<and> soundTable sha render (?give rows)" using release_keeps assms(2) by blast
  have stored: "keepsResults rows rows1 \<and> soundTable sha render rows1 \<and> keepsResults rows (?give rows1) \<and> soundTable sha render (?give rows1) \<and>
      (ok \<longrightarrow> (\<exists>row. rows1 (at_key a) = Some row \<and> ac_state row = Claim_completed resultHash stored)) \<and> (\<exists>u. encodeResult u = Some stored)"
    if "encodeResult v = Some stored" "hashValue sha render stored = Some resultHash"
      "completeClaim now (at_key a) (at_owner a) resultHash stored rows = (ok, rows1)" for v stored resultHash ok rows1
  proof -
    from encode_facts(2) [OF that(1)] obtain w where w: "decodeResult stored = Some w" by blast
    have row: "soundRow sha render (row\<lparr>ac_state := Claim_completed resultHash stored\<rparr>)" for row
      using that(1,2) w by (auto simp: soundRow_def recordedAs_def)
    have *: "keepsResults rows rows1 \<and> soundTable sha render rows1 \<and> (ok \<longrightarrow> (\<exists>row. rows1 (at_key a) = Some row \<and> ac_state row = Claim_completed resultHash stored))"
      using that(3) holdsClaim_row [of now "at_key a" "at_owner a" rows] soundTable_upd(1) [OF assms(2) row] assms(2)
      by (auto simp: completeClaim_def keepsResults_def split: if_splits)
    then have "keepsResults rows (?give rows1)"
      using release_keeps(1) [of rows1] unfolding keepsResults_def by blast
    with * release_keeps(2) that(1) show ?thesis by blast
  qed
  show ?thesis
  proof (cases "\<exists>v stored resultHash. outcome = Some v \<and> encodeResult v = Some stored \<and> \<not> at_renewalFailed a \<and> hashValue sha render stored = Some resultHash")
    case True
    then obtain v e resultHash where e: "outcome = Some v" "encodeResult v = Some e" "\<not> at_renewalFailed a" "hashValue sha render e = Some resultHash"
      by blast
    obtain ok rows1 where c: "completeClaim now (at_key a) (at_owner a) resultHash e rows = (ok, rows1)" by fastforce
    obtain w where "decodeResult e = Some w" using encode_facts(2) [OF e(2)] by blast
    then show ?thesis
      using assms(1) done1 stored [OF e(2,4) c] e c
      by (cases f; cases ok) (auto simp: finishActivity_def Let_def recordedAs_def)
  next
    case False
    then show ?thesis
      using assms(1) done1 by (auto simp: finishActivity_def Let_def split: option.splits if_splits)
  qed
qed

lemma recordedAs_unique: "recordedAs sha render row v \<Longrightarrow> recordedAs sha render row w \<Longrightarrow> v = w"
  by (auto simp: recordedAs_def)

lemma recordedAs_kept: "keepsResults rows rows' \<Longrightarrow> rows key = Some row \<Longrightarrow> recordedAs sha render row v \<Longrightarrow> rows' key = Some row"
  by (auto simp: recordedAs_def keepsResults_def)

lemma begin_returned:
  assumes "beginActivity jsonb sha render leaseMs now owner activityType args rows = (Returned v, rows')" and "soundTable sha render rows"
    and "idempotencyKeyOf sha activityType args = Inr key" and "\<And>v. sameJson v (jsonb v)"
  shows "rows' = rows \<and> (\<exists>row. rows key = Some row \<and> recordedAs sha render row v)"
proof -
  obtain row resultHash result where row: "rows key = Some row" "ac_state row = Claim_completed resultHash result"
      "replayResult sha render resultHash (jsonb result) = Inr v" "rows' = rows"
    using assms(1,3) by (auto simp: beginActivity_def claimActivity_def Let_def split: if_splits option.splits claim_state.splits sum.splits)
  then have "soundRow sha render row" using assms(2) by (simp add: soundTable_def)
  with row(2) obtain w where w: "recordedAs sha render row w" by (auto simp: soundRow_def)
  have "replayResult sha render resultHash (jsonb result) = Inr w" by (rule replay_recorded [OF w row(2) assms(4)])
  then show ?thesis using row w by auto
qed

definition answersRecorded :: "(string \<Rightarrow> string) \<Rightarrow> (js_value \<Rightarrow> string) \<Rightarrow> workers \<Rightarrow> bool" where
  "answersRecorded sha render s \<longleftrightarrow>
     soundTable sha render (wk_rows s) \<and>
     (\<forall>(key, v) \<in> set (answers s). \<exists>row. wk_rows s key = Some row \<and> recordedAs sha render row v)"

lemma answersRecorded_later:
  assumes "answersRecorded sha render s" and "keepsResults (wk_rows s) (wk_rows s')" and "soundTable sha render (wk_rows s')"
    and "set (answers s') \<subseteq> set new \<union> set (answers s)"
    and "\<And>key v. (key, v) \<in> set new \<Longrightarrow> \<exists>row. wk_rows s' key = Some row \<and> recordedAs sha render row v"
  shows "answersRecorded sha render s'"
proof -
  have "\<exists>row. wk_rows s' key = Some row \<and> recordedAs sha render row v" if "(key, v) \<in> set (answers s)" for key v
  proof -
    from that assms(1) obtain row where "wk_rows s key = Some row" "recordedAs sha render row v" by (auto simp: answersRecorded_def)
    then show ?thesis using recordedAs_kept [OF assms(2)] by blast
  qed
  then show ?thesis using assms(3-5) by (fastforce simp: answersRecorded_def)
qed

lemma answersRecorded_step:
  assumes "workerStep jsonb sha render leaseMs s s'" and "answersRecorded sha render s" and jsonb: "\<And>v. sameJson v (jsonb v)"
  shows "answersRecorded sha render s'"
proof -
  have soundTable: "soundTable sha render (wk_rows s)" using assms(2) by (simp add: answersRecorded_def)
  from assms(1) show ?thesis
  proof (cases rule: workerStep.cases)
    case (begin_activity owner activityType args b rows key)
    have keeps: "keepsResults (wk_rows s) rows" "soundTable sha render rows" using begin_keeps [OF begin_activity(2)] soundTable by blast+
    have "\<exists>row. rows k = Some row \<and> recordedAs sha render row v" if "b = Returned v" "k = key" for k v
      using begin_returned [OF begin_activity(2) [unfolded that(1)] soundTable begin_activity(3) jsonb] that(2) by blast
    then show ?thesis
      using keeps unfolding begin_activity(1)
      by (intro answersRecorded_later [OF assms(2), where new = "case b of Returned v \<Rightarrow> [(key, v)] | _ \<Rightarrow> []"]) (auto split: begun.splits)
  next
    case (renew_lease xs a ys renewed rows f)
    show ?thesis
      using renew_keeps [OF renew_lease(3)] soundTable unfolding renew_lease(1)
      by (intro answersRecorded_later [OF assms(2), where new = "[]"]) auto
  next
    case (finish_activity xs a ys f outcome r rows)
    show ?thesis
      using finish_keeps [OF finish_activity(3) soundTable] unfolding finish_activity(1)
      by (intro answersRecorded_later [OF assms(2), where new = "case r of Inr v \<Rightarrow> [(at_key a, v)] | Inl _ \<Rightarrow> []"]) (auto split: sum.splits)
  next
    case (worker_dies xs a ys)
    then show ?thesis using assms(2) by (simp add: answersRecorded_def)
  next
    case (time_passes d)
    then show ?thesis using assms(2) by (simp add: answersRecorded_def)
  qed
qed

text \<open>
  C40. An activity has one result per key: whatever workers claim, renew, die and finish, and
  whichever calls of the store fail, all values returned under a key are the same; once one has been
  returned, every later attempt with that key returns it without running the activity, or is refused
  as a different activity or input, and nothing that was recorded is lost.
\<close>

theorem one_result_per_key:
  assumes "\<And>v. sameJson v (jsonb v)"
    and "(workerStep jsonb sha render leaseMs)\<^sup>*\<^sup>* \<lparr>wk_rows = Map.empty, wk_clock = now, attempts = [], answers = []\<rparr> s"
    and "(key, v) \<in> set (answers s)"
  shows "(\<forall>w. (key, w) \<in> set (answers s) \<longrightarrow> w = v) \<and>
    (\<forall>owner activityType args. activityType \<notin> set READ_ONLY_ACTIVITY_TYPES \<and> idempotencyKeyOf sha activityType args = Inr key \<longrightarrow>
       beginActivity jsonb sha render leaseMs (wk_clock s) owner activityType args (wk_rows s) \<in>
         {(Returned v, wk_rows s), (Failed Activity_conflict, wk_rows s), (Failed Not_serializable, wk_rows s)})"
proof -
  have recorded: "answersRecorded sha render s"
    using assms(2)
  proof (induction rule: rtranclp_induct)
    case base
    show ?case by (simp add: answersRecorded_def soundTable_def)
  next
    case (step t u)
    then show ?case using answersRecorded_step assms(1) by blast
  qed
  then obtain row where row: "wk_rows s key = Some row" "recordedAs sha render row v"
    using assms(3) by (auto simp: answersRecorded_def)
  have all: "recordedAs sha render row w" if "(key, w) \<in> set (answers s)" for w
    using recorded that row(1) by (auto simp: answersRecorded_def)
  from row(2) obtain resultHash result where st: "ac_state row = Claim_completed resultHash result" by (auto simp: recordedAs_def)
  have "beginActivity jsonb sha render leaseMs (wk_clock s) owner activityType args (wk_rows s) \<in>
         {(Returned v, wk_rows s), (Failed Activity_conflict, wk_rows s), (Failed Not_serializable, wk_rows s)}"
    if "activityType \<notin> set READ_ONLY_ACTIVITY_TYPES" "idempotencyKeyOf sha activityType args = Inr key" for owner activityType args
    using that row(1) st replay_recorded [OF row(2) st assms(1)]
    by (auto simp: beginActivity_def claimActivity_def Let_def split: option.splits)
  then show ?thesis using recordedAs_unique [OF row(2) all] by blast
qed

section \<open>Examples\<close>

text \<open>A database that gives the members of an object back in another order.\<close>

definition reordered :: "js_value \<Rightarrow> js_value" where
  "reordered v = (case v of JObject ms \<Rightarrow> if distinct (map fst ms) then JObject (rev ms) else v | _ \<Rightarrow> v)"

lemma reordered_same: "sameJson v (reordered v)"
proof (cases "\<exists>ms. v = JObject ms \<and> distinct (map fst ms)")
  case True
  then obtain ms where ms: "v = JObject ms" "distinct (map fst ms)" by blast
  have "list_all2 (\<lambda>x y. fst x = fst y \<and> sameJson (snd x) (snd y)) ms ms" by (simp add: list_all2_same same_leaf)
  then have "sameJson (JObject ms) (JObject (rev ms))" by (rule same_object) (simp_all add: ms(2))
  then show ?thesis using ms by (simp add: reordered_def)
next
  case False
  then have "reordered v = v" by (auto simp: reordered_def split: js_value.splits)
  then show ?thesis by (simp add: same_leaf)
qed

definition sample_args :: "js_value list" where
  "sample_args = [JObject [(''idempotencyKey'', JString ''usage-1'')]]"

lemma sample_begin_key: "idempotencyKeyOf id ''recordUsage'' sample_args = Inr ''usage-1''"
  by (simp add: idempotencyKeyOf_def directKey_def sample_args_def property_def getOr_def)

lemma sample_worked:
  "\<exists>s. (workerStep reordered id (\<lambda>_. '''') 30000)\<^sup>*\<^sup>* \<lparr>wk_rows = Map.empty, wk_clock = 0, attempts = [], answers = []\<rparr> s \<and>
     (''usage-1'', JNum 7) \<in> set (answers s) \<and>
     wk_rows s = [''usage-1'' \<mapsto> \<lparr>ac_activityType = ''recordUsage'', ac_inputHash = '''',
       ac_state = Claim_completed '''' (JObject [(''kind'', JString ''value''), (''value'', JNum 7)])\<rparr>]"
proof -
  let ?step = "workerStep reordered id (\<lambda>_. '''') 30000"
  let ?start = "\<lparr>wk_rows = Map.empty, wk_clock = 0, attempts = [], answers = []\<rparr>"
  let ?row = "\<lambda>st. [''usage-1'' \<mapsto> \<lparr>ac_activityType = ''recordUsage'', ac_inputHash = '''', ac_state = st\<rparr>]"
  let ?a = "\<lparr>at_owner = ''a'', at_key = ''usage-1'', at_renewalFailed = False\<rparr>"
  let ?stored = "JObject [(''kind'', JString ''value''), (''value'', JNum 7)]"
  let ?mid = "\<lparr>wk_rows = ?row (Claim_running ''a'' 30000), wk_clock = 0, attempts = [?a], answers = []\<rparr>"
  let ?final = "\<lparr>wk_rows = ?row (Claim_completed '''' ?stored), wk_clock = 0, attempts = [], answers = [(''usage-1'', JNum 7)]\<rparr>"
  have input: "hashActivityInput id (\<lambda>_. '''') ''recordUsage'' sample_args = Some ''''"
    by (simp add: hashActivityInput_def hashValue_def sample_args_def)
  have "?step ?start ?mid"
    using begin_activity [of reordered id "\<lambda>_. ''''" 30000 ?start "''a''" "''recordUsage''" sample_args _ _ "''usage-1''"]
    by (simp add: beginActivity_def sample_begin_key input READ_ONLY_ACTIVITY_TYPES_def claimActivity_def)
  moreover have "?step ?mid ?final"
    using finish_activity [of ?mid "[]" ?a "[]" id "\<lambda>_. ''''" Works "Some (JNum 7)" _ _ reordered 30000]
    by (simp add: finishActivity_def encodeResult_def hashValue_def completeClaim_def holdsClaim_def decodeResult_def sortMembers_def property_def getOr_def)
  ultimately have "?step\<^sup>*\<^sup>* ?start ?final" by (meson r_into_rtranclp rtranclp.rtrancl_into_rtrancl)
  then show ?thesis by (intro exI [of _ ?final] conjI) simp_all
qed

theorem one_result_per_key_witness:
  "\<exists>s. (workerStep reordered id (\<lambda>_. '''') 30000)\<^sup>*\<^sup>* \<lparr>wk_rows = Map.empty, wk_clock = 0, attempts = [], answers = []\<rparr> s \<and>
     (\<forall>w. (''usage-1'', w) \<in> set (answers s) \<longrightarrow> w = JNum 7) \<and>
     beginActivity reordered id (\<lambda>_. '''') 30000 (wk_clock s) ''b'' ''recordUsage'' sample_args (wk_rows s) = (Returned (JNum 7), wk_rows s)"
proof -
  obtain s where reach: "(workerStep reordered id (\<lambda>_. '''') 30000)\<^sup>*\<^sup>* \<lparr>wk_rows = Map.empty, wk_clock = 0, attempts = [], answers = []\<rparr> s"
    and answer: "(''usage-1'', JNum 7) \<in> set (answers s)"
    and rows: "wk_rows s = [''usage-1'' \<mapsto> \<lparr>ac_activityType = ''recordUsage'', ac_inputHash = '''',
       ac_state = Claim_completed '''' (JObject [(''kind'', JString ''value''), (''value'', JNum 7)])\<rparr>]"
    using sample_worked by (elim exE conjE)
  have input: "hashActivityInput id (\<lambda>_. '''') ''recordUsage'' sample_args = Some ''''"
    by (simp add: hashActivityInput_def hashValue_def sample_args_def)
  note once = one_result_per_key [OF reordered_same reach answer]
  have "fst (beginActivity reordered id (\<lambda>_. '''') 30000 (wk_clock s) ''b'' ''recordUsage'' sample_args (wk_rows s)) \<noteq> Failed Activity_conflict"
    "fst (beginActivity reordered id (\<lambda>_. '''') 30000 (wk_clock s) ''b'' ''recordUsage'' sample_args (wk_rows s)) \<noteq> Failed Not_serializable"
    by (simp_all add: beginActivity_def sample_begin_key input READ_ONLY_ACTIVITY_TYPES_def claimActivity_def rows replayResult_def split: option.splits)
  moreover have "''recordUsage'' \<notin> set READ_ONLY_ACTIVITY_TYPES" by (simp add: READ_ONLY_ACTIVITY_TYPES_def)
  ultimately have "beginActivity reordered id (\<lambda>_. '''') 30000 (wk_clock s) ''b'' ''recordUsage'' sample_args (wk_rows s) = (Returned (JNum 7), wk_rows s)"
    using once sample_begin_key by (metis (no_types, lifting) fst_conv insertE singletonD)
  then show ?thesis using reach once by blast
qed

end
