(* ===== verification/Spec2Isabelle.thy ===== *)
theory Spec2Isabelle
  imports Planning Plan_Diff Interview Agent_Guards Tool_Policy Verifier Repair_Loop Governor Preview_Tokens Routing
    Workspace_Reaper Deploy_Workflow Release_Lifecycle Deployment_Types Activity_Fence
begin

text \<open>
  A verification library for Zapp, a platform on which agents build, verify and release web
  applications.  It models the parts of the repository that decide: what is planned, what an
  agent may do, whether work is accepted, how a failure is repaired, how sandboxes are
  admitted, provisioned and reclaimed, which credentials a preview gets, how model calls are
  routed, how a release is approved, deployed and rolled back, and how requests and activities that
  are repeated take effect once.

  \<^bold>\<open>How the parts interact.\<close>  The specification engine interviews the user until a
  specification is executable.  The planning engine validates a plan, schedules its tasks and
  applies diffs to it.  While an agent works, the agent policies judge each tool call, fence
  untrusted text and keep the run's credit budget.  The verification engine resolves which gates
  a project needs, records which acceptance criterion which test covers and decides; a failed
  gate is classified and goes through the bounded repair loop.  Agents and previews run in
  sandboxes, which the governor of the sandbox service admits against the capacity repository and
  reclaims at their deadlines; the workspace manager provisions them at a provider and reconciles
  its records with it, and the reaper destroys the ones that nobody uses; a preview is shared
  through derived credentials.  Model calls go through the routing of the model gateway.  Verified
  work becomes a release candidate of the release service, whose readiness is evaluated, which is
  approved, deployed by a workflow of eight stages, and rolled back to an earlier deployment.  The
  control API replays the response of a request that a client repeats, and the orchestrator the
  result of an activity that is delivered again.

  \<^bold>\<open>Theories and sources\<close> (paths below \<open>src/\<close>).

  \<^item> \<open>Prelude\<close>: computations that throw (a sum, \<open>Inl\<close> for the error), sets built from arrays, string
    functions, dependency order, and the locale \<open>schema\<close>: what a schema has produced it accepts
    again unchanged.  The locale is interpreted on the schemas of the planning engine and of the
    interview.
  \<^item> \<open>Js_Value\<close>, \<open>Regex\<close>, \<open>Identifiers\<close>: untyped values that reach a schema, the JavaScript regular
    expressions the sources use (a matcher and the specification it is proved equal to), and
    entity identifiers (\<open>packages/contracts/src/id-schema.ts\<close>).
  \<^item> \<open>Planning\<close>: \<open>packages/planning-engine/src/schema.ts\<close> and \<open>graph.ts\<close>.  Plans, the schema with its
    cycle search, the task graph and the choice of ready tasks.  Shown: the search finds a cycle
    exactly when there is one; the schema accepts exactly the consistent plans; ready tasks respect
    dependencies and the single writer of a branch; an accepted plan never gets stuck.
  \<^item> \<open>Plan_Diff\<close>: \<open>packages/planning-engine/src/diff.ts\<close>.  Shown: what a diff does to a plan, what an
    immaterial diff can change, and that the closure of dependents is reachability.
  \<^item> \<open>Interview\<close>: \<open>packages/specification-engine/src/interview.ts\<close>.  Shown: answers keep the state
    valid, the question asked is the most consequential one, and the interview ends.
  \<^item> \<open>Agent_Guards\<close>, \<open>Tool_Policy\<close>: \<open>packages/agent-policies/src\<close> and \<open>packages/contracts/src/tools.ts\<close>.
    Shown: the exact condition under which a tool call runs without approval, that malformed or
    untrusted calls fail closed, that fenced text cannot leave its fence, and that the credit
    budget is exact.
  \<^item> \<open>Gate_Policy\<close>, \<open>Criteria\<close>, \<open>Verifier\<close>: \<open>packages/verification-engine/src/policy-matrix.ts\<close>,
    \<open>gates/registry.ts\<close>, \<open>criteria.ts\<close> and \<open>verifier/decision.ts\<close>.  The gate registry is used
    through the locale \<open>registry\<close>.  Shown: which gates are required and waived, the traceability of
    criteria, and that an approval means that every strict gate has passed.
  \<^item> \<open>Failure_Class\<close>, \<open>Repair_Loop\<close>: \<open>packages/verification-engine/src/repair/classify.ts\<close> and \<open>loop.ts\<close>.
    The loop is a computation over the history of its port calls.  Shown: only structural
    evidence makes a failure retryable; the loop refines an automaton of its calls, stays
    within its budgets, submits a chain of new commits, and never fails on its own account.
  \<^item> \<open>Capacity\<close>, \<open>Governor\<close>: \<open>services/sandbox-service/src/state/capacity.ts\<close> and
    \<open>lifecycle/governor.ts\<close> on the table of \<open>packages/db/src/schema/execution.ts\<close>.  Replicas are
    sequences of atomic operations (\<open>capacity_step\<close>, \<open>governor_step\<close>).  The governor drains an
    organization through the locale \<open>tenant_slots\<close>, interpreted on the table.  Shown: limits hold
    over every interleaving, decisions replay, leases fence, terminating an organization drains
    it and no other, and an undisturbed sweep frees what is due.
  \<^item> \<open>Preview_Tokens\<close>: \<open>services/sandbox-service/src/preview/tokens.ts\<close>.  Shown: the encoder with its
    32-bit buffer reads back, all derivations are total and well typed, created secrets verify,
    and signed messages are unambiguous.
  \<^item> \<open>Routing\<close>: \<open>services/model-gateway/src/routing.ts\<close> and \<open>models.ts\<close>.  Shown: the stream
    semaphore refines a queue, the nested retry loops are a plain loop over the route, and a stream
    stays within the route reserved for it.

  \<^item> \<open>Ports\<close>: computations that await calls of injected dependencies.  The dependencies are one
    parameter, from the history of the calls with their replies to the next reply; shown are the
    rules by which the components are verified: triples, scripts (which calls in which order) and
    traces (what a computation adds to the history).
  \<^item> \<open>Workspace_Manager\<close>, \<open>Workspace_Reaper\<close>: \<open>services/sandbox-service/src/lifecycle/manager.ts\<close> and
    \<open>reaper.ts\<close>.  Shown: provisioning ends after at most three attempts, with a running workspace or
    a failure on record; reconciliation is exact; a sweep moves workspaces along their lifecycle
    only, and one that is interrupted is finished by later sweeps.
  \<^item> \<open>Readiness\<close>: \<open>services/release-service/src/release/readiness.ts\<close>.  Shown: the evaluation is
    blocked unless the release is cleared, and ready exactly when nothing is left to review.
  \<^item> \<open>Release_Records\<close>: \<open>release/create.ts\<close> there: the tables of releases, operations and audits, the
    directory reads, and the service beside other replicas (\<open>release_step\<close>).  Shown: identities and
    the order of states under every interleaving, transitions exactly once per operation key, and
    that approvals and candidates are what the directory and Git confirm.
  \<^item> \<open>Release_Lifecycle\<close>: \<open>lifecycle.ts\<close> and the readiness evaluation of \<open>compose.ts\<close>.  Shown: what
    reaches the deployment port is approved and cleared, and what an evaluation leaves on record;
    an evaluation interrupted between its two transitions leaves a release that cannot be approved.
  \<^item> \<open>Deploy_Workflow\<close>: \<open>workflows/deploy.ts\<close>.  Shown: the workflow refines the list of its stages, applies
    migrations only right after the plan was confirmed, and ends healthy or marked as failed.
  \<^item> \<open>Rollback\<close>: \<open>rollback/service.ts\<close>.  The history of the calls is read as what they establish of
    an environment (\<open>standing\<close>).  Shown: what has been confirmed and recorded when a rollback
    returns; where every error, also one of the store, leaves configuration, provider, database and
    record; that a completed rollback is not carried out again; and that the preview agrees with the
    guard.  Recovery does not undo a compensating plan, and a store that does not record a healthy
    deployment leaves the target in place.
  \<^item> \<open>Deployment_Types\<close>: \<open>release/types.ts\<close>.  Shown: the latest deployment of the environment decides the
    type, and exactly which summaries are returned.
  \<^item> \<open>Idempotency\<close>: \<open>services/control-api/src/plugins/idempotency.ts\<close>.  The hooks rely on a store
    through the locale \<open>replay_store\<close>, interpreted on the store in memory and, for every instant at
    which Redis drops an expired key, on the scripts for Redis.  Shown on a server of concurrent
    requests: one handler per key, and replay or refusal for a day, as long as handlers answer
    within their reservation (a slower one breaks this); keys of known callers are separate (those
    of callers known by their address are not); the order of members does not matter.
  \<^item> \<open>Activity_Fence\<close>: \<open>services/orchestrator-worker/src/activities/idempotency.ts\<close> and
    \<open>packages/db/src/activity-idempotency.ts\<close>.  Shown on concurrent workers: one result per key.

  \<^bold>\<open>Parameters.\<close>  Code outside the repository is an argument of the definitions that use it:
  SHA-256, HMAC and Argon2, the clocks and random identifiers, PostgreSQL's foreign keys and
  row locks, the ports of the repair loop, the model providers, the sandbox provider and its
  actions, Git, the activities of the deployment workflow, the dependencies of the lifecycle and of
  the rollback, the expiry of Redis, the order in which PostgreSQL returns the members of a JSON
  value, and the behaviour of other replicas.  Where a theorem needs something of them (a digest of 64
  hexadecimal digits, a MAC of 32 bytes, that Argon2 accepts what it has hashed) it is a
  hypothesis of the theorem, and its witness instantiates the parameter.

  \<^bold>\<open>Recursion, bounds and fuel.\<close>  Every function is total.  Loops over lists are structural;
  loops with a counter take the number of rounds left, which the code bounds as well (two repairs,
  three transient retries, three attempts per model or workspace, the sweep limit), so that no fuel is made up.
  The search for a cycle and the closure of dependents recur on what is not yet visited; their
  termination proofs count the tasks left.  Strings are lists of characters below 256 and lengths count those.  The bit
  buffer of the locator encoder is a 32-bit word.

  \<^bold>\<open>Not modelled.\<close>  User interfaces and the vendored desktop application; generated clients; HTTP
  routes, database access and adapters of third-party services, whose behaviour is that of code
  outside the repository; the run workflows of the orchestrator; the gate runners, which parse the
  output of tools; timers (\<open>start\<close> and \<open>stop\<close> of the governor and the reaper, the sharing of one
  running sweep), telemetry, jitter, consumers that leave a stream early, and the retries of
  Temporal around an activity.  Of the release service the provider adapters, custom domains,
  synthetic checks, production history and the evidence manifest are left out.

  \<^bold>\<open>Further work.\<close>  Usage reservation and service tokens of the model gateway, the tenant-scoped
  queries and the rate limit of the control API, the synthetic checks of the release service, and
  the run workflows of the orchestrator.
\<close>

end
